(* ===== verification/Prelude.thy ===== *)
theory Prelude
  imports Main "HOL-Library.Word" "HOL-Library.Multiset"
begin

text \<open>
  Shared vocabulary of the development: the Go types the client uses, the theorem
  collections the component theories fill, and generic facts about byte strings,
  association lists and updated lists.

  A Go \<open>string\<close> or \<open>[]byte\<close> is a list of 8-bit characters (\<open>string\<close> of HOL), so
  \<open>len\<close> is \<open>length\<close> and counts bytes.  Fixed-width integers are words.  Go's \<open>int\<close>,
  used for sizes and counters the code itself bounds, is \<open>int\<close> or \<open>nat\<close>.
\<close>

type_synonym bytes = string
type_synonym i64 = "64 word"
type_synonym u64 = "64 word"
type_synonym u32 = "32 word"

text \<open>
  \<open>append_eq\<close> collects equations that bring an appending routine into the form
  \<open>buffer @ element\<close>; \<open>no_nl\<close> collects the facts that a produced byte string holds no
  line feed; \<open>keeps\<close> collects preservation of invariants by operations.
\<close>

named_theorems append_eq
named_theorems no_nl
named_theorems keeps

section \<open>Bytes and lines\<close>

abbreviation nl :: char where "nl \<equiv> CHR 0x0A"

definition no_newline :: "bytes \<Rightarrow> bool" where
  "no_newline s \<longleftrightarrow> nl \<notin> set s"

lemma no_newline_Nil [no_nl, simp]: "no_newline []"
  by (simp add: no_newline_def)

lemma no_newline_Cons [simp]: "no_newline (c # s) \<longleftrightarrow> c \<noteq> nl \<and> no_newline s"
  by (auto simp: no_newline_def)

lemma no_newline_append [simp]: "no_newline (s @ t) \<longleftrightarrow> no_newline s \<and> no_newline t"
  by (auto simp: no_newline_def)

lemma no_newline_filter [no_nl, simp]: "no_newline (filter (\<lambda>b. b \<noteq> nl) s)"
  by (auto simp: no_newline_def)

lemma count_nl_no_newline: "no_newline s \<Longrightarrow> count_list s nl = 0"
  by (simp add: no_newline_def)

lemma filter_id_iff_no_newline: "no_newline s \<Longrightarrow> filter (\<lambda>b. b \<noteq> nl) s = s"
  by (induction s) auto

text \<open>
  The lines of a payload: maximal runs terminated by a line feed.  A payload is
  \<^emph>\<open>framed\<close> as \<open>ls\<close> when it is the concatenation of the newline-free lines \<open>ls\<close>, each
  followed by one line feed; the Agent splits a payload this way.
\<close>

definition frame :: "bytes list \<Rightarrow> bytes" where
  "frame ls = concat (map (\<lambda>l. l @ [nl]) ls)"

lemma frame_Nil [simp]: "frame [] = []"
  by (simp add: frame_def)

lemma frame_snoc [simp]: "frame (ls @ [l]) = frame ls @ l @ [nl]"
  by (simp add: frame_def)

lemma frame_append: "frame (xs @ ys) = frame xs @ frame ys"
  by (simp add: frame_def)

fun split_lines :: "bytes \<Rightarrow> bytes \<Rightarrow> bytes list" where
  "split_lines acc [] = (if acc = [] then [] else [acc])"
| "split_lines acc (c # cs) =
     (if c = nl then acc # split_lines [] cs else split_lines (acc @ [c]) cs)"

lemma split_lines_run:
  "no_newline l \<Longrightarrow> split_lines acc (l @ nl # rest) = (acc @ l) # split_lines [] rest"
  by (induction l arbitrary: acc) auto

lemma split_lines_frame:
  "\<forall>l \<in> set ls. no_newline l \<Longrightarrow> split_lines [] (frame ls) = ls"
proof (induction ls)
  case Nil
  then show ?case by simp
next
  case (Cons l ls)
  then have "split_lines [] (l @ nl # frame ls) = l # ls"
    by (simp add: split_lines_run)
  then show ?case by (simp add: frame_def)
qed

section \<open>Go maps as association lists\<close>

text \<open>
  A Go map is an association list with distinct keys.  The order of the list has no
  meaning: where the code ranges over a map, the model takes the order of the visit as
  an argument.  \<open>map_put\<close> overwrites in place or adds a new key.
\<close>

type_synonym 'v gomap = "(bytes \<times> 'v) list"

definition wf_map :: "'v gomap \<Rightarrow> bool" where
  "wf_map m \<longleftrightarrow> distinct (map fst m)"

fun map_put :: "bytes \<Rightarrow> 'v \<Rightarrow> 'v gomap \<Rightarrow> 'v gomap" where
  "map_put k v [] = [(k, v)]"
| "map_put k v ((k', v') # m) = (if k = k' then (k, v) # m else (k', v') # map_put k v m)"

lemma map_of_map_put [simp]: "map_of (map_put k v m) = (map_of m)(k \<mapsto> v)"
  by (induction m) auto

lemma keys_map_put [simp]: "fst ` set (map_put k v m) = insert k (fst ` set m)"
proof (induction m)
  case (Cons p m)
  then show ?case by (cases p) (simp add: insert_commute)
qed simp

lemma keys_map_put_list [simp]: "set (map fst (map_put k v m)) = insert k (set (map fst m))"
  using keys_map_put [of k v m] by simp

lemma wf_map_Nil [simp]: "wf_map []"
  by (simp add: wf_map_def)

lemma wf_map_put [simp, keeps]: "wf_map m \<Longrightarrow> wf_map (map_put k v m)"
proof (induction m)
  case (Cons p m)
  then show ?case
    by (cases p) (simp add: wf_map_def del: set_map)
qed (simp add: wf_map_def)

lemma map_put_fresh: "map_of m k = None \<Longrightarrow> map_put k v m = m @ [(k, v)]"
  by (induction m) (auto split: if_splits)

lemma in_set_map_put: "p \<in> set (map_put k v m) \<Longrightarrow> p = (k, v) \<or> p \<in> set m"
  by (induction m) (auto split: if_splits)

lemma map_put_not_Nil [simp]: "map_put k v m \<noteq> []"
  by (cases m) (auto split: if_splits)

lemma length_map_put:
  "length (map_put k v m) = length m + (if map_of m k = None then 1 else 0)"
  by (induction m) auto

text \<open>The values of a well-formed map, as a multiset, are determined by its lookups.\<close>

lemma mset_eq_of_lookup:
  "wf_map m \<Longrightarrow> wf_map m' \<Longrightarrow> map_of m = map_of m' \<Longrightarrow> mset m = mset m'"
  unfolding wf_map_def
  by (metis distinct_map map_of_inject_set set_eq_iff_mset_eq_distinct)

section \<open>Updating one element of a list\<close>

lemma concat_list_update:
  "i < length xs \<Longrightarrow>
   mset (concat (xs[i := ys])) + mset (xs ! i) = mset (concat xs) + mset ys"
proof (induction xs arbitrary: i)
  case Nil
  then show ?case by simp
next
  case (Cons x xs)
  show ?case
  proof (cases i)
    case 0
    then show ?thesis by simp
  next
    case (Suc j)
    with Cons.prems have "j < length xs" by simp
    from Cons.IH [OF this] Suc show ?thesis by simp
  qed
qed

end
