(* ===== verification/GoStd.thy ===== *)
theory GoStd
  imports Prelude
begin

text \<open>
  What the client uses of Go's language and standard library: \<open>strconv.AppendInt\<close>,
  \<open>strconv.AppendFloat\<close> with format \<open>'f'\<close>, the comparison, division and conversion of
  \<open>float64\<close>, and \<open>time.Time\<close> with \<open>IsZero\<close> and \<open>Unix\<close>.

  A \<open>float64\<close> is its 64 bits (as \<open>math.Float64bits\<close> gives them).  A finite value is an
  integral number of units of \<open>2 ^ -1074\<close>, so comparison is comparison of integers, and
  conversion and division round to the nearest value, ties to even.
\<close>

section \<open>Sizes\<close>

text \<open>
  An \<open>int\<close> has 64 bits, so a sum wraps around.  \<open>make\<close> panics when the size is negative or the memory
  is beyond what the runtime can address (\<open>maxAlloc\<close>, 48 bits; the header of a channel takes 96
  bytes of it); \<open>elem\<close> is the size of an element in bytes.  That the memory is there when it is
  asked for is not part of the model: running out of it is not a panic but ends the process.
\<close>

definition go_int :: "int \<Rightarrow> int" where
  "go_int x = (x + 2 ^ 63) mod 2 ^ 64 - 2 ^ 63"

lemma go_int_id: "- (2 ^ 63) \<le> x \<Longrightarrow> x < 2 ^ 63 \<Longrightarrow> go_int x = x"
  by (simp add: go_int_def)

lemma go_int_wraps: "2 ^ 63 \<le> x \<Longrightarrow> x < 2 ^ 63 + 2 ^ 64 \<Longrightarrow> go_int x = x - 2 ^ 64"
proof -
  assume x: "2 ^ 63 \<le> x" "x < 2 ^ 63 + 2 ^ 64"
  have "(x + 2 ^ 63) mod 2 ^ 64 = (x - 2 ^ 63 + 2 ^ 64) mod 2 ^ 64"
    by (rule arg_cong [of _ _ "\<lambda>y. y mod 2 ^ 64"]) simp
  also have "\<dots> = (x - 2 ^ 63) mod 2 ^ 64" by (rule mod_add_self2)
  also have "\<dots> = x - 2 ^ 63" using x by (intro mod_pos_pos_trivial) auto
  finally show ?thesis by (simp add: go_int_def)
qed

definition maxAlloc :: int where
  "maxAlloc = 2 ^ 48"

definition make_slice :: "int \<Rightarrow> int \<Rightarrow> bool" where
  "make_slice elem n \<longleftrightarrow> 0 \<le> n \<and> elem * n \<le> maxAlloc"

definition make_chan :: "int \<Rightarrow> int \<Rightarrow> bool" where
  "make_chan elem n \<longleftrightarrow> 0 \<le> n \<and> elem * n \<le> maxAlloc - 96"

lemmas size_defs = go_int_def maxAlloc_def make_slice_def make_chan_def

section \<open>Decimal integers\<close>

definition digit_char :: "nat \<Rightarrow> char" where
  "digit_char d = ''0123456789'' ! d"

fun nat_digits :: "nat \<Rightarrow> bytes" where
  "nat_digits n = (if n < 10 then [digit_char n] else nat_digits (n div 10) @ [digit_char (n mod 10)])"

declare nat_digits.simps [simp del]

definition fmt_int :: "int \<Rightarrow> bytes" where
  "fmt_int i = (if i < 0 then CHR ''-'' # nat_digits (nat (- i)) else nat_digits (nat i))"

text \<open>\<open>strconv.AppendInt(buffer, w, 10)\<close> of an \<open>int64\<close>.\<close>

definition appendInt :: "bytes \<Rightarrow> i64 \<Rightarrow> bytes" where
  "appendInt buffer w = buffer @ fmt_int (sint w)"

section \<open>float64\<close>

type_synonym f64 = "64 word"

definition f64_neg :: "f64 \<Rightarrow> bool" where
  "f64_neg w \<longleftrightarrow> 2 ^ 63 \<le> unat w"

definition f64_exp :: "f64 \<Rightarrow> nat" where
  "f64_exp w = (unat w div 2 ^ 52) mod 2 ^ 11"

definition f64_frac :: "f64 \<Rightarrow> nat" where
  "f64_frac w = unat w mod 2 ^ 52"

definition f64_is_nan :: "f64 \<Rightarrow> bool" where
  "f64_is_nan w \<longleftrightarrow> f64_exp w = 2047 \<and> f64_frac w \<noteq> 0"

definition f64_is_inf :: "f64 \<Rightarrow> bool" where
  "f64_is_inf w \<longleftrightarrow> f64_exp w = 2047 \<and> f64_frac w = 0"

definition f64_mant :: "f64 \<Rightarrow> nat" where
  "f64_mant w = (if f64_exp w = 0 then f64_frac w else f64_frac w + 2 ^ 52)"

definition f64_scale :: "f64 \<Rightarrow> nat" where
  "f64_scale w = f64_exp w - 1"

text \<open>
  The magnitude in units of \<open>2 ^ -1074\<close>; an infinity is above every finite value.
\<close>

definition f64_mag :: "f64 \<Rightarrow> nat" where
  "f64_mag w = f64_mant w * 2 ^ f64_scale w"

definition f64_units :: "f64 \<Rightarrow> int" where
  "f64_units w = (if f64_neg w then - int (f64_mag w) else int (f64_mag w))"

definition f64_lt :: "f64 \<Rightarrow> f64 \<Rightarrow> bool" where
  "f64_lt a b \<longleftrightarrow> \<not> f64_is_nan a \<and> \<not> f64_is_nan b \<and> f64_units a < f64_units b"

definition f64_le :: "f64 \<Rightarrow> f64 \<Rightarrow> bool" where
  "f64_le a b \<longleftrightarrow> \<not> f64_is_nan a \<and> \<not> f64_is_nan b \<and> f64_units a \<le> f64_units b"

definition f64_eq :: "f64 \<Rightarrow> f64 \<Rightarrow> bool" where
  "f64_eq a b \<longleftrightarrow> \<not> f64_is_nan a \<and> \<not> f64_is_nan b \<and> f64_units a = f64_units b"

definition f64_one :: f64 where
  "f64_one = 0x3FF0000000000000"

text \<open>Rounding a quotient to the nearest integer, ties to even.\<close>

definition round_half_even :: "nat \<Rightarrow> nat \<Rightarrow> nat" where
  "round_half_even a b =
     (let q = a div b; r = a mod b in
      if 2 * r < b then q else if b < 2 * r then q + 1 else if even q then q else q + 1)"

fun bit_len :: "nat \<Rightarrow> nat" where
  "bit_len n = (if n = 0 then 0 else Suc (bit_len (n div 2)))"

declare bit_len.simps [simp del]

text \<open>
  The nearest \<open>float64\<close> to \<open>n / d\<close>: the mantissa has 53 bits unless the value is
  subnormal, and a mantissa and scale are laid out as \<open>scale * 2 ^ 52 + mantissa\<close>, which
  also carries a mantissa rounded up to \<open>2 ^ 53\<close> into the exponent.
\<close>

definition f64_of_ratio :: "nat \<Rightarrow> nat \<Rightarrow> f64" where
  "f64_of_ratio n d =
     (let s = bit_len ((n * 2 ^ 1074) div d) - 53;
          m = round_half_even (n * 2 ^ 1074) (d * 2 ^ s)
      in of_nat (min (2047 * 2 ^ 52) (s * 2 ^ 52 + m)))"

definition f64_of_int :: "int \<Rightarrow> f64" where
  "f64_of_int i =
     (if i < 0 then f64_of_ratio (nat (- i)) 1 + 2 ^ 63 else f64_of_ratio (nat i) 1)"

definition f64_nan :: f64 where
  "f64_nan = 0x7FF8000000000001"

definition f64_div :: "f64 \<Rightarrow> f64 \<Rightarrow> f64" where
  "f64_div a b =
     (if f64_is_nan a \<or> f64_is_nan b \<or> (f64_is_inf a \<and> f64_is_inf b)
         \<or> (f64_mag a = 0 \<and> f64_mag b = 0) then f64_nan
      else (if f64_neg a = f64_neg b then 0 else 2 ^ 63) +
        (if f64_is_inf a \<or> f64_mag b = 0 then of_nat (2047 * 2 ^ 52)
         else if f64_is_inf b \<or> f64_mag a = 0 then 0
         else f64_of_ratio (f64_mag a) (f64_mag b)))"

text \<open>Sum and product, rounded once; an exact zero sum of operands of both signs is \<open>+0\<close>.\<close>

definition f64_of_units :: "int \<Rightarrow> nat \<Rightarrow> f64" where
  "f64_of_units n d =
     (if n < 0 then f64_of_ratio (nat (- n)) d + 2 ^ 63 else f64_of_ratio (nat n) d)"

definition f64_add :: "f64 \<Rightarrow> f64 \<Rightarrow> f64" where
  "f64_add a b =
     (if f64_is_nan a \<or> f64_is_nan b \<or> (f64_is_inf a \<and> f64_is_inf b \<and> f64_neg a \<noteq> f64_neg b)
      then f64_nan
      else if f64_is_inf a then a
      else if f64_is_inf b then b
      else if f64_units a = 0 \<and> f64_units b = 0 \<and> f64_neg a \<and> f64_neg b then 2 ^ 63
      else f64_of_units (f64_units a + f64_units b) (2 ^ 1074))"

definition f64_mul :: "f64 \<Rightarrow> f64 \<Rightarrow> f64" where
  "f64_mul a b =
     (if f64_is_nan a \<or> f64_is_nan b \<or> (f64_is_inf a \<and> f64_mag b = 0)
         \<or> (f64_mag a = 0 \<and> f64_is_inf b) then f64_nan
      else (if f64_neg a = f64_neg b then 0 else 2 ^ 63) +
        (if f64_is_inf a \<or> f64_is_inf b then of_nat (2047 * 2 ^ 52)
         else f64_of_ratio (f64_mag a * f64_mag b) (2 ^ 2148)))"

section \<open>strconv.AppendFloat with format 'f'\<close>

text \<open>Decimal digits left-padded with zeros to a given width.\<close>

definition pad_digits :: "nat \<Rightarrow> nat \<Rightarrow> bytes" where
  "pad_digits w n = replicate (w - length (nat_digits n)) (CHR ''0'') @ nat_digits n"

text \<open>The text of \<open>d * 10 ^ -p\<close> with \<open>p\<close> digits after the point.\<close>

definition fixed_text :: "nat \<Rightarrow> nat \<Rightarrow> bytes" where
  "fixed_text d p =
     (if p = 0 then nat_digits d
      else nat_digits (d div 10 ^ p) @ CHR ''.'' # pad_digits p (d mod 10 ^ p))"

text \<open>
  Precision -1 asks for the fewest digits that still denote the value.  With the exact
  value \<open>a\<close> and the ends \<open>lo\<close>, \<open>up\<close> of the interval of reals that round to it, all in
  units of \<open>10 ^ -q\<close>, the loop looks for the largest power of ten of which a multiple next
  to \<open>a\<close> lies in the interval; the ends belong to it when the mantissa is even.
\<close>

definition pick_decimal :: "bool \<Rightarrow> nat \<Rightarrow> nat \<Rightarrow> nat \<Rightarrow> nat \<Rightarrow> nat \<Rightarrow> nat option" where
  "pick_decimal incl lo a up u d =
     (let okdown = (if incl then lo \<le> d * u else lo < d * u);
          okup = (if incl then (d + 1) * u \<le> up else (d + 1) * u < up)
      in if okdown \<and> okup then Some (round_half_even a u)
         else if okdown then Some d
         else if okup then Some (d + 1)
         else None)"

fun shortest :: "nat \<Rightarrow> bool \<Rightarrow> nat \<Rightarrow> nat \<Rightarrow> nat \<Rightarrow> nat \<times> nat" where
  "shortest 0 incl lo a up = (a, 0)"
| "shortest (Suc n) incl lo a up =
     (case pick_decimal incl lo a up (10 ^ Suc n) (a div 10 ^ Suc n) of
        Some d \<Rightarrow> (d, Suc n)
      | None \<Rightarrow> shortest n incl lo a up)"

text \<open>The number of decimal digits of \<open>x\<close>, counting on from \<open>p = 10 ^ n\<close>.\<close>

function dec_len :: "nat \<Rightarrow> nat \<Rightarrow> nat \<Rightarrow> nat" where
  "dec_len n p x = (if x < p \<or> p = 0 then n else dec_len (Suc n) (10 * p) x)"
  by pat_completeness auto
termination
  by (relation "measure (\<lambda>(n, p, x). x + 1 - p)") auto

declare dec_len.simps [simp del]

text \<open>The text of \<open>d * 10 ^ (n - q)\<close>.\<close>

definition decimal_text :: "nat \<Rightarrow> nat \<times> nat \<Rightarrow> bytes" where
  "decimal_text q dn =
     (case dn of (d, n) \<Rightarrow>
        if q \<le> n then nat_digits (d * 10 ^ (n - q)) else fixed_text d (q - n))"

text \<open>
  The interval around a finite non-zero value, in quarters of its unit: below a power of
  two the neighbouring values are twice as dense.
\<close>

definition shortest_text :: "f64 \<Rightarrow> bytes" where
  "shortest_text w =
     (let m = f64_mant w; s = f64_scale w;
          q = 1076 - s; e = s - 1076;
          half = 2 * 2 ^ e * 5 ^ q;
          a = 4 * m * 2 ^ e * 5 ^ q;
          lo = (if m = 2 ^ 52 \<and> 0 < s then a - 2 ^ e * 5 ^ q else a - half);
          up = a + half
      in decimal_text q (shortest (dec_len 0 1 up) (even m) lo a up))"

definition fmt_float :: "int \<Rightarrow> f64 \<Rightarrow> bytes" where
  "fmt_float prec w =
     (if f64_is_nan w then ''NaN''
      else if f64_is_inf w then (if f64_neg w then ''-Inf'' else ''+Inf'')
      else (if f64_neg w then ''-'' else []) @
        (if 0 \<le> prec
         then fixed_text (round_half_even (f64_mag w * 10 ^ nat prec) (2 ^ 1074)) (nat prec)
         else if f64_mag w = 0 then ''0'' else shortest_text w))"

definition appendFloat :: "bytes \<Rightarrow> f64 \<Rightarrow> int \<Rightarrow> bytes" where
  "appendFloat buffer v prec = buffer @ fmt_float prec v"

section \<open>Kernel evaluation of the formats\<close>

text \<open>
  Unfolding rules that fire on numerals only, so that \<open>simp\<close> evaluates a closed
  conversion step by step, each intermediate number once.
\<close>

lemma digit_char_numerals:
  "digit_char 0 = CHR ''0''" "digit_char (Suc 0) = CHR ''1''" "digit_char 2 = CHR ''2''"
  "digit_char 3 = CHR ''3''" "digit_char 4 = CHR ''4''" "digit_char 5 = CHR ''5''"
  "digit_char 6 = CHR ''6''" "digit_char 7 = CHR ''7''" "digit_char 8 = CHR ''8''"
  "digit_char 9 = CHR ''9''"
  by (simp_all add: digit_char_def)

lemma nat_digits_numerals:
  "nat_digits (numeral k) =
     (if (numeral k :: nat) < 10 then [digit_char (numeral k)]
      else nat_digits (numeral k div 10) @ [digit_char (numeral k mod 10)])"
  "nat_digits 0 = ''0''"
  "nat_digits (Suc 0) = ''1''"
  by (simp_all add: nat_digits.simps [of "numeral k"] nat_digits.simps [of 0]
      nat_digits.simps [of "Suc 0"] digit_char_numerals)

lemma shortest_numeral:
  "shortest (numeral k) incl lo a up =
     (case pick_decimal incl lo a up (10 ^ numeral k) (a div 10 ^ numeral k) of
        Some d \<Rightarrow> (d, numeral k)
      | None \<Rightarrow> shortest (pred_numeral k) incl lo a up)"
  by (simp only: numeral_eq_Suc [of k] shortest.simps)

lemma dec_len_numeral:
  "dec_len n (numeral p) x = (if x < numeral p then n else dec_len (Suc n) (10 * numeral p) x)"
  "dec_len n (Suc 0) x = (if x < 1 then n else dec_len (Suc n) 10 x)"
  by (simp_all add: dec_len.simps [of n _ x])

lemmas f64_eval =
  f64_is_nan_def f64_is_inf_def f64_exp_def f64_frac_def f64_mant_def f64_scale_def
  f64_neg_def f64_mag_def f64_units_def f64_lt_def f64_le_def f64_eq_def f64_one_def

lemmas fmt_eval =
  fmt_int_def fmt_float_def shortest_text_def decimal_text_def fixed_text_def pad_digits_def round_half_even_def
  pick_decimal_def shortest_numeral dec_len_numeral nat_digits_numerals digit_char_numerals

lemma fmt_float_one: "fmt_float (- 1) f64_one = ''1''"
  by (simp add: f64_eval fmt_eval Let_def)

section \<open>What a formatted number may contain\<close>

definition number_chars :: "char set" where
  "number_chars = set ''0123456789.-+NaInf''"

lemma number_chars_mem [simp]:
  "CHR ''.'' \<in> number_chars" "CHR ''-'' \<in> number_chars" "CHR ''0'' \<in> number_chars"
  "CHR ''N'' \<in> number_chars" "CHR ''a'' \<in> number_chars" "CHR ''+'' \<in> number_chars"
  "CHR ''I'' \<in> number_chars" "CHR ''n'' \<in> number_chars" "CHR ''f'' \<in> number_chars"
  by (simp_all add: number_chars_def)

lemma digit_char_number [simp]: "d < 10 \<Longrightarrow> digit_char d \<in> number_chars"
proof -
  assume "d < 10"
  then have "''0123456789'' ! d \<in> set ''0123456789''"
    by (intro nth_mem) simp
  then show ?thesis by (auto simp: digit_char_def number_chars_def)
qed

lemma nat_digits_not_Nil [simp]: "nat_digits n \<noteq> []"
  by (simp add: nat_digits.simps [of n])

lemma nat_digits_number [simp]: "set (nat_digits n) \<subseteq> number_chars"
proof (induction n rule: nat_digits.induct)
  case (1 n)
  then show ?case by (simp add: nat_digits.simps [of n])
qed

lemma pad_digits_number [simp]: "set (pad_digits w n) \<subseteq> number_chars"
  by (simp add: pad_digits_def set_replicate_conv_if)

lemma fixed_text_number [simp]: "set (fixed_text d p) \<subseteq> number_chars"
  by (simp add: fixed_text_def)

lemma fmt_int_number [simp]: "set (fmt_int i) \<subseteq> number_chars"
  by (simp add: fmt_int_def)

lemma decimal_text_number [simp]: "set (decimal_text q dn) \<subseteq> number_chars"
  by (cases dn) (simp add: decimal_text_def)

lemma shortest_text_number [simp]: "set (shortest_text w) \<subseteq> number_chars"
  by (simp add: shortest_text_def Let_def)

lemma fmt_float_number [simp]: "set (fmt_float prec w) \<subseteq> number_chars"
  by (simp add: fmt_float_def)

lemma nl_not_number: "nl \<notin> number_chars"
  by (simp add: number_chars_def)

lemma no_newline_number: "set s \<subseteq> number_chars \<Longrightarrow> no_newline s"
  using nl_not_number by (auto simp: no_newline_def)

lemma no_newline_fmt_int [no_nl, simp]: "no_newline (fmt_int i)"
  by (simp add: no_newline_number)

lemma no_newline_fmt_float [no_nl, simp]: "no_newline (fmt_float prec w)"
  by (simp add: no_newline_number)

lemma no_newline_nat_digits [no_nl, simp]: "no_newline (nat_digits n)"
  by (simp add: no_newline_number)

section \<open>Ranging over the runes of a string\<close>

text \<open>
  \<open>for _, r := range s\<close> visits the UTF-8 code points of \<open>s\<close>, not its bytes; a byte that
  starts no valid encoding yields U+FFFD and is skipped alone.
\<close>

abbreviation byte_val :: "char \<Rightarrow> nat" where "byte_val c \<equiv> of_char c"

definition cont_byte :: "nat \<Rightarrow> nat \<Rightarrow> nat \<Rightarrow> bool" where
  "cont_byte lo hi b \<longleftrightarrow> lo \<le> b \<and> b \<le> hi"

fun decode_rune :: "nat list \<Rightarrow> nat \<times> nat" where
  "decode_rune [] = (0xFFFD, 0)"
| "decode_rune (b # bs) =
     (if b < 0x80 then (b, 1)
      else case bs of
        [] \<Rightarrow> (0xFFFD, 1)
      | b1 # bs1 \<Rightarrow>
          if 0xC2 \<le> b \<and> b \<le> 0xDF \<and> cont_byte 0x80 0xBF b1
          then ((b - 0xC0) * 64 + (b1 - 0x80), 2)
          else (case bs1 of
            [] \<Rightarrow> (0xFFFD, 1)
          | b2 # bs2 \<Rightarrow>
              if 0xE0 \<le> b \<and> b \<le> 0xEF
                 \<and> cont_byte (if b = 0xE0 then 0xA0 else 0x80) (if b = 0xED then 0x9F else 0xBF) b1
                 \<and> cont_byte 0x80 0xBF b2
              then ((b - 0xE0) * 4096 + (b1 - 0x80) * 64 + (b2 - 0x80), 3)
              else (case bs2 of
                [] \<Rightarrow> (0xFFFD, 1)
              | b3 # _ \<Rightarrow>
                  if 0xF0 \<le> b \<and> b \<le> 0xF4
                     \<and> cont_byte (if b = 0xF0 then 0x90 else 0x80) (if b = 0xF4 then 0x8F else 0xBF) b1
                     \<and> cont_byte 0x80 0xBF b2 \<and> cont_byte 0x80 0xBF b3
                  then ((b - 0xF0) * 262144 + (b1 - 0x80) * 4096 + (b2 - 0x80) * 64 + (b3 - 0x80), 4)
                  else (0xFFFD, 1))))"

function decode_runes :: "nat list \<Rightarrow> nat list" where
  "decode_runes [] = []"
| "decode_runes (b # bs) =
     (let (r, w) = decode_rune (b # bs) in r # decode_runes (drop (w - 1) bs))"
  by pat_completeness auto
termination
  by (relation "measure length") auto

definition runes :: "bytes \<Rightarrow> nat list" where
  "runes s = decode_runes (map byte_val s)"

definition ascii :: "bytes \<Rightarrow> bool" where
  "ascii s \<longleftrightarrow> (\<forall>c \<in> set s. byte_val c < 0x80)"

lemma ascii_Nil [simp]: "ascii []"
  by (simp add: ascii_def)

lemma ascii_Cons [simp]: "ascii (c # s) \<longleftrightarrow> byte_val c < 0x80 \<and> ascii s"
  by (auto simp: ascii_def)

lemma ascii_append [simp]: "ascii (s @ t) \<longleftrightarrow> ascii s \<and> ascii t"
  by (auto simp: ascii_def)

lemma runes_ascii: "ascii s \<Longrightarrow> runes s = map byte_val s"
  by (induction s) (simp_all add: runes_def)

section \<open>time.Time\<close>

text \<open>
  A time is its Unix seconds and the nanoseconds within the second; the zero time is
  January 1 of year 1.
\<close>

record go_time =
  unix_sec :: i64
  nsec :: nat

definition zero_time :: go_time where
  "zero_time = \<lparr>unix_sec = -62135596800, nsec = 0\<rparr>"

definition isZero :: "go_time \<Rightarrow> bool" where
  "isZero t \<longleftrightarrow> unix_sec t = -62135596800 \<and> nsec t = 0"

text \<open>
  A duration is a number of nanoseconds; \<open>Seconds\<close> divides with truncation, as Go does.
\<close>

definition trunc_div :: "int \<Rightarrow> int \<Rightarrow> int" where
  "trunc_div a b = sgn a * sgn b * (\<bar>a\<bar> div \<bar>b\<bar>)"

definition duration_Seconds :: "i64 \<Rightarrow> f64" where
  "duration_Seconds d =
     (let sec = trunc_div (sint d) 1000000000;
          ns = sint d - sec * 1000000000
      in f64_add (f64_of_int sec) (f64_div (f64_of_int ns) (f64_of_int 1000000000)))"

section \<open>The quotient of equal counts\<close>

lemma bit_len_eq: "2 ^ j \<le> n \<Longrightarrow> n < 2 ^ Suc j \<Longrightarrow> bit_len n = Suc j"
proof (induction j arbitrary: n)
  case 0
  then have "n = Suc 0" by simp
  then show ?case by (simp add: bit_len.simps [of "Suc 0"] bit_len.simps [of 0])
next
  case (Suc j)
  then have "bit_len (n div 2) = Suc j" by (intro Suc.IH) auto
  with Suc.prems show ?case by (subst bit_len.simps) auto
qed

lemma bit_len_bounds: "0 < n \<Longrightarrow> \<exists>j. bit_len n = Suc j \<and> 2 ^ j \<le> n \<and> n < 2 ^ Suc j"
proof -
  assume "0 < n"
  then obtain j where "2 ^ j \<le> n" "n < 2 ^ (j + 1)"
    using ex_power_ivl1 [of 2 n] by auto
  then show ?thesis using bit_len_eq [of j n] by auto
qed

lemma round_half_even_bounds: "a div b \<le> round_half_even a b \<and> round_half_even a b \<le> a div b + 1"
  by (simp add: round_half_even_def Let_def)

lemma f64_of_ratio_self: "0 < p \<Longrightarrow> f64_of_ratio p p = f64_one"
proof -
  assume p: "0 < p"
  have "bit_len (2 ^ 1074) = Suc 1074" by (rule bit_len_eq) simp_all
  moreover have "p * 2 ^ 1074 = 2 ^ 52 * (p * 2 ^ 1022)"
    by (simp add: power_add [symmetric] mult.left_commute)
  ultimately show ?thesis
    using p by (simp only: f64_of_ratio_def Let_def nonzero_mult_div_cancel_left)
      (simp add: round_half_even_def Let_def f64_one_def)
qed

lemma f64_of_int_exp:
  assumes "1 \<le> k" and "k < 2 ^ 63"
  shows "\<exists>v. f64_of_int k = of_nat v \<and> 1023 * 2 ^ 52 \<le> v \<and> v \<le> 1086 * 2 ^ 52"
proof -
  define K where "K = nat k * 2 ^ 1074"
  have "0 < K" using assms by (simp add: K_def)
  then obtain j where j: "bit_len K = Suc j" "2 ^ j \<le> K" "K < 2 ^ Suc j"
    using bit_len_bounds by blast
  have "nat k < 2 ^ 63" using assms by simp
  then have "K < 2 ^ 63 * 2 ^ 1074" unfolding K_def by (intro mult_strict_right_mono) simp_all
  then have "K < 2 ^ 1137" by (simp only: power_add [symmetric]) simp
  with j(2) have "(2::nat) ^ j < 2 ^ 1137" by (rule le_less_trans)
  then have hi: "j < 1137" by (rule power_less_imp_less_exp [rotated]) simp
  have "2 ^ 1074 \<le> K" using assms by (simp add: K_def)
  from le_less_trans [OF this j(3)] have "1074 < Suc j"
    by (rule power_less_imp_less_exp [rotated]) simp
  then have lo: "1074 \<le> j" by simp
  define s where "s = j - 52"
  have s: "1022 \<le> s" "s \<le> 1084" "Suc j - 53 = s" and js: "j = 52 + s"
    using lo hi by (simp_all add: s_def)
  have "2 ^ 52 * 2 ^ s \<le> K" and "K < 2 ^ 53 * 2 ^ s"
    using j(2,3) by (simp_all only: js power_add [symmetric]) simp_all
  then have q: "2 ^ 52 \<le> K div 2 ^ s" "K div 2 ^ s < 2 ^ 53"
    by (simp_all add: less_eq_div_iff_mult_less_eq div_less_iff_less_mult)
  define m where "m = round_half_even K (1 * 2 ^ s)"
  have m: "2 ^ 52 \<le> m" "m \<le> 2 ^ 53"
    using q round_half_even_bounds [of K "1 * 2 ^ s"] by (simp_all add: m_def)
  have "f64_of_int k = of_nat (min (2047 * 2 ^ 52) (s * 2 ^ 52 + m))"
  proof -
    have "\<not> k < 0" using assms by simp
    then show ?thesis
      by (simp only: f64_of_int_def if_False f64_of_ratio_def Let_def K_def [symmetric] div_by_1
          j(1) s(3) m_def [symmetric])
  qed
  moreover have "min (2047 * 2 ^ 52) (s * 2 ^ 52 + m) = s * 2 ^ 52 + m"
    using s m by simp
  ultimately show ?thesis
    using s m by (intro exI [of _ "s * 2 ^ 52 + m"]) simp
qed

lemma f64_of_int_normal:
  assumes "1 \<le> k" and "k < 2 ^ 63"
  shows "\<not> f64_is_nan (f64_of_int k)" and "\<not> f64_is_inf (f64_of_int k)"
    and "0 < f64_mag (f64_of_int k)"
proof -
  obtain v where v: "f64_of_int k = of_nat v" "1023 * 2 ^ 52 \<le> v" "v \<le> 1086 * 2 ^ 52"
    using f64_of_int_exp [OF assms] by blast
  have u: "unat (of_nat v :: f64) = v"
    using v(3) by (simp add: unat_of_nat take_bit_nat_eq_self)
  have "1023 \<le> v div 2 ^ 52" and "v div 2 ^ 52 \<le> 1086"
    using v(2,3) div_le_mono [OF v(2), of "2 ^ 52"] div_le_mono [OF v(3), of "2 ^ 52"] by simp_all
  then have e: "f64_exp (f64_of_int k) \<noteq> 0" "f64_exp (f64_of_int k) \<noteq> 2047"
    by (simp_all add: f64_exp_def v(1) u)
  then show "\<not> f64_is_nan (f64_of_int k)" and "\<not> f64_is_inf (f64_of_int k)"
    and "0 < f64_mag (f64_of_int k)"
    by (simp_all add: f64_is_nan_def f64_is_inf_def f64_mag_def f64_mant_def)
qed

lemma f64_div_self: "1 \<le> k \<Longrightarrow> k < 2 ^ 63 \<Longrightarrow> f64_div (f64_of_int k) (f64_of_int k) = f64_one"
  using f64_of_int_normal [of k] by (simp add: f64_div_def f64_of_ratio_self)

end
