(* ===== verification/TagCardinality.thy ===== *)
theory TagCardinality
  imports GoStd
begin

text \<open>
  \<open>src/statsd/tag_cardinality.go\<close>: the tag cardinality of a metric, its name on the wire,
  and how it is chosen from the call's parameters and the environment.
\<close>

section \<open>The code\<close>

text \<open>\<open>Cardinality\<close> is an \<open>int\<close> of which five values are named; any other can occur.\<close>

type_synonym cardinality = int

definition CardinalityNotSet :: cardinality where "CardinalityNotSet = 0"
definition CardinalityNone :: cardinality where "CardinalityNone = 1"
definition CardinalityLow :: cardinality where "CardinalityLow = 2"
definition CardinalityOrchestrator :: cardinality where "CardinalityOrchestrator = 3"
definition CardinalityHigh :: cardinality where "CardinalityHigh = 4"

lemmas cardinality_defs =
  CardinalityNotSet_def CardinalityNone_def CardinalityLow_def CardinalityOrchestrator_def
  CardinalityHigh_def

definition isValid :: "cardinality \<Rightarrow> bool" where
  "isValid c \<longleftrightarrow> c \<ge> CardinalityNotSet \<and> c \<le> CardinalityHigh"

definition card_String :: "cardinality \<Rightarrow> bytes" where
  "card_String c =
     (if c = CardinalityNone then ''none''
      else if c = CardinalityLow then ''low''
      else if c = CardinalityOrchestrator then ''orchestrator''
      else if c = CardinalityHigh then ''high''
      else '''')"

text \<open>
  \<open>strings.ToLower\<close> on runes.  The result is only compared with ASCII words, so of the
  letters beyond ASCII only the two whose lower case is an ASCII letter matter: U+0130
  and the Kelvin sign U+212A.
\<close>

definition lower_rune :: "nat \<Rightarrow> nat" where
  "lower_rune r =
     (if 65 \<le> r \<and> r \<le> 90 then r + 32
      else if r = 0x130 then 0x69
      else if r = 0x212A then 0x6B
      else r)"

definition toLower :: "bytes \<Rightarrow> nat list" where
  "toLower s = map lower_rune (runes s)"

definition validateCardinality :: "bytes \<Rightarrow> cardinality \<times> bool" where
  "validateCardinality word =
     (let w = toLower word in
      if w = map byte_val ''none'' then (CardinalityNone, True)
      else if w = map byte_val ''low'' then (CardinalityLow, True)
      else if w = map byte_val ''orchestrator'' then (CardinalityOrchestrator, True)
      else if w = map byte_val ''high'' then (CardinalityHigh, True)
      else (CardinalityNotSet, False))"

text \<open>The environment: \<open>os.Getenv\<close>, which yields the empty string for an unset variable.\<close>

type_synonym environ = "bytes \<Rightarrow> bytes"

definition envTagCardinality :: "environ \<Rightarrow> cardinality \<times> bool" where
  "envTagCardinality getenv =
     (let (c, ok) = validateCardinality (getenv ''DD_CARDINALITY'') in
      if ok then (c, True)
      else let (c, ok) = validateCardinality (getenv ''DATADOG_CARDINALITY'') in
        if ok then (c, True) else (CardinalityNotSet, False))"

text \<open>A \<open>Parameter\<close> is any Go value; the type switch tells a \<open>Cardinality\<close> from the rest.\<close>

datatype parameter = PCardinality cardinality | POther

fun parameterCardinality :: "parameter list \<Rightarrow> cardinality \<Rightarrow> cardinality" where
  "parameterCardinality [] defaultCardinality = defaultCardinality"
| "parameterCardinality (PCardinality c # ps) defaultCardinality =
     (if isValid c then c else parameterCardinality ps defaultCardinality)"
| "parameterCardinality (POther # ps) defaultCardinality =
     parameterCardinality ps defaultCardinality"

section \<open>Facts\<close>

lemma isValid_cases:
  "isValid c \<Longrightarrow> c = CardinalityNotSet \<or> c = CardinalityNone \<or> c = CardinalityLow
     \<or> c = CardinalityOrchestrator \<or> c = CardinalityHigh"
  by (auto simp: isValid_def cardinality_defs)

lemma card_String_NotSet [simp]: "card_String CardinalityNotSet = ''''"
  by (simp add: card_String_def cardinality_defs)

lemma card_String_range:
  "card_String c \<in> {'''', ''none'', ''low'', ''orchestrator'', ''high''}"
  by (simp add: card_String_def)

lemma no_newline_card_String [no_nl, simp]: "no_newline (card_String c)"
  using card_String_range [of c] by (auto simp: card_String_def)

lemma card_String_inj:
  "isValid c \<Longrightarrow> isValid d \<Longrightarrow> card_String c = card_String d \<Longrightarrow> c = d"
  by (auto simp: isValid_def card_String_def cardinality_defs split: if_splits)

lemma card_String_Nil_iff: "isValid c \<Longrightarrow> card_String c = '''' \<longleftrightarrow> c = CardinalityNotSet"
  by (auto simp: isValid_def card_String_def cardinality_defs split: if_splits)

lemma validateCardinality_String:
  "isValid c \<Longrightarrow> c \<noteq> CardinalityNotSet \<Longrightarrow> validateCardinality (card_String c) = (c, True)"
  by (auto dest!: isValid_cases
      simp: cardinality_defs card_String_def validateCardinality_def toLower_def runes_ascii
        lower_rune_def)

lemma validateCardinality_isValid: "isValid (fst (validateCardinality s))"
  by (simp add: validateCardinality_def Let_def isValid_def cardinality_defs)

lemma parameterCardinality_isValid:
  "isValid d \<Longrightarrow> isValid (parameterCardinality ps d)"
  by (induction ps d rule: parameterCardinality.induct) auto

section \<open>Properties\<close>

text \<open>Every cardinality that can be set is read back from its own name.\<close>

theorem cardinality_roundtrip:
  "isValid c \<Longrightarrow> c \<noteq> CardinalityNotSet \<Longrightarrow> validateCardinality (card_String c) = (c, True)"
  by (rule validateCardinality_String)

theorem cardinality_roundtrip_witness:
  "validateCardinality (card_String CardinalityOrchestrator) = (CardinalityOrchestrator, True)"
  using cardinality_roundtrip [of CardinalityOrchestrator] by (simp add: isValid_def cardinality_defs)

text \<open>
  A call's cardinality is that of its first parameter that is a valid cardinality; every
  other parameter is skipped, and the client's default applies if there is none.
\<close>

theorem parameterCardinality_first:
  "parameterCardinality ps d =
     (case filter (\<lambda>p. case p of PCardinality c \<Rightarrow> isValid c | POther \<Rightarrow> False) ps of
        PCardinality c # _ \<Rightarrow> c
      | _ \<Rightarrow> d)"
  by (induction ps d rule: parameterCardinality.induct) (auto split: list.split parameter.split)

text \<open>
  The environment: the first variable wins when it names a cardinality, otherwise the
  second does; the result is a valid cardinality, and it is reported as absent exactly when
  neither variable names one.
\<close>

theorem envTagCardinality_precedence:
  "envTagCardinality env =
     (if snd (validateCardinality (env ''DD_CARDINALITY''))
      then validateCardinality (env ''DD_CARDINALITY'')
      else validateCardinality (env ''DATADOG_CARDINALITY''))
   \<and> isValid (fst (envTagCardinality env))"
  using validateCardinality_isValid
  by (auto simp: envTagCardinality_def case_prod_unfold Let_def prod_eq_iff)
    (auto simp: validateCardinality_def Let_def isValid_def cardinality_defs)

end
