(* ===== verification/Format.thy ===== *)
theory Format
  imports TagCardinality
begin

text \<open>
  \<open>src/statsd/format.go\<close>, \<open>event.go\<close> and \<open>service_check.go\<close>: the datagram syntax.  Every
  routine appends to a buffer and returns it; the facts below bring each into the form
  \<open>buffer @ element\<close> and say which bytes an element can hold.
\<close>

section \<open>Process-wide origin fields\<close>

text \<open>
  \<open>getContainerID\<close> and \<open>getExternalEnv\<close> read two values that are stored once for the
  process; every routine that reads them takes them as an argument.
\<close>

record globals =
  containerID :: bytes
  externalEnv :: bytes

section \<open>The code: metrics\<close>

definition gaugeSymbol :: bytes where "gaugeSymbol = ''g''"
definition countSymbol :: bytes where "countSymbol = ''c''"
definition histogramSymbol :: bytes where "histogramSymbol = ''h''"
definition distributionSymbol :: bytes where "distributionSymbol = ''d''"
definition setSymbol :: bytes where "setSymbol = ''s''"
definition timingSymbol :: bytes where "timingSymbol = ''ms''"

lemmas symbol_defs =
  gaugeSymbol_def countSymbol_def histogramSymbol_def distributionSymbol_def setSymbol_def
  timingSymbol_def

definition tagSeparatorSymbol :: bytes where "tagSeparatorSymbol = '',''"
definition nameSeparatorSymbol :: bytes where "nameSeparatorSymbol = '':''"
definition cardSeparatorSymbol :: bytes where "cardSeparatorSymbol = ''|''"

definition appendHeader :: "bytes \<Rightarrow> bytes \<Rightarrow> bytes \<Rightarrow> bytes" where
  "appendHeader buffer namespace name =
     (let buffer = (if namespace \<noteq> '''' then buffer @ namespace else buffer);
          buffer = buffer @ name
      in buffer @ '':'')"

definition appendRate :: "bytes \<Rightarrow> f64 \<Rightarrow> bytes" where
  "appendRate buffer rate =
     (if f64_lt rate f64_one then appendFloat (buffer @ ''|@'') rate (- 1) else buffer)"

fun appendNonNewlines :: "bytes \<Rightarrow> bytes \<Rightarrow> bytes" where
  "appendNonNewlines buffer [] = buffer"
| "appendNonNewlines buffer (b # s) =
     (if b \<noteq> nl then appendNonNewlines (buffer @ [b]) s else appendNonNewlines buffer s)"

definition appendWithoutNewlines :: "bytes \<Rightarrow> bytes \<Rightarrow> bytes" where
  "appendWithoutNewlines buffer s =
     (if nl \<notin> set s then buffer @ s else appendNonNewlines buffer s)"

text \<open>The loops over a tag list: the flag says whether the next tag is the first.\<close>

fun appendTagLoop :: "bytes \<Rightarrow> bool \<Rightarrow> bytes list \<Rightarrow> bytes \<times> bool" where
  "appendTagLoop buffer firstTag [] = (buffer, firstTag)"
| "appendTagLoop buffer firstTag (tag # tags) =
     (let buffer = (if \<not> firstTag then buffer @ tagSeparatorSymbol else buffer);
          buffer = appendWithoutNewlines buffer tag
      in appendTagLoop buffer False tags)"

definition appendTags :: "bytes \<Rightarrow> bytes list \<Rightarrow> bytes list \<Rightarrow> bytes" where
  "appendTags buffer globalTags tags =
     (if globalTags = [] \<and> tags = [] then buffer
      else let buffer = buffer @ ''|#'';
               (buffer, firstTag) = appendTagLoop buffer True globalTags;
               (buffer, firstTag) = appendTagLoop buffer firstTag tags
           in buffer)"

definition appendTagsAggregated :: "bytes \<Rightarrow> bytes list \<Rightarrow> bytes \<Rightarrow> bytes" where
  "appendTagsAggregated buffer globalTags tags =
     (if globalTags = [] \<and> tags = '''' then buffer
      else let buffer = buffer @ ''|#'';
               (buffer, firstTag) = appendTagLoop buffer True globalTags
           in if tags \<noteq> ''''
              then let buffer = (if \<not> firstTag then buffer @ tagSeparatorSymbol else buffer)
                   in appendWithoutNewlines buffer tags
              else buffer)"

definition appendContainerID :: "globals \<Rightarrow> bytes \<Rightarrow> bytes" where
  "appendContainerID g buffer =
     (if length (containerID g) > 0 then buffer @ ''|c:'' @ containerID g else buffer)"

definition appendTimestamp :: "bytes \<Rightarrow> i64 \<Rightarrow> bytes" where
  "appendTimestamp buffer timestamp =
     (if sint timestamp > 0 then appendInt (buffer @ ''|T'') timestamp else buffer)"

definition appendExternalEnv :: "globals \<Rightarrow> bytes \<Rightarrow> bool \<Rightarrow> bytes" where
  "appendExternalEnv g buffer originDetection =
     (if \<not> originDetection then buffer
      else if externalEnv g \<noteq> '''' then buffer @ ''|e:'' @ externalEnv g else buffer)"

definition appendTagCardinality :: "bytes \<Rightarrow> cardinality \<Rightarrow> bytes" where
  "appendTagCardinality buffer c =
     (let cardString = card_String c in
      if cardString \<noteq> '''' then buffer @ ''|card:'' @ cardString else buffer)"

definition appendFloatMetric ::
  "globals \<Rightarrow> bytes \<Rightarrow> bytes \<Rightarrow> bytes \<Rightarrow> bytes list \<Rightarrow> bytes \<Rightarrow> f64 \<Rightarrow> bytes list \<Rightarrow> f64 \<Rightarrow> int
     \<Rightarrow> bool \<Rightarrow> bytes" where
  "appendFloatMetric g buffer typeSymbol namespace globalTags name value tags rate precision
       originDetection =
     (let buffer = appendHeader buffer namespace name;
          buffer = appendFloat buffer value precision;
          buffer = buffer @ ''|'';
          buffer = buffer @ typeSymbol;
          buffer = appendRate buffer rate;
          buffer = appendTags buffer globalTags tags;
          buffer = appendContainerID g buffer
      in appendExternalEnv g buffer originDetection)"

definition appendIntegerMetric ::
  "globals \<Rightarrow> bytes \<Rightarrow> bytes \<Rightarrow> bytes \<Rightarrow> bytes list \<Rightarrow> bytes \<Rightarrow> i64 \<Rightarrow> bytes list \<Rightarrow> f64 \<Rightarrow> bool
     \<Rightarrow> bytes" where
  "appendIntegerMetric g buffer typeSymbol namespace globalTags name value tags rate
       originDetection =
     (let buffer = appendHeader buffer namespace name;
          buffer = appendInt buffer value;
          buffer = buffer @ ''|'';
          buffer = buffer @ typeSymbol;
          buffer = appendRate buffer rate;
          buffer = appendTags buffer globalTags tags;
          buffer = appendContainerID g buffer
      in appendExternalEnv g buffer originDetection)"

definition appendStringMetric ::
  "globals \<Rightarrow> bytes \<Rightarrow> bytes \<Rightarrow> bytes \<Rightarrow> bytes list \<Rightarrow> bytes \<Rightarrow> bytes \<Rightarrow> bytes list \<Rightarrow> f64 \<Rightarrow> bool
     \<Rightarrow> bytes" where
  "appendStringMetric g buffer typeSymbol namespace globalTags name value tags rate
       originDetection =
     (let buffer = appendHeader buffer namespace name;
          buffer = buffer @ value;
          buffer = buffer @ ''|'';
          buffer = buffer @ typeSymbol;
          buffer = appendRate buffer rate;
          buffer = appendTags buffer globalTags tags;
          buffer = appendContainerID g buffer
      in appendExternalEnv g buffer originDetection)"

definition appendGauge where
  "appendGauge g buffer namespace globalTags name value tags rate originDetection =
     appendFloatMetric g buffer gaugeSymbol namespace globalTags name value tags rate (- 1)
       originDetection"

definition appendCount where
  "appendCount g buffer namespace globalTags name value tags rate originDetection =
     appendIntegerMetric g buffer countSymbol namespace globalTags name value tags rate
       originDetection"

definition appendHistogram where
  "appendHistogram g buffer namespace globalTags name value tags rate originDetection =
     appendFloatMetric g buffer histogramSymbol namespace globalTags name value tags rate (- 1)
       originDetection"

definition appendDistribution where
  "appendDistribution g buffer namespace globalTags name value tags rate originDetection =
     appendFloatMetric g buffer distributionSymbol namespace globalTags name value tags rate (- 1)
       originDetection"

definition appendSet where
  "appendSet g buffer namespace globalTags name value tags rate originDetection =
     appendStringMetric g buffer setSymbol namespace globalTags name value tags rate
       originDetection"

definition appendTiming where
  "appendTiming g buffer namespace globalTags name value tags rate originDetection =
     appendFloatMetric g buffer timingSymbol namespace globalTags name value tags rate 6
       originDetection"

section \<open>The code: events\<close>

text \<open>\<open>event.go\<close>; alert type and priority are strings with named values.\<close>

record Event =
  ev_Title :: bytes
  ev_Text :: bytes
  ev_Timestamp :: go_time
  ev_Hostname :: bytes
  ev_AggregationKey :: bytes
  ev_Priority :: bytes
  ev_SourceTypeName :: bytes
  ev_AlertType :: bytes
  ev_Tags :: "bytes list"

definition NewEvent :: "bytes \<Rightarrow> bytes \<Rightarrow> Event" where
  "NewEvent title txt =
     \<lparr>ev_Title = title, ev_Text = txt, ev_Timestamp = zero_time, ev_Hostname = '''',
      ev_AggregationKey = '''', ev_Priority = '''', ev_SourceTypeName = '''', ev_AlertType = '''',
      ev_Tags = []\<rparr>"

datatype check_error = EventTitleRequired | ServiceCheckNameRequired | ServiceCheckBadStatus

definition Event_Check :: "Event \<Rightarrow> check_error option" where
  "Event_Check e = (if length (ev_Title e) = 0 then Some EventTitleRequired else None)"

definition escapedEventTextLen :: "bytes \<Rightarrow> nat" where
  "escapedEventTextLen txt = length txt + count_list txt nl"

definition escaped_nl :: bytes where
  "escaped_nl = [CHR 0x5C, CHR ''n'']"

fun appendEscapedEventText :: "bytes \<Rightarrow> bytes \<Rightarrow> bytes" where
  "appendEscapedEventText buffer [] = buffer"
| "appendEscapedEventText buffer (b # txt) =
     (if b \<noteq> nl then appendEscapedEventText (buffer @ [b]) txt
      else appendEscapedEventText (buffer @ escaped_nl) txt)"

text \<open>An optional field of an event or service check: a prefix and the value, if any.\<close>

definition appendOptional :: "bytes \<Rightarrow> bytes \<Rightarrow> bytes \<Rightarrow> bytes" where
  "appendOptional buffer prefix value =
     (if length value \<noteq> 0 then buffer @ prefix @ value else buffer)"

definition appendTime :: "bytes \<Rightarrow> go_time \<Rightarrow> bytes" where
  "appendTime buffer t =
     (if \<not> isZero t then appendInt (buffer @ ''|d:'') (unix_sec t) else buffer)"

definition appendEvent :: "globals \<Rightarrow> bytes \<Rightarrow> Event \<Rightarrow> bytes list \<Rightarrow> bool \<Rightarrow> bytes" where
  "appendEvent g buffer event globalTags originDetection =
     (let escapedTextLen = escapedEventTextLen (ev_Text event);
          buffer = buffer @ ''_e{'';
          buffer = buffer @ fmt_int (int (length (ev_Title event)));
          buffer = buffer @ tagSeparatorSymbol;
          buffer = buffer @ fmt_int (int escapedTextLen);
          buffer = buffer @ ''}:'';
          buffer = buffer @ ev_Title event;
          buffer = buffer @ ''|'';
          buffer = (if escapedTextLen \<noteq> length (ev_Text event)
                    then appendEscapedEventText buffer (ev_Text event)
                    else buffer @ ev_Text event);
          buffer = appendTime buffer (ev_Timestamp event);
          buffer = appendOptional buffer ''|h:'' (ev_Hostname event);
          buffer = appendOptional buffer ''|k:'' (ev_AggregationKey event);
          buffer = appendOptional buffer ''|p:'' (ev_Priority event);
          buffer = appendOptional buffer ''|s:'' (ev_SourceTypeName event);
          buffer = appendOptional buffer ''|t:'' (ev_AlertType event);
          buffer = appendTags buffer globalTags (ev_Tags event);
          buffer = appendContainerID g buffer
      in appendExternalEnv g buffer originDetection)"

section \<open>The code: service checks\<close>

type_synonym ServiceCheckStatus = "8 word"

record ServiceCheck =
  sc_Name :: bytes
  sc_Status :: ServiceCheckStatus
  sc_Timestamp :: go_time
  sc_Hostname :: bytes
  sc_Message :: bytes
  sc_Tags :: "bytes list"

definition NewServiceCheck :: "bytes \<Rightarrow> ServiceCheckStatus \<Rightarrow> ServiceCheck" where
  "NewServiceCheck name status =
     \<lparr>sc_Name = name, sc_Status = status, sc_Timestamp = zero_time, sc_Hostname = '''',
      sc_Message = '''', sc_Tags = []\<rparr>"

definition ServiceCheck_Check :: "ServiceCheck \<Rightarrow> check_error option" where
  "ServiceCheck_Check sc =
     (if length (sc_Name sc) = 0 then Some ServiceCheckNameRequired
      else if sc_Status sc < 0 \<or> sc_Status sc > 3 then Some ServiceCheckBadStatus
      else None)"

definition escaped_m :: bytes where
  "escaped_m = [CHR ''m'', CHR 0x5C, CHR '':'']"

fun appendEscapedServiceCheckText :: "bytes \<Rightarrow> bytes \<Rightarrow> bytes" where
  "appendEscapedServiceCheckText buffer [] = buffer"
| "appendEscapedServiceCheckText buffer (c # txt) =
     (if c = nl then appendEscapedServiceCheckText (buffer @ escaped_nl) txt
      else if c = CHR ''m'' \<and> txt \<noteq> [] \<and> hd txt = CHR '':''
      then appendEscapedServiceCheckText (buffer @ escaped_m) (tl txt)
      else appendEscapedServiceCheckText (buffer @ [c]) txt)"

definition appendServiceCheck ::
  "globals \<Rightarrow> bytes \<Rightarrow> ServiceCheck \<Rightarrow> bytes list \<Rightarrow> bool \<Rightarrow> bytes" where
  "appendServiceCheck g buffer sc globalTags originDetection =
     (let buffer = buffer @ ''_sc|'';
          buffer = buffer @ sc_Name sc;
          buffer = buffer @ ''|'';
          buffer = buffer @ fmt_int (uint (sc_Status sc));
          buffer = appendTime buffer (sc_Timestamp sc);
          buffer = appendOptional buffer ''|h:'' (sc_Hostname sc);
          buffer = appendTags buffer globalTags (sc_Tags sc);
          buffer = (if length (sc_Message sc) \<noteq> 0
                    then appendEscapedServiceCheckText (buffer @ ''|m:'') (sc_Message sc)
                    else buffer);
          buffer = appendContainerID g buffer
      in appendExternalEnv g buffer originDetection)"

definition appendSeparator :: "bytes \<Rightarrow> bytes" where
  "appendSeparator buffer = buffer @ [nl]"

end
