(* ===== verification/Metric.thy ===== *)
theory Metric
  imports Format
begin

text \<open>
  The \<open>metric\<close> struct of \<open>src/statsd/statsdex.go\<close>: what the client, the aggregator and the
  telemetry hand to the workers.  Pointers to an event or a service check may be nil.
\<close>

datatype metricType =
    gaugeT | countT | histogramT | histogramAggregatedT | distributionT
  | distributionAggregatedT | setT | timingT | timingAggregatedT | eventT | serviceCheckT

definition noTimestamp :: i64 where
  "noTimestamp = 0"

record metric =
  m_type :: metricType
  m_namespace :: bytes
  m_globalTags :: "bytes list"
  m_name :: bytes
  m_fvalue :: f64
  m_fvalues :: "f64 list"
  m_ivalue :: i64
  m_svalue :: bytes
  m_evalue :: "Event option"
  m_scvalue :: "ServiceCheck option"
  m_tags :: "bytes list"
  m_stags :: bytes
  m_rate :: f64
  m_timestamp :: i64
  m_originDetection :: bool
  m_cardinality :: cardinality

text \<open>The Go zero value, of which the composite literals of the code set some fields.\<close>

definition zero_metric :: metric where
  "zero_metric =
     \<lparr>m_type = gaugeT, m_namespace = '''', m_globalTags = [], m_name = '''', m_fvalue = 0,
      m_fvalues = [], m_ivalue = 0, m_svalue = '''', m_evalue = None, m_scvalue = None,
      m_tags = [], m_stags = '''', m_rate = 0, m_timestamp = noTimestamp,
      m_originDetection = False, m_cardinality = CardinalityNotSet\<rparr>"

definition is_aggregated :: "metricType \<Rightarrow> bool" where
  "is_aggregated t \<longleftrightarrow> t = histogramAggregatedT \<or> t = distributionAggregatedT \<or> t = timingAggregatedT"

section \<open>Sampling: \<open>utils.go\<close>\<close>

text \<open>\<open>draw\<close> is the value \<open>r.Float64()\<close> returns, if it is called.\<close>

definition shouldSample :: "f64 \<Rightarrow> f64 \<Rightarrow> bool" where
  "shouldSample rate draw =
     (if f64_le f64_one rate then True
      else if f64_lt rate draw then False
      else True)"

end
