(* ===== verification/Fnv.thy ===== *)
theory Fnv
  imports GoStd
begin

unbundle bit_operations_syntax

text \<open>
  \<open>src/statsd/fnv1a.go\<close>: the 32-bit FNV-1a hash that picks the worker of a metric and
  the shard of an aggregation context.  The code hashes eight bytes per turn of its loop
  and the rest with \<open>range\<close>, which visits runes.
\<close>

section \<open>The code\<close>

definition offset32 :: u32 where
  "offset32 = 2166136261"

definition prime32 :: u32 where
  "prime32 = 16777619"

definition init32 :: u32 where
  "init32 = offset32"

text \<open>One turn: \<open>h = (h ^ x) * prime32\<close>.\<close>

definition fnv_step :: "u32 \<Rightarrow> u32 \<Rightarrow> u32" where
  "fnv_step h x = (h XOR x) * prime32"

abbreviation fnv_byte :: "u32 \<Rightarrow> char \<Rightarrow> u32" where
  "fnv_byte h c \<equiv> fnv_step h (of_nat (byte_val c))"

text \<open>
  The argument holds the bytes \<open>s[i:]\<close> still to hash: the first equation is a turn of the
  unrolled loop, the second the loop over the runes of the fewer than eight bytes left.
\<close>

fun addString32 :: "u32 \<Rightarrow> bytes \<Rightarrow> u32" where
  "addString32 h (c0 # c1 # c2 # c3 # c4 # c5 # c6 # c7 # s) =
     (let h = fnv_byte h c0;
          h = fnv_byte h c1;
          h = fnv_byte h c2;
          h = fnv_byte h c3;
          h = fnv_byte h c4;
          h = fnv_byte h c5;
          h = fnv_byte h c6;
          h = fnv_byte h c7
      in addString32 h s)"
| "addString32 h s = foldl (\<lambda>h r. fnv_step h (of_nat r)) h (runes s)"

definition hashString32 :: "bytes \<Rightarrow> u32" where
  "hashString32 s = addString32 init32 s"

definition appendString32 :: "bytes \<Rightarrow> u32 \<Rightarrow> bytes \<Rightarrow> bytes \<times> u32" where
  "appendString32 b h s = (b @ s, addString32 h s)"

section \<open>The reference: FNV-1a over bytes\<close>

definition fnv1a :: "u32 \<Rightarrow> bytes \<Rightarrow> u32" where
  "fnv1a h s = foldl fnv_byte h s"

lemma fnv1a_Nil [simp]: "fnv1a h [] = h"
  by (simp add: fnv1a_def)

lemma fnv1a_append [simp]: "fnv1a h (s @ t) = fnv1a (fnv1a h s) t"
  by (simp add: fnv1a_def)

lemma fold_runes_ascii:
  "ascii s \<Longrightarrow> foldl (\<lambda>h r. fnv_step h (of_nat r)) h (runes s) = fnv1a h s"
  by (simp add: runes_ascii fnv1a_def foldl_map)

lemma addString32_ascii: "ascii s \<Longrightarrow> addString32 h s = fnv1a h s"
proof (induction h s rule: addString32.induct)
  case (1 h c0 c1 c2 c3 c4 c5 c6 c7 s)
  then show ?case by (simp add: Let_def fnv1a_def)
qed (simp_all only: addString32.simps fold_runes_ascii)

lemma addString32_append:
  "ascii s \<Longrightarrow> ascii t \<Longrightarrow> addString32 h (s @ t) = addString32 (addString32 h s) t"
  by (simp add: addString32_ascii)

lemma appendString32_fst [simp]: "fst (appendString32 b h s) = b @ s"
  by (simp add: appendString32_def)

section \<open>Properties\<close>

text \<open>On ASCII strings the unrolled hash is the reference FNV-1a from the standard offset basis.\<close>

theorem hashString32_fnv1a: "ascii s \<Longrightarrow> hashString32 s = fnv1a 2166136261 s"
  by (simp add: hashString32_def addString32_ascii init32_def offset32_def)

theorem hashString32_fnv1a_witness:
  "ascii ''custom.metric'' \<and> hashString32 ''custom.metric'' = fnv1a 2166136261 ''custom.metric''"
  using hashString32_fnv1a [of "''custom.metric''"] by simp

text \<open>
  Hashing a string in pieces, as the aggregator does for a context, gives the hash of
  the whole when the pieces are ASCII, wherever they are cut.
\<close>

theorem appendString32_pieces:
  assumes "list_all ascii pieces"
  shows "foldl (\<lambda>(b, h) s. appendString32 b h s) ([], init32) pieces
    = (concat pieces, hashString32 (concat pieces))"
proof -
  have "foldl (\<lambda>(b, h) s. appendString32 b h s) (b, h) pieces
      = (b @ concat pieces, fnv1a h (concat pieces))" if "list_all ascii pieces" for b h
    using that by (induction pieces arbitrary: b h) (simp_all add: appendString32_def addString32_ascii)
  moreover have "ascii (concat pieces)"
    using assms by (induction pieces) simp_all
  ultimately show ?thesis
    using assms by (simp add: hashString32_def addString32_ascii)
qed

theorem appendString32_pieces_witness:
  "foldl (\<lambda>(b, h) s. appendString32 b h s) ([], init32) [''name'', '':'', ''some:tag'']
     = (''name:some:tag'', hashString32 ''name:some:tag'')"
  using appendString32_pieces [of "[''name'', '':'', ''some:tag'']"] by simp

text \<open>
  Beyond ASCII the tail loop hashes runes, not bytes: the two bytes of U+00E9 are one step,
  so the hash is not FNV-1a and depends on how the string is cut.
\<close>

theorem hashString32_runes:
  "hashString32 [CHR 0xC3, CHR 0xA9] \<noteq> fnv1a 2166136261 [CHR 0xC3, CHR 0xA9]
   \<and> hashString32 [CHR 0xC3, CHR 0xA9]
       \<noteq> snd (appendString32 [CHR 0xC3] (hashString32 [CHR 0xC3]) [CHR 0xA9])"
  by (simp add: hashString32_def init32_def offset32_def prime32_def fnv_step_def fnv1a_def
      appendString32_def runes_def cont_byte_def)

end
