(* ===== verification/Format_Facts.thy ===== *)
theory Format_Facts
  imports Format
begin

text \<open>
  What the routines of \<open>format.go\<close> append, as texts that mention no buffer: the datagram
  grammar.  \<open>metric_text\<close>, \<open>event_text\<close> and \<open>service_check_text\<close> are the specification of
  an element; the equations in \<open>append_eq\<close> say that the code implements it, and \<open>no_nl\<close>
  that an element is one line.
\<close>

section \<open>The grammar\<close>

abbreviation strip_nl :: "bytes \<Rightarrow> bytes" where
  "strip_nl s \<equiv> filter (\<lambda>b. b \<noteq> nl) s"

definition header_text :: "bytes \<Rightarrow> bytes \<Rightarrow> bytes" where
  "header_text namespace name = namespace @ name @ '':''"

definition rate_text :: "f64 \<Rightarrow> bytes" where
  "rate_text rate = (if f64_lt rate f64_one then ''|@'' @ fmt_float (- 1) rate else [])"

fun tags_body :: "bytes list \<Rightarrow> bytes" where
  "tags_body [] = []"
| "tags_body [t] = strip_nl t"
| "tags_body (t # ts) = strip_nl t @ '','' @ tags_body ts"

definition tags_text :: "bytes list \<Rightarrow> bytes" where
  "tags_text ts = (if ts = [] then [] else ''|#'' @ tags_body ts)"

definition container_text :: "globals \<Rightarrow> bytes" where
  "container_text g = (if containerID g = [] then [] else ''|c:'' @ containerID g)"

definition env_text :: "globals \<Rightarrow> bool \<Rightarrow> bytes" where
  "env_text g originDetection =
     (if originDetection \<and> externalEnv g \<noteq> [] then ''|e:'' @ externalEnv g else [])"

definition timestamp_text :: "i64 \<Rightarrow> bytes" where
  "timestamp_text t = (if sint t > 0 then ''|T'' @ fmt_int (sint t) else [])"

definition card_text :: "cardinality \<Rightarrow> bytes" where
  "card_text c = (if card_String c = [] then [] else ''|card:'' @ card_String c)"

definition metric_text ::
  "globals \<Rightarrow> bytes \<Rightarrow> bytes \<Rightarrow> bytes list \<Rightarrow> bytes \<Rightarrow> bytes \<Rightarrow> bytes list \<Rightarrow> f64 \<Rightarrow> bool \<Rightarrow> bytes" where
  "metric_text g typeSymbol namespace globalTags name value tags rate originDetection =
     header_text namespace name @ value @ ''|'' @ typeSymbol @ rate_text rate
       @ tags_text (globalTags @ tags) @ container_text g @ env_text g originDetection"

definition optional_text :: "bytes \<Rightarrow> bytes \<Rightarrow> bytes" where
  "optional_text prefix value = (if value = [] then [] else prefix @ value)"

definition time_text :: "go_time \<Rightarrow> bytes" where
  "time_text t = (if isZero t then [] else ''|d:'' @ fmt_int (sint (unix_sec t)))"

definition escape_event :: "bytes \<Rightarrow> bytes" where
  "escape_event s = concat (map (\<lambda>b. if b = nl then escaped_nl else [b]) s)"

definition event_fields_text :: "Event \<Rightarrow> bytes" where
  "event_fields_text e =
     time_text (ev_Timestamp e) @ optional_text ''|h:'' (ev_Hostname e)
       @ optional_text ''|k:'' (ev_AggregationKey e) @ optional_text ''|p:'' (ev_Priority e)
       @ optional_text ''|s:'' (ev_SourceTypeName e) @ optional_text ''|t:'' (ev_AlertType e)"

definition event_text :: "globals \<Rightarrow> Event \<Rightarrow> bytes list \<Rightarrow> bool \<Rightarrow> bytes" where
  "event_text g e globalTags originDetection =
     ''_e{'' @ fmt_int (int (length (ev_Title e))) @ '',''
       @ fmt_int (int (length (escape_event (ev_Text e)))) @ ''}:''
       @ ev_Title e @ ''|'' @ escape_event (ev_Text e) @ event_fields_text e
       @ tags_text (globalTags @ ev_Tags e) @ container_text g @ env_text g originDetection"

fun escape_check :: "bytes \<Rightarrow> bytes" where
  "escape_check [] = []"
| "escape_check (c # s) =
     (if c = nl then escaped_nl @ escape_check s
      else if c = CHR ''m'' \<and> s \<noteq> [] \<and> hd s = CHR '':'' then escaped_m @ escape_check (tl s)
      else c # escape_check s)"

definition service_check_text :: "globals \<Rightarrow> ServiceCheck \<Rightarrow> bytes list \<Rightarrow> bool \<Rightarrow> bytes" where
  "service_check_text g sc globalTags originDetection =
     ''_sc|'' @ sc_Name sc @ ''|'' @ fmt_int (uint (sc_Status sc)) @ time_text (sc_Timestamp sc)
       @ optional_text ''|h:'' (sc_Hostname sc) @ tags_text (globalTags @ sc_Tags sc)
       @ optional_text ''|m:'' (escape_check (sc_Message sc)) @ container_text g
       @ env_text g originDetection"

section \<open>The code appends these texts\<close>

lemma appendHeader_eq [append_eq]: "appendHeader b ns name = b @ header_text ns name"
  by (simp add: appendHeader_def header_text_def)

lemma appendRate_eq [append_eq]: "appendRate b rate = b @ rate_text rate"
  by (simp add: appendRate_def rate_text_def appendFloat_def)

lemma appendNonNewlines_eq: "appendNonNewlines b s = b @ strip_nl s"
  by (induction b s rule: appendNonNewlines.induct) auto

lemma appendWithoutNewlines_eq [append_eq]: "appendWithoutNewlines b s = b @ strip_nl s"
  by (simp add: appendWithoutNewlines_def appendNonNewlines_eq filter_id_iff_no_newline
      no_newline_def)

lemma tags_body_Cons: "ts \<noteq> [] \<Longrightarrow> tags_body (t # ts) = strip_nl t @ '','' @ tags_body ts"
  by (cases ts) auto

lemma appendTagLoop_rest:
  "appendTagLoop b False ts = (b @ (if ts = [] then [] else '','' @ tags_body ts), False)"
  by (induction ts arbitrary: b)
    (auto simp: tagSeparatorSymbol_def appendWithoutNewlines_eq tags_body_Cons Let_def)

lemma appendTagLoop_first: "appendTagLoop b True ts = (b @ tags_body ts, ts = [])"
  by (cases ts) (auto simp: appendTagLoop_rest appendWithoutNewlines_eq tags_body_Cons Let_def)

lemma tags_body_append:
  "us \<noteq> [] \<Longrightarrow> ts \<noteq> [] \<Longrightarrow> tags_body (us @ ts) = tags_body us @ '','' @ tags_body ts"
  by (induction us rule: tags_body.induct) (auto simp: tags_body_Cons)

lemma appendTags_eq [append_eq]: "appendTags b gts ts = b @ tags_text (gts @ ts)"
  by (cases "gts = []"; cases "ts = []")
    (auto simp: appendTags_def tags_text_def appendTagLoop_first appendTagLoop_rest
      tags_body_append Let_def)

lemma appendTagsAggregated_eq [append_eq]:
  "appendTagsAggregated b gts stags =
     b @ tags_text (gts @ (if stags = [] then [] else [stags]))"
  by (cases "gts = []"; cases "stags = []")
    (auto simp: appendTagsAggregated_def tags_text_def appendTagLoop_first
      appendWithoutNewlines_eq tagSeparatorSymbol_def tags_body_append Let_def)

lemma appendContainerID_eq [append_eq]: "appendContainerID g b = b @ container_text g"
  by (simp add: appendContainerID_def container_text_def)

lemma appendTimestamp_eq [append_eq]: "appendTimestamp b t = b @ timestamp_text t"
  by (simp add: appendTimestamp_def timestamp_text_def appendInt_def)

lemma appendExternalEnv_eq [append_eq]: "appendExternalEnv g b od = b @ env_text g od"
  by (simp add: appendExternalEnv_def env_text_def)

lemma appendTagCardinality_eq [append_eq]: "appendTagCardinality b c = b @ card_text c"
  by (simp add: appendTagCardinality_def card_text_def Let_def)

lemma appendFloatMetric_eq [append_eq]:
  "appendFloatMetric g b sy ns gts name v ts rate prec od =
     b @ metric_text g sy ns gts name (fmt_float prec v) ts rate od"
  by (simp add: appendFloatMetric_def metric_text_def append_eq appendFloat_def Let_def)

lemma appendIntegerMetric_eq [append_eq]:
  "appendIntegerMetric g b sy ns gts name v ts rate od =
     b @ metric_text g sy ns gts name (fmt_int (sint v)) ts rate od"
  by (simp add: appendIntegerMetric_def metric_text_def append_eq appendInt_def Let_def)

lemma appendStringMetric_eq [append_eq]:
  "appendStringMetric g b sy ns gts name v ts rate od =
     b @ metric_text g sy ns gts name v ts rate od"
  by (simp add: appendStringMetric_def metric_text_def append_eq Let_def)

lemmas append_metric_defs =
  appendGauge_def appendCount_def appendHistogram_def appendDistribution_def appendSet_def
  appendTiming_def

lemma appendEscapedEventText_eq [append_eq]:
  "appendEscapedEventText b s = b @ escape_event s"
  by (induction b s rule: appendEscapedEventText.induct) (auto simp: escape_event_def)

lemma length_escape_event: "length (escape_event s) = escapedEventTextLen s"
  by (induction s) (auto simp: escape_event_def escapedEventTextLen_def escaped_nl_def)

lemma escape_event_no_newline: "no_newline s \<Longrightarrow> escape_event s = s"
  by (induction s) (auto simp: escape_event_def)

lemma appendOptional_eq [append_eq]: "appendOptional b p v = b @ optional_text p v"
  by (simp add: appendOptional_def optional_text_def)

lemma appendTime_eq [append_eq]: "appendTime b t = b @ time_text t"
  by (simp add: appendTime_def time_text_def appendInt_def)

lemma escapedEventTextLen_eq_iff:
  "escapedEventTextLen s = length s \<longleftrightarrow> no_newline s"
  by (auto simp: escapedEventTextLen_def no_newline_def count_list_0_iff)

lemma escapedEventTextLen_clean: "no_newline s \<Longrightarrow> escapedEventTextLen s = length s"
  by (simp add: escapedEventTextLen_eq_iff)

lemma appendEvent_eq [append_eq]:
  "appendEvent g b e gts od = b @ event_text g e gts od"
  by (cases "no_newline (ev_Text e)")
    (simp_all add: appendEvent_def Let_def append_eq event_text_def event_fields_text_def
      length_escape_event tagSeparatorSymbol_def escapedEventTextLen_clean
      escapedEventTextLen_eq_iff
      escape_event_no_newline)

lemma appendEscapedServiceCheckText_eq [append_eq]:
  "appendEscapedServiceCheckText b s = b @ escape_check s"
  by (induction b s rule: appendEscapedServiceCheckText.induct) auto

lemma escape_check_Nil_iff [simp]: "escape_check s = [] \<longleftrightarrow> s = []"
  by (cases s) (auto simp: escaped_nl_def escaped_m_def)

lemma appendServiceCheck_eq [append_eq]:
  "appendServiceCheck g b sc gts od = b @ service_check_text g sc gts od"
  by (simp add: appendServiceCheck_def Let_def append_eq service_check_text_def
      optional_text_def)

section \<open>One element, one line\<close>

lemma no_newline_symbols [no_nl, simp]:
  "no_newline gaugeSymbol" "no_newline countSymbol" "no_newline histogramSymbol"
  "no_newline distributionSymbol" "no_newline setSymbol" "no_newline timingSymbol"
  by (simp_all add: symbol_defs)

lemma no_newline_rate_text [no_nl, simp]: "no_newline (rate_text r)"
  by (simp add: rate_text_def)

lemma no_newline_tags_body [no_nl, simp]: "no_newline (tags_body ts)"
  by (induction ts rule: tags_body.induct) auto

lemma no_newline_tags_text [no_nl, simp]: "no_newline (tags_text ts)"
  by (simp add: tags_text_def)

lemma no_newline_timestamp_text [no_nl, simp]: "no_newline (timestamp_text t)"
  by (simp add: timestamp_text_def)

lemma no_newline_time_text [no_nl, simp]: "no_newline (time_text t)"
  by (simp add: time_text_def)

lemma no_newline_card_text [no_nl, simp]: "no_newline (card_text c)"
  by (simp add: card_text_def)

lemma no_newline_escape_event [no_nl, simp]: "no_newline (escape_event s)"
  by (induction s) (auto simp: escape_event_def escaped_nl_def)

lemma no_newline_escape_check [no_nl, simp]: "no_newline (escape_check s)"
  by (induction s rule: escape_check.induct) (auto simp: escaped_nl_def escaped_m_def)

lemma no_newline_optional_text [simp]:
  "no_newline p \<Longrightarrow> no_newline v \<Longrightarrow> no_newline (optional_text p v)"
  by (simp add: optional_text_def)

text \<open>The process-wide fields are copied as they are; they must hold no line feed.\<close>

definition clean_globals :: "globals \<Rightarrow> bool" where
  "clean_globals g \<longleftrightarrow> no_newline (containerID g) \<and> no_newline (externalEnv g)"

lemma no_newline_container_text [simp]: "clean_globals g \<Longrightarrow> no_newline (container_text g)"
  by (simp add: container_text_def clean_globals_def)

lemma no_newline_env_text [simp]: "clean_globals g \<Longrightarrow> no_newline (env_text g od)"
  by (simp add: env_text_def clean_globals_def)

lemma no_newline_metric_text [simp]:
  "clean_globals g \<Longrightarrow> no_newline sy \<Longrightarrow> no_newline ns \<Longrightarrow> no_newline name \<Longrightarrow> no_newline v \<Longrightarrow>
   no_newline (metric_text g sy ns gts name v ts rate od)"
  by (simp add: metric_text_def header_text_def)

text \<open>The fields of an event or service check that are copied as they are.\<close>

definition clean_event :: "Event \<Rightarrow> bool" where
  "clean_event e \<longleftrightarrow> no_newline (ev_Title e) \<and> no_newline (ev_Hostname e)
     \<and> no_newline (ev_AggregationKey e) \<and> no_newline (ev_Priority e)
     \<and> no_newline (ev_SourceTypeName e) \<and> no_newline (ev_AlertType e)"

definition clean_check :: "ServiceCheck \<Rightarrow> bool" where
  "clean_check sc \<longleftrightarrow> no_newline (sc_Name sc) \<and> no_newline (sc_Hostname sc)"

lemma no_newline_event_text [simp]:
  "clean_globals g \<Longrightarrow> clean_event e \<Longrightarrow> no_newline (event_text g e gts od)"
  by (simp add: event_text_def event_fields_text_def clean_event_def)

lemma no_newline_service_check_text [simp]:
  "clean_globals g \<Longrightarrow> clean_check sc \<Longrightarrow> no_newline (service_check_text g sc gts od)"
  by (simp add: service_check_text_def clean_check_def)

end
