(* ===== verification/Context.thy ===== *)
theory Context
  imports Fnv Format_Facts
begin

text \<open>
  The aggregation context of \<open>src/statsd/aggregator.go\<close>: the string made of a metric's name,
  cardinality and tags that identifies it in the aggregator's maps, its hash, and the shard
  the hash selects.
\<close>

section \<open>The code\<close>

definition smallContextBufferSize :: int where "smallContextBufferSize = 512"
definition largeContextBufferSize :: int where "largeContextBufferSize = 4 * 1024"

definition getContextLength :: "bytes \<Rightarrow> bytes list \<Rightarrow> bytes \<Rightarrow> int" where
  "getContextLength name tags cardString =
     (if length tags = 0
      then if cardString = '''' then int (length name)
           else int (length name) + int (length nameSeparatorSymbol) + int (length cardString)
      else let n = int (length name) + int (length nameSeparatorSymbol)
                     + int (length tagSeparatorSymbol) * (int (length tags) - 1);
               n = foldl (\<lambda>n tag. n + int (length tag)) n tags
           in if cardString \<noteq> ''''
              then n + (int (length cardString) + int (length cardSeparatorSymbol)) else n)"

text \<open>
  The capacity of the buffer the context is built in: the two stack arrays, or a slice of
  the length that was computed.
\<close>

definition contextCapacity :: "int \<Rightarrow> int" where
  "contextCapacity contextLen =
     (if contextLen \<le> smallContextBufferSize then smallContextBufferSize
      else if contextLen \<le> largeContextBufferSize then largeContextBufferSize
      else contextLen)"

text \<open>The loops over \<open>tags[1:]\<close>.\<close>

fun appendMoreTagsAndHash :: "bytes \<Rightarrow> u32 \<Rightarrow> bytes list \<Rightarrow> bytes \<times> u32" where
  "appendMoreTagsAndHash buf h [] = (buf, h)"
| "appendMoreTagsAndHash buf h (tag # tags) =
     (let (buf, h) = appendString32 buf h tagSeparatorSymbol;
          (buf, h) = appendString32 buf h tag
      in appendMoreTagsAndHash buf h tags)"

fun appendMoreTags :: "bytes \<Rightarrow> bytes list \<Rightarrow> bytes" where
  "appendMoreTags buf [] = buf"
| "appendMoreTags buf (tag # tags) =
     (let buf = buf @ tagSeparatorSymbol; buf = buf @ tag in appendMoreTags buf tags)"

definition appendContextAndHash ::
  "bytes \<Rightarrow> bytes \<Rightarrow> bytes list \<Rightarrow> bytes \<Rightarrow> bytes \<times> u32" where
  "appendContextAndHash buf name tags cardString =
     (let (buf, h) = appendString32 buf init32 name in
      case tags of
        [] \<Rightarrow>
          if cardString = '''' then (buf, h)
          else let (buf, h) = appendString32 buf h nameSeparatorSymbol
               in appendString32 buf h cardString
      | tag0 # rest \<Rightarrow>
          let (buf, h) = appendString32 buf h nameSeparatorSymbol;
              (buf, h) = (if cardString \<noteq> ''''
                          then let (buf, h) = appendString32 buf h cardString
                               in appendString32 buf h cardSeparatorSymbol
                          else (buf, h));
              (buf, h) = appendString32 buf h tag0
          in appendMoreTagsAndHash buf h rest)"

definition appendContext :: "bytes \<Rightarrow> bytes \<Rightarrow> bytes list \<Rightarrow> bytes \<Rightarrow> bytes \<times> int" where
  "appendContext buf name tags cardString =
     (let tagsStart = - 1;
          buf = buf @ name
      in case tags of
        [] \<Rightarrow>
          if cardString = '''' then (buf, tagsStart)
          else (let buf = buf @ nameSeparatorSymbol in (buf @ cardString, tagsStart))
      | tag0 # rest \<Rightarrow>
          let buf = buf @ nameSeparatorSymbol;
              buf = (if cardString \<noteq> ''''
                     then let buf = buf @ cardString in buf @ cardSeparatorSymbol else buf);
              tagsStart = int (length buf);
              buf = buf @ tag0
          in (appendMoreTags buf rest, tagsStart))"

text \<open>\<open>uint32(shardsCount)\<close> wraps; a zero divisor would panic.\<close>

definition getShardIndexFromHash :: "int \<Rightarrow> u32 \<Rightarrow> nat" where
  "getShardIndexFromHash shardsCount contextHash =
     (if shardsCount \<le> 1 then 0 else unat (contextHash mod word_of_int shardsCount))"

section \<open>The context as a text\<close>

fun more_tags :: "bytes list \<Rightarrow> bytes" where
  "more_tags [] = ''''"
| "more_tags (t # ts) = tagSeparatorSymbol @ t @ more_tags ts"

fun join_tags :: "bytes list \<Rightarrow> bytes" where
  "join_tags [] = ''''"
| "join_tags (t # ts) = t @ more_tags ts"

definition context_prefix :: "bytes \<Rightarrow> bytes \<Rightarrow> bytes" where
  "context_prefix name cardString =
     name @ nameSeparatorSymbol
       @ (if cardString = '''' then '''' else cardString @ cardSeparatorSymbol)"

definition context_text :: "bytes \<Rightarrow> bytes list \<Rightarrow> bytes \<Rightarrow> bytes" where
  "context_text name tags cardString =
     (if tags = [] then if cardString = '''' then name else name @ nameSeparatorSymbol @ cardString
      else context_prefix name cardString @ join_tags tags)"

lemmas separator_defs = nameSeparatorSymbol_def tagSeparatorSymbol_def cardSeparatorSymbol_def

lemma ascii_separators [simp]:
  "ascii nameSeparatorSymbol" "ascii tagSeparatorSymbol" "ascii cardSeparatorSymbol"
  by (simp_all add: separator_defs)

lemma appendMoreTags_eq: "appendMoreTags buf ts = buf @ more_tags ts"
  by (induction ts arbitrary: buf) simp_all

lemma appendContext_eq:
  "appendContext buf name tags cs =
     (buf @ context_text name tags cs,
      if tags = [] then - 1 else int (length buf + length (context_prefix name cs)))"
  by (cases tags)
    (simp_all add: appendContext_def context_text_def context_prefix_def appendMoreTags_eq)

lemma fst_appendMoreTagsAndHash: "fst (appendMoreTagsAndHash buf h ts) = buf @ more_tags ts"
  by (induction ts arbitrary: buf h) (simp_all add: appendString32_def)

lemma snd_appendMoreTagsAndHash:
  "\<forall>t \<in> set ts. ascii t \<Longrightarrow> snd (appendMoreTagsAndHash buf h ts) = fnv1a h (more_tags ts)"
  by (induction ts arbitrary: buf h)
    (simp_all add: appendString32_def addString32_ascii fnv1a_def)

lemma fst_appendContextAndHash:
  "fst (appendContextAndHash buf name tags cs) = buf @ context_text name tags cs"
  by (cases tags)
    (simp_all add: appendContextAndHash_def context_text_def context_prefix_def
      appendString32_def fst_appendMoreTagsAndHash Let_def)

lemma snd_appendContextAndHash:
  assumes "ascii name" and "\<forall>t \<in> set tags. ascii t" and "ascii cs"
  shows "snd (appendContextAndHash buf name tags cs) = fnv1a init32 (context_text name tags cs)"
  using assms
  by (cases tags)
    (simp_all add: appendContextAndHash_def context_text_def context_prefix_def appendString32_def
      snd_appendMoreTagsAndHash addString32_ascii Let_def)

lemma ascii_more_tags: "\<forall>t \<in> set ts. ascii t \<Longrightarrow> ascii (more_tags ts)"
  by (induction ts) simp_all

lemma ascii_context_text:
  "ascii name \<Longrightarrow> \<forall>t \<in> set tags. ascii t \<Longrightarrow> ascii cs \<Longrightarrow> ascii (context_text name tags cs)"
  by (cases tags) (simp_all add: context_text_def context_prefix_def ascii_more_tags)

lemma length_join_tags:
  "ts \<noteq> [] \<Longrightarrow> int (length (join_tags ts)) = int (sum_list (map length ts)) + int (length ts) - 1"
proof (cases ts)
  case (Cons t us)
  have "length (more_tags us) = sum_list (map length us) + length us"
    by (induction us) (simp_all add: tagSeparatorSymbol_def)
  with Cons show ?thesis by simp
qed simp

lemma getContextLength_eq:
  "getContextLength name tags cs = int (length (context_text name tags cs))"
proof -
  have "foldl (\<lambda>n tag. n + int (length tag)) n ts = n + int (sum_list (map length ts))"
    for n and ts :: "bytes list"
    by (induction ts arbitrary: n) auto
  then show ?thesis
    by (auto simp: getContextLength_def context_text_def context_prefix_def separator_defs
        length_join_tags Let_def)
qed

section \<open>Which metrics share a context\<close>

text \<open>
  A context determines name, tags and cardinality when the name has no colon and the tags no
  comma and no bar, and no tag list is just a cardinality's name: \<open>m:low\<close> is both the context
  of \<open>m\<close> with cardinality \<open>low\<close> and no tags, and that of \<open>m\<close> with the tag \<open>low\<close>.
\<close>

definition plain_name :: "bytes \<Rightarrow> bool" where
  "plain_name name \<longleftrightarrow> CHR '':'' \<notin> set name"

definition plain_tags :: "bytes list \<Rightarrow> bool" where
  "plain_tags tags \<longleftrightarrow> list_all (\<lambda>t. CHR '','' \<notin> set t \<and> CHR ''|'' \<notin> set t) tags
     \<and> tags \<notin> {[''none''], [''low''], [''orchestrator''], [''high'']}"

lemma break_unique:
  assumes "x \<notin> set a" and "x \<notin> set b"
    and "a @ u = b @ v" and "u = [] \<or> hd u = x" and "v = [] \<or> hd v = x"
  shows "a = b \<and> u = v"
proof -
  have t: "takeWhile (\<lambda>c. c \<noteq> x) (s @ w) = s" if "x \<notin> set s" "w = [] \<or> hd w = x" for s w
    using that by (induction s) (cases w, auto)
  have "a = b"
    using t [OF assms(1,4)] t [OF assms(2,5)] assms(3) by simp
  with assms(3) show ?thesis by simp
qed

lemma more_tags_inj:
  "list_all (\<lambda>t. CHR '','' \<notin> set t) ts \<Longrightarrow> list_all (\<lambda>t. CHR '','' \<notin> set t) us \<Longrightarrow>
   more_tags ts = more_tags us \<Longrightarrow> ts = us"
proof (induction ts arbitrary: us)
  case Nil
  then show ?case by (cases us) (auto simp: tagSeparatorSymbol_def)
next
  case (Cons t ts)
  then obtain u us' where us: "us = u # us'"
    by (cases us) (auto simp: tagSeparatorSymbol_def)
  have hd: "more_tags xs = [] \<or> hd (more_tags xs) = CHR '',''" for xs
    by (cases xs) (simp_all add: tagSeparatorSymbol_def)
  have "t = u \<and> more_tags ts = more_tags us'"
    using break_unique [OF _ _ _ hd hd, of t u ts us'] Cons.prems us by simp
  with Cons us show ?case by simp
qed

lemma join_tags_inj:
  assumes "ts \<noteq> []" and "us \<noteq> []" and "join_tags ts = join_tags us"
    and "list_all (\<lambda>t. CHR '','' \<notin> set t) ts" and "list_all (\<lambda>t. CHR '','' \<notin> set t) us"
  shows "ts = us"
  using more_tags_inj [of ts us] assms by (cases ts; cases us) simp_all

lemma plain_more_tags:
  "list_all (\<lambda>t. c \<notin> set t) ts \<Longrightarrow> c \<noteq> CHR '','' \<Longrightarrow> c \<notin> set (more_tags ts)"
  by (induction ts) (auto simp: tagSeparatorSymbol_def)

lemma plain_join_tags:
  "list_all (\<lambda>t. c \<notin> set t) ts \<Longrightarrow> c \<noteq> CHR '','' \<Longrightarrow> c \<notin> set (join_tags ts)"
  by (cases ts) (simp_all add: plain_more_tags)

definition field_text :: "bytes list \<Rightarrow> bytes \<Rightarrow> bytes" where
  "field_text tags cs =
     (if tags = [] then cs else (if cs = '''' then '''' else cs @ ''|'') @ join_tags tags)"

lemma context_text_fields:
  "context_text name tags cs =
     name @ (if tags = [] \<and> cs = '''' then [] else '':'' @ field_text tags cs)"
  by (simp add: context_text_def context_prefix_def field_text_def separator_defs)

lemma card_String_plain [simp]: "CHR ''|'' \<notin> set (card_String c)" "CHR '','' \<notin> set (card_String c)"
  using card_String_range [of c] by auto

lemma single_tag: "join_tags ts = s \<Longrightarrow> CHR '','' \<notin> set s \<Longrightarrow> ts = [] \<or> ts = [s]"
  by (cases ts rule: join_tags.cases; cases "tl ts") (auto simp: tagSeparatorSymbol_def)

lemma field_text_mixed:
  assumes "plain_tags tags" and "tags \<noteq> []" and "card_String c \<noteq> ''''"
  shows "card_String c \<noteq> field_text tags (card_String d)"
proof
  assume eq: "card_String c = field_text tags (card_String d)"
  have d: "card_String d = ''''"
  proof (rule ccontr)
    assume "card_String d \<noteq> ''''"
    with eq assms(2) have "CHR ''|'' \<in> set (card_String c)"
      by (simp add: field_text_def)
    then show False by simp
  qed
  with eq assms(2) have "join_tags tags = card_String c"
    by (simp add: field_text_def)
  with assms(2) have "tags = [card_String c]"
    using single_tag card_String_plain(2) by blast
  with assms(1,3) show False
    using card_String_range [of c] by (auto simp: plain_tags_def)
qed

lemma field_text_inj:
  assumes "plain_tags tags" and "plain_tags tags'" and "tags \<noteq> []" and "tags' \<noteq> []"
    and "field_text tags (card_String c) = field_text tags' (card_String d)"
  shows "tags = tags' \<and> card_String c = card_String d"
proof -
  have bar: "CHR ''|'' \<notin> set (join_tags tags)" "CHR ''|'' \<notin> set (join_tags tags')"
    using plain_join_tags [of "CHR ''|''"] assms(1,2)
    by (auto simp: plain_tags_def list_all_iff)
  have "card_String c = card_String d \<and> join_tags tags = join_tags tags'"
  proof (cases "card_String c = '''' \<or> card_String d = ''''")
    case True
    with assms(3-5) bar show ?thesis
      by (auto simp: field_text_def split: if_splits) (metis Un_iff list.set_intros(1) set_append)+
  next
    case False
    with assms(3-5) have "card_String c @ (''|'' @ join_tags tags)
        = card_String d @ (''|'' @ join_tags tags')"
      by (simp add: field_text_def)
    from break_unique [OF card_String_plain(1) card_String_plain(1) this] show ?thesis by simp
  qed
  with join_tags_inj [OF assms(3,4)] assms(1,2) show ?thesis
    by (auto simp: plain_tags_def list_all_iff)
qed

lemma context_text_inj:
  assumes "plain_name name" and "plain_name name'" and "plain_tags tags" and "plain_tags tags'"
    and "isValid c" and "isValid d"
    and "context_text name tags (card_String c) = context_text name' tags' (card_String d)"
  shows "name = name' \<and> tags = tags' \<and> c = d"
proof -
  let ?f = "\<lambda>ts cs. if ts = [] \<and> cs = '''' then [] else '':'' @ field_text ts cs"
  have hd: "?f ts cs = [] \<or> hd (?f ts cs) = CHR '':''" for ts cs by simp
  have eq: "name = name' \<and> ?f tags (card_String c) = ?f tags' (card_String d)"
    using break_unique [OF _ _ _ hd hd, of name name' tags "card_String c" tags' "card_String d"]
      assms(1,2,7) by (simp add: plain_name_def context_text_fields)
  have "tags = tags' \<and> card_String c = card_String d"
  proof (cases "tags = []"; cases "tags' = []")
    assume "tags = []" "tags' = []"
    with eq show ?thesis by (auto simp: field_text_def split: if_splits)
  next
    assume "tags = []" "tags' \<noteq> []"
    with eq field_text_mixed [OF assms(4)] show ?thesis
      by (auto simp: field_text_def split: if_splits)
  next
    assume "tags \<noteq> []" "tags' = []"
    with eq field_text_mixed [OF assms(3), of d c] show ?thesis
      by (auto simp: field_text_def split: if_splits)
  next
    assume "tags \<noteq> []" "tags' \<noteq> []"
    with eq field_text_inj [OF assms(3,4), of c d] show ?thesis by simp
  qed
  with eq card_String_inj [OF assms(5,6)] show ?thesis by simp
qed

lemma getShardIndexFromHash_less:
  assumes "1 \<le> n" and "n < 2 ^ 32"
  shows "int (getShardIndexFromHash n h) < n"
proof (cases "n = 1")
  case False
  have "unat (word_of_int n :: u32) = nat n"
    using assms by (simp add: unat_eq_nat_uint uint_word_of_int)
  moreover have "int (unat h mod nat n) < n"
    using assms pos_mod_bound [of n "int (unat h)"] by (simp add: zmod_int)
  ultimately show ?thesis
    using False assms by (simp add: getShardIndexFromHash_def unat_mod)
qed (simp add: getShardIndexFromHash_def)

section \<open>Joined tags on the wire\<close>

lemma strip_more_tags: "strip_nl (more_tags ts) = (if ts = [] then [] else '','' @ tags_body ts)"
  by (induction ts) (auto simp: tagSeparatorSymbol_def tags_body_Cons)

lemma strip_join_tags: "strip_nl (join_tags ts) = tags_body ts"
  by (cases ts) (auto simp: strip_more_tags tags_body_Cons)

lemma join_tags_Nil: "join_tags ts = '''' \<Longrightarrow> ts = [] \<or> ts = ['''']"
  by (cases ts rule: join_tags.cases; cases "tl ts") (auto simp: tagSeparatorSymbol_def)

text \<open>The tags of a buffered metric, cut from its context by \<open>bufferedMetricContexts.sample\<close>.\<close>

definition string_tags :: "bytes \<Rightarrow> bytes list \<Rightarrow> bytes \<Rightarrow> bytes" where
  "string_tags name tags cs =
     (let (context, tagsStart) = appendContext [] name tags cs
      in if tagsStart \<ge> 0 then drop (nat tagsStart) context else '''')"

lemma string_tags_join: "string_tags name tags cs = join_tags tags"
  by (simp add: string_tags_def appendContext_eq context_text_def)

section \<open>Properties\<close>

text \<open>
  The two routines that build a context agree, the length computed beforehand is the
  length of the result, and the buffer chosen from it is large enough, so no byte is ever
  reallocated or lost.
\<close>

theorem context_routines_agree:
  "fst (appendContextAndHash buf name tags cs) = fst (appendContext buf name tags cs)
   \<and> int (length (fst (appendContext buf name tags cs)))
       = int (length buf) + getContextLength name tags cs
   \<and> int (length (fst (appendContext [] name tags cs)))
       \<le> contextCapacity (getContextLength name tags cs)"
  by (simp add: fst_appendContextAndHash appendContext_eq getContextLength_eq contextCapacity_def
      smallContextBufferSize_def largeContextBufferSize_def)

text \<open>
  For ASCII names and tags the hash computed along with a context is the hash of the context,
  and for a bare name it is the hash of the name: the fast path and the buffer path pick the
  same shard.
\<close>

theorem context_hash:
  assumes "ascii name" and "list_all ascii tags"
  shows "snd (appendContextAndHash buf name tags (card_String c))
      = hashString32 (fst (appendContext [] name tags (card_String c)))"
proof -
  have "ascii (card_String c)"
    using card_String_range [of c] by (auto simp: card_String_def)
  with assms snd_appendContextAndHash [of name tags "card_String c" buf]
    ascii_context_text [of name tags "card_String c"] show ?thesis
    by (simp add: list_all_iff appendContext_eq hashString32_def addString32_ascii)
qed

theorem context_hash_witness:
  "snd (appendContextAndHash [] ''name'' [''tag:a'', ''tag:b''] (card_String CardinalityLow))
     = hashString32 (fst (appendContext [] ''name'' [''tag:a'', ''tag:b''] (card_String CardinalityLow)))"
  by (rule context_hash) simp_all

text \<open>
  C34. Contexts separate metrics: two calls have the same context only if name, tags and
  cardinality are equal, provided that names hold no colon, tags hold no comma and no bar, and
  a tag list is not just the name of a cardinality.
\<close>

theorem context_injective:
  assumes "plain_name name" and "plain_name name'" and "plain_tags tags" and "plain_tags tags'"
    and "isValid c" and "isValid d"
    and "fst (appendContext [] name tags (card_String c))
       = fst (appendContext [] name' tags' (card_String d))"
  shows "name = name' \<and> tags = tags' \<and> c = d"
  using context_text_inj [OF assms(1-6)] assms(7) by (simp add: appendContext_eq)

theorem context_injective_witness:
  "fst (appendContext [] ''m'' [''a'', ''b''] (card_String CardinalityLow))
     \<noteq> fst (appendContext [] ''m'' [''a'', ''b''] (card_String CardinalityHigh))"
  using context_injective [of "''m''" "''m''" "[''a'', ''b'']" "[''a'', ''b'']" CardinalityLow
      CardinalityHigh]
  by (auto simp: plain_name_def plain_tags_def isValid_def cardinality_defs)

text \<open>
  Without that proviso contexts collide: a metric with cardinality \<open>low\<close> and no tags shares
  its context with the same metric tagged \<open>low\<close> without a cardinality, and a name with a colon
  shares one with a name and a tag.
\<close>

theorem context_collision:
  "appendContext [] ''m'' [] (card_String CardinalityLow) = (''m:low'', - 1)
   \<and> fst (appendContext [] ''m'' [''low''] (card_String CardinalityNotSet)) = ''m:low''
   \<and> fst (appendContext [] ''m:low'' [] (card_String CardinalityNotSet)) = ''m:low''"
  by (simp add: appendContext_def separator_defs card_String_def cardinality_defs)

text \<open>
  The tags of a buffered metric, cut out of its context as one string, are written like the
  list of tags itself: the aggregated form of the tag section equals the plain one.
\<close>

theorem aggregated_tags_equal:
  assumes "tags \<noteq> ['''']"
  shows "appendTagsAggregated buf globalTags (string_tags name tags cs)
    = appendTags buf globalTags tags"
proof (cases "tags = []")
  case False
  with assms join_tags_Nil [of tags] have "join_tags tags \<noteq> ''''" by blast
  with False show ?thesis
    by (cases "globalTags = []")
      (simp_all add: string_tags_join appendTagsAggregated_eq appendTags_eq tags_text_def
        tags_body_append strip_join_tags)
qed (simp add: string_tags_join appendTagsAggregated_eq appendTags_eq)

theorem aggregated_tags_equal_witness:
  "appendTagsAggregated [] [''env:x''] (string_tags ''m'' [''a'', ''b''] ''low'')
     = appendTags [] [''env:x''] [''a'', ''b'']"
  by (rule aggregated_tags_equal) simp

text \<open>The index of a shard is always within the array, for every hash and number of shards.\<close>

theorem shard_index_in_range:
  assumes "1 \<le> n" and "n < 2 ^ 32"
  shows "int (getShardIndexFromHash n h) < n"
  using getShardIndexFromHash_less [OF assms] .

theorem shard_index_in_range_witness: "int (getShardIndexFromHash 8 0xFFFFFFFF) < 8"
  by (rule shard_index_in_range) simp_all

end
