(* ===== verification/MetricKinds.thy ===== *)
theory MetricKinds
  imports Metric Context
begin

text \<open>
  \<open>src/statsd/metrics.go\<close>: what the aggregator keeps per context.  Counts, gauges and sets
  are folded into one value; histograms, distributions and timings keep their samples, all
  of them or a reservoir of bounded size.

  \<open>totalSamples\<close> and \<open>storedSamples\<close> are 64-bit; a step of the reservoir is \<open>None\<close> where the
  code would panic (\<open>Int63n\<close> of a non-positive number, an index out of range).
\<close>

section \<open>Counts, gauges and sets\<close>

definition copySlice :: "bytes list \<Rightarrow> bytes list" where
  "copySlice src = map (\<lambda>i. src ! i) [0..<length src]"

lemma copySlice_id [simp]: "copySlice src = src"
  by (simp add: copySlice_def map_nth)

record countMetric =
  c_value :: i64
  c_name :: bytes
  c_tags :: "bytes list"
  c_cardinality :: cardinality

definition newCountMetric :: "bytes \<Rightarrow> i64 \<Rightarrow> bytes list \<Rightarrow> cardinality \<Rightarrow> countMetric" where
  "newCountMetric name value tags c =
     \<lparr>c_value = value, c_name = name, c_tags = copySlice tags, c_cardinality = c\<rparr>"

definition count_sample :: "countMetric \<Rightarrow> i64 \<Rightarrow> countMetric" where
  "count_sample c v = c\<lparr>c_value := c_value c + v\<rparr>"

definition count_flushUnsafe :: "countMetric \<Rightarrow> metric" where
  "count_flushUnsafe c =
     zero_metric\<lparr>m_type := countT, m_name := c_name c, m_tags := c_tags c, m_rate := f64_one,
       m_ivalue := c_value c, m_cardinality := c_cardinality c\<rparr>"

text \<open>A gauge keeps the bits of its value; \<open>math.Float64bits\<close> is the identity here.\<close>

record gaugeMetric =
  g_value :: u64
  g_name :: bytes
  g_tags :: "bytes list"
  g_cardinality :: cardinality

definition newGaugeMetric :: "bytes \<Rightarrow> f64 \<Rightarrow> bytes list \<Rightarrow> cardinality \<Rightarrow> gaugeMetric" where
  "newGaugeMetric name value tags c =
     \<lparr>g_value = value, g_name = name, g_tags = copySlice tags, g_cardinality = c\<rparr>"

definition gauge_sample :: "gaugeMetric \<Rightarrow> f64 \<Rightarrow> gaugeMetric" where
  "gauge_sample g v = g\<lparr>g_value := v\<rparr>"

definition gauge_flushUnsafe :: "gaugeMetric \<Rightarrow> metric" where
  "gauge_flushUnsafe g =
     zero_metric\<lparr>m_type := gaugeT, m_name := g_name g, m_tags := g_tags g, m_rate := f64_one,
       m_fvalue := g_value g, m_cardinality := g_cardinality g\<rparr>"

record setMetric =
  s_data :: "unit gomap"
  s_name :: bytes
  s_tags :: "bytes list"
  s_cardinality :: cardinality

definition newSetMetric :: "bytes \<Rightarrow> bytes \<Rightarrow> bytes list \<Rightarrow> cardinality \<Rightarrow> setMetric" where
  "newSetMetric name value tags c =
     \<lparr>s_data = map_put value () [], s_name = name, s_tags = copySlice tags, s_cardinality = c\<rparr>"

definition set_sample :: "setMetric \<Rightarrow> bytes \<Rightarrow> setMetric" where
  "set_sample s v = s\<lparr>s_data := map_put v () (s_data s)\<rparr>"

text \<open>\<open>visit\<close> is the order in which \<open>range\<close> visits the map.\<close>

definition set_flushUnsafe :: "(unit gomap \<Rightarrow> unit gomap) \<Rightarrow> setMetric \<Rightarrow> metric list" where
  "set_flushUnsafe visit s =
     (if length (s_data s) = 0 then []
      else map (\<lambda>(value, _).
          zero_metric\<lparr>m_type := setT, m_name := s_name s, m_tags := s_tags s, m_rate := f64_one,
            m_svalue := value, m_cardinality := s_cardinality s\<rparr>) (visit (s_data s)))"

section \<open>Buffered metrics\<close>

record bufferedMetric =
  b_data :: "f64 list"
  b_storedSamples :: i64
  b_totalSamples :: i64
  b_name :: bytes
  b_tags :: bytes
  b_mtype :: metricType
  b_maxSamples :: i64
  b_specifiedRate :: f64
  b_cardinality :: cardinality

definition newData :: "f64 \<Rightarrow> i64 \<Rightarrow> f64 list" where
  "newData value maxSample =
     (if sint maxSample \<le> 0 then [value]
      else (replicate (nat (sint maxSample)) 0)[0 := value])"

definition newBufferedMetric ::
  "metricType \<Rightarrow> bytes \<Rightarrow> f64 \<Rightarrow> bytes \<Rightarrow> i64 \<Rightarrow> f64 \<Rightarrow> cardinality \<Rightarrow> bufferedMetric" where
  "newBufferedMetric mtype name value stringTags maxSamples rate c =
     \<lparr>b_data = newData value maxSamples, b_storedSamples = 1, b_totalSamples = 1, b_name = name,
      b_tags = stringTags, b_mtype = mtype, b_maxSamples = maxSamples, b_specifiedRate = rate,
      b_cardinality = c\<rparr>"

definition newHistogramMetric where "newHistogramMetric = newBufferedMetric histogramAggregatedT"
definition newDistributionMetric where
  "newDistributionMetric = newBufferedMetric distributionAggregatedT"
definition newTimingMetric where "newTimingMetric = newBufferedMetric timingAggregatedT"

definition sampleUnsafe :: "bufferedMetric \<Rightarrow> f64 \<Rightarrow> bufferedMetric" where
  "sampleUnsafe s v =
     s\<lparr>b_data := b_data s @ [v], b_storedSamples := b_storedSamples s + 1,
       b_totalSamples := b_totalSamples s + 1\<rparr>"

definition buffered_sample :: "bufferedMetric \<Rightarrow> f64 \<Rightarrow> bufferedMetric" where
  "buffered_sample s v = sampleUnsafe s v"

text \<open>\<open>s.data[i] = v\<close>, which panics outside of the slice.\<close>

definition set_index :: "f64 list \<Rightarrow> i64 \<Rightarrow> f64 \<Rightarrow> f64 list option" where
  "set_index xs i v =
     (if 0 \<le> sint i \<and> sint i < int (length xs) then Some (xs[nat (sint i) := v]) else None)"

text \<open>\<open>int63n n\<close> is the value \<open>rand.Int63n(n)\<close> returns for a positive \<open>n\<close>.\<close>

definition maybeKeepSample ::
  "(i64 \<Rightarrow> i64) \<Rightarrow> bufferedMetric \<Rightarrow> f64 \<Rightarrow> bufferedMetric option" where
  "maybeKeepSample int63n s v =
     (if sint (b_maxSamples s) > 0
      then
        if sint (b_storedSamples s) \<ge> sint (b_maxSamples s)
        then if sint (b_totalSamples s) \<le> 0 then None
             else let i = int63n (b_totalSamples s) in
               if sint i < sint (b_maxSamples s)
               then (case set_index (b_data s) i v of
                       None \<Rightarrow> None
                     | Some d \<Rightarrow>
                         Some (s\<lparr>b_data := d, b_totalSamples := b_totalSamples s + 1\<rparr>))
               else Some (s\<lparr>b_totalSamples := b_totalSamples s + 1\<rparr>)
        else (case set_index (b_data s) (b_storedSamples s) v of
                None \<Rightarrow> None
              | Some d \<Rightarrow>
                  Some (s\<lparr>b_data := d, b_storedSamples := b_storedSamples s + 1,
                    b_totalSamples := b_totalSamples s + 1\<rparr>))
      else Some (sampleUnsafe s v))"

definition buffered_flushUnsafe :: "bufferedMetric \<Rightarrow> metric" where
  "buffered_flushUnsafe s =
     (let totalSamples = b_totalSamples s;
          rate = (if \<not> f64_eq (b_specifiedRate s) f64_one then b_specifiedRate s
                  else f64_div (f64_of_int (sint (b_storedSamples s)))
                         (f64_of_int (sint totalSamples)))
      in zero_metric\<lparr>m_type := b_mtype s, m_name := b_name s, m_stags := b_tags s, m_rate := rate,
           m_fvalues := take (nat (sint (b_storedSamples s))) (b_data s),
           m_cardinality := b_cardinality s\<rparr>)"

section \<open>The contract of a folded metric\<close>

text \<open>
  What counts, gauges and sets share: a fresh metric carries the identity it was created
  with and the contribution of one value; sampling changes the value only.
\<close>

locale folded_metric =
  fixes new :: "bytes \<Rightarrow> 'a \<Rightarrow> bytes list \<Rightarrow> cardinality \<Rightarrow> 'm"
    and sample :: "'m \<Rightarrow> 'a \<Rightarrow> 'm"
    and identity :: "'m \<Rightarrow> bytes \<times> bytes list \<times> cardinality"
    and val :: "'m \<Rightarrow> 'v"
    and unit :: "'a \<Rightarrow> 'v"
    and join :: "'v \<Rightarrow> 'a \<Rightarrow> 'v"
  assumes identity_new: "identity (new name v tags c) = (name, tags, c)"
    and val_new: "val (new name v tags c) = unit v"
    and identity_sample: "identity (sample m v) = identity m"
    and val_sample: "val (sample m v) = join (val m) v"
begin

lemma identity_fold: "identity (foldl sample m vs) = identity m"
  by (induction vs arbitrary: m) (simp_all add: identity_sample)

lemma val_fold: "val (foldl sample m vs) = foldl join (val m) vs"
  by (induction vs arbitrary: m) (simp_all add: val_sample)

lemma fold_new:
  "identity (foldl sample (new name v tags c) vs) = (name, tags, c)"
  "val (foldl sample (new name v tags c) vs) = foldl join (unit v) vs"
  by (simp_all add: identity_fold val_fold identity_new val_new)

end

interpretation cm: folded_metric newCountMetric count_sample
  "\<lambda>m. (c_name m, c_tags m, c_cardinality m)" c_value "\<lambda>v. v" "(+)"
  by unfold_locales (simp_all add: newCountMetric_def count_sample_def)

interpretation gm: folded_metric newGaugeMetric gauge_sample
  "\<lambda>m. (g_name m, g_tags m, g_cardinality m)" g_value "\<lambda>v. v" "\<lambda>_ v. v"
  by unfold_locales (simp_all add: newGaugeMetric_def gauge_sample_def)

interpretation sm: folded_metric newSetMetric set_sample
  "\<lambda>m. (s_name m, s_tags m, s_cardinality m)" "\<lambda>m. set (map fst (s_data m))" "\<lambda>v. {v}"
  "\<lambda>vs v. insert v vs"
  by unfold_locales (simp_all add: newSetMetric_def set_sample_def del: set_map)

lemma fold_last: "foldl (\<lambda>_ v. v) v vs = last (v # vs)"
  by (induction vs arbitrary: v) auto

lemma fold_add: "foldl (+) (v :: i64) vs = v + sum_list vs"
  by (induction vs arbitrary: v) (simp_all add: add.assoc)

lemma fold_insert: "foldl (\<lambda>vs v. insert v vs) A vs = A \<union> set vs"
  by (induction vs arbitrary: A) auto

lemma wf_set_fold: "wf_map (s_data m) \<Longrightarrow> wf_map (s_data (foldl set_sample m vs))"
  by (induction vs arbitrary: m) (simp_all add: set_sample_def)

lemma wf_set_new [simp]: "wf_map (s_data (newSetMetric name v tags c))"
  by (simp add: newSetMetric_def wf_map_def)

section \<open>The reservoir\<close>

definition good_int63n :: "(i64 \<Rightarrow> i64) \<Rightarrow> bool" where
  "good_int63n f \<longleftrightarrow> (\<forall>n. 0 < sint n \<longrightarrow> 0 \<le> sint (f n) \<and> sint (f n) < sint n)"

definition wf_buffered :: "bufferedMetric \<Rightarrow> bool" where
  "wf_buffered s \<longleftrightarrow> 1 \<le> sint (b_storedSamples s) \<and>
     (if 0 < sint (b_maxSamples s)
      then length (b_data s) = nat (sint (b_maxSamples s))
        \<and> sint (b_storedSamples s) = min (sint (b_totalSamples s)) (sint (b_maxSamples s))
      else int (length (b_data s)) = sint (b_storedSamples s)
        \<and> sint (b_totalSamples s) = sint (b_storedSamples s))"

definition kept :: "bufferedMetric \<Rightarrow> f64 list" where
  "kept s = take (nat (sint (b_storedSamples s))) (b_data s)"

lemma sint_Suc: "sint x < 2 ^ 63 - 1 \<Longrightarrow> sint (x + 1 :: i64) = sint x + 1"
  using sint_range_size [of x] by (subst sint_word_ariths) (simp add: signed_take_bit_int_eq_self word_size)

lemma newBufferedMetric_fields [simp]:
  "b_totalSamples (newBufferedMetric t name v tags mx rate c) = 1"
  "b_maxSamples (newBufferedMetric t name v tags mx rate c) = mx"
  "b_mtype (newBufferedMetric t name v tags mx rate c) = t"
  "b_name (newBufferedMetric t name v tags mx rate c) = name"
  "b_tags (newBufferedMetric t name v tags mx rate c) = tags"
  "b_specifiedRate (newBufferedMetric t name v tags mx rate c) = rate"
  "b_cardinality (newBufferedMetric t name v tags mx rate c) = c"
  by (simp_all add: newBufferedMetric_def)

lemma wf_newBufferedMetric [simp]: "wf_buffered (newBufferedMetric t name v tags mx rate c)"
  by (auto simp: wf_buffered_def newBufferedMetric_def newData_def)

lemma kept_newBufferedMetric [simp]: "kept (newBufferedMetric t name v tags mx rate c) = [v]"
  by (cases "nat (sint mx)") (auto simp: kept_def newBufferedMetric_def newData_def)

text \<open>
  A step of the reservoir: while there is room, or without a bound, the sample is added at
  the end; afterwards it replaces one kept sample or is dropped.
\<close>

definition reservoir_step :: "i64 \<Rightarrow> i64 \<Rightarrow> f64 list \<Rightarrow> f64 \<Rightarrow> f64 list \<Rightarrow> bool" where
  "reservoir_step mx tot xs v ys \<longleftrightarrow>
     (if sint mx \<le> 0 \<or> sint tot < sint mx then ys = xs @ [v]
      else ys = xs \<or> (\<exists>i < length xs. ys = xs[i := v]))"

definition buffered_identity ::
  "bufferedMetric \<Rightarrow> bytes \<times> bytes \<times> metricType \<times> i64 \<times> f64 \<times> cardinality" where
  "buffered_identity s =
     (b_name s, b_tags s, b_mtype s, b_maxSamples s, b_specifiedRate s, b_cardinality s)"

lemma take_Suc_update: "n < length xs \<Longrightarrow> take (Suc n) (xs[n := v]) = take n xs @ [v]"
  by (simp add: take_Suc_conv_app_nth)

lemma maybeKeepSample_append:
  assumes "wf_buffered s" and "sint (b_totalSamples s) < 2 ^ 63 - 1"
    and "sint (b_maxSamples s) \<le> 0 \<or> sint (b_totalSamples s) < sint (b_maxSamples s)"
  obtains s' where "maybeKeepSample f s v = Some s'" "wf_buffered s'"
    "b_totalSamples s' = b_totalSamples s + 1" "buffered_identity s' = buffered_identity s"
    "kept s' = kept s @ [v]"
proof (cases "0 < sint (b_maxSamples s)")
  case True
  let ?n = "b_storedSamples s"
  have n: "1 \<le> sint ?n" "sint ?n = sint (b_totalSamples s)" "sint ?n < sint (b_maxSamples s)"
    "length (b_data s) = nat (sint (b_maxSamples s))"
    using assms True by (simp_all add: wf_buffered_def)
  let ?s = "s\<lparr>b_data := (b_data s)[nat (sint ?n) := v], b_storedSamples := ?n + 1,
    b_totalSamples := b_totalSamples s + 1\<rparr>"
  have "maybeKeepSample f s v = Some ?s"
    using n True by (simp add: maybeKeepSample_def set_index_def)
  moreover have "wf_buffered ?s"
    using n True assms(2) by (simp add: wf_buffered_def sint_Suc)
  moreover have "kept ?s = kept s @ [v]"
    using n assms(2) take_Suc_update [of "nat (sint ?n)" "b_data s" v]
    by (simp add: kept_def sint_Suc nat_add_distrib)
  ultimately show thesis by (intro that) (simp_all add: buffered_identity_def)
next
  case False
  then have n: "int (length (b_data s)) = sint (b_storedSamples s)"
    "sint (b_totalSamples s) = sint (b_storedSamples s)" "1 \<le> sint (b_storedSamples s)"
    using assms(1) by (simp_all add: wf_buffered_def)
  have "maybeKeepSample f s v = Some (sampleUnsafe s v)"
    using False by (simp add: maybeKeepSample_def)
  moreover have "wf_buffered (sampleUnsafe s v)"
    using n False assms(2) by (simp add: wf_buffered_def sampleUnsafe_def sint_Suc)
  moreover have "kept (sampleUnsafe s v) = kept s @ [v]"
    using n assms(2) by (simp add: kept_def sampleUnsafe_def sint_Suc)
  ultimately show thesis
    by (intro that) (simp_all add: buffered_identity_def sampleUnsafe_def)
qed

lemma maybeKeepSample_replace:
  assumes "wf_buffered s" and "sint (b_totalSamples s) < 2 ^ 63 - 1" and "good_int63n f"
    and "0 < sint (b_maxSamples s)" and "sint (b_maxSamples s) \<le> sint (b_totalSamples s)"
  obtains s' where "maybeKeepSample f s v = Some s'" "wf_buffered s'"
    "b_totalSamples s' = b_totalSamples s + 1" "buffered_identity s' = buffered_identity s"
    "kept s' = kept s \<or> (\<exists>i < length (kept s). kept s' = (kept s)[i := v])"
proof -
  let ?i = "f (b_totalSamples s)"
  have n: "sint (b_storedSamples s) = sint (b_maxSamples s)"
    "length (b_data s) = nat (sint (b_maxSamples s))"
    using assms by (simp_all add: wf_buffered_def)
  have i: "0 \<le> sint ?i"
    using assms(3-5) by (simp add: good_int63n_def)
  show thesis
  proof (cases "sint ?i < sint (b_maxSamples s)")
    case True
    let ?s = "s\<lparr>b_data := (b_data s)[nat (sint ?i) := v], b_totalSamples := b_totalSamples s + 1\<rparr>"
    have "maybeKeepSample f s v = Some ?s"
      using True i n assms(4,5) by (simp add: maybeKeepSample_def set_index_def Let_def)
    moreover have "wf_buffered ?s"
      using assms by (simp add: wf_buffered_def sint_Suc)
    moreover have "\<exists>j < length (kept s). kept ?s = (kept s)[j := v]"
      using True i n by (intro exI [of _ "nat (sint ?i)"]) (simp add: kept_def)
    ultimately show thesis
      by (intro that [of ?s]) (simp_all add: buffered_identity_def)
  next
    case False
    let ?s = "s\<lparr>b_totalSamples := b_totalSamples s + 1\<rparr>"
    have "maybeKeepSample f s v = Some ?s"
      using False n assms(4,5) by (simp add: maybeKeepSample_def Let_def)
    moreover have "wf_buffered ?s"
      using assms by (simp add: wf_buffered_def sint_Suc)
    ultimately show thesis
      by (intro that [of ?s]) (simp_all add: buffered_identity_def kept_def)
  qed
qed

lemma maybeKeepSample_step:
  assumes "wf_buffered s" and "sint (b_totalSamples s) < 2 ^ 63 - 1" and "good_int63n f"
  obtains s' where "maybeKeepSample f s v = Some s'" "wf_buffered s'"
    "b_totalSamples s' = b_totalSamples s + 1" "buffered_identity s' = buffered_identity s"
    "reservoir_step (b_maxSamples s) (b_totalSamples s) (kept s) v (kept s')"
proof (cases "sint (b_maxSamples s) \<le> 0 \<or> sint (b_totalSamples s) < sint (b_maxSamples s)")
  case True
  from maybeKeepSample_append [OF assms(1,2) True] obtain s' where
    "maybeKeepSample f s v = Some s'" "wf_buffered s'"
    "b_totalSamples s' = b_totalSamples s + 1" "buffered_identity s' = buffered_identity s"
    "kept s' = kept s @ [v]" .
  with True show thesis by (intro that) (auto simp: reservoir_step_def)
next
  case False
  then have "0 < sint (b_maxSamples s)" "sint (b_maxSamples s) \<le> sint (b_totalSamples s)"
    by simp_all
  from maybeKeepSample_replace [OF assms this] obtain s' where
    "maybeKeepSample f s v = Some s'" "wf_buffered s'"
    "b_totalSamples s' = b_totalSamples s + 1" "buffered_identity s' = buffered_identity s"
    "kept s' = kept s \<or> (\<exists>i < length (kept s). kept s' = (kept s)[i := v])" .
  with False show thesis by (intro that) (auto simp: reservoir_step_def)
qed

lemma reservoir_step_set: "reservoir_step mx n xs v ys \<Longrightarrow> set ys \<subseteq> insert v (set xs)"
  by (auto simp: reservoir_step_def split: if_splits dest: set_update_subset_insert [THEN subsetD])

lemma length_kept:
  "wf_buffered s \<Longrightarrow> length (kept s) = nat (sint (b_storedSamples s))"
  by (auto simp: wf_buffered_def kept_def split: if_splits)

end
