(* ===== verification/Shards.thy ===== *)
theory Shards
  imports MetricKinds
begin

text \<open>
  The pattern that \<open>aggregator.go\<close> repeats for counts, gauges and sets: an array of maps from
  contexts to metrics.  A call selects a shard and looks its context up under the read lock;
  if it is absent, it takes the write lock, looks again, and inserts a new metric.  A flush
  takes the maps of all the shards and leaves them empty.

  A shard's map is nil until its first insertion; here both nil and empty are the empty list.
\<close>

section \<open>The code\<close>

text \<open>The section under \<open>RLock\<close>: sample the metric of the context if there is one.\<close>

definition sampleFound :: "('m \<Rightarrow> 'm) \<Rightarrow> bytes \<Rightarrow> 'm gomap \<Rightarrow> 'm gomap option" where
  "sampleFound sample context shard =
     (case map_of shard context of
        Some m \<Rightarrow> Some (map_put context (sample m) shard)
      | None \<Rightarrow> None)"

text \<open>The section under \<open>Lock\<close>: look again, then insert.\<close>

definition sampleOrInsert :: "'m \<Rightarrow> ('m \<Rightarrow> 'm) \<Rightarrow> bytes \<Rightarrow> 'm gomap \<Rightarrow> 'm gomap" where
  "sampleOrInsert new sample context shard =
     (case map_of shard context of
        Some m \<Rightarrow> map_put context (sample m) shard
      | None \<Rightarrow> map_put context new shard)"

text \<open>Both, on the shard with the given index; \<open>None\<close> is the panic of an index out of range.\<close>

definition sampleShard ::
  "'m \<Rightarrow> ('m \<Rightarrow> 'm) \<Rightarrow> bytes \<Rightarrow> nat \<Rightarrow> 'm gomap list \<Rightarrow> 'm gomap list option" where
  "sampleShard new sample context i shards =
     (if i < length shards
      then Some (shards[i :=
        (case sampleFound sample context (shards ! i) of
           Some shard \<Rightarrow> shard
         | None \<Rightarrow> sampleOrInsert new sample context (shards ! i))])
      else None)"

text \<open>
  The loop of \<open>flushMetrics\<close> over the shards of one kind: \<open>visit i\<close> is the order in which
  \<open>range\<close> visits the map of shard \<open>i\<close>, \<open>flush\<close> the metric's \<open>flushUnsafe\<close>.
\<close>

fun flushShards ::
  "(nat \<Rightarrow> 'm gomap \<Rightarrow> 'm gomap) \<Rightarrow> (bytes \<times> 'm \<Rightarrow> metric list) \<Rightarrow> nat \<Rightarrow> 'm gomap list
     \<Rightarrow> u64 \<Rightarrow> metric list \<Rightarrow> 'm gomap list \<times> u64 \<times> metric list" where
  "flushShards visit flush i [] nbContext metrics = ([], nbContext, metrics)"
| "flushShards visit flush i (shard # shards) nbContext metrics =
     (if length shard = 0
      then let (rest, nbContext, metrics) =
                 flushShards visit flush (Suc i) shards nbContext metrics
           in (shard # rest, nbContext, metrics)
      else let metrics = metrics @ concat (map flush (visit i shard));
               nbContext = nbContext + of_nat (length shard);
               (rest, nbContext, metrics) =
                 flushShards visit flush (Suc i) shards nbContext metrics
           in ([] # rest, nbContext, metrics))"

section \<open>Flushing\<close>

definition fair_visit :: "(nat \<Rightarrow> 'm gomap \<Rightarrow> 'm gomap) \<Rightarrow> bool" where
  "fair_visit visit \<longleftrightarrow> (\<forall>i m. mset (visit i m) = mset m)"

lemma fair_visit_id [simp]: "fair_visit (\<lambda>_ m. m)"
  by (simp add: fair_visit_def)

lemma mset_concat_map_visit:
  "mset xs = mset ys \<Longrightarrow> mset (concat (map f xs)) = mset (concat (map f ys))"
  by (simp add: mset_concat) (metis mset_map sum_mset_sum_list)

lemma flushShards_spec:
  assumes "fair_visit visit"
    and "flushShards visit flush i shards nb ms = (shards', nb', ms')"
  shows "shards' = replicate (length shards) []"
    and "nb' = nb + of_nat (length (concat shards))"
    and "mset ms' = mset ms + mset (concat (map flush (concat shards)))"
proof -
  have "shards' = replicate (length shards) [] \<and> nb' = nb + of_nat (length (concat shards))
      \<and> mset ms' = mset ms + mset (concat (map flush (concat shards)))"
    using assms(2)
  proof (induction shards arbitrary: i nb ms shards')
    case (Cons s ss)
    have v: "mset (concat (map flush (visit i s))) = mset (concat (map flush s))"
      using assms(1) by (intro mset_concat_map_visit) (simp add: fair_visit_def)
    show ?case
    proof (cases "s = []")
      case True
      with Cons.prems Cons.IH [of "Suc i" nb ms] show ?thesis
        by (cases "flushShards visit flush (Suc i) ss nb ms") auto
    next
      case False
      let ?ms = "ms @ concat (map flush (visit i s))"
      let ?nb = "nb + of_nat (length s)"
      from False Cons.prems v Cons.IH [of "Suc i" ?nb ?ms] show ?thesis
        by (cases "flushShards visit flush (Suc i) ss ?nb ?ms") auto
    qed
  qed simp
  then show "shards' = replicate (length shards) []"
    and "nb' = nb + of_nat (length (concat shards))"
    and "mset ms' = mset ms + mset (concat (map flush (concat shards)))"
    by simp_all
qed

section \<open>Sharded maps and one map\<close>

fun sharded_from :: "(bytes \<Rightarrow> nat) \<Rightarrow> nat \<Rightarrow> 'm gomap list \<Rightarrow> bool" where
  "sharded_from place i [] = True"
| "sharded_from place i (s # ss) \<longleftrightarrow>
     wf_map s \<and> (\<forall>(k, v) \<in> set s. place k = i) \<and> sharded_from place (Suc i) ss"

lemma sharded_from_nth:
  "sharded_from place i ss \<longleftrightarrow>
   (\<forall>j < length ss. wf_map (ss ! j) \<and> (\<forall>(k, v) \<in> set (ss ! j). place k = i + j))"
proof (induction ss arbitrary: i)
  case (Cons s ss)
  show ?case by (auto simp: Cons All_less_Suc2)
qed simp

lemma sharded_from_place:
  "sharded_from place i ss \<Longrightarrow> (k, v) \<in> set (concat ss) \<Longrightarrow> i \<le> place k"
  by (induction ss arbitrary: i) force+

lemma sharded_from_wf: "sharded_from place i ss \<Longrightarrow> wf_map (concat ss)"
proof (induction ss arbitrary: i)
  case (Cons s ss)
  have "fst ` set s \<inter> fst ` set (concat ss) = {}"
    using Cons.prems sharded_from_place [of place "Suc i" ss] by fastforce
  with Cons.prems Cons.IH [of "Suc i"] show ?case by (simp add: wf_map_def)
qed simp

lemma sharded_replicate [simp]: "sharded_from place i (replicate n [])"
  by (simp add: sharded_from_nth)

text \<open>The contents of the shards, as one map.\<close>

definition same_contents :: "'m gomap list \<Rightarrow> 'm gomap \<Rightarrow> bool" where
  "same_contents shards m \<longleftrightarrow> wf_map m \<and> mset (concat shards) = mset m"

lemma lookup_shard:
  assumes "sharded_from place 0 shards" and "same_contents shards m" and "place k < length shards"
  shows "map_of (shards ! place k) k = map_of m k"
proof -
  have "map_of (shards ! place k) k = Some v \<longleftrightarrow> map_of m k = Some v" for v
  proof -
    have s: "set m = set (concat shards)"
      using assms(2) by (metis same_contents_def set_mset_mset)
    have "(k, v) \<in> set (shards ! place k)" if c: "(k, v) \<in> set (concat shards)"
    proof -
      obtain j where j: "j < length shards" "(k, v) \<in> set (shards ! j)"
        using c by (auto dest: in_set_conv_nth [of _ shards, THEN iffD1])
      with assms(1) have "place k = j" by (auto simp: sharded_from_nth)
      with j(2) show ?thesis by simp
    qed
    moreover have "(k, v) \<in> set (concat shards)" if "(k, v) \<in> set (shards ! place k)"
      using that nth_mem [OF assms(3)] by auto
    ultimately have "(k, v) \<in> set m \<longleftrightarrow> (k, v) \<in> set (shards ! place k)"
      unfolding s by blast
    moreover have "distinct (map fst m)" "distinct (map fst (shards ! place k))"
      using assms by (simp_all add: same_contents_def sharded_from_nth wf_map_def)
    ultimately show ?thesis by (simp add: map_of_eq_Some_iff)
  qed
  then show ?thesis by (metis option.exhaust)
qed

lemma mset_map_put:
  "mset (map_put k v m) + (case map_of m k of None \<Rightarrow> {#} | Some u \<Rightarrow> {#(k, u)#})
     = add_mset (k, v) (mset m)"
  by (induction m) (auto split: option.split)

lemma exchange_mset:
  assumes "s' + u = add_mset x s" and "p + u = add_mset x c" and "c' + s = c + s'"
  shows "c' = p"
proof -
  have "c' + (s + u) = c + (s' + u)"
    using assms(3) by (simp add: add.assoc [symmetric])
  also have "\<dots> = (p + u) + s"
    by (simp add: assms(1,2))
  finally show ?thesis by (simp add: ac_simps)
qed

lemma same_contents_put:
  assumes "sharded_from place 0 shards" and "same_contents shards m" and "place k < length shards"
  shows "same_contents (shards[place k := map_put k v (shards ! place k)]) (map_put k v m)"
proof -
  let ?i = "place k"
  let ?u = "case map_of m k of None \<Rightarrow> {#} | Some u \<Rightarrow> {#(k, u)#}"
  have "mset (map_put k v (shards ! ?i)) + ?u = add_mset (k, v) (mset (shards ! ?i))"
    using mset_map_put [of k v "shards ! ?i"] lookup_shard [OF assms] by simp
  moreover have "mset (map_put k v m) + ?u = add_mset (k, v) (mset (concat shards))"
    using mset_map_put [of k v m] assms(2) by (simp add: same_contents_def)
  moreover note concat_list_update [OF assms(3), of "map_put k v (shards ! ?i)"]
  ultimately have "mset (concat (shards[?i := map_put k v (shards ! ?i)])) = mset (map_put k v m)"
    by (rule exchange_mset)
  then show ?thesis
    using assms(2) by (simp add: same_contents_def)
qed

lemma sharded_put:
  assumes "sharded_from place 0 shards" and "place k < length shards"
  shows "sharded_from place 0 (shards[place k := map_put k v (shards ! place k)])"
  using assms by (auto simp: sharded_from_nth nth_list_update dest!: in_set_map_put)

section \<open>Sampling refines the single map\<close>

text \<open>One call on one map, and a run of calls.\<close>

definition put_call :: "'m \<Rightarrow> ('m \<Rightarrow> 'm) \<Rightarrow> bytes \<Rightarrow> 'm gomap \<Rightarrow> 'm gomap" where
  "put_call new sample k m =
     map_put k (case map_of m k of None \<Rightarrow> new | Some u \<Rightarrow> sample u) m"

lemma sampleShard_eq:
  "sampleShard new sample k i shards =
     (if i < length shards then Some (shards[i := put_call new sample k (shards ! i)]) else None)"
  by (simp add: sampleShard_def sampleFound_def sampleOrInsert_def put_call_def split: option.split)

lemma sampleShard_refines:
  assumes "sharded_from place 0 shards" and "same_contents shards m" and "place k < length shards"
  obtains shards' where "sampleShard new sample k (place k) shards = Some shards'"
    "length shards' = length shards" "sharded_from place 0 shards'"
    "same_contents shards' (put_call new sample k m)"
  using that assms same_contents_put [OF assms] sharded_put [OF assms(1,3)] lookup_shard [OF assms]
  by (simp add: sampleShard_eq put_call_def)

text \<open>A shared contract: how a kind of call names its context and shard.\<close>

locale sharded_store =
  fixes key :: "'c \<Rightarrow> bytes"
    and new :: "'c \<Rightarrow> 'm"
    and sample :: "'c \<Rightarrow> 'm \<Rightarrow> 'm"
    and valid :: "'c \<Rightarrow> bool"
    and index :: "'c \<Rightarrow> nat"
    and place :: "bytes \<Rightarrow> nat"
    and n :: nat
  assumes index_place: "valid c \<Longrightarrow> index c = place (key c)"
    and index_less: "valid c \<Longrightarrow> index c < n"
begin

definition call :: "'c \<Rightarrow> 'm gomap list \<Rightarrow> 'm gomap list option" where
  "call c shards = sampleShard (new c) (sample c) (key c) (index c) shards"

definition put_all :: "'c list \<Rightarrow> 'm gomap \<Rightarrow> 'm gomap" where
  "put_all cs m = foldl (\<lambda>m c. put_call (new c) (sample c) (key c) m) m cs"

text \<open>The metric of a context after some calls: the first creates it, the others sample it.\<close>

definition summary :: "'c list \<Rightarrow> bytes \<Rightarrow> 'm option" where
  "summary cs k =
     (case filter (\<lambda>c. key c = k) cs of
        [] \<Rightarrow> None
      | c # cs \<Rightarrow> Some (foldl (\<lambda>m c. sample c m) (new c) cs))"

lemma put_all_snoc:
  "put_all (cs @ [c]) m = put_call (new c) (sample c) (key c) (put_all cs m)"
  by (simp add: put_all_def)

lemma wf_put_all: "wf_map m \<Longrightarrow> wf_map (put_all cs m)"
  by (induction cs rule: rev_induct) (simp add: put_all_def, simp add: put_all_snoc put_call_def)

lemma lookup_put_all: "map_of (put_all cs []) k = summary cs k"
proof (induction cs rule: rev_induct)
  case Nil
  then show ?case by (simp add: put_all_def summary_def)
next
  case (snoc c cs)
  then show ?case
    by (auto simp: put_all_snoc put_call_def summary_def split: list.split)
qed

text \<open>What the shards hold after some calls, as a multiset: one entry per context.\<close>

definition entries :: "'c list \<Rightarrow> (bytes \<times> 'm) list" where
  "entries cs = map (\<lambda>k. (k, the (summary cs k))) (remdups (map key cs))"

lemma summary_Some: "k \<in> key ` set cs \<longleftrightarrow> summary cs k \<noteq> None"
proof -
  have "k \<in> key ` set cs \<longleftrightarrow> filter (\<lambda>c. key c = k) cs \<noteq> []"
    by (auto simp: filter_empty_conv)
  then show ?thesis by (simp add: summary_def split: list.split)
qed

lemma mset_put_all: "mset (put_all cs []) = mset (entries cs)"
proof (rule mset_eq_of_lookup)
  show "wf_map (put_all cs [])" by (simp add: wf_put_all)
  show "wf_map (entries cs)" by (simp add: wf_map_def entries_def comp_def)
  show "map_of (put_all cs []) = map_of (entries cs)"
  proof
    fix k
    show "map_of (put_all cs []) k = map_of (entries cs) k"
      using summary_Some [of k cs]
      by (auto simp: lookup_put_all entries_def map_of_map_restrict restrict_map_def)
  qed
qed

text \<open>The shards hold what some calls have left.\<close>

definition holds :: "'c list \<Rightarrow> 'm gomap list \<Rightarrow> bool" where
  "holds cs shards \<longleftrightarrow> length shards = n \<and> sharded_from place 0 shards
     \<and> same_contents shards (put_all cs [])"

lemma holds_new: "holds [] (replicate n [])"
  by (simp add: holds_def same_contents_def put_all_def)

lemma holds_call:
  assumes "valid c" and "holds cs shards"
  shows "\<exists>shards'. call c shards = Some shards' \<and> holds (cs @ [c]) shards'"
proof -
  have "sharded_from place 0 shards" and "same_contents shards (put_all cs [])"
    and "place (key c) < length shards"
    using assms index_less [of c] by (simp_all add: holds_def index_place [OF assms(1)])
  from sampleShard_refines [OF this, of "new c" "sample c"] show ?thesis
    using assms by (auto simp: call_def holds_def index_place put_all_snoc)
qed

lemma holds_entries: "holds cs shards \<Longrightarrow> mset (concat shards) = mset (entries cs)"
  by (simp add: holds_def same_contents_def mset_put_all)

end

end
