(* ===== verification/BufferedContexts.thy ===== *)
theory BufferedContexts
  imports Shards
begin

text \<open>
  \<open>src/statsd/buffered_metric_context.go\<close>: the contexts of histograms, distributions and
  timings.  \<open>draw\<close> is the value of \<open>Float64()\<close> for the sampling decision, \<open>int63n\<close> stands for
  \<open>rand.Int63n\<close>, and \<open>None\<close> is a panic.
\<close>

section \<open>The code\<close>

record bufferedMetricContexts =
  bc_nbContext :: u64
  bc_values :: "bufferedMetric gomap"
  bc_newMetric :: "bytes \<Rightarrow> f64 \<Rightarrow> bytes \<Rightarrow> f64 \<Rightarrow> cardinality \<Rightarrow> bufferedMetric"

definition newBufferedContexts ::
  "(bytes \<Rightarrow> f64 \<Rightarrow> bytes \<Rightarrow> i64 \<Rightarrow> f64 \<Rightarrow> cardinality \<Rightarrow> bufferedMetric) \<Rightarrow> i64
     \<Rightarrow> bufferedMetricContexts" where
  "newBufferedContexts newMetric maxSamples =
     \<lparr>bc_nbContext = 0, bc_values = [],
      bc_newMetric = (\<lambda>name value stringTags rate c.
        newMetric name value stringTags maxSamples rate c)\<rparr>"

definition bc_flush ::
  "(bufferedMetric gomap \<Rightarrow> bufferedMetric gomap) \<Rightarrow> bufferedMetricContexts \<Rightarrow> metric list
     \<Rightarrow> bufferedMetricContexts \<times> metric list" where
  "bc_flush visit bc metrics =
     (let values = bc_values bc
      in (bc\<lparr>bc_values := [], bc_nbContext := bc_nbContext bc + of_nat (length values)\<rparr>,
          metrics @ map (\<lambda>(_, d). buffered_flushUnsafe d) (visit values)))"

text \<open>Sample the metric of a known context.\<close>

definition bc_keep ::
  "(i64 \<Rightarrow> i64) \<Rightarrow> bytes \<Rightarrow> bufferedMetric \<Rightarrow> f64 \<Rightarrow> bufferedMetricContexts
     \<Rightarrow> bufferedMetricContexts option" where
  "bc_keep int63n context v value bc =
     (case maybeKeepSample int63n v value of
        None \<Rightarrow> None
      | Some v \<Rightarrow> Some (bc\<lparr>bc_values := map_put context v (bc_values bc)\<rparr>))"

text \<open>
  The metric is looked up under the read lock and, if absent, again under the write lock,
  where it is created.
\<close>

definition bc_sampleContext ::
  "(i64 \<Rightarrow> i64) \<Rightarrow> bytes \<Rightarrow> bufferedMetric \<Rightarrow> f64 \<Rightarrow> bufferedMetricContexts
     \<Rightarrow> bufferedMetricContexts option" where
  "bc_sampleContext int63n context fresh value bc =
     (case map_of (bc_values bc) context of
        Some v \<Rightarrow> bc_keep int63n context v value bc
      | None \<Rightarrow>
          (case map_of (bc_values bc) context of
             None \<Rightarrow> Some (bc\<lparr>bc_values := map_put context fresh (bc_values bc)\<rparr>)
           | Some v \<Rightarrow> bc_keep int63n context v value bc))"

definition bc_sampleWithContextBuffer ::
  "(i64 \<Rightarrow> i64) \<Rightarrow> bytes \<Rightarrow> bytes \<Rightarrow> f64 \<Rightarrow> bytes list \<Rightarrow> f64 \<Rightarrow> cardinality \<Rightarrow> bytes
     \<Rightarrow> bufferedMetricContexts \<Rightarrow> bufferedMetricContexts option" where
  "bc_sampleWithContextBuffer int63n contextBuffer name value tags rate c cardString bc =
     (let (context, tagsStart) = appendContext contextBuffer name tags cardString;
          stringTags = (if tagsStart \<ge> 0 then drop (nat tagsStart) context else '''')
      in bc_sampleContext int63n context (bc_newMetric bc name value stringTags rate c) value bc)"

definition bc_sampleWithLargeContextBuffer ::
  "(i64 \<Rightarrow> i64) \<Rightarrow> int \<Rightarrow> bytes \<Rightarrow> f64 \<Rightarrow> bytes list \<Rightarrow> f64 \<Rightarrow> cardinality \<Rightarrow> bytes
     \<Rightarrow> bufferedMetricContexts \<Rightarrow> bufferedMetricContexts option" where
  "bc_sampleWithLargeContextBuffer int63n contextLen name value tags rate c cardString bc =
     (if contextLen \<le> largeContextBufferSize
      then bc_sampleWithContextBuffer int63n [] name value tags rate c cardString bc
      else bc_sampleWithContextBuffer int63n [] name value tags rate c cardString bc)"

definition bc_sample ::
  "(i64 \<Rightarrow> i64) \<Rightarrow> f64 \<Rightarrow> bytes \<Rightarrow> f64 \<Rightarrow> bytes list \<Rightarrow> f64 \<Rightarrow> cardinality
     \<Rightarrow> bufferedMetricContexts \<Rightarrow> bufferedMetricContexts option" where
  "bc_sample int63n draw name value tags rate c bc =
     (if f64_lt rate f64_one \<and> \<not> shouldSample rate draw then Some bc
      else if length tags = 0 \<and> c = CardinalityNotSet
      then bc_sampleContext int63n name (bc_newMetric bc name value '''' rate c) value bc
      else let cardString = card_String c;
               contextLen = getContextLength name tags cardString
           in if contextLen \<le> smallContextBufferSize
              then bc_sampleWithContextBuffer int63n [] name value tags rate c cardString bc
              else bc_sampleWithLargeContextBuffer int63n contextLen name value tags rate c
                     cardString bc)"

definition getNbContext :: "bufferedMetricContexts \<Rightarrow> u64" where
  "getNbContext bc = bc_nbContext bc"

section \<open>One equation for every path\<close>

text \<open>The three paths of \<open>bc_sample\<close> use the same context and the same joined tags.\<close>

lemma bc_sample_eq:
  "bc_sample int63n draw name value tags rate c bc =
     (if f64_lt rate f64_one \<and> \<not> shouldSample rate draw then Some bc
      else bc_sampleContext int63n (context_text name tags (card_String c))
             (bc_newMetric bc name value (join_tags tags) rate c) value bc)"
  by (auto simp: bc_sample_def bc_sampleWithLargeContextBuffer_def bc_sampleWithContextBuffer_def
      appendContext_eq context_text_def Let_def)

lemma bc_sampleContext_eq:
  "bc_sampleContext int63n context fresh value bc =
     (case map_of (bc_values bc) context of
        None \<Rightarrow> Some (bc\<lparr>bc_values := map_put context fresh (bc_values bc)\<rparr>)
      | Some v \<Rightarrow> bc_keep int63n context v value bc)"
  by (simp add: bc_sampleContext_def split: option.split)

section \<open>The invariant\<close>

text \<open>
  Every metric is well formed, was created with the bound \<open>mx\<close> and type \<open>ty\<close>, and has seen
  at most \<open>seen\<close> samples.
\<close>

definition wf_contexts :: "metricType \<Rightarrow> i64 \<Rightarrow> int \<Rightarrow> bufferedMetricContexts \<Rightarrow> bool" where
  "wf_contexts ty mx seen bc \<longleftrightarrow> wf_map (bc_values bc)
     \<and> bc_newMetric bc = (\<lambda>name value stringTags rate c.
          newBufferedMetric ty name value stringTags mx rate c)
     \<and> (\<forall>(k, m) \<in> set (bc_values bc). wf_buffered m \<and> b_maxSamples m = mx \<and> b_mtype m = ty
          \<and> sint (b_totalSamples m) \<le> seen)"

lemma wf_contexts_new [simp]:
  "wf_contexts ty mx n (newBufferedContexts (newBufferedMetric ty) mx)"
  by (simp add: wf_contexts_def newBufferedContexts_def)

lemma wf_contexts_put:
  assumes "wf_contexts ty mx seen bc" and "seen \<le> seen'"
    and "wf_buffered m" and "b_maxSamples m = mx" and "b_mtype m = ty"
    and "sint (b_totalSamples m) \<le> seen'"
  shows "wf_contexts ty mx seen' (bc\<lparr>bc_values := map_put k m (bc_values bc)\<rparr>)"
  using assms by (auto simp: wf_contexts_def dest!: in_set_map_put)

lemma bc_sample_wf:
  assumes "wf_contexts ty mx seen bc" and "0 \<le> seen" and "seen < 2 ^ 63 - 1" and "good_int63n int63n"
  shows "\<exists>bc'. bc_sample int63n draw name value tags rate c bc = Some bc'
    \<and> wf_contexts ty mx (seen + 1) bc'"
proof (cases "f64_lt rate f64_one \<and> \<not> shouldSample rate draw")
  case True
  have "wf_contexts ty mx (seen + 1) bc"
    using assms(1) by (force simp: wf_contexts_def)
  with True show ?thesis by (simp add: bc_sample_eq)
next
  case False
  let ?k = "context_text name tags (card_String c)"
  have run: "bc_sample int63n draw name value tags rate c bc = bc_sampleContext int63n ?k
      (bc_newMetric bc name value (join_tags tags) rate c) value bc"
    using False by (auto simp: bc_sample_eq)
  show ?thesis
  proof (cases "map_of (bc_values bc) ?k")
    case None
    have "bc_newMetric bc name value (join_tags tags) rate c
        = newBufferedMetric ty name value (join_tags tags) mx rate c"
      using assms(1) by (simp add: wf_contexts_def)
    moreover have "wf_contexts ty mx (seen + 1) (bc\<lparr>bc_values := map_put ?k
        (newBufferedMetric ty name value (join_tags tags) mx rate c) (bc_values bc)\<rparr>)"
      using assms(2) by (intro wf_contexts_put [OF assms(1)]) simp_all
    ultimately show ?thesis
      using None by (simp add: run bc_sampleContext_eq)
  next
    case (Some v)
    then have v: "wf_buffered v" "b_maxSamples v = mx" "b_mtype v = ty"
      "sint (b_totalSamples v) \<le> seen"
      using assms(1) by (auto simp: wf_contexts_def dest: map_of_SomeD)
    with assms(3) have "sint (b_totalSamples v) < 2 ^ 63 - 1" by simp
    from maybeKeepSample_step [OF v(1) this assms(4)] obtain v' where
      v': "maybeKeepSample int63n v value = Some v'" "wf_buffered v'"
      "b_totalSamples v' = b_totalSamples v + 1" "buffered_identity v' = buffered_identity v" .
    have "wf_contexts ty mx (seen + 1) (bc\<lparr>bc_values := map_put ?k v' (bc_values bc)\<rparr>)"
      using v v' assms(3)
      by (intro wf_contexts_put [OF assms(1)]) (simp_all add: buffered_identity_def sint_Suc)
    with Some v'(1) show ?thesis
      by (simp add: run bc_sampleContext_eq bc_keep_def)
  qed
qed

section \<open>Without a bound every sample is kept\<close>

text \<open>A run of kept samples; a call is name, value, tags, rate and cardinality.\<close>

type_synonym buffered_call = "bytes \<times> f64 \<times> bytes list \<times> f64 \<times> cardinality"

fun bc_calls ::
  "(i64 \<Rightarrow> i64) \<Rightarrow> buffered_call list \<Rightarrow> bufferedMetricContexts \<Rightarrow> bufferedMetricContexts option" where
  "bc_calls int63n [] bc = Some bc"
| "bc_calls int63n ((name, value, tags, rate, c) # calls) bc =
     (case bc_sample int63n 0 name value tags rate c bc of
        None \<Rightarrow> None
      | Some bc \<Rightarrow> bc_calls int63n calls bc)"

definition call_context :: "buffered_call \<Rightarrow> bytes" where
  "call_context = (\<lambda>(name, value, tags, rate, c). context_text name tags (card_String c))"

definition call_value :: "buffered_call \<Rightarrow> f64" where
  "call_value = (\<lambda>(name, value, tags, rate, c). value)"

definition call_rate :: "buffered_call \<Rightarrow> f64" where
  "call_rate = (\<lambda>(name, value, tags, rate, c). rate)"

definition values_of :: "bytes \<Rightarrow> buffered_call list \<Rightarrow> f64 list" where
  "values_of k calls = map call_value (filter (\<lambda>c. call_context c = k) calls)"

text \<open>
  The samples kept for a context, as a list; empty for an unknown one.
\<close>

definition kept_for :: "bufferedMetricContexts \<Rightarrow> bytes \<Rightarrow> f64 list" where
  "kept_for bc k = (case map_of (bc_values bc) k of None \<Rightarrow> [] | Some m \<Rightarrow> kept m)"

definition total_for :: "bufferedMetricContexts \<Rightarrow> bytes \<Rightarrow> int" where
  "total_for bc k =
     (case map_of (bc_values bc) k of None \<Rightarrow> 0 | Some m \<Rightarrow> sint (b_totalSamples m))"

lemma bc_sample_kept:
  assumes "wf_contexts ty mx seen bc" and "seen < 2 ^ 63 - 1" and "good_int63n int63n"
    and "bc_sample int63n draw name value tags rate c bc = Some bc'" and "\<not> f64_lt rate f64_one"
  defines "k \<equiv> context_text name tags (card_String c)"
  shows "total_for bc' k' = total_for bc k' + (if k' = k then 1 else 0)"
    and "sint mx \<le> 0 \<Longrightarrow> kept_for bc' k' = kept_for bc k' @ (if k' = k then [value] else [])"
    and "set (kept_for bc' k') \<subseteq> set (kept_for bc k') \<union> (if k' = k then {value} else {})"
proof -
  have new: "bc_newMetric bc name value (join_tags tags) rate c
      = newBufferedMetric ty name value (join_tags tags) mx rate c"
    using assms(1) by (simp add: wf_contexts_def)
  have run: "bc_sampleContext int63n k
      (newBufferedMetric ty name value (join_tags tags) mx rate c) value bc = Some bc'"
    using assms(4,5) new by (simp add: bc_sample_eq k_def)
  have "total_for bc' k' = total_for bc k' + (if k' = k then 1 else 0) \<and>
    (sint mx \<le> 0 \<longrightarrow> kept_for bc' k' = kept_for bc k' @ (if k' = k then [value] else [])) \<and>
    set (kept_for bc' k') \<subseteq> set (kept_for bc k') \<union> (if k' = k then {value} else {})"
  proof (cases "map_of (bc_values bc) k")
    case None
    with run have "bc' = bc\<lparr>bc_values := map_put k
        (newBufferedMetric ty name value (join_tags tags) mx rate c) (bc_values bc)\<rparr>"
      by (simp add: bc_sampleContext_eq)
    with None show ?thesis by (simp add: total_for_def kept_for_def)
  next
    case (Some v)
    then have v: "wf_buffered v" "b_maxSamples v = mx" "sint (b_totalSamples v) < 2 ^ 63 - 1"
      using assms(1,2) by (auto simp: wf_contexts_def dest!: map_of_SomeD)
    from maybeKeepSample_step [OF v(1,3) assms(3)] obtain v' where
      v': "maybeKeepSample int63n v value = Some v'" "b_totalSamples v' = b_totalSamples v + 1"
      "reservoir_step mx (b_totalSamples v) (kept v) value (kept v')"
      using v(2) by metis
    with run Some have "bc' = bc\<lparr>bc_values := map_put k v' (bc_values bc)\<rparr>"
      by (simp add: bc_sampleContext_eq bc_keep_def)
    with Some v v' reservoir_step_set [OF v'(3)] show ?thesis
      by (auto simp: total_for_def kept_for_def sint_Suc reservoir_step_def)
  qed
  then show "total_for bc' k' = total_for bc k' + (if k' = k then 1 else 0)"
    and "sint mx \<le> 0 \<Longrightarrow> kept_for bc' k' = kept_for bc k' @ (if k' = k then [value] else [])"
    and "set (kept_for bc' k') \<subseteq> set (kept_for bc k') \<union> (if k' = k then {value} else {})"
    by simp_all
qed

lemma bc_calls_kept:
  assumes "wf_contexts ty mx seen bc" and "0 \<le> seen" and "seen + int (length calls) < 2 ^ 63"
    and "good_int63n int63n" and "list_all (\<lambda>c. \<not> f64_lt (call_rate c) f64_one) calls"
  shows "\<exists>bc'. bc_calls int63n calls bc = Some bc'
    \<and> wf_contexts ty mx (seen + int (length calls)) bc'
    \<and> total_for bc' k = total_for bc k + int (length (values_of k calls))
    \<and> (sint mx \<le> 0 \<longrightarrow> kept_for bc' k = kept_for bc k @ values_of k calls)
    \<and> set (kept_for bc' k) \<subseteq> set (kept_for bc k) \<union> set (values_of k calls)"
  using assms(1-3,5)
proof (induction calls arbitrary: seen bc)
  case Nil
  then show ?case by (simp add: values_of_def)
next
  case (Cons a calls)
  obtain name val tags rate c where a: "a = (name, val, tags, rate, c)"
    by (metis prod_cases5)
  have s: "seen < 2 ^ 63 - 1" and r: "\<not> f64_lt rate f64_one"
    using Cons.prems(3,4) a by (simp_all add: call_rate_def)
  from bc_sample_wf [OF Cons.prems(1,2) s assms(4)] obtain bc1 where
    bc1: "bc_sample int63n 0 name val tags rate c bc = Some bc1" "wf_contexts ty mx (seen + 1) bc1"
    by blast
  note step = bc_sample_kept [OF Cons.prems(1) s assms(4) bc1(1) r, of k]
  have "0 \<le> seen + 1" "seen + 1 + int (length calls) < 2 ^ 63"
    using Cons.prems(2,3) by simp_all
  from Cons.IH [OF bc1(2) this] Cons.prems(4) obtain bc' where
    "bc_calls int63n calls bc1 = Some bc'" "wf_contexts ty mx (seen + 1 + int (length calls)) bc'"
    "total_for bc' k = total_for bc1 k + int (length (values_of k calls))"
    "sint mx \<le> 0 \<longrightarrow> kept_for bc' k = kept_for bc1 k @ values_of k calls"
    "set (kept_for bc' k) \<subseteq> set (kept_for bc1 k) \<union> set (values_of k calls)"
    by auto
  with bc1(1) step a show ?case
    by (auto simp: values_of_def call_context_def call_value_def ac_simps split: if_splits)
qed

section \<open>Properties\<close>

lemma kept_is_flushed: "m_fvalues (buffered_flushUnsafe d) = kept d"
  by (simp add: buffered_flushUnsafe_def kept_def Let_def)

lemma new_contexts_empty [simp]:
  "total_for (newBufferedContexts f mx) k = 0" "kept_for (newBufferedContexts f mx) k = []"
  by (simp_all add: total_for_def kept_for_def newBufferedContexts_def)

text \<open>
  C24. The reservoir: after any run of calls a context holds as many samples as it was given, up to
  the configured bound, each of them a sample of that context; the total it reports is the
  number of calls. Without a bound it holds exactly its samples, in order.
\<close>

theorem reservoir_holds_samples:
  assumes "good_int63n int63n" and "int (length calls) < 2 ^ 63"
    and "list_all (\<lambda>c. \<not> f64_lt (call_rate c) f64_one) calls"
    and "bc_calls int63n calls (newBufferedContexts (newBufferedMetric ty) mx) = Some bc"
    and "map_of (bc_values bc) k = Some d"
  shows "sint (b_totalSamples d) = int (length (values_of k calls))
    \<and> int (length (m_fvalues (buffered_flushUnsafe d)))
        = (if 0 < sint mx then min (int (length (values_of k calls))) (sint mx)
           else int (length (values_of k calls)))
    \<and> set (m_fvalues (buffered_flushUnsafe d)) \<subseteq> set (values_of k calls)
    \<and> (sint mx \<le> 0 \<longrightarrow> m_fvalues (buffered_flushUnsafe d) = values_of k calls)"
proof -
  have "wf_contexts ty mx (int (length calls)) bc"
    and "total_for bc k = int (length (values_of k calls))"
    and "sint mx \<le> 0 \<longrightarrow> kept_for bc k = values_of k calls"
    and "set (kept_for bc k) \<subseteq> set (values_of k calls)"
    using bc_calls_kept [OF wf_contexts_new [of ty mx 0] _ _ assms(1,3), of k] assms(2,4) by auto
  moreover from this(1) assms(5) have "wf_buffered d" "b_maxSamples d = mx"
    by (auto simp: wf_contexts_def dest: map_of_SomeD)
  ultimately show ?thesis
    using assms(5) length_kept [of d]
    by (auto simp: total_for_def kept_for_def kept_is_flushed wf_buffered_def split: if_splits)
qed

definition sample_calls :: "buffered_call list" where
  "sample_calls = [(''h'', 1, [''a''], f64_one, CardinalityNotSet),
     (''h'', 2, [''a''], f64_one, CardinalityNotSet), (''h'', 3, [''a''], f64_one, CardinalityNotSet)]"

lemma good_int63n_zero: "good_int63n (\<lambda>_. 0)"
  by (simp add: good_int63n_def)

definition sample_contexts :: "i64 \<Rightarrow> bufferedMetricContexts" where
  "sample_contexts mx =
     the (bc_calls (\<lambda>_. 0) sample_calls (newBufferedContexts (newBufferedMetric histogramAggregatedT) mx))"

lemmas sample_eval =
  sample_contexts_def sample_calls_def bc_sample_eq bc_sampleContext_eq bc_keep_def
  newBufferedContexts_def newBufferedMetric_def newData_def maybeKeepSample_def set_index_def
  sampleUnsafe_def context_text_def context_prefix_def separator_defs Let_def

lemma not_lt_one: "\<not> f64_lt f64_one f64_one"
  by (simp add: f64_eval)

lemma sample_contexts_run:
  "bc_calls (\<lambda>_. 0) sample_calls (newBufferedContexts (newBufferedMetric histogramAggregatedT) 2)
     = Some (sample_contexts 2)"
  "list_all (\<lambda>c. \<not> f64_lt (call_rate c) f64_one) sample_calls"
  "map_of (bc_values (sample_contexts 2)) ''h:a'' \<noteq> None"
  "values_of ''h:a'' sample_calls = [1, 2, 3]"
  by (simp_all add: sample_eval not_lt_one call_rate_def values_of_def call_context_def call_value_def)

theorem reservoir_holds_samples_witness:
  "\<exists>d. map_of (bc_values (sample_contexts 2)) ''h:a'' = Some d
     \<and> length (m_fvalues (buffered_flushUnsafe d)) = 2 \<and> sint (b_totalSamples d) = 3"
proof -
  obtain d where d: "map_of (bc_values (sample_contexts 2)) ''h:a'' = Some d"
    using sample_contexts_run(3) by blast
  from reservoir_holds_samples [OF good_int63n_zero _ sample_contexts_run(2,1) d]
  show ?thesis
    by (simp add: d sample_contexts_run(4)) (simp add: sample_calls_def)
qed

text \<open>
  The sampling rate of a flushed context corrects for the samples the reservoir lost: it is the
  user's rate if one was specified, and otherwise stored over total samples, which is exactly 1
  when nothing was lost.
\<close>

theorem flush_rate:
  assumes "wf_buffered d"
  shows "m_rate (buffered_flushUnsafe d) =
    (if \<not> f64_eq (b_specifiedRate d) f64_one then b_specifiedRate d
     else if sint (b_maxSamples d) \<le> 0 \<or> sint (b_totalSamples d) \<le> sint (b_maxSamples d) then f64_one
     else f64_div (f64_of_int (sint (b_maxSamples d))) (f64_of_int (sint (b_totalSamples d))))"
proof -
  have "sint (b_storedSamples d) < 2 ^ 63"
    using sint_lt [of "b_storedSamples d"] by simp
  then show ?thesis
    using assms f64_div_self [of "sint (b_storedSamples d)"]
    by (auto simp: buffered_flushUnsafe_def wf_buffered_def Let_def min_def split: if_splits)
qed

theorem flush_rate_witness:
  "m_rate (buffered_flushUnsafe (newHistogramMetric ''h'' 5 '''' 10 f64_one CardinalityNotSet)) = f64_one"
proof -
  let ?d = "newHistogramMetric ''h'' 5 '''' 10 f64_one CardinalityNotSet"
  have "wf_buffered ?d" by (simp add: newHistogramMetric_def)
  from flush_rate [OF this] show ?thesis
    by (simp add: newHistogramMetric_def f64_eval)
qed

end
