(* ===== verification/Aggregator.thy ===== *)
theory Aggregator
  imports BufferedContexts
begin

text \<open>
  \<open>src/statsd/aggregator.go\<close>: counts, gauges and sets in sharded maps, histograms,
  distributions and timings in buffered contexts, and the flush that turns them into
  metrics.  Each operation here runs under its locks as one step; \<open>None\<close> is a panic.

  The code builds a context in a buffer on the stack of one of two sizes, or on the heap; the
  buffer starts empty in each case (\<open>contextCapacity\<close> models its capacity).
\<close>

section \<open>The code\<close>

record aggregator =
  nbContextGauge :: u64
  nbContextCount :: u64
  nbContextSet :: u64
  shardsCount :: int
  countShards :: "countMetric gomap list"
  gaugeShards :: "gaugeMetric gomap list"
  setShards :: "setMetric gomap list"
  histograms :: bufferedMetricContexts
  distributions :: bufferedMetricContexts
  timings :: bufferedMetricContexts

text \<open>\<open>None\<close> is a panic of \<open>make\<close>; a shard is padded to \<open>cacheLineSize\<close>, 128 bytes.\<close>

definition newAggregator :: "i64 \<Rightarrow> int \<Rightarrow> aggregator option" where
  "newAggregator maxSamplesPerContext shardsCnt =
     (if \<not> make_slice 128 shardsCnt then None
      else Some \<lparr>nbContextGauge = 0, nbContextCount = 0, nbContextSet = 0, shardsCount = shardsCnt,
        countShards = replicate (nat shardsCnt) [], gaugeShards = replicate (nat shardsCnt) [],
        setShards = replicate (nat shardsCnt) [],
        histograms = newBufferedContexts newHistogramMetric maxSamplesPerContext,
        distributions = newBufferedContexts newDistributionMetric maxSamplesPerContext,
        timings = newBufferedContexts newTimingMetric maxSamplesPerContext\<rparr>)"

text \<open>The context and its hash, which is computed only if there are several shards.\<close>

definition contextAndHash ::
  "aggregator \<Rightarrow> bytes \<Rightarrow> bytes \<Rightarrow> bytes list \<Rightarrow> bytes \<Rightarrow> bytes \<times> u32" where
  "contextAndHash a contextBuffer name tags cardString =
     (if shardsCount a > 1 then appendContextAndHash contextBuffer name tags cardString
      else (fst (appendContext contextBuffer name tags cardString), 0))"

subsection \<open>Counts\<close>

definition countWithContextBuffer ::
  "aggregator \<Rightarrow> bytes \<Rightarrow> bytes \<Rightarrow> i64 \<Rightarrow> bytes list \<Rightarrow> cardinality \<Rightarrow> bytes
     \<Rightarrow> aggregator option" where
  "countWithContextBuffer a contextBuffer name value tags c cardString =
     (let (context, contextHash) = contextAndHash a contextBuffer name tags cardString
      in map_option (\<lambda>shards. a\<lparr>countShards := shards\<rparr>)
           (sampleShard (newCountMetric name value tags c) (\<lambda>m. count_sample m value) context
             (getShardIndexFromHash (shardsCount a) contextHash) (countShards a)))"

definition countWithStringContext ::
  "aggregator \<Rightarrow> bytes \<Rightarrow> u32 \<Rightarrow> bytes \<Rightarrow> i64 \<Rightarrow> aggregator option" where
  "countWithStringContext a context contextHash name value =
     map_option (\<lambda>shards. a\<lparr>countShards := shards\<rparr>)
       (sampleShard (newCountMetric name value [] CardinalityNotSet) (\<lambda>m. count_sample m value)
         context (getShardIndexFromHash (shardsCount a) contextHash) (countShards a))"

definition countWithLargeContextBuffer ::
  "aggregator \<Rightarrow> int \<Rightarrow> bytes \<Rightarrow> i64 \<Rightarrow> bytes list \<Rightarrow> cardinality \<Rightarrow> bytes
     \<Rightarrow> aggregator option" where
  "countWithLargeContextBuffer a contextLen name value tags c cardString =
     (if contextLen \<le> largeContextBufferSize
      then countWithContextBuffer a [] name value tags c cardString
      else countWithContextBuffer a [] name value tags c cardString)"

definition agg_count ::
  "aggregator \<Rightarrow> bytes \<Rightarrow> i64 \<Rightarrow> bytes list \<Rightarrow> cardinality \<Rightarrow> aggregator option" where
  "agg_count a name value tags c =
     (if length tags = 0 \<and> c = CardinalityNotSet
      then let contextHash = (if shardsCount a > 1 then hashString32 name else 0)
           in countWithStringContext a name contextHash name value
      else let cardString = card_String c;
               contextLen = getContextLength name tags cardString
           in if contextLen \<le> smallContextBufferSize
              then countWithContextBuffer a [] name value tags c cardString
              else countWithLargeContextBuffer a contextLen name value tags c cardString)"

subsection \<open>Gauges\<close>

definition gaugeWithContextBuffer ::
  "aggregator \<Rightarrow> bytes \<Rightarrow> bytes \<Rightarrow> f64 \<Rightarrow> bytes list \<Rightarrow> cardinality \<Rightarrow> bytes
     \<Rightarrow> aggregator option" where
  "gaugeWithContextBuffer a contextBuffer name value tags c cardString =
     (let (context, contextHash) = contextAndHash a contextBuffer name tags cardString
      in map_option (\<lambda>shards. a\<lparr>gaugeShards := shards\<rparr>)
           (sampleShard (newGaugeMetric name value tags c) (\<lambda>m. gauge_sample m value) context
             (getShardIndexFromHash (shardsCount a) contextHash) (gaugeShards a)))"

definition gaugeWithStringContext ::
  "aggregator \<Rightarrow> bytes \<Rightarrow> u32 \<Rightarrow> bytes \<Rightarrow> f64 \<Rightarrow> aggregator option" where
  "gaugeWithStringContext a context contextHash name value =
     map_option (\<lambda>shards. a\<lparr>gaugeShards := shards\<rparr>)
       (sampleShard (newGaugeMetric name value [] CardinalityNotSet) (\<lambda>m. gauge_sample m value)
         context (getShardIndexFromHash (shardsCount a) contextHash) (gaugeShards a))"

definition gaugeWithLargeContextBuffer ::
  "aggregator \<Rightarrow> int \<Rightarrow> bytes \<Rightarrow> f64 \<Rightarrow> bytes list \<Rightarrow> cardinality \<Rightarrow> bytes
     \<Rightarrow> aggregator option" where
  "gaugeWithLargeContextBuffer a contextLen name value tags c cardString =
     (if contextLen \<le> largeContextBufferSize
      then gaugeWithContextBuffer a [] name value tags c cardString
      else gaugeWithContextBuffer a [] name value tags c cardString)"

definition agg_gauge ::
  "aggregator \<Rightarrow> bytes \<Rightarrow> f64 \<Rightarrow> bytes list \<Rightarrow> cardinality \<Rightarrow> aggregator option" where
  "agg_gauge a name value tags c =
     (if length tags = 0 \<and> c = CardinalityNotSet
      then let contextHash = (if shardsCount a > 1 then hashString32 name else 0)
           in gaugeWithStringContext a name contextHash name value
      else let cardString = card_String c;
               contextLen = getContextLength name tags cardString
           in if contextLen \<le> smallContextBufferSize
              then gaugeWithContextBuffer a [] name value tags c cardString
              else gaugeWithLargeContextBuffer a contextLen name value tags c cardString)"

subsection \<open>Sets\<close>

definition setWithContextBuffer ::
  "aggregator \<Rightarrow> bytes \<Rightarrow> bytes \<Rightarrow> bytes \<Rightarrow> bytes list \<Rightarrow> cardinality \<Rightarrow> bytes
     \<Rightarrow> aggregator option" where
  "setWithContextBuffer a contextBuffer name value tags c cardString =
     (let (context, contextHash) = contextAndHash a contextBuffer name tags cardString
      in map_option (\<lambda>shards. a\<lparr>setShards := shards\<rparr>)
           (sampleShard (newSetMetric name value tags c) (\<lambda>m. set_sample m value) context
             (getShardIndexFromHash (shardsCount a) contextHash) (setShards a)))"

definition setWithStringContext ::
  "aggregator \<Rightarrow> bytes \<Rightarrow> u32 \<Rightarrow> bytes \<Rightarrow> bytes \<Rightarrow> aggregator option" where
  "setWithStringContext a context contextHash name value =
     map_option (\<lambda>shards. a\<lparr>setShards := shards\<rparr>)
       (sampleShard (newSetMetric name value [] CardinalityNotSet) (\<lambda>m. set_sample m value)
         context (getShardIndexFromHash (shardsCount a) contextHash) (setShards a))"

definition setWithLargeContextBuffer ::
  "aggregator \<Rightarrow> int \<Rightarrow> bytes \<Rightarrow> bytes \<Rightarrow> bytes list \<Rightarrow> cardinality \<Rightarrow> bytes
     \<Rightarrow> aggregator option" where
  "setWithLargeContextBuffer a contextLen name value tags c cardString =
     (if contextLen \<le> largeContextBufferSize
      then setWithContextBuffer a [] name value tags c cardString
      else setWithContextBuffer a [] name value tags c cardString)"

definition agg_set ::
  "aggregator \<Rightarrow> bytes \<Rightarrow> bytes \<Rightarrow> bytes list \<Rightarrow> cardinality \<Rightarrow> aggregator option" where
  "agg_set a name value tags c =
     (if length tags = 0 \<and> c = CardinalityNotSet
      then let contextHash = (if shardsCount a > 1 then hashString32 name else 0)
           in setWithStringContext a name contextHash name value
      else let cardString = card_String c;
               contextLen = getContextLength name tags cardString
           in if contextLen \<le> smallContextBufferSize
              then setWithContextBuffer a [] name value tags c cardString
              else setWithLargeContextBuffer a contextLen name value tags c cardString)"

subsection \<open>Histograms, distributions and timings\<close>

text \<open>The random source of a sample: the draw of \<open>Float64\<close> and \<open>Int63n\<close>.\<close>

type_synonym random = "f64 \<times> (i64 \<Rightarrow> i64)"

definition agg_histogram ::
  "random \<Rightarrow> aggregator \<Rightarrow> bytes \<Rightarrow> f64 \<Rightarrow> bytes list \<Rightarrow> f64 \<Rightarrow> cardinality \<Rightarrow> aggregator option" where
  "agg_histogram r a name value tags rate c =
     map_option (\<lambda>bc. a\<lparr>histograms := bc\<rparr>)
       (bc_sample (snd r) (fst r) name value tags rate c (histograms a))"

definition agg_distribution ::
  "random \<Rightarrow> aggregator \<Rightarrow> bytes \<Rightarrow> f64 \<Rightarrow> bytes list \<Rightarrow> f64 \<Rightarrow> cardinality \<Rightarrow> aggregator option" where
  "agg_distribution r a name value tags rate c =
     map_option (\<lambda>bc. a\<lparr>distributions := bc\<rparr>)
       (bc_sample (snd r) (fst r) name value tags rate c (distributions a))"

definition agg_timing ::
  "random \<Rightarrow> aggregator \<Rightarrow> bytes \<Rightarrow> f64 \<Rightarrow> bytes list \<Rightarrow> f64 \<Rightarrow> cardinality \<Rightarrow> aggregator option" where
  "agg_timing r a name value tags rate c =
     map_option (\<lambda>bc. a\<lparr>timings := bc\<rparr>)
       (bc_sample (snd r) (fst r) name value tags rate c (timings a))"

text \<open>One turn of \<open>pullMetric\<close>; other metric types are ignored.\<close>

definition agg_pullMetric :: "random \<Rightarrow> aggregator \<Rightarrow> metric \<Rightarrow> aggregator option" where
  "agg_pullMetric r a m =
     (case m_type m of
        histogramT \<Rightarrow> agg_histogram r a (m_name m) (m_fvalue m) (m_tags m) (m_rate m) (m_cardinality m)
      | distributionT \<Rightarrow>
          agg_distribution r a (m_name m) (m_fvalue m) (m_tags m) (m_rate m) (m_cardinality m)
      | timingT \<Rightarrow> agg_timing r a (m_name m) (m_fvalue m) (m_tags m) (m_rate m) (m_cardinality m)
      | _ \<Rightarrow> Some a)"

subsection \<open>Flushing\<close>

text \<open>The orders in which \<open>range\<close> visits the maps, which Go leaves open.\<close>

record visits =
  v_values :: "bytes \<Rightarrow> unit gomap \<Rightarrow> unit gomap"
  v_sets :: "nat \<Rightarrow> setMetric gomap \<Rightarrow> setMetric gomap"
  v_gauges :: "nat \<Rightarrow> gaugeMetric gomap \<Rightarrow> gaugeMetric gomap"
  v_counts :: "nat \<Rightarrow> countMetric gomap \<Rightarrow> countMetric gomap"
  v_buffered :: "metricType \<Rightarrow> bufferedMetric gomap \<Rightarrow> bufferedMetric gomap"

definition flushMetrics :: "visits \<Rightarrow> aggregator \<Rightarrow> aggregator \<times> metric list" where
  "flushMetrics v a =
     (let metrics = [];
          (sets, nbSet, metrics) =
            flushShards (v_sets v) (\<lambda>(k, s). set_flushUnsafe (v_values v k) s) 0 (setShards a)
              (nbContextSet a) metrics;
          (gauges, nbGauge, metrics) =
            flushShards (v_gauges v) (\<lambda>(_, g). [gauge_flushUnsafe g]) 0 (gaugeShards a)
              (nbContextGauge a) metrics;
          (counts, nbCount, metrics) =
            flushShards (v_counts v) (\<lambda>(_, c). [count_flushUnsafe c]) 0 (countShards a)
              (nbContextCount a) metrics;
          (hs, metrics) = bc_flush (v_buffered v histogramAggregatedT) (histograms a) metrics;
          (ds, metrics) = bc_flush (v_buffered v distributionAggregatedT) (distributions a) metrics;
          (ts, metrics) = bc_flush (v_buffered v timingAggregatedT) (timings a) metrics
      in (a\<lparr>setShards := sets, nbContextSet := nbSet, gaugeShards := gauges,
            nbContextGauge := nbGauge, countShards := counts, nbContextCount := nbCount,
            histograms := hs, distributions := ds, timings := ts\<rparr>, metrics))"

text \<open>\<open>flushTelemetryMetrics\<close>: the counters it copies, in the order of its assignments.\<close>

record aggTelemetry =
  AggregationNbContextGauge :: u64
  AggregationNbContextCount :: u64
  AggregationNbContextSet :: u64
  AggregationNbContextHistogram :: u64
  AggregationNbContextDistribution :: u64
  AggregationNbContextTiming :: u64

definition flushTelemetryMetrics :: "aggregator option \<Rightarrow> aggTelemetry \<Rightarrow> aggTelemetry" where
  "flushTelemetryMetrics agg t =
     (case agg of
        None \<Rightarrow> t
      | Some a \<Rightarrow>
          t\<lparr>AggregationNbContextGauge := nbContextGauge a,
            AggregationNbContextCount := nbContextCount a,
            AggregationNbContextSet := nbContextSet a,
            AggregationNbContextHistogram := getNbContext (histograms a),
            AggregationNbContextDistribution := getNbContext (distributions a),
            AggregationNbContextTiming := getNbContext (timings a)\<rparr>)"

end
