(* ===== verification/Buffer.thy ===== *)
theory Buffer
  imports Format_Facts
begin

text \<open>
  \<open>src/statsd/buffer.go\<close>: a payload under construction.  The slice is the list of bytes
  written so far (its capacity is not modelled: it only avoids reallocation), and each
  write returns the buffer and the error, \<open>None\<close> for \<open>nil\<close>.
\<close>

section \<open>The code\<close>

text \<open>
  \<open>nilDereference\<close> stands for the run-time panic of a nil event or service check; like an
  error it ends every caller at once.
\<close>

datatype write_error = errBufferFull | errPartialWrite | nilDereference

record statsdBuffer =
  buffer :: bytes
  maxSize :: int
  maxElements :: int
  elementCount :: int

definition newStatsdBuffer :: "int \<Rightarrow> int \<Rightarrow> statsdBuffer" where
  "newStatsdBuffer bufferMaxSize bufferMaxElements =
     \<lparr>buffer = [], maxSize = bufferMaxSize, maxElements = bufferMaxElements, elementCount = 0\<rparr>"

definition buf_len :: "statsdBuffer \<Rightarrow> int" where
  "buf_len b = int (length (buffer b))"

type_synonym write_result = "statsdBuffer \<times> write_error option"

definition writeSeparator :: "statsdBuffer \<Rightarrow> statsdBuffer" where
  "writeSeparator b = b\<lparr>buffer := buffer b @ [nl]\<rparr>"

definition validateNewElement :: "statsdBuffer \<Rightarrow> bytes \<Rightarrow> write_result" where
  "validateNewElement b originalBuffer =
     (if buf_len b > maxSize b then (b\<lparr>buffer := originalBuffer\<rparr>, Some errBufferFull)
      else (b\<lparr>elementCount := elementCount b + 1\<rparr>, None))"

definition writeGauge where
  "writeGauge g b namespace globalTags name value tags rate timestamp originDetection crd =
     (if elementCount b \<ge> maxElements b then (b, Some errBufferFull)
      else let originalBuffer = buffer b;
               b = b\<lparr>buffer := appendGauge g (buffer b) namespace globalTags name value tags rate
                      originDetection\<rparr>;
               b = b\<lparr>buffer := appendTimestamp (buffer b) timestamp\<rparr>;
               b = b\<lparr>buffer := appendTagCardinality (buffer b) crd\<rparr>;
               b = writeSeparator b
           in validateNewElement b originalBuffer)"

definition writeCount where
  "writeCount g b namespace globalTags name value tags rate timestamp originDetection crd =
     (if elementCount b \<ge> maxElements b then (b, Some errBufferFull)
      else let originalBuffer = buffer b;
               b = b\<lparr>buffer := appendCount g (buffer b) namespace globalTags name value tags rate
                      originDetection\<rparr>;
               b = b\<lparr>buffer := appendTimestamp (buffer b) timestamp\<rparr>;
               b = b\<lparr>buffer := appendTagCardinality (buffer b) crd\<rparr>;
               b = writeSeparator b
           in validateNewElement b originalBuffer)"

definition writeHistogram where
  "writeHistogram g b namespace globalTags name value tags rate originDetection crd =
     (if elementCount b \<ge> maxElements b then (b, Some errBufferFull)
      else let originalBuffer = buffer b;
               b = b\<lparr>buffer := appendHistogram g (buffer b) namespace globalTags name value tags
                      rate originDetection\<rparr>;
               b = b\<lparr>buffer := appendTagCardinality (buffer b) crd\<rparr>;
               b = writeSeparator b
           in validateNewElement b originalBuffer)"

definition writeDistribution where
  "writeDistribution g b namespace globalTags name value tags rate originDetection crd =
     (if elementCount b \<ge> maxElements b then (b, Some errBufferFull)
      else let originalBuffer = buffer b;
               b = b\<lparr>buffer := appendDistribution g (buffer b) namespace globalTags name value tags
                      rate originDetection\<rparr>;
               b = b\<lparr>buffer := appendTagCardinality (buffer b) crd\<rparr>;
               b = writeSeparator b
           in validateNewElement b originalBuffer)"

definition writeSet where
  "writeSet g b namespace globalTags name value tags rate originDetection crd =
     (if elementCount b \<ge> maxElements b then (b, Some errBufferFull)
      else let originalBuffer = buffer b;
               b = b\<lparr>buffer := appendSet g (buffer b) namespace globalTags name value tags rate
                      originDetection\<rparr>;
               b = b\<lparr>buffer := appendTagCardinality (buffer b) crd\<rparr>;
               b = writeSeparator b
           in validateNewElement b originalBuffer)"

definition writeTiming where
  "writeTiming g b namespace globalTags name value tags rate originDetection crd =
     (if elementCount b \<ge> maxElements b then (b, Some errBufferFull)
      else let originalBuffer = buffer b;
               b = b\<lparr>buffer := appendTiming g (buffer b) namespace globalTags name value tags rate
                      originDetection\<rparr>;
               b = b\<lparr>buffer := appendTagCardinality (buffer b) crd\<rparr>;
               b = writeSeparator b
           in validateNewElement b originalBuffer)"

definition writeEvent where
  "writeEvent g b event globalTags originDetection crd =
     (if elementCount b \<ge> maxElements b then (b, Some errBufferFull)
      else case event of
        None \<Rightarrow> (b, Some nilDereference)
      | Some e \<Rightarrow>
           let originalBuffer = buffer b;
               b = b\<lparr>buffer := appendEvent g (buffer b) e globalTags originDetection\<rparr>;
               b = b\<lparr>buffer := appendTagCardinality (buffer b) crd\<rparr>;
               b = writeSeparator b
           in validateNewElement b originalBuffer)"

definition writeServiceCheck where
  "writeServiceCheck g b serviceCheck globalTags originDetection crd =
     (if elementCount b \<ge> maxElements b then (b, Some errBufferFull)
      else case serviceCheck of
        None \<Rightarrow> (b, Some nilDereference)
      | Some sc \<Rightarrow>
           let originalBuffer = buffer b;
               b = b\<lparr>buffer := appendServiceCheck g (buffer b) sc globalTags originDetection\<rparr>;
               b = b\<lparr>buffer := appendTagCardinality (buffer b) crd\<rparr>;
               b = writeSeparator b
           in validateNewElement b originalBuffer)"

text \<open>
  The loop of \<open>writeAggregated\<close> over the values: \<open>idx\<close> is the index of the next value,
  \<open>position\<close> the number of values kept; it stops before the first value that, with the
  estimate \<open>tagSize\<close> of what follows, would pass the maximum size.
\<close>

fun writeValues ::
  "int \<Rightarrow> int \<Rightarrow> int \<Rightarrow> bytes \<Rightarrow> nat \<Rightarrow> nat \<Rightarrow> f64 list \<Rightarrow> bytes \<times> nat" where
  "writeValues limit tagSize precision buf idx position [] = (buf, position)"
| "writeValues limit tagSize precision buf idx position (v # values) =
     (let previousBuffer = buf;
          buf = (if idx \<noteq> 0 then buf @ '':'' else buf);
          buf = appendFloat buf v precision
      in if int (length buf) + tagSize > limit then (previousBuffer, position)
         else writeValues limit tagSize precision buf (idx + 1) (idx + 1) values)"

text \<open>What \<open>writeAggregated\<close> adds to the caller's estimate of the trailing fields.\<close>

definition augmentTagSize :: "globals \<Rightarrow> int \<Rightarrow> bool \<Rightarrow> cardinality \<Rightarrow> int" where
  "augmentTagSize g tagSize originDetection crd =
     (let tagSize = (if length (containerID g) > 0 then tagSize + 3 + int (length (containerID g))
                     else tagSize);
          tagSize = (if originDetection \<and> externalEnv g \<noteq> ''''
                     then tagSize + 3 + int (length (externalEnv g)) else tagSize);
          cardString = card_String crd
      in if cardString \<noteq> '''' then tagSize + 6 + int (length cardString) else tagSize)"

definition writeAggregated ::
  "globals \<Rightarrow> statsdBuffer \<Rightarrow> bytes \<Rightarrow> bytes \<Rightarrow> bytes list \<Rightarrow> bytes \<Rightarrow> f64 list \<Rightarrow> bytes \<Rightarrow> int
     \<Rightarrow> int \<Rightarrow> f64 \<Rightarrow> bool \<Rightarrow> cardinality \<Rightarrow> statsdBuffer \<times> nat \<times> write_error option" where
  "writeAggregated g b metricSymbol namespace globalTags name values tags tagSize precision rate
       originDetection crd =
     (if elementCount b \<ge> maxElements b then (b, 0, Some errBufferFull)
      else let tagSize = augmentTagSize g tagSize originDetection crd;
               originalBuffer = buffer b;
               b = b\<lparr>buffer := appendHeader (buffer b) namespace name\<rparr>
           in if buf_len b + tagSize > maxSize b
              then (b\<lparr>buffer := originalBuffer\<rparr>, 0, Some errBufferFull)
              else let (buf, position) =
                         writeValues (maxSize b) tagSize precision (buffer b) 0 0 values;
                       b = b\<lparr>buffer := buf\<rparr>
                   in if position = 0
                      then (b\<lparr>buffer := originalBuffer\<rparr>, 0, Some errBufferFull)
                      else let b = b\<lparr>buffer := buffer b @ ''|''\<rparr>;
                               b = b\<lparr>buffer := buffer b @ metricSymbol\<rparr>;
                               b = b\<lparr>buffer := appendRate (buffer b) rate\<rparr>;
                               b = b\<lparr>buffer := appendTagsAggregated (buffer b) globalTags tags\<rparr>;
                               b = b\<lparr>buffer := appendContainerID g (buffer b)\<rparr>;
                               b = b\<lparr>buffer := appendExternalEnv g (buffer b) originDetection\<rparr>;
                               b = b\<lparr>buffer := appendTagCardinality (buffer b) crd\<rparr>;
                               b = writeSeparator b;
                               b = b\<lparr>elementCount := elementCount b + 1\<rparr>
                           in if position \<noteq> length values
                              then (b, position, Some errPartialWrite)
                              else (b, position, None))"

definition reset :: "statsdBuffer \<Rightarrow> statsdBuffer" where
  "reset b = b\<lparr>buffer := [], elementCount := 0\<rparr>"

definition buf_bytes :: "statsdBuffer \<Rightarrow> bytes" where
  "buf_bytes b = buffer b"

end
