(* ===== verification/Buffer_Facts.thy ===== *)
theory Buffer_Facts
  imports Buffer
begin

text \<open>
  The contract of \<open>statsdBuffer\<close>.  Each simple write is \<open>push\<close>: it appends one element and
  a line feed, or reports a full buffer and changes nothing.  An aggregated write appends
  one element that carries a maximal prefix of the values.  The invariant \<open>wf_buffer\<close>
  bounds size and count, and \<open>framed\<close> says that the payload is one line per element.
\<close>

section \<open>Simple writes\<close>

definition push :: "statsdBuffer \<Rightarrow> bytes \<Rightarrow> write_result" where
  "push b el =
     (if elementCount b \<ge> maxElements b \<or> buf_len b + int (length el) + 1 > maxSize b
      then (b, Some errBufferFull)
      else (b\<lparr>buffer := buffer b @ el @ [nl], elementCount := elementCount b + 1\<rparr>, None))"

lemma restore_buffer [simp]: "(b :: statsdBuffer)\<lparr>buffer := buffer b\<rparr> = b"
  by (cases b) simp

lemmas write_defs =
  writeGauge_def writeCount_def writeHistogram_def writeDistribution_def writeSet_def
  writeTiming_def writeEvent_def writeServiceCheck_def

lemmas push_unfold =
  push_def validateNewElement_def writeSeparator_def append_metric_defs append_eq Let_def
  buf_len_def

lemma writeGauge_push:
  "writeGauge g b ns gts name v ts rate t od c =
     push b (metric_text g gaugeSymbol ns gts name (fmt_float (- 1) v) ts rate od
       @ timestamp_text t @ card_text c)"
  by (simp add: write_defs push_unfold)

lemma writeCount_push:
  "writeCount g b ns gts name v ts rate t od c =
     push b (metric_text g countSymbol ns gts name (fmt_int (sint v)) ts rate od
       @ timestamp_text t @ card_text c)"
  by (simp add: write_defs push_unfold)

lemma writeHistogram_push:
  "writeHistogram g b ns gts name v ts rate od c =
     push b (metric_text g histogramSymbol ns gts name (fmt_float (- 1) v) ts rate od
       @ card_text c)"
  by (simp add: write_defs push_unfold)

lemma writeDistribution_push:
  "writeDistribution g b ns gts name v ts rate od c =
     push b (metric_text g distributionSymbol ns gts name (fmt_float (- 1) v) ts rate od
       @ card_text c)"
  by (simp add: write_defs push_unfold)

lemma writeSet_push:
  "writeSet g b ns gts name v ts rate od c =
     push b (metric_text g setSymbol ns gts name v ts rate od @ card_text c)"
  by (simp add: write_defs push_unfold)

lemma writeTiming_push:
  "writeTiming g b ns gts name v ts rate od c =
     push b (metric_text g timingSymbol ns gts name (fmt_float 6 v) ts rate od @ card_text c)"
  by (simp add: write_defs push_unfold)

lemma writeEvent_push:
  "writeEvent g b (Some e) gts od c = push b (event_text g e gts od @ card_text c)"
  by (simp add: write_defs push_unfold)

lemma writeServiceCheck_push:
  "writeServiceCheck g b (Some sc) gts od c = push b (service_check_text g sc gts od @ card_text c)"
  by (simp add: write_defs push_unfold)

lemmas write_push =
  writeGauge_push writeCount_push writeHistogram_push writeDistribution_push writeSet_push
  writeTiming_push writeEvent_push writeServiceCheck_push

section \<open>Aggregated writes\<close>

definition more_values :: "int \<Rightarrow> f64 list \<Rightarrow> bytes" where
  "more_values prec vs = concat (map (\<lambda>v. '':'' @ fmt_float prec v) vs)"

lemma more_values_Nil [simp]: "more_values prec [] = []"
  by (simp add: more_values_def)

fun values_text :: "int \<Rightarrow> f64 list \<Rightarrow> bytes" where
  "values_text prec [] = []"
| "values_text prec (v # vs) = fmt_float prec v @ more_values prec vs"

text \<open>The fields after the values, and the whole element.\<close>

definition trailer_text ::
  "globals \<Rightarrow> bytes \<Rightarrow> bytes list \<Rightarrow> bytes \<Rightarrow> f64 \<Rightarrow> bool \<Rightarrow> cardinality \<Rightarrow> bytes" where
  "trailer_text g metricSymbol gts stags rate od c =
     ''|'' @ metricSymbol @ rate_text rate @ tags_text (gts @ (if stags = [] then [] else [stags]))
       @ container_text g @ env_text g od @ card_text c"

definition aggregated_text where
  "aggregated_text g metricSymbol ns gts name vs stags prec rate od c =
     header_text ns name @ values_text prec vs @ trailer_text g metricSymbol gts stags rate od c"

lemma augmentTagSize_eq:
  "augmentTagSize g n od c =
     n + int (length (container_text g)) + int (length (env_text g od)) + int (length (card_text c))"
  by (simp add: augmentTagSize_def container_text_def env_text_def card_text_def Let_def)

lemma writeValues_rest:
  assumes "0 < idx"
  shows "\<exists>k \<le> length vs. writeValues limit t prec buf idx idx vs
           = (buf @ more_values prec (take k vs), idx + k)
       \<and> (0 < k \<longrightarrow> int (length (buf @ more_values prec (take k vs))) + t \<le> limit)
       \<and> (k < length vs \<longrightarrow> limit < int (length (buf @ more_values prec (take (Suc k) vs))) + t)"
  using assms
proof (induction vs arbitrary: buf idx)
  case Nil
  then show ?case by (simp add: more_values_def)
next
  case (Cons v vs)
  let ?buf = "buf @ '':'' @ fmt_float prec v"
  show ?case
  proof (cases "limit < int (length ?buf) + t")
    case True
    then show ?thesis
      using Cons.prems
      by (intro exI [of _ 0]) (auto simp: appendFloat_def more_values_def Let_def)
  next
    case False
    from Cons.IH [of "Suc idx" ?buf] obtain k where
      "k \<le> length vs"
      "writeValues limit t prec ?buf (Suc idx) (Suc idx) vs
         = (?buf @ more_values prec (take k vs), Suc idx + k)"
      "0 < k \<longrightarrow> int (length (?buf @ more_values prec (take k vs))) + t \<le> limit"
      "k < length vs \<longrightarrow> limit < int (length (?buf @ more_values prec (take (Suc k) vs))) + t"
      by auto
    then show ?thesis
      using False Cons.prems
      by (intro exI [of _ "Suc k"]) (auto simp: appendFloat_def more_values_def Let_def)
  qed
qed

lemma writeValues_spec:
  "\<exists>k \<le> length vs. writeValues limit t prec buf 0 0 vs = (buf @ values_text prec (take k vs), k)
     \<and> (0 < k \<longrightarrow> int (length (buf @ values_text prec (take k vs))) + t \<le> limit)
     \<and> (k < length vs \<longrightarrow> limit < int (length (buf @ values_text prec (take (Suc k) vs))) + t)"
proof (cases vs)
  case Nil
  then show ?thesis by simp
next
  case (Cons v vs')
  let ?buf = "buf @ fmt_float prec v"
  show ?thesis
  proof (cases "limit < int (length ?buf) + t")
    case True
    then show ?thesis
      by (intro exI [of _ 0]) (auto simp: Cons appendFloat_def more_values_def)
  next
    case False
    from writeValues_rest [of 1 vs' limit t prec ?buf] obtain k where
      "k \<le> length vs'"
      "writeValues limit t prec ?buf 1 1 vs' = (?buf @ more_values prec (take k vs'), 1 + k)"
      "0 < k \<longrightarrow> int (length (?buf @ more_values prec (take k vs'))) + t \<le> limit"
      "k < length vs' \<longrightarrow> limit < int (length (?buf @ more_values prec (take (Suc k) vs'))) + t"
      by auto
    then show ?thesis
      using False by (intro exI [of _ "Suc k"]) (auto simp: Cons appendFloat_def)
  qed
qed

text \<open>
  What \<open>writeAggregated\<close> returns: either nothing was written, or exactly the first \<open>pos\<close>
  values were, and a further value would have passed the size estimate.
\<close>

lemma writeAggregated_cases:
  assumes "writeAggregated g b sy ns gts name vs stags t prec rate od c = (b', pos, err)"
  obtains (full) "b' = b" "pos = 0" "err = Some errBufferFull"
      "elementCount b \<ge> maxElements b \<or> vs = [] \<or> maxSize b
          < int (length (buffer b @ header_text ns name @ values_text prec (take (Suc 0) vs)))
            + augmentTagSize g t od c"
  | (wrote) "0 < pos" "pos \<le> length vs" "elementCount b < maxElements b"
      "b' = b\<lparr>buffer := buffer b
          @ aggregated_text g sy ns gts name (take pos vs) stags prec rate od c @ [nl],
          elementCount := elementCount b + 1\<rparr>"
      "err = (if pos = length vs then None else Some errPartialWrite)"
      "int (length (buffer b @ header_text ns name @ values_text prec (take pos vs)))
          + augmentTagSize g t od c \<le> maxSize b"
      "pos < length vs \<Longrightarrow> maxSize b
          < int (length (buffer b @ header_text ns name @ values_text prec (take (Suc pos) vs)))
            + augmentTagSize g t od c"
proof -
  let ?aug = "augmentTagSize g t od c"
  let ?buf = "buffer b @ header_text ns name"
  obtain k where k: "k \<le> length vs"
    "writeValues (maxSize b) ?aug prec ?buf 0 0 vs = (?buf @ values_text prec (take k vs), k)"
    "0 < k \<longrightarrow> int (length (?buf @ values_text prec (take k vs))) + ?aug \<le> maxSize b"
    "k < length vs \<longrightarrow> maxSize b < int (length (?buf @ values_text prec (take (Suc k) vs))) + ?aug"
    using writeValues_spec [of vs "maxSize b" ?aug prec ?buf] by blast
  show thesis
  proof (cases "elementCount b \<ge> maxElements b \<or> int (length ?buf) + ?aug > maxSize b \<or> k = 0")
    case True
    with assms k(2) have "b' = b \<and> pos = 0 \<and> err = Some errBufferFull"
      by (auto simp: writeAggregated_def Let_def append_eq buf_len_def split: if_splits)
    moreover have "elementCount b \<ge> maxElements b \<or> vs = [] \<or> maxSize b
        < int (length (?buf @ values_text prec (take (Suc 0) vs))) + ?aug"
      using True k(4) by (cases vs) auto
    ultimately show thesis by (intro full) auto
  next
    case False
    with assms k(2) have "pos = k" and "err = (if k = length vs then None else Some errPartialWrite)"
      and "b' = b\<lparr>buffer := buffer b
          @ aggregated_text g sy ns gts name (take k vs) stags prec rate od c @ [nl],
          elementCount := elementCount b + 1\<rparr>"
      by (auto simp: writeAggregated_def Let_def append_eq buf_len_def aggregated_text_def
          trailer_text_def writeSeparator_def split: if_splits)
    with False k show thesis by (intro wrote) auto
  qed
qed

section \<open>The invariant\<close>

definition wf_buffer :: "statsdBuffer \<Rightarrow> bool" where
  "wf_buffer b \<longleftrightarrow> (buffer b = [] \<or> buf_len b \<le> maxSize b) \<and> 0 \<le> elementCount b
     \<and> (elementCount b = 0 \<longleftrightarrow> buffer b = []) \<and> (elementCount b = 0 \<or> elementCount b \<le> maxElements b)"

lemma wf_buffer_new [simp, keeps]: "wf_buffer (newStatsdBuffer s e)"
  by (simp add: wf_buffer_def newStatsdBuffer_def)

lemma wf_buffer_reset [simp, keeps]: "wf_buffer (reset b)"
  by (simp add: wf_buffer_def reset_def)

lemma wf_buffer_push [keeps]: "wf_buffer b \<Longrightarrow> wf_buffer (fst (push b el))"
  by (auto simp: wf_buffer_def push_def buf_len_def)

definition same_limits :: "statsdBuffer \<Rightarrow> statsdBuffer \<Rightarrow> bool" where
  "same_limits b b' \<longleftrightarrow> maxSize b' = maxSize b \<and> maxElements b' = maxElements b"

lemma same_limits_push [simp]: "same_limits b (fst (push b el))"
  by (simp add: same_limits_def push_def)

text \<open>The estimate holds when it is no smaller than what follows the values.\<close>

lemma wf_buffer_aggregated [keeps]:
  assumes "wf_buffer b"
    and "writeAggregated g b sy ns gts name vs stags t prec rate od c = (b', pos, err)"
    and "int (length (trailer_text g sy gts stags rate od c)) + 1 \<le> augmentTagSize g t od c"
  shows "wf_buffer b'"
  using assms(2)
proof (cases rule: writeAggregated_cases)
  case full
  with assms(1) show ?thesis by simp
next
  case wrote
  with assms(1,3) show ?thesis
    by (auto simp: wf_buffer_def buf_len_def aggregated_text_def)
qed

section \<open>One line per element\<close>

definition framed :: "statsdBuffer \<Rightarrow> bytes list \<Rightarrow> bool" where
  "framed b ls \<longleftrightarrow> buffer b = frame ls \<and> int (length ls) = elementCount b
     \<and> list_all no_newline ls"

lemma framed_new [simp]: "framed (newStatsdBuffer s e) []"
  by (simp add: framed_def newStatsdBuffer_def)

lemma framed_reset [simp]: "framed (reset b) []"
  by (simp add: framed_def reset_def)

lemma framed_push:
  "framed b ls \<Longrightarrow> no_newline el \<Longrightarrow>
   framed (fst (push b el)) (if snd (push b el) = None then ls @ [el] else ls)"
  by (simp add: framed_def push_def)

lemma no_newline_more_values [no_nl, simp]: "no_newline (more_values prec vs)"
  by (induction vs) (auto simp: more_values_def)

lemma no_newline_values_text [no_nl, simp]: "no_newline (values_text prec vs)"
  by (cases vs) auto

lemma no_newline_aggregated_text [simp]:
  "clean_globals g \<Longrightarrow> no_newline sy \<Longrightarrow> no_newline ns \<Longrightarrow> no_newline name \<Longrightarrow>
   no_newline (aggregated_text g sy ns gts name vs stags prec rate od c)"
  by (simp add: aggregated_text_def trailer_text_def header_text_def)

lemma framed_split: "framed b ls \<Longrightarrow> split_lines [] (buf_bytes b) = ls"
  by (simp add: framed_def buf_bytes_def split_lines_frame list_all_iff)

section \<open>Length of the tag section\<close>

lemma length_tags_body:
  "ts \<noteq> [] \<Longrightarrow> length (tags_body ts) + 1 \<le> sum_list (map (\<lambda>t. length t + 1) ts)"
proof (induction ts rule: tags_body.induct)
  case (2 t)
  then show ?case by (simp add: length_filter_le)
next
  case (3 t u us)
  then show ?case by (auto intro!: add_mono length_filter_le)
qed simp

lemma length_tags_text:
  "length (tags_text (gts @ (if stags = [] then [] else [stags])))
     \<le> 2 + length stags + sum_list (map (\<lambda>t. length t + 1) gts)"
  using length_tags_body [of "gts @ [stags]"] length_tags_body [of gts]
  by (cases "gts = []") (auto simp: tags_text_def length_filter_le)

section \<open>Properties\<close>

text \<open>
  Every simple write appends its grammar text and a line feed, or reports a full buffer and
  changes nothing, also when the element was already appended and had to be taken back.
\<close>

theorem simple_writes:
  "writeGauge g b ns gts name v ts rate t od c =
     push b (metric_text g gaugeSymbol ns gts name (fmt_float (- 1) v) ts rate od
       @ timestamp_text t @ card_text c)
   \<and> writeCount g b ns gts name i ts rate t od c =
     push b (metric_text g countSymbol ns gts name (fmt_int (sint i)) ts rate od
       @ timestamp_text t @ card_text c)
   \<and> writeHistogram g b ns gts name v ts rate od c =
     push b (metric_text g histogramSymbol ns gts name (fmt_float (- 1) v) ts rate od @ card_text c)
   \<and> writeDistribution g b ns gts name v ts rate od c =
     push b (metric_text g distributionSymbol ns gts name (fmt_float (- 1) v) ts rate od
       @ card_text c)
   \<and> writeSet g b ns gts name s ts rate od c =
     push b (metric_text g setSymbol ns gts name s ts rate od @ card_text c)
   \<and> writeTiming g b ns gts name v ts rate od c =
     push b (metric_text g timingSymbol ns gts name (fmt_float 6 v) ts rate od @ card_text c)
   \<and> writeEvent g b (Some e) gts od c = push b (event_text g e gts od @ card_text c)
   \<and> writeServiceCheck g b (Some sc) gts od c = push b (service_check_text g sc gts od @ card_text c)"
  by (simp add: write_push)

text \<open>
  The size the estimate gives to the buffer with the first \<open>k\<close> values of the element: header and
  values as they are, and the caller's bound for everything after them. It grows with \<open>k\<close>.
\<close>

definition prefix_size ::
  "globals \<Rightarrow> statsdBuffer \<Rightarrow> bytes \<Rightarrow> bytes \<Rightarrow> f64 list \<Rightarrow> int \<Rightarrow> int \<Rightarrow> bool \<Rightarrow> cardinality \<Rightarrow> nat \<Rightarrow> int" where
  "prefix_size g b ns name vs t prec od c k =
     int (length (buffer b @ header_text ns name @ values_text prec (take k vs)))
       + augmentTagSize g t od c"

lemma prefix_size_mono:
  assumes "j \<le> k"
  shows "prefix_size g b ns name vs t prec od c j \<le> prefix_size g b ns name vs t prec od c k"
proof -
  have "length (values_text prec us) \<le> length (values_text prec (us @ us'))" for us us'
    by (cases us) (simp_all add: more_values_def)
  moreover obtain us where "take k vs = take j vs @ us"
    by (metis assms le_iff_add take_add)
  ultimately show ?thesis
    by (simp add: prefix_size_def)
qed

lemma writeAggregated_writes:
  assumes "writeAggregated g b sy ns gts name vs stags t prec rate od c = (b', pos, err)"
  shows "0 < pos \<longleftrightarrow> elementCount b < maxElements b \<and> vs \<noteq> []
    \<and> prefix_size g b ns name vs t prec od c 1 \<le> maxSize b"
  using assms
proof (cases rule: writeAggregated_cases)
  case full
  then show ?thesis by (auto simp: prefix_size_def)
next
  case wrote
  moreover have "prefix_size g b ns name vs t prec od c 1 \<le> prefix_size g b ns name vs t prec od c pos"
    using wrote(1) by (intro prefix_size_mono) simp
  ultimately show ?thesis by (auto simp: prefix_size_def)
qed

text \<open>
  C33. An aggregated write keeps the longest prefix of the values that the size estimate allows.
  It writes nothing, and reports a full buffer, exactly when the element limit is reached, there
  is no value, or already the first value passes the estimate. Otherwise it writes one element
  with the first \<open>pos\<close> values, where these are within the estimate and one more value would not
  be, and it reports a partial write exactly when values are left.
\<close>

theorem writeAggregated_prefix:
  "case writeAggregated g b sy ns gts name vs stags t prec rate od c of (b', pos, err) \<Rightarrow>
     let sz = prefix_size g b ns name vs t prec od c in
     if maxElements b \<le> elementCount b \<or> vs = [] \<or> maxSize b < sz 1
     then b' = b \<and> pos = 0 \<and> err = Some errBufferFull
     else 0 < pos \<and> pos \<le> length vs
       \<and> sz pos \<le> maxSize b \<and> (pos = length vs \<or> maxSize b < sz (Suc pos))
       \<and> b' = b\<lparr>buffer := buffer b
            @ aggregated_text g sy ns gts name (take pos vs) stags prec rate od c @ [nl],
            elementCount := elementCount b + 1\<rparr>
       \<and> err = (if pos = length vs then None else Some errPartialWrite)"
proof -
  obtain b' pos err where
    w: "writeAggregated g b sy ns gts name vs stags t prec rate od c = (b', pos, err)"
    by (metis prod_cases3)
  note writes = writeAggregated_writes [OF w]
  from w show ?thesis
  proof (cases rule: writeAggregated_cases)
    case full
    with writes show ?thesis by (simp add: w Let_def not_less not_le)
  next
    case wrote
    let ?sz = "prefix_size g b ns name vs t prec od c"
    have "pos = length vs \<or> maxSize b < ?sz (Suc pos)" and "?sz pos \<le> maxSize b"
      using wrote(6,7) le_neq_implies_less [OF wrote(2)] by (auto simp: prefix_size_def)
    with wrote writes show ?thesis
      by (simp add: w Let_def)
  qed
qed

end
