(* ===== verification/Pool.thy ===== *)
theory Pool
  imports Buffer_Facts
begin

text \<open>
  \<open>src/statsd/buffer_pool.go\<close>: the pool of buffers, a buffered channel.  Receiving takes the
  oldest buffer, sending puts one at the end; both use \<open>select\<close> with a default, so they never
  block.
\<close>

section \<open>The code\<close>

record bufferPool =
  pool :: "statsdBuffer list"
  poolCap :: nat
  bufferMaxSize :: int
  bufferMaxElements :: int

definition metricOverhead :: int where
  "metricOverhead = 512"

definition addNewBuffer :: "bufferPool \<Rightarrow> bufferPool" where
  "addNewBuffer p =
     p\<lparr>pool := pool p @ [newStatsdBuffer (bufferMaxSize p) (bufferMaxElements p)]\<rparr>"

text \<open>
  \<open>None\<close> is a panic of \<open>make\<close>: for the channel of pointers, or for the bytes of a buffer, whose size
  \<open>maxSize+metricOverhead\<close> wraps around.  The sends of the loop cannot block, because the channel
  holds \<open>poolSize\<close> buffers.
\<close>

definition newBufferPool :: "int \<Rightarrow> int \<Rightarrow> int \<Rightarrow> bufferPool option" where
  "newBufferPool poolSize maxSz maxElems =
     (if \<not> make_chan 8 poolSize \<or> (0 < poolSize \<and> \<not> make_slice 1 (go_int (maxSz + metricOverhead)))
      then None
      else let p = \<lparr>pool = [], poolCap = nat poolSize, bufferMaxSize = maxSz,
                     bufferMaxElements = maxElems\<rparr>
           in Some ((addNewBuffer ^^ nat poolSize) p))"

definition borrowBuffer :: "bufferPool \<Rightarrow> statsdBuffer \<times> bufferPool" where
  "borrowBuffer p =
     (case pool p of
        b # bs \<Rightarrow> (b, p\<lparr>pool := bs\<rparr>)
      | [] \<Rightarrow> (newStatsdBuffer (bufferMaxSize p) (bufferMaxElements p), p))"

definition returnBuffer :: "bufferPool \<Rightarrow> statsdBuffer \<Rightarrow> bufferPool" where
  "returnBuffer p b =
     (let b = reset b in
      if length (pool p) < poolCap p then p\<lparr>pool := pool p @ [b]\<rparr> else p)"

section \<open>The contract of a pool\<close>

text \<open>
  What the worker and the sender rely on: a borrowed buffer is fresh, and borrowing and
  returning buffers that belong to the pool keeps the pool in order.
\<close>

locale buffer_source =
  fixes borrow :: "'p \<Rightarrow> 'b \<times> 'p"
    and give :: "'p \<Rightarrow> 'b \<Rightarrow> 'p"
    and ok :: "'p \<Rightarrow> bool"
    and own :: "'b \<Rightarrow> bool"
    and fresh :: "'b \<Rightarrow> bool"
  assumes borrow_fresh: "ok p \<Longrightarrow> fresh (fst (borrow p))"
    and borrow_own: "ok p \<Longrightarrow> own (fst (borrow p))"
    and borrow_ok: "ok p \<Longrightarrow> ok (snd (borrow p))"
    and give_ok: "ok p \<Longrightarrow> own b \<Longrightarrow> ok (give p b)"
begin

text \<open>Giving back any number of buffers leaves a pool whose next buffer is fresh.\<close>

lemma give_all_ok: "ok p \<Longrightarrow> list_all own bs \<Longrightarrow> ok (foldl give p bs)"
  by (induction bs arbitrary: p) (auto intro: give_ok)

lemma borrow_after_give:
  "ok p \<Longrightarrow> list_all own bs \<Longrightarrow> fresh (fst (borrow (foldl give p bs)))"
  by (intro borrow_fresh give_all_ok)

lemma exchange:
  assumes "ok p" and "own b"
  shows "fresh (fst (borrow (give p b))) \<and> ok (snd (borrow (give p b)))"
  using assms by (simp add: give_ok borrow_fresh borrow_ok)

end

definition has_limits :: "int \<Rightarrow> int \<Rightarrow> statsdBuffer \<Rightarrow> bool" where
  "has_limits ms me b \<longleftrightarrow> maxSize b = ms \<and> maxElements b = me"

definition fresh_buffer :: "int \<Rightarrow> int \<Rightarrow> statsdBuffer \<Rightarrow> bool" where
  "fresh_buffer ms me b \<longleftrightarrow> b = newStatsdBuffer ms me"

definition wf_pool :: "int \<Rightarrow> int \<Rightarrow> bufferPool \<Rightarrow> bool" where
  "wf_pool ms me p \<longleftrightarrow> bufferMaxSize p = ms \<and> bufferMaxElements p = me
     \<and> length (pool p) \<le> poolCap p \<and> list_all (fresh_buffer ms me) (pool p)"

lemma fresh_has_limits [simp]: "fresh_buffer ms me b \<Longrightarrow> has_limits ms me b"
  by (simp add: fresh_buffer_def has_limits_def newStatsdBuffer_def)

lemma fresh_wf_buffer [simp]: "fresh_buffer ms me b \<Longrightarrow> wf_buffer b"
  by (simp add: fresh_buffer_def)

lemma fresh_buffer_reset: "has_limits ms me b \<Longrightarrow> fresh_buffer ms me (reset b)"
  by (cases b) (simp add: fresh_buffer_def has_limits_def reset_def newStatsdBuffer_def)

lemma addNewBuffer_pow:
  "(addNewBuffer ^^ n) p =
     p\<lparr>pool := pool p @ replicate n (newStatsdBuffer (bufferMaxSize p) (bufferMaxElements p))\<rparr>"
  by (induction n) (auto simp: addNewBuffer_def replicate_append_same)

lemma newBufferPool_wf: "newBufferPool n ms me = Some p \<Longrightarrow> wf_pool ms me p"
  by (auto simp: newBufferPool_def wf_pool_def addNewBuffer_pow fresh_buffer_def list_all_iff
      Let_def split: if_splits)

interpretation bp: buffer_source borrowBuffer returnBuffer "wf_pool ms me" "has_limits ms me"
  "fresh_buffer ms me" for ms me
proof unfold_locales
  fix p b
  assume p: "wf_pool ms me p"
  show "fresh_buffer ms me (fst (borrowBuffer p))"
    using p by (auto simp: borrowBuffer_def wf_pool_def fresh_buffer_def split: list.split)
  then show "has_limits ms me (fst (borrowBuffer p))"
    by simp
  show "wf_pool ms me (snd (borrowBuffer p))"
    using p by (auto simp: borrowBuffer_def wf_pool_def split: list.split)
  show "wf_pool ms me (returnBuffer p b)" if "has_limits ms me b"
    using p that by (auto simp: returnBuffer_def wf_pool_def Let_def fresh_buffer_reset)
qed

lemma poolCap_ops [simp]:
  "poolCap (snd (borrowBuffer p)) = poolCap p" "poolCap (returnBuffer p b) = poolCap p"
  by (simp_all add: borrowBuffer_def returnBuffer_def Let_def split: list.split)

section \<open>Properties\<close>

datatype pool_op = Borrow | Return statsdBuffer

fun pool_run :: "pool_op list \<Rightarrow> bufferPool \<Rightarrow> statsdBuffer list \<times> bufferPool" where
  "pool_run [] p = ([], p)"
| "pool_run (Borrow # ops) p =
     (let (b, p) = borrowBuffer p; (bs, p) = pool_run ops p in (b # bs, p))"
| "pool_run (Return b # ops) p = pool_run ops (returnBuffer p b)"

definition returns_own :: "int \<Rightarrow> int \<Rightarrow> pool_op list \<Rightarrow> bool" where
  "returns_own ms me ops \<longleftrightarrow>
     list_all (\<lambda>op. case op of Borrow \<Rightarrow> True | Return b \<Rightarrow> has_limits ms me b) ops"

lemma pool_run_fresh:
  "wf_pool ms me p \<Longrightarrow> returns_own ms me ops \<Longrightarrow>
   list_all (fresh_buffer ms me) (fst (pool_run ops p)) \<and> wf_pool ms me (snd (pool_run ops p))
   \<and> poolCap (snd (pool_run ops p)) = poolCap p"
proof (induction ops arbitrary: p)
  case (Cons op ops)
  show ?case
  proof (cases op)
    case Borrow
    with Cons.IH [of "snd (borrowBuffer p)"] Cons.prems bp.borrow_fresh [of ms me p]
      bp.borrow_ok [of ms me p] show ?thesis
      by (simp add: returns_own_def case_prod_unfold Let_def)
  next
    case (Return b)
    with Cons.IH [of "returnBuffer p b"] Cons.prems bp.give_ok [of ms me p b] show ?thesis
      by (simp add: returns_own_def)
  qed
qed simp

lemma newBufferPool_cap: "newBufferPool n ms me = Some p \<Longrightarrow> poolCap p = nat n"
  by (auto simp: newBufferPool_def addNewBuffer_pow Let_def split: if_splits)

text \<open>
  Whatever the order of borrowing and returning, every borrowed buffer is empty, with no
  element and the configured limits, and the pool never holds more than its capacity.
\<close>

theorem pool_borrow_fresh:
  assumes "newBufferPool n ms me = Some p" and "returns_own ms me ops"
    and "pool_run ops p = (borrowed, p')"
  shows "list_all (\<lambda>b. b = newStatsdBuffer ms me) borrowed \<and> int (length (pool p')) \<le> max 0 n"
  using pool_run_fresh [OF newBufferPool_wf [OF assms(1)] assms(2)] assms(3)
    newBufferPool_cap [OF assms(1)]
  by (auto simp: fresh_buffer_def wf_pool_def list_all_iff)

definition used_buffer :: statsdBuffer where
  "used_buffer = \<lparr>buffer = ''m:1|c'', maxSize = 64, maxElements = 4, elementCount = 1\<rparr>"

theorem pool_borrow_fresh_witness:
  "list_all (\<lambda>b. b = newStatsdBuffer 64 4)
     (fst (pool_run [Borrow, Borrow, Return used_buffer, Return used_buffer, Borrow]
       \<lparr>pool = [newStatsdBuffer 64 4], poolCap = 1, bufferMaxSize = 64, bufferMaxElements = 4\<rparr>))
   \<and> int (length (pool (snd (pool_run [Borrow, Borrow, Return used_buffer, Return used_buffer, Borrow]
       \<lparr>pool = [newStatsdBuffer 64 4], poolCap = 1, bufferMaxSize = 64, bufferMaxElements = 4\<rparr>))))
     \<le> max 0 1"
  by (rule pool_borrow_fresh [of 1 64 4 _ "[Borrow, Borrow, Return used_buffer, Return used_buffer, Borrow]"])
    (simp_all add: newBufferPool_def size_defs metricOverhead_def addNewBuffer_def Let_def returns_own_def
      has_limits_def used_buffer_def)

end
