(* ===== verification/Sender.thy ===== *)
theory Sender
  imports Pool
begin

text \<open>
  \<open>src/statsd/sender.go\<close>: the queue of payloads between the workers and the transport, the
  goroutine that drains it, and the counters of what became of each payload.

  The transport is not part of the file: the outcome of a \<open>Write\<close> (\<open>None\<close>, or the error's
  text) is an argument, and \<open>wire\<close> logs the payloads that were written without error.
  \<open>handled\<close> logs the calls of the error handler, if one is set.
\<close>

section \<open>The code\<close>

record senderTelemetry =
  totalPayloadsSent :: u64
  totalPayloadsDroppedQueueFull :: u64
  totalPayloadsDroppedWriter :: u64
  totalBytesSent :: u64
  totalBytesDroppedQueueFull :: u64
  totalBytesDroppedWriter :: u64

datatype sender_error =
    ErrorSenderChannelFull (LostElements: int) (ChannelSize: nat)
  | TransportError bytes

record sender =
  queue :: "statsdBuffer list"
  queueCap :: nat
  s_telemetry :: senderTelemetry
  hasErrorHandler :: bool
  handled :: "sender_error list"
  wire :: "bytes list"

definition zero_senderTelemetry :: senderTelemetry where
  "zero_senderTelemetry =
     \<lparr>totalPayloadsSent = 0, totalPayloadsDroppedQueueFull = 0, totalPayloadsDroppedWriter = 0,
      totalBytesSent = 0, totalBytesDroppedQueueFull = 0, totalBytesDroppedWriter = 0\<rparr>"

definition newSender :: "nat \<Rightarrow> bool \<Rightarrow> sender" where
  "newSender queueSize hasHandler =
     \<lparr>queue = [], queueCap = queueSize, s_telemetry = zero_senderTelemetry,
      hasErrorHandler = hasHandler, handled = [], wire = []\<rparr>"

definition handle_error :: "sender \<Rightarrow> sender_error \<Rightarrow> sender" where
  "handle_error s err =
     (if hasErrorHandler s then s\<lparr>handled := handled s @ [err]\<rparr> else s)"

definition payload_bytes :: "statsdBuffer \<Rightarrow> u64" where
  "payload_bytes b = of_nat (length (buf_bytes b))"

text \<open>\<open>sender.send\<close>: enqueue, or drop the payload when the channel is full.\<close>

definition sender_send :: "bufferPool \<Rightarrow> sender \<Rightarrow> statsdBuffer \<Rightarrow> bufferPool \<times> sender" where
  "sender_send p s b =
     (if length (queue s) < queueCap s then (p, s\<lparr>queue := queue s @ [b]\<rparr>)
      else let s = handle_error s (ErrorSenderChannelFull (elementCount b) (length (queue s)));
               t = s_telemetry s;
               t = t\<lparr>totalPayloadsDroppedQueueFull := totalPayloadsDroppedQueueFull t + 1\<rparr>;
               t = t\<lparr>totalBytesDroppedQueueFull := totalBytesDroppedQueueFull t + payload_bytes b\<rparr>
           in (returnBuffer p b, s\<lparr>s_telemetry := t\<rparr>))"

text \<open>\<open>sender.write\<close>, with the outcome of the transport.\<close>

definition sender_write ::
  "bufferPool \<Rightarrow> sender \<Rightarrow> statsdBuffer \<Rightarrow> bytes option \<Rightarrow> bufferPool \<times> sender" where
  "sender_write p s b err =
     (case err of
        Some e \<Rightarrow>
          let t = s_telemetry s;
              t = t\<lparr>totalPayloadsDroppedWriter := totalPayloadsDroppedWriter t + 1\<rparr>;
              t = t\<lparr>totalBytesDroppedWriter := totalBytesDroppedWriter t + payload_bytes b\<rparr>
          in (returnBuffer p b, handle_error (s\<lparr>s_telemetry := t\<rparr>) (TransportError e))
      | None \<Rightarrow>
          let t = s_telemetry s;
              t = t\<lparr>totalPayloadsSent := totalPayloadsSent t + 1\<rparr>;
              t = t\<lparr>totalBytesSent := totalBytesSent t + payload_bytes b\<rparr>
          in (returnBuffer p b, s\<lparr>s_telemetry := t, wire := wire s @ [buf_bytes b]\<rparr>))"

lemma queue_handle_error [simp]:
  "queue (handle_error s e) = queue s" "queueCap (handle_error s e) = queueCap s"
  "s_telemetry (handle_error s e) = s_telemetry s" "wire (handle_error s e) = wire s"
  by (simp_all add: handle_error_def)

lemma queue_sender_write [simp]:
  "queue (snd (sender_write p s b err)) = queue s"
  "queueCap (snd (sender_write p s b err)) = queueCap s"
  by (simp_all add: sender_write_def Let_def split: option.split)

text \<open>
  \<open>flushInputQueue\<close> writes until the queue is empty; \<open>outs i\<close> is the outcome of the \<open>i\<close>-th
  write from now.
\<close>

function flushInputQueue ::
  "bufferPool \<Rightarrow> sender \<Rightarrow> (nat \<Rightarrow> bytes option) \<Rightarrow> bufferPool \<times> sender" where
  "flushInputQueue p s outs =
     (case queue s of
        [] \<Rightarrow> (p, s)
      | b # q \<Rightarrow>
          let (p, s) = sender_write p (s\<lparr>queue := q\<rparr>) b (outs 0)
          in flushInputQueue p s (\<lambda>i. outs (Suc i)))"
  by pat_completeness auto
termination
proof (relation "measure (\<lambda>(p, s, outs). length (queue s))", simp, clarsimp)
  fix p :: bufferPool and s :: sender and outs :: "nat \<Rightarrow> bytes option" and b q p' s'
  assume "queue s = b # q" and "(p', s') = sender_write p (s\<lparr>queue := q\<rparr>) b (outs 0)"
  then have "queue s' = q"
    by (metis queue_sender_write(1) sender.select_convs(1) sender.surjective
        sender.update_convs(1) snd_conv)
  then show "length (queue s') < Suc (length q)" by simp
qed

declare flushInputQueue.simps [simp del]

section \<open>The drain loop and its environment\<close>

text \<open>
  The goroutine \<open>sendLoop\<close> runs beside the workers.  A state holds the shared pool and
  sender, how far shutting down has come, and two ghosts: the payloads submitted with
  \<open>send\<close> so far, and those a worker holds for writing.  \<open>close\<close> stops the loop, then drains
  what is left and closes the transport.
\<close>

datatype loop_status = Running | Stopped | Closed

record sender_sys =
  ss_pool :: bufferPool
  ss_sender :: sender
  ss_status :: loop_status
  ss_submitted :: "statsdBuffer list"

inductive sender_step :: "sender_sys \<Rightarrow> sender_sys \<Rightarrow> bool" where
  borrow: "borrowBuffer (ss_pool st) = (b, p) \<Longrightarrow> sender_step st (st\<lparr>ss_pool := p\<rparr>)"
| submit: "has_limits (bufferMaxSize (ss_pool st)) (bufferMaxElements (ss_pool st)) b \<Longrightarrow>
    sender_send (ss_pool st) (ss_sender st) b = (p, s) \<Longrightarrow>
    sender_step st (st\<lparr>ss_pool := p, ss_sender := s, ss_submitted := ss_submitted st @ [b]\<rparr>)"
| loop_write: "ss_status st = Running \<Longrightarrow> queue (ss_sender st) = b # q \<Longrightarrow>
    sender_write (ss_pool st) (ss_sender st\<lparr>queue := q\<rparr>) b err = (p, s) \<Longrightarrow>
    sender_step st (st\<lparr>ss_pool := p, ss_sender := s\<rparr>)"
| loop_flush: "ss_status st = Running \<Longrightarrow>
    flushInputQueue (ss_pool st) (ss_sender st) outs = (p, s) \<Longrightarrow>
    sender_step st (st\<lparr>ss_pool := p, ss_sender := s\<rparr>)"
| loop_stop: "ss_status st = Running \<Longrightarrow> sender_step st (st\<lparr>ss_status := Stopped\<rparr>)"
| close_flush: "ss_status st = Stopped \<Longrightarrow>
    flushInputQueue (ss_pool st) (ss_sender st) outs = (p, s) \<Longrightarrow>
    sender_step st (st\<lparr>ss_pool := p, ss_sender := s, ss_status := Closed\<rparr>)"

inductive sender_reachable :: "bufferPool \<Rightarrow> sender \<Rightarrow> sender_sys \<Rightarrow> bool" for p0 s0 where
  start: "sender_reachable p0 s0
    \<lparr>ss_pool = p0, ss_sender = s0, ss_status = Running, ss_submitted = []\<rparr>"
| step: "sender_reachable p0 s0 st \<Longrightarrow> sender_step st st' \<Longrightarrow> sender_reachable p0 s0 st'"

section \<open>Accounting\<close>

text \<open>
  Counts of payloads, as the 64-bit counters keep them: those on the wire, those dropped,
  those waiting.
\<close>

definition payloads_accounted :: "sender \<Rightarrow> u64" where
  "payloads_accounted s =
     totalPayloadsSent (s_telemetry s) + totalPayloadsDroppedQueueFull (s_telemetry s)
       + totalPayloadsDroppedWriter (s_telemetry s) + of_nat (length (queue s))"

definition bytes_accounted :: "sender \<Rightarrow> u64" where
  "bytes_accounted s =
     totalBytesSent (s_telemetry s) + totalBytesDroppedQueueFull (s_telemetry s)
       + totalBytesDroppedWriter (s_telemetry s) + sum_list (map payload_bytes (queue s))"

definition wire_counted :: "sender \<Rightarrow> bool" where
  "wire_counted s \<longleftrightarrow> totalPayloadsSent (s_telemetry s) = of_nat (length (wire s))
     \<and> totalBytesSent (s_telemetry s) = of_nat (length (concat (wire s)))"

lemma sender_send_accounts:
  "payloads_accounted (snd (sender_send p s b)) = payloads_accounted s + 1"
  "bytes_accounted (snd (sender_send p s b)) = bytes_accounted s + payload_bytes b"
  by (simp_all add: sender_send_def payloads_accounted_def bytes_accounted_def Let_def)

lemma sender_write_accounts:
  "payloads_accounted (snd (sender_write p s b err)) = payloads_accounted s + 1"
  "bytes_accounted (snd (sender_write p s b err)) = bytes_accounted s + payload_bytes b"
  by (simp_all add: sender_write_def payloads_accounted_def bytes_accounted_def Let_def
      split: option.split)

lemma dequeue_accounts:
  assumes "queue s = b # q"
  shows "payloads_accounted (s\<lparr>queue := q\<rparr>) + 1 = payloads_accounted s"
    and "bytes_accounted (s\<lparr>queue := q\<rparr>) + payload_bytes b = bytes_accounted s"
  using assms by (simp_all add: payloads_accounted_def bytes_accounted_def)

lemma sender_send_wire: "wire_counted s \<Longrightarrow> wire_counted (snd (sender_send p s b))"
  by (simp add: sender_send_def wire_counted_def Let_def)

lemma sender_write_wire: "wire_counted s \<Longrightarrow> wire_counted (snd (sender_write p s b err))"
  by (simp add: sender_write_def wire_counted_def payload_bytes_def Let_def split: option.split)

text \<open>An induction principle for the drain: a property kept by one dequeue-and-write.\<close>

lemma flushInputQueue_keeps:
  assumes "I p s"
    and "\<And>p s b q err. I p s \<Longrightarrow> queue s = b # q \<Longrightarrow>
      I (fst (sender_write p (s\<lparr>queue := q\<rparr>) b err)) (snd (sender_write p (s\<lparr>queue := q\<rparr>) b err))"
  shows "I (fst (flushInputQueue p s outs)) (snd (flushInputQueue p s outs))"
  using assms(1)
proof (induction p s outs rule: flushInputQueue.induct)
  case (1 p s outs)
  show ?case
  proof (cases "queue s")
    case Nil
    with 1 show ?thesis by (simp add: flushInputQueue.simps [of p])
  next
    case (Cons b q)
    let ?r = "sender_write p (s\<lparr>queue := q\<rparr>) b (outs 0)"
    from assms(2) [OF "1.prems" Cons] have "I (fst ?r) (snd ?r)" .
    with Cons show ?thesis
      using "1.IH" [OF Cons, of ?r "fst ?r" "snd ?r"]
      by (simp add: flushInputQueue.simps [of p s] case_prod_unfold Let_def)
  qed
qed

lemma flushInputQueue_empties: "queue (snd (flushInputQueue p s outs)) = []"
proof (induction p s outs rule: flushInputQueue.induct)
  case (1 p s outs)
  then show ?case
    by (auto simp: flushInputQueue.simps [of p s] split: list.split prod.split)
qed

end
