(* ===== verification/Sender_Facts.thy ===== *)
theory Sender_Facts
  imports Sender "HOL-Library.Sublist"
begin

text \<open>
  Invariants of every reachable state of the sender: the counters account for each
  submitted payload and byte, the transport saw a subsequence of the submissions in order,
  the queue stays within its capacity and the pool holds fresh buffers.
\<close>

section \<open>One operation at a time\<close>

text \<open>
  The ledger relative to the payloads submitted so far: everything submitted is on the
  wire, dropped with a count, or waiting.
\<close>

definition ledger :: "statsdBuffer list \<Rightarrow> sender \<Rightarrow> bool" where
  "ledger subs s \<longleftrightarrow>
     payloads_accounted s = of_nat (length subs)
     \<and> bytes_accounted s = sum_list (map payload_bytes subs)
     \<and> wire_counted s
     \<and> subseq (wire s @ map buf_bytes (queue s)) (map buf_bytes subs)
     \<and> length (queue s) \<le> queueCap s"

definition sender_pool_ok :: "int \<Rightarrow> int \<Rightarrow> bufferPool \<Rightarrow> sender \<Rightarrow> bool" where
  "sender_pool_ok ms me p s \<longleftrightarrow> wf_pool ms me p \<and> list_all (has_limits ms me) (queue s)"

lemma ledger_start: "ledger [] (newSender n h)"
  by (simp add: ledger_def newSender_def payloads_accounted_def bytes_accounted_def
      wire_counted_def zero_senderTelemetry_def)

lemma ledger_send:
  assumes "ledger subs s"
  shows "ledger (subs @ [b]) (snd (sender_send p s b))"
proof -
  let ?s = "snd (sender_send p s b)"
  have "wire ?s @ map buf_bytes (queue ?s) =
      (wire s @ map buf_bytes (queue s)) @ (if length (queue s) < queueCap s then [buf_bytes b] else [])"
    by (simp add: sender_send_def Let_def)
  then have "subseq (wire ?s @ map buf_bytes (queue ?s)) (map buf_bytes subs @ [buf_bytes b])"
    using assms by (simp only: ledger_def) (simp add: subseq_rev_drop_many del: append_assoc)
  moreover have "length (queue ?s) \<le> queueCap ?s"
    using assms by (auto simp: ledger_def sender_send_def Let_def)
  ultimately show ?thesis
    using assms by (simp add: ledger_def sender_send_accounts sender_send_wire)
qed

lemma ledger_write:
  assumes "ledger subs s" and "queue s = b # q"
  shows "ledger subs (snd (sender_write p (s\<lparr>queue := q\<rparr>) b err))"
proof -
  let ?s = "snd (sender_write p (s\<lparr>queue := q\<rparr>) b err)"
  have "subseq (wire ?s @ map buf_bytes (queue ?s)) (wire s @ map buf_bytes (queue s))"
    using assms(2)
    by (cases err) (auto simp: sender_write_def Let_def intro: list_emb_append_mono)
  moreover have "wire_counted ?s"
    using assms(1) by (intro sender_write_wire) (simp add: ledger_def wire_counted_def)
  moreover have "payloads_accounted ?s = payloads_accounted s"
    and "bytes_accounted ?s = bytes_accounted s"
    using dequeue_accounts [OF assms(2)] by (simp_all add: sender_write_accounts)
  ultimately show ?thesis
    using assms by (auto simp: ledger_def intro: subseq_order.trans)
qed

lemma sender_pool_send:
  "sender_pool_ok ms me p s \<Longrightarrow> has_limits ms me b \<Longrightarrow>
   sender_pool_ok ms me (fst (sender_send p s b)) (snd (sender_send p s b))"
  by (auto simp: sender_pool_ok_def sender_send_def Let_def bp.give_ok)

lemma sender_pool_write:
  "sender_pool_ok ms me p s \<Longrightarrow> queue s = b # q \<Longrightarrow>
   sender_pool_ok ms me (fst (sender_write p (s\<lparr>queue := q\<rparr>) b err))
     (snd (sender_write p (s\<lparr>queue := q\<rparr>) b err))"
  by (cases err) (auto simp: sender_pool_ok_def sender_write_def Let_def bp.give_ok)

lemma ledger_flush: "ledger subs s \<Longrightarrow> ledger subs (snd (flushInputQueue p s outs))"
  by (rule flushInputQueue_keeps [of "\<lambda>p s. ledger subs s"]) (simp_all add: ledger_write)

lemma sender_pool_flush:
  "sender_pool_ok ms me p s \<Longrightarrow>
   sender_pool_ok ms me (fst (flushInputQueue p s outs)) (snd (flushInputQueue p s outs))"
  by (rule flushInputQueue_keeps) (auto intro: sender_pool_write)

section \<open>Every reachable state\<close>

definition sender_inv :: "int \<Rightarrow> int \<Rightarrow> sender_sys \<Rightarrow> bool" where
  "sender_inv ms me st \<longleftrightarrow> ledger (ss_submitted st) (ss_sender st)
     \<and> sender_pool_ok ms me (ss_pool st) (ss_sender st)"

lemma sender_step_inv: "sender_step st st' \<Longrightarrow> sender_inv ms me st \<Longrightarrow> sender_inv ms me st'"
proof (induction rule: sender_step.induct)
  case (borrow st b p)
  then show ?case
    using bp.borrow_ok [of ms me "ss_pool st"]
    by (simp add: sender_inv_def ledger_def sender_pool_ok_def)
next
  case (submit st b p s)
  then have "has_limits ms me b"
    by (simp add: sender_inv_def sender_pool_ok_def wf_pool_def)
  with submit show ?case
    using ledger_send [of "ss_submitted st" "ss_sender st" b "ss_pool st"]
      sender_pool_send [of ms me "ss_pool st" "ss_sender st" b]
    by (simp add: sender_inv_def)
next
  case (loop_write st b q err p s)
  then show ?case
    using ledger_write [of "ss_submitted st" "ss_sender st" b q "ss_pool st" err]
      sender_pool_write [of ms me "ss_pool st" "ss_sender st" b q err]
    by (simp add: sender_inv_def)
next
  case (loop_flush st outs p s)
  then show ?case
    using ledger_flush [of "ss_submitted st" "ss_sender st" "ss_pool st" outs]
      sender_pool_flush [of ms me "ss_pool st" "ss_sender st" outs]
    by (simp add: sender_inv_def)
next
  case (loop_stop st)
  then show ?case by (simp add: sender_inv_def)
next
  case (close_flush st outs p s)
  then show ?case
    using ledger_flush [of "ss_submitted st" "ss_sender st" "ss_pool st" outs]
      sender_pool_flush [of ms me "ss_pool st" "ss_sender st" outs]
    by (simp add: sender_inv_def)
qed

lemma sender_reachable_inv:
  assumes "sender_reachable p0 (newSender n h) st" and "wf_pool ms me p0"
  shows "sender_inv ms me st"
  using assms(1)
proof (induction rule: sender_reachable.induct)
  case start
  then show ?case
    using assms(2) ledger_start
    by (simp add: sender_inv_def sender_pool_ok_def newSender_def)
next
  case (step st st')
  then show ?case by (blast intro: sender_step_inv)
qed

lemma queueCap_step:
  "sender_step st st' \<Longrightarrow> queueCap (ss_sender st') = queueCap (ss_sender st)"
proof (induction rule: sender_step.induct)
  case (submit st b p s)
  then show ?case
    by (auto simp: sender_send_def Let_def split: if_splits)
next
  case (loop_write st b q err p s)
  then show ?case
    using queue_sender_write(2) [of "ss_pool st" "ss_sender st\<lparr>queue := q\<rparr>" b err] by simp
next
  case (loop_flush st outs p s)
  then show ?case
    using flushInputQueue_keeps [of "\<lambda>p s. queueCap s = queueCap (ss_sender st)"
      "ss_pool st" "ss_sender st" outs] by simp
next
  case (close_flush st outs p s)
  then show ?case
    using flushInputQueue_keeps [of "\<lambda>p s. queueCap s = queueCap (ss_sender st)"
      "ss_pool st" "ss_sender st" outs] by simp
qed simp_all

lemma reachable_queueCap:
  "sender_reachable p0 s0 st \<Longrightarrow> queueCap (ss_sender st) = queueCap s0"
  by (induction rule: sender_reachable.induct) (auto dest: queueCap_step)

section \<open>Reported errors\<close>

definition handled_counted :: "sender \<Rightarrow> bool" where
  "handled_counted s \<longleftrightarrow> (hasErrorHandler s \<longrightarrow> of_nat (length (handled s))
     = totalPayloadsDroppedQueueFull (s_telemetry s) + totalPayloadsDroppedWriter (s_telemetry s))"

lemma handled_send:
  "handled_counted s \<Longrightarrow> handled_counted (snd (sender_send p s b))"
  by (simp add: handled_counted_def sender_send_def handle_error_def Let_def)

lemma handled_write:
  "handled_counted s \<Longrightarrow> handled_counted (snd (sender_write p (s\<lparr>queue := q\<rparr>) b err))"
  by (cases err) (simp_all add: handled_counted_def sender_write_def handle_error_def Let_def)

lemma handled_flush: "handled_counted s \<Longrightarrow> handled_counted (snd (flushInputQueue p s outs))"
  by (rule flushInputQueue_keeps [of "\<lambda>p s. handled_counted s"]) (simp_all add: handled_write)

lemma handled_step:
  "sender_step st st' \<Longrightarrow> handled_counted (ss_sender st) \<Longrightarrow> handled_counted (ss_sender st')"
proof (induction rule: sender_step.induct)
  case (submit st b p s)
  then show ?case using handled_send [of "ss_sender st" "ss_pool st" b] by simp
next
  case (loop_write st b q err p s)
  then show ?case using handled_write [of "ss_sender st" "ss_pool st" q b err] by simp
next
  case (loop_flush st outs p s)
  then show ?case using handled_flush [of "ss_sender st" "ss_pool st" outs] by simp
next
  case (close_flush st outs p s)
  then show ?case using handled_flush [of "ss_sender st" "ss_pool st" outs] by simp
qed simp_all

lemma reachable_handled:
  "sender_reachable p0 (newSender n h) st \<Longrightarrow> handled_counted (ss_sender st)"
proof (induction rule: sender_reachable.induct)
  case start
  show ?case
    by (simp add: handled_counted_def newSender_def zero_senderTelemetry_def)
qed (blast intro: handled_step)

lemma flush_wire_ok:
  "wire (snd (flushInputQueue p s (\<lambda>_. None))) = wire s @ map buf_bytes (queue s)"
proof (induction "length (queue s)" arbitrary: p s)
  case 0
  then show ?case by (simp add: flushInputQueue.simps [of p s])
next
  case (Suc n)
  then obtain b q where q: "queue s = b # q" by (cases "queue s") auto
  let ?r = "sender_write p (s\<lparr>queue := q\<rparr>) b None"
  have r: "queue (snd ?r) = q" "wire (snd ?r) = wire s @ [buf_bytes b]"
    by (simp_all add: sender_write_def Let_def)
  with Suc.hyps(1) [of "snd ?r" "fst ?r"] Suc.hyps(2) q show ?case
    by (simp add: flushInputQueue.simps [of p s] case_prod_unfold Let_def)
qed

section \<open>Properties\<close>

text \<open>
  C9. In every reachable state each payload handed to \<open>send\<close>, and each of its bytes, is counted
  exactly once, as sent, dropped at the queue or dropped by the writer, or it waits in the
  queue; the sent counters agree with what the transport accepted.
\<close>

theorem sender_conservation:
  assumes "wf_pool ms me p0" and "sender_reachable p0 (newSender n h) st"
  shows "payloads_accounted (ss_sender st) = of_nat (length (ss_submitted st))
    \<and> bytes_accounted (ss_sender st) = sum_list (map payload_bytes (ss_submitted st))
    \<and> wire_counted (ss_sender st)"
  using sender_reachable_inv [OF assms(2,1)] by (simp add: sender_inv_def ledger_def)

text \<open>
  C20. The transport receives submitted payloads unchanged, in the order of submission and none
  twice, and the queue never exceeds its capacity.
\<close>

theorem sender_order:
  assumes "wf_pool ms me p0" and "sender_reachable p0 (newSender n h) st"
  shows "subseq (wire (ss_sender st) @ map buf_bytes (queue (ss_sender st)))
      (map buf_bytes (ss_submitted st))
    \<and> length (queue (ss_sender st)) \<le> n"
  using sender_reachable_inv [OF assms(2,1)] reachable_queueCap [OF assms(2)]
  by (simp add: sender_inv_def ledger_def newSender_def)

text \<open>
  With an error handler set, the handler has been called exactly once for every payload that
  was dropped, at the queue or by the writer.
\<close>

theorem sender_errors_reported:
  assumes "sender_reachable p0 (newSender n h) st" and "hasErrorHandler (ss_sender st)"
  shows "of_nat (length (handled (ss_sender st)))
    = totalPayloadsDroppedQueueFull (s_telemetry (ss_sender st))
      + totalPayloadsDroppedWriter (s_telemetry (ss_sender st))"
  using reachable_handled [OF assms(1)] assms(2) by (simp add: handled_counted_def)

text \<open>
  C21. Closing a stopped sender leaves nothing behind: the queue is empty, every payload ever
  submitted is counted as sent or dropped, and with a transport that accepts its input all
  that was waiting reaches it in order.
\<close>

theorem sender_close_drains:
  assumes "wf_pool ms me p0" and "sender_reachable p0 (newSender n h) st"
    and "ss_status st = Stopped"
    and "flushInputQueue (ss_pool st) (ss_sender st) outs = (p, s)"
  shows "queue s = []
    \<and> totalPayloadsSent (s_telemetry s) + totalPayloadsDroppedQueueFull (s_telemetry s)
        + totalPayloadsDroppedWriter (s_telemetry s) = of_nat (length (ss_submitted st))
    \<and> (outs = (\<lambda>_. None) \<longrightarrow> wire s = wire (ss_sender st) @ map buf_bytes (queue (ss_sender st)))"
proof -
  let ?st = "st\<lparr>ss_pool := p, ss_sender := s, ss_status := Closed\<rparr>"
  have q: "queue s = []"
    using flushInputQueue_empties [of "ss_pool st" "ss_sender st" outs] assms(4) by simp
  have "sender_reachable p0 (newSender n h) ?st"
    using sender_step.close_flush [OF assms(3,4)] assms(2) by (blast intro: sender_reachable.step)
  from sender_reachable_inv [OF this assms(1)] q show ?thesis
    using flush_wire_ok [of "ss_pool st" "ss_sender st"] assms(4)
    by (auto simp: sender_inv_def ledger_def payloads_accounted_def)
qed

subsection \<open>Witnesses\<close>

text \<open>A sender with a queue of one, to which two payloads are submitted.\<close>

definition small_pool :: bufferPool where
  "small_pool = \<lparr>pool = [], poolCap = 1, bufferMaxSize = 64, bufferMaxElements = 4\<rparr>"

definition full_buffer :: statsdBuffer where
  "full_buffer = \<lparr>buffer = ''m:1|c'', maxSize = 64, maxElements = 4, elementCount = 1\<rparr>"

fun submit_all :: "statsdBuffer list \<Rightarrow> sender_sys \<Rightarrow> sender_sys" where
  "submit_all [] st = st"
| "submit_all (b # bs) st =
     (let (p, s) = sender_send (ss_pool st) (ss_sender st) b
      in submit_all bs (st\<lparr>ss_pool := p, ss_sender := s, ss_submitted := ss_submitted st @ [b]\<rparr>))"

definition busy_sender :: sender_sys where
  "busy_sender = submit_all [full_buffer, full_buffer]
     \<lparr>ss_pool = small_pool, ss_sender = newSender 1 True, ss_status = Running, ss_submitted = []\<rparr>"

lemma wf_small_pool: "wf_pool 64 4 small_pool"
  by (simp add: wf_pool_def small_pool_def)

lemma submit_all_reachable:
  "sender_reachable p0 s0 st \<Longrightarrow>
   list_all (has_limits (bufferMaxSize (ss_pool st)) (bufferMaxElements (ss_pool st))) bs \<Longrightarrow>
   sender_reachable p0 s0 (submit_all bs st)"
proof (induction bs arbitrary: st)
  case (Cons b bs)
  obtain p s where ps: "sender_send (ss_pool st) (ss_sender st) b = (p, s)"
    by (cases "sender_send (ss_pool st) (ss_sender st) b")
  have "bufferMaxSize p = bufferMaxSize (ss_pool st)
      \<and> bufferMaxElements p = bufferMaxElements (ss_pool st)"
    using ps by (auto simp: sender_send_def returnBuffer_def Let_def split: if_splits)
  moreover have "sender_reachable p0 s0
      (st\<lparr>ss_pool := p, ss_sender := s, ss_submitted := ss_submitted st @ [b]\<rparr>)"
    using Cons.prems ps sender_step.submit [of st b p s] by (auto intro: sender_reachable.step)
  ultimately show ?case
    using Cons.IH Cons.prems(2) ps by simp
qed simp

lemma busy_reachable: "sender_reachable small_pool (newSender 1 True) busy_sender"
  unfolding busy_sender_def
  by (rule submit_all_reachable [OF sender_reachable.start])
    (simp add: has_limits_def small_pool_def full_buffer_def)

lemmas busy_eval =
  busy_sender_def sender_send_def newSender_def returnBuffer_def small_pool_def full_buffer_def
  handle_error_def zero_senderTelemetry_def reset_def Let_def

lemma busy_submitted: "ss_submitted busy_sender = [full_buffer, full_buffer]"
  by (simp add: busy_sender_def case_prod_unfold Let_def)

theorem sender_conservation_witness:
  "payloads_accounted (ss_sender busy_sender) = 2 \<and> wire_counted (ss_sender busy_sender)"
  using sender_conservation [OF wf_small_pool busy_reachable] by (simp add: busy_submitted)

theorem sender_order_witness:
  "length (queue (ss_sender busy_sender)) \<le> 1"
  using sender_order [OF wf_small_pool busy_reachable] by simp

theorem sender_errors_reported_witness:
  "(of_nat (length (handled (ss_sender busy_sender))) :: u64)
     = totalPayloadsDroppedQueueFull (s_telemetry (ss_sender busy_sender))
       + totalPayloadsDroppedWriter (s_telemetry (ss_sender busy_sender))"
  by (rule sender_errors_reported [OF busy_reachable]) (simp add: busy_eval)

definition stopped_sender :: sender_sys where
  "stopped_sender = busy_sender\<lparr>ss_status := Stopped\<rparr>"

lemma stopped_reachable: "sender_reachable small_pool (newSender 1 True) stopped_sender"
  unfolding stopped_sender_def
  by (rule sender_reachable.step [OF busy_reachable], rule sender_step.loop_stop)
    (simp add: busy_eval)

theorem sender_close_drains_witness:
  "wire (snd (flushInputQueue (ss_pool stopped_sender) (ss_sender stopped_sender) (\<lambda>_. None)))
     = [''m:1|c'']"
  using sender_close_drains [OF wf_small_pool stopped_reachable _ surjective_pairing, of "\<lambda>_. None"]
  by (simp add: stopped_sender_def busy_eval buf_bytes_def)

end
