(* ===== verification/Worker.thy ===== *)
theory Worker
  imports Metric Sender_Facts
begin

text \<open>
  \<open>src/statsd/worker.go\<close>: a worker serializes metrics into its current buffer and hands a
  full buffer to the sender, taking a new one from the pool.

  The pool and the sender are shared by all workers, so the operations take and return
  them; \<open>sh_log\<close> is a ghost, the payloads handed to \<open>sender.send\<close> so far.  A worker's lock
  makes each operation atomic with respect to its buffer.
\<close>

section \<open>The code\<close>

record shared =
  sh_pool :: bufferPool
  sh_sender :: sender
  sh_log :: "statsdBuffer list"

record worker =
  w_buffer :: statsdBuffer

definition newWorker :: "shared \<Rightarrow> shared \<times> worker" where
  "newWorker sh =
     (let (b, p) = borrowBuffer (sh_pool sh) in (sh\<lparr>sh_pool := p\<rparr>, \<lparr>w_buffer = b\<rparr>))"

text \<open>\<open>flushUnsafe\<close>; \<open>flush\<close> is the same under the lock.\<close>

definition flushUnsafe :: "shared \<Rightarrow> worker \<Rightarrow> shared \<times> worker" where
  "flushUnsafe sh w =
     (if length (buf_bytes (w_buffer w)) > 0
      then let (p, s) = sender_send (sh_pool sh) (sh_sender sh) (w_buffer w);
               (b, p) = borrowBuffer p
           in (\<lparr>sh_pool = p, sh_sender = s, sh_log = sh_log sh @ [w_buffer w]\<rparr>, w\<lparr>w_buffer := b\<rparr>)
      else (sh, w))"

text \<open>The size estimate of an aggregated metric's fields after the values.\<close>

definition aggregatedExtraSize :: "metric \<Rightarrow> bytes \<Rightarrow> int" where
  "aggregatedExtraSize m metricSymbol =
     (let extraSize = int (length (m_stags m)) + 4 + int (length metricSymbol);
          extraSize = (if f64_lt (m_rate m) f64_one then extraSize + (2 + 18) else extraSize)
      in foldl (\<lambda>extraSize t. extraSize + (int (length t) + 1)) extraSize (m_globalTags m))"

text \<open>
  The loop of \<open>writeAggregatedMetricUnsafe\<close>; \<open>values\<close> is \<open>m.fvalues[globalPos:]\<close>.  Every turn
  that goes on has written at least one value.
\<close>

function writeAggregatedLoop ::
  "globals \<Rightarrow> shared \<Rightarrow> worker \<Rightarrow> metric \<Rightarrow> bytes \<Rightarrow> int \<Rightarrow> int \<Rightarrow> f64 \<Rightarrow> f64 list
     \<Rightarrow> shared \<times> worker \<times> write_error option" where
  "writeAggregatedLoop g sh w m metricSymbol extraSize precision rate values =
     (case writeAggregated g (w_buffer w) metricSymbol (m_namespace m) (m_globalTags m) (m_name m)
             values (m_stags m) extraSize precision rate (m_originDetection m) (m_cardinality m) of
        (b, pos, err) \<Rightarrow>
          if err = Some errPartialWrite
          then case flushUnsafe sh (w\<lparr>w_buffer := b\<rparr>) of
            (sh, w) \<Rightarrow>
              writeAggregatedLoop g sh w m metricSymbol extraSize precision rate (drop pos values)
          else (sh, w\<lparr>w_buffer := b\<rparr>, err))"
  by pat_completeness auto
termination
  by (relation "measure (\<lambda>(g, sh, w, m, metricSymbol, extraSize, precision, rate, values).
      length values)", simp)
    (auto elim!: writeAggregated_cases [OF sym] split: if_splits)

declare writeAggregatedLoop.simps [simp del]

definition writeAggregatedMetricUnsafe ::
  "globals \<Rightarrow> shared \<Rightarrow> worker \<Rightarrow> metric \<Rightarrow> bytes \<Rightarrow> int \<Rightarrow> f64
     \<Rightarrow> shared \<times> worker \<times> write_error option" where
  "writeAggregatedMetricUnsafe g sh w m metricSymbol precision rate =
     writeAggregatedLoop g sh w m metricSymbol (aggregatedExtraSize m metricSymbol) precision rate
       (m_fvalues m)"

text \<open>A simple write touches the worker's buffer only.\<close>

definition with_buffer ::
  "shared \<Rightarrow> worker \<Rightarrow> write_result \<Rightarrow> shared \<times> worker \<times> write_error option" where
  "with_buffer sh w r = (sh, w\<lparr>w_buffer := fst r\<rparr>, snd r)"

definition writeMetricUnsafe ::
  "globals \<Rightarrow> shared \<Rightarrow> worker \<Rightarrow> metric \<Rightarrow> shared \<times> worker \<times> write_error option" where
  "writeMetricUnsafe g sh w m =
     (let b = w_buffer w; ns = m_namespace m; gts = m_globalTags m; name = m_name m; ts = m_tags m;
          rate = m_rate m; od = m_originDetection m; crd = m_cardinality m
      in case m_type m of
        gaugeT \<Rightarrow>
          with_buffer sh w (writeGauge g b ns gts name (m_fvalue m) ts rate (m_timestamp m) od crd)
      | countT \<Rightarrow>
          with_buffer sh w (writeCount g b ns gts name (m_ivalue m) ts rate (m_timestamp m) od crd)
      | histogramT \<Rightarrow>
          with_buffer sh w (writeHistogram g b ns gts name (m_fvalue m) ts rate od crd)
      | distributionT \<Rightarrow>
          with_buffer sh w (writeDistribution g b ns gts name (m_fvalue m) ts rate od crd)
      | setT \<Rightarrow>
          with_buffer sh w (writeSet g b ns gts name (m_svalue m) ts rate od crd)
      | timingT \<Rightarrow>
          with_buffer sh w (writeTiming g b ns gts name (m_fvalue m) ts rate od crd)
      | eventT \<Rightarrow> with_buffer sh w (writeEvent g b (m_evalue m) gts od crd)
      | serviceCheckT \<Rightarrow> with_buffer sh w (writeServiceCheck g b (m_scvalue m) gts od crd)
      | histogramAggregatedT \<Rightarrow>
          writeAggregatedMetricUnsafe g sh w m histogramSymbol (- 1) rate
      | distributionAggregatedT \<Rightarrow>
          writeAggregatedMetricUnsafe g sh w m distributionSymbol (- 1) rate
      | timingAggregatedT \<Rightarrow>
          writeAggregatedMetricUnsafe g sh w m timingSymbol 6 rate)"

definition processMetric ::
  "globals \<Rightarrow> f64 \<Rightarrow> shared \<Rightarrow> worker \<Rightarrow> metric \<Rightarrow> shared \<times> worker \<times> write_error option" where
  "processMetric g draw sh w m =
     (if \<not> is_aggregated (m_type m) \<and> \<not> shouldSample (m_rate m) draw then (sh, w, None)
      else case writeMetricUnsafe g sh w m of
        (sh, w, err) \<Rightarrow>
          if err = Some errBufferFull
          then case flushUnsafe sh w of (sh, w) \<Rightarrow> writeMetricUnsafe g sh w m
          else (sh, w, err))"

text \<open>\<open>pullMetric\<close>: process what the input channel holds, in order, ignoring errors.\<close>

fun processAll ::
  "globals \<Rightarrow> shared \<Rightarrow> worker \<Rightarrow> (f64 \<times> metric) list
     \<Rightarrow> shared \<times> worker \<times> write_error option list" where
  "processAll g sh w [] = (sh, w, [])"
| "processAll g sh w ((draw, m) # ms) =
     (case processMetric g draw sh w m of
        (sh, w, err) \<Rightarrow>
          (case processAll g sh w ms of (sh, w, errs) \<Rightarrow> (sh, w, err # errs)))"

end
