(* ===== verification/Client.thy ===== *)
theory Client
  imports Aggregator Worker TagCardinality
begin

text \<open>
  \<open>src/statsd/statsdex.go\<close> and \<open>statsd_direct.go\<close>: the client.  A call is counted, then goes to
  the aggregator, to the input channel of the aggregator or of a worker, or is processed by the
  worker that the hash of the name picks.

  A nil \<open>*ClientEx\<close> is \<open>None\<close>.  A call may return, panic, or block for ever, which the type
  \<open>outcome\<close> tells apart.  Channels are lists with a capacity; the goroutines that read them, the
  tickers and the sender's loop are operations of their own, so that a run of the program is a
  list of operations in the order in which they take effect.

  \<open>c_sent\<close> is a ghost that tags each payload handed to the sender with the worker it came from,
  \<open>c_done\<close> one that logs each metric a worker has processed, with its random draw and the
  outcome.
\<close>

section \<open>Data\<close>

datatype 'a outcome = Done 'a | Panicked | Blocked

fun obind :: "'a outcome \<Rightarrow> ('a \<Rightarrow> 'b outcome) \<Rightarrow> 'b outcome" where
  "obind (Done x) f = f x"
| "obind Panicked f = Panicked"
| "obind Blocked f = Blocked"

lemma obind_Done: "obind x f = Done y \<longleftrightarrow> (\<exists>z. x = Done z \<and> f z = Done y)"
  by (cases x) auto

definition or_panic :: "'a option \<Rightarrow> 'a outcome" where
  "or_panic x = (case x of None \<Rightarrow> Panicked | Some y \<Rightarrow> Done y)"

datatype receivingMode = mutexMode | channelMode

record statsdTelemetry =
  totalMetricsGauge :: u64
  totalMetricsCount :: u64
  totalMetricsHistogram :: u64
  totalMetricsDistribution :: u64
  totalMetricsSet :: u64
  totalMetricsTiming :: u64
  totalEvents :: u64
  totalServiceChecks :: u64
  totalDroppedOnReceive :: u64

definition zero_statsdTelemetry :: statsdTelemetry where
  "zero_statsdTelemetry =
     \<lparr>totalMetricsGauge = 0, totalMetricsCount = 0, totalMetricsHistogram = 0,
      totalMetricsDistribution = 0, totalMetricsSet = 0, totalMetricsTiming = 0, totalEvents = 0,
      totalServiceChecks = 0, totalDroppedOnReceive = 0\<rparr>"

datatype client_error =
    ErrNoClient
  | InvalidTimestamp
  | ErrorInputChannelFull metric nat bytes
  | WorkerError write_error

text \<open>
  The aggregator is also \<open>aggExtended\<close> when \<open>c_extended\<close> holds.  \<open>c_inputs\<close> are the input channels
  of the workers, \<open>c_aggInput\<close> that of the aggregator; both have the capacity \<open>c_inputCap\<close>.
\<close>

record ClientEx =
  c_shared :: shared
  c_namespace :: bytes
  c_tags :: "bytes list"
  c_telemetry :: statsdTelemetry
  c_workers :: "worker list"
  c_inputs :: "metric list list"
  c_inputCap :: nat
  c_workersMode :: receivingMode
  c_aggregatorMode :: receivingMode
  c_agg :: "aggregator option"
  c_extended :: bool
  c_aggInput :: "metric list"
  c_isClosed :: bool
  c_errorOnBlockedChannel :: bool
  c_hasErrorHandler :: bool
  c_handled :: "client_error list"
  c_originDetection :: bool
  c_defaultCardinality :: cardinality
  c_sent :: "(nat \<times> statsdBuffer) list"
  c_done :: "(nat \<times> f64 \<times> metric \<times> write_error option) list"

section \<open>Sending\<close>

text \<open>The index \<open>h % uint32(len(c.workers))\<close>; dividing by zero panics.\<close>

definition workerIndex :: "ClientEx \<Rightarrow> bytes \<Rightarrow> nat option" where
  "workerIndex c name =
     (let h = hashString32 name; n = of_nat (length (c_workers c)) :: u32 in
      if n = 0 then None else Some (unat (h mod n)))"

text \<open>An operation of worker \<open>i\<close>, which shares pool and sender with the others.\<close>

definition on_worker ::
  "nat \<Rightarrow> (shared \<Rightarrow> worker \<Rightarrow> shared \<times> worker \<times> 'e) \<Rightarrow> ClientEx \<Rightarrow> ClientEx \<times> 'e" where
  "on_worker i f c =
     (case f (c_shared c) (c_workers c ! i) of
        (sh, w, e) \<Rightarrow>
          (c\<lparr>c_shared := sh, c_workers := (c_workers c)[i := w],
             c_sent := c_sent c
               @ map (Pair i) (drop (length (sh_log (c_shared c))) (sh_log sh))\<rparr>, e))"

text \<open>Serializing a nil event or service check is a nil dereference, which panics.\<close>

definition worker_processMetric ::
  "globals \<Rightarrow> f64 \<Rightarrow> nat \<Rightarrow> metric \<Rightarrow> ClientEx \<Rightarrow> (ClientEx \<times> write_error option) outcome" where
  "worker_processMetric g draw i m c =
     (case on_worker i (\<lambda>sh w. processMetric g draw sh w m) c of
        (c, err) \<Rightarrow> if err = Some nilDereference then Panicked
                    else Done (c\<lparr>c_done := c_done c @ [(i, draw, m, err)]\<rparr>, err))"

definition worker_flush :: "nat \<Rightarrow> ClientEx \<Rightarrow> ClientEx" where
  "worker_flush i c =
     fst (on_worker i (\<lambda>sh w. case flushUnsafe sh w of (sh, w) \<Rightarrow> (sh, w, ())) c)"

text \<open>The \<open>default\<close> branch of the two \<open>select\<close> statements: the metric is dropped.\<close>

definition dropOnReceive ::
  "metric \<Rightarrow> nat \<Rightarrow> bytes \<Rightarrow> ClientEx \<Rightarrow> ClientEx \<times> client_error option" where
  "dropOnReceive m channelSize msg c =
     (let t = c_telemetry c;
          c = c\<lparr>c_telemetry := t\<lparr>totalDroppedOnReceive := totalDroppedOnReceive t + 1\<rparr>\<rparr>;
          err = ErrorInputChannelFull m channelSize msg;
          c = (if c_hasErrorHandler c then c\<lparr>c_handled := c_handled c @ [err]\<rparr> else c)
      in (c, if c_errorOnBlockedChannel c then Some err else None))"

type_synonym client_result = "(ClientEx \<times> client_error option) outcome"

definition client_send :: "globals \<Rightarrow> f64 \<Rightarrow> metric \<Rightarrow> ClientEx \<Rightarrow> client_result" where
  "client_send g draw m c =
     (case workerIndex c (m_name m) of
        None \<Rightarrow> Panicked
      | Some i \<Rightarrow>
          if c_workersMode c = channelMode
          then Done (if length (c_inputs c ! i) < c_inputCap c
                     then (c\<lparr>c_inputs := (c_inputs c)[i := c_inputs c ! i @ [m]]\<rparr>, None)
                     else dropOnReceive m (length (c_inputs c ! i)) ''Worker input channel full'' c)
          else obind (worker_processMetric g draw i m c)
                 (\<lambda>(c, err). Done (c, map_option WorkerError err)))"

definition sendBlocking :: "globals \<Rightarrow> f64 \<Rightarrow> metric \<Rightarrow> ClientEx \<Rightarrow> client_result" where
  "sendBlocking g draw m c =
     (let m = m\<lparr>m_globalTags := c_tags c\<rparr>;
          m = m\<lparr>m_namespace := c_namespace c\<rparr>
      in case workerIndex c (m_name m) of
           None \<Rightarrow> Panicked
         | Some i \<Rightarrow> obind (worker_processMetric g draw i m c)
                       (\<lambda>(c, err). Done (c, map_option WorkerError err)))"

text \<open>
  The function argument of \<open>sendToAggregator\<close> is the method of the aggregator for the kind of
  metric; it returns no error.
\<close>

type_synonym bufferedSample =
  "aggregator \<Rightarrow> bytes \<Rightarrow> f64 \<Rightarrow> bytes list \<Rightarrow> f64 \<Rightarrow> cardinality \<Rightarrow> aggregator option"

definition sendToAggregator ::
  "metricType \<Rightarrow> bytes \<Rightarrow> f64 \<Rightarrow> bytes list \<Rightarrow> f64 \<Rightarrow> bufferedSample \<Rightarrow> cardinality \<Rightarrow> aggregator
     \<Rightarrow> ClientEx \<Rightarrow> client_result" where
  "sendToAggregator mType name value tags rate f c aggExtended cl =
     (if c_aggregatorMode cl = channelMode
      then let m = zero_metric\<lparr>m_type := mType, m_name := name, m_fvalue := value, m_tags := tags,
                     m_rate := rate, m_cardinality := c\<rparr>
           in if length (c_aggInput cl) < c_inputCap cl
              then Done (cl\<lparr>c_aggInput := c_aggInput cl @ [m]\<rparr>, None)
              else Done (dropOnReceive m (length (c_aggInput cl)) ''Aggregator input channel full'' cl)
      else obind (or_panic (f aggExtended name value tags rate c))
             (\<lambda>a. Done (cl\<lparr>c_agg := Some a\<rparr>, None)))"

section \<open>The methods\<close>

definition unless_nil ::
  "ClientEx option \<Rightarrow> (ClientEx \<Rightarrow> client_result)
     \<Rightarrow> (ClientEx option \<times> client_error option) outcome" where
  "unless_nil cp f =
     (case cp of
        None \<Rightarrow> Done (None, Some ErrNoClient)
      | Some c \<Rightarrow> obind (f c) (\<lambda>(c, err). Done (Some c, err)))"

text \<open>The metric of a call that is not aggregated, in which a method sets the type and the value.\<close>

definition call_metric :: "ClientEx \<Rightarrow> metricType \<Rightarrow> bytes \<Rightarrow> bytes list \<Rightarrow> f64 \<Rightarrow> cardinality \<Rightarrow> metric" where
  "call_metric c ty name tags rate crd =
     zero_metric\<lparr>m_type := ty, m_name := name, m_tags := tags, m_rate := rate,
       m_globalTags := c_tags c, m_namespace := c_namespace c,
       m_originDetection := c_originDetection c, m_cardinality := crd\<rparr>"

abbreviation count_gauge_call where
  "count_gauge_call c \<equiv> c\<lparr>c_telemetry := (c_telemetry c)
     \<lparr>totalMetricsGauge := totalMetricsGauge (c_telemetry c) + 1\<rparr>\<rparr>"
abbreviation count_count_call where
  "count_count_call c \<equiv> c\<lparr>c_telemetry := (c_telemetry c)
     \<lparr>totalMetricsCount := totalMetricsCount (c_telemetry c) + 1\<rparr>\<rparr>"

definition client_Gauge where
  "client_Gauge g r cp name value tags rate parameters = unless_nil cp (\<lambda>c.
     let c = count_gauge_call c;
         crd = parameterCardinality parameters (c_defaultCardinality c)
     in case c_agg c of
          Some a \<Rightarrow> obind (or_panic (agg_gauge a name value tags crd))
                      (\<lambda>a. Done (c\<lparr>c_agg := Some a\<rparr>, None))
        | None \<Rightarrow> client_send g (fst r)
                    ((call_metric c gaugeT name tags rate crd)\<lparr>m_fvalue := value\<rparr>) c)"

definition client_GaugeWithTimestamp where
  "client_GaugeWithTimestamp g r cp name value tags rate timestamp parameters = unless_nil cp (\<lambda>c.
     if isZero timestamp \<or> sint (unix_sec timestamp) \<le> sint noTimestamp
     then Done (c, Some InvalidTimestamp)
     else let c = count_gauge_call c;
              crd = parameterCardinality parameters (c_defaultCardinality c)
          in client_send g (fst r) ((call_metric c gaugeT name tags rate crd)
               \<lparr>m_fvalue := value, m_timestamp := unix_sec timestamp\<rparr>) c)"

definition client_Count where
  "client_Count g r cp name value tags rate parameters = unless_nil cp (\<lambda>c.
     let c = count_count_call c;
         crd = parameterCardinality parameters (c_defaultCardinality c)
     in case c_agg c of
          Some a \<Rightarrow> obind (or_panic (agg_count a name value tags crd))
                      (\<lambda>a. Done (c\<lparr>c_agg := Some a\<rparr>, None))
        | None \<Rightarrow> client_send g (fst r)
                    ((call_metric c countT name tags rate crd)\<lparr>m_ivalue := value\<rparr>) c)"

definition client_CountWithTimestamp where
  "client_CountWithTimestamp g r cp name value tags rate timestamp parameters = unless_nil cp (\<lambda>c.
     if isZero timestamp \<or> sint (unix_sec timestamp) \<le> sint noTimestamp
     then Done (c, Some InvalidTimestamp)
     else let c = count_count_call c;
              crd = parameterCardinality parameters (c_defaultCardinality c)
          in client_send g (fst r) ((call_metric c countT name tags rate crd)
               \<lparr>m_ivalue := value, m_timestamp := unix_sec timestamp\<rparr>) c)"

text \<open>\<open>aggExtended\<close> is nil, or the aggregator.\<close>

definition aggExtended :: "ClientEx \<Rightarrow> aggregator option" where
  "aggExtended c = (if c_extended c then c_agg c else None)"

definition client_Histogram where
  "client_Histogram g r cp name value tags rate parameters = unless_nil cp (\<lambda>c.
     let c = c\<lparr>c_telemetry := (c_telemetry c)
               \<lparr>totalMetricsHistogram := totalMetricsHistogram (c_telemetry c) + 1\<rparr>\<rparr>;
         crd = parameterCardinality parameters (c_defaultCardinality c)
     in case aggExtended c of
          Some a \<Rightarrow> sendToAggregator histogramT name value tags rate (agg_histogram r) crd a c
        | None \<Rightarrow> client_send g (fst r)
                    ((call_metric c histogramT name tags rate crd)\<lparr>m_fvalue := value\<rparr>) c)"

definition client_Distribution where
  "client_Distribution g r cp name value tags rate parameters = unless_nil cp (\<lambda>c.
     let c = c\<lparr>c_telemetry := (c_telemetry c)
               \<lparr>totalMetricsDistribution := totalMetricsDistribution (c_telemetry c) + 1\<rparr>\<rparr>;
         crd = parameterCardinality parameters (c_defaultCardinality c)
     in case aggExtended c of
          Some a \<Rightarrow> sendToAggregator distributionT name value tags rate (agg_distribution r) crd a c
        | None \<Rightarrow> client_send g (fst r)
                    ((call_metric c distributionT name tags rate crd)\<lparr>m_fvalue := value\<rparr>) c)"

definition client_Decr where
  "client_Decr g r cp name tags rate parameters = client_Count g r cp name (- 1) tags rate parameters"

definition client_Incr where
  "client_Incr g r cp name tags rate parameters = client_Count g r cp name 1 tags rate parameters"

definition client_Set where
  "client_Set g r cp name value tags rate parameters = unless_nil cp (\<lambda>c.
     let c = c\<lparr>c_telemetry := (c_telemetry c)
               \<lparr>totalMetricsSet := totalMetricsSet (c_telemetry c) + 1\<rparr>\<rparr>;
         crd = parameterCardinality parameters (c_defaultCardinality c)
     in case c_agg c of
          Some a \<Rightarrow> obind (or_panic (agg_set a name value tags crd))
                      (\<lambda>a. Done (c\<lparr>c_agg := Some a\<rparr>, None))
        | None \<Rightarrow> client_send g (fst r)
                    ((call_metric c setT name tags rate crd)\<lparr>m_svalue := value\<rparr>) c)"

definition client_TimeInMilliseconds where
  "client_TimeInMilliseconds g r cp name value tags rate parameters = unless_nil cp (\<lambda>c.
     let c = c\<lparr>c_telemetry := (c_telemetry c)
               \<lparr>totalMetricsTiming := totalMetricsTiming (c_telemetry c) + 1\<rparr>\<rparr>;
         crd = parameterCardinality parameters (c_defaultCardinality c)
     in case aggExtended c of
          Some a \<Rightarrow> sendToAggregator timingT name value tags rate (agg_timing r) crd a c
        | None \<Rightarrow> client_send g (fst r)
                    ((call_metric c timingT name tags rate crd)\<lparr>m_fvalue := value\<rparr>) c)"

definition client_Timing where
  "client_Timing g r cp name value tags rate parameters =
     client_TimeInMilliseconds g r cp name
       (f64_mul (duration_Seconds value) (f64_of_int 1000)) tags rate parameters"

definition client_Event where
  "client_Event g r cp e parameters = unless_nil cp (\<lambda>c.
     let c = c\<lparr>c_telemetry := (c_telemetry c)\<lparr>totalEvents := totalEvents (c_telemetry c) + 1\<rparr>\<rparr>;
         crd = parameterCardinality parameters (c_defaultCardinality c)
     in client_send g (fst r) ((call_metric c eventT '''' [] f64_one crd)\<lparr>m_evalue := e\<rparr>) c)"

definition client_SimpleEvent where
  "client_SimpleEvent g r cp title txt parameters =
     client_Event g r cp (Some (NewEvent title txt)) parameters"

definition client_ServiceCheck where
  "client_ServiceCheck g r cp sc parameters = unless_nil cp (\<lambda>c.
     let c = c\<lparr>c_telemetry := (c_telemetry c)
               \<lparr>totalServiceChecks := totalServiceChecks (c_telemetry c) + 1\<rparr>\<rparr>;
         crd = parameterCardinality parameters (c_defaultCardinality c)
     in client_send g (fst r)
          ((call_metric c serviceCheckT '''' [] f64_one crd)\<lparr>m_scvalue := sc\<rparr>) c)"

definition client_SimpleServiceCheck where
  "client_SimpleServiceCheck g r cp name status parameters =
     client_ServiceCheck g r cp (Some (NewServiceCheck name status)) parameters"

text \<open>\<open>statsd_direct.go\<close>.\<close>

definition client_DistributionSamples where
  "client_DistributionSamples g r cp name values tags rate = unless_nil cp (\<lambda>c.
     let c = c\<lparr>c_telemetry := (c_telemetry c)\<lparr>totalMetricsDistribution :=
               totalMetricsDistribution (c_telemetry c) + of_nat (length values)\<rparr>\<rparr>
     in client_send g (fst r)
          (zero_metric\<lparr>m_type := distributionAggregatedT, m_name := name, m_fvalues := values,
             m_tags := tags, m_stags := join_tags tags, m_rate := rate,
             m_globalTags := c_tags c, m_namespace := c_namespace c\<rparr>) c)"

section \<open>Flushing\<close>

text \<open>
  \<open>aggregator.flush\<close> sends what \<open>flushMetrics\<close> returns, in order, ignoring errors; \<open>draws i\<close> is
  the draw of the \<open>i\<close>-th metric.
\<close>

fun sendAll :: "globals \<Rightarrow> (nat \<Rightarrow> f64) \<Rightarrow> metric list \<Rightarrow> ClientEx \<Rightarrow> ClientEx outcome" where
  "sendAll g draws [] c = Done c"
| "sendAll g draws (m # ms) c =
     obind (sendBlocking g (draws 0) m c) (\<lambda>(c, _). sendAll g (\<lambda>i. draws (Suc i)) ms c)"

definition aggregator_flush ::
  "globals \<Rightarrow> visits \<Rightarrow> (nat \<Rightarrow> f64) \<Rightarrow> ClientEx \<Rightarrow> ClientEx outcome" where
  "aggregator_flush g v draws c =
     (case c_agg c of
        None \<Rightarrow> Done c
      | Some a \<Rightarrow> (case flushMetrics v a of (a, ms) \<Rightarrow> sendAll g draws ms (c\<lparr>c_agg := Some a\<rparr>)))"

definition flush_workers :: "ClientEx \<Rightarrow> ClientEx" where
  "flush_workers c = foldl (\<lambda>c i. worker_flush i c) c [0..<length (c_workers c)]"

text \<open>
  \<open>sender.flush\<close> hands a signal to the send loop, which drains the queue and answers; once
  \<open>sender.close\<close> has ended the loop nobody receives the signal.  \<open>sender.close\<close> drains the queue
  itself.  \<open>outs\<close> gives the outcome of each write.
\<close>

definition sender_drain :: "(nat \<Rightarrow> bytes option) \<Rightarrow> ClientEx \<Rightarrow> ClientEx" where
  "sender_drain outs c =
     (case flushInputQueue (sh_pool (c_shared c)) (sh_sender (c_shared c)) outs of
        (p, s) \<Rightarrow> c\<lparr>c_shared := (c_shared c)\<lparr>sh_pool := p, sh_sender := s\<rparr>\<rparr>)"

definition sender_flush :: "(nat \<Rightarrow> bytes option) \<Rightarrow> ClientEx \<Rightarrow> ClientEx outcome" where
  "sender_flush outs c = (if c_isClosed c then Blocked else Done (sender_drain outs c))"

text \<open>The arguments of a flush that the code does not determine.\<close>

record flush_env =
  fe_visits :: visits
  fe_draws :: "nat \<Rightarrow> f64"
  fe_outs :: "nat \<Rightarrow> bytes option"

definition client_flush :: "globals \<Rightarrow> flush_env \<Rightarrow> ClientEx \<Rightarrow> ClientEx outcome" where
  "client_flush g e c =
     obind (aggregator_flush g (fe_visits e) (fe_draws e) c)
       (\<lambda>c. sender_flush (fe_outs e) (flush_workers c))"

definition client_Flush where
  "client_Flush g e cp = unless_nil cp (\<lambda>c. obind (client_flush g e c) (\<lambda>c. Done (c, None)))"

text \<open>
  \<open>Close\<close> stops the goroutines, which leave in their channels what they have not read, flushes,
  and closes the sender; \<open>outs\<close> is for the writes of \<open>sender.close\<close>.  The error of closing the
  transport is not part of the model.
\<close>

definition client_Close where
  "client_Close g e outs cp = unless_nil cp (\<lambda>c.
     if c_isClosed c then Done (c, None)
     else obind (client_flush g e c) (\<lambda>c.
       let c = c\<lparr>c_isClosed := True\<rparr> in Done (sender_drain outs c, None)))"

definition client_IsClosed :: "ClientEx \<Rightarrow> bool" where
  "client_IsClosed c = c_isClosed c"

section \<open>The goroutines\<close>

text \<open>One turn of \<open>worker.pullMetric\<close>, of \<open>aggregator.pullMetric\<close>, and of the send loop.\<close>

definition worker_pull :: "globals \<Rightarrow> f64 \<Rightarrow> nat \<Rightarrow> ClientEx \<Rightarrow> ClientEx outcome" where
  "worker_pull g draw i c =
     (if length (c_inputs c) \<le> i then Done c
      else case c_inputs c ! i of
        [] \<Rightarrow> Done c
      | m # ms \<Rightarrow> obind (worker_processMetric g draw i m (c\<lparr>c_inputs := (c_inputs c)[i := ms]\<rparr>))
                    (\<lambda>(c, _). Done c))"

definition aggregator_pull :: "random \<Rightarrow> ClientEx \<Rightarrow> ClientEx outcome" where
  "aggregator_pull r c =
     (case (c_aggInput c, c_agg c) of
        (m # ms, Some a) \<Rightarrow>
          obind (or_panic (agg_pullMetric r a m))
            (\<lambda>a. Done (c\<lparr>c_aggInput := ms, c_agg := Some a\<rparr>))
      | _ \<Rightarrow> Done c)"

definition sender_turn :: "bytes option \<Rightarrow> ClientEx \<Rightarrow> ClientEx" where
  "sender_turn out c =
     (let sh = c_shared c in
      case queue (sh_sender sh) of
        [] \<Rightarrow> c
      | b # q \<Rightarrow>
          (case sender_write (sh_pool sh) ((sh_sender sh)\<lparr>queue := q\<rparr>) b out of
             (p, s) \<Rightarrow> c\<lparr>c_shared := sh\<lparr>sh_pool := p, sh_sender := s\<rparr>\<rparr>))"

text \<open>\<open>watch\<close> flushes every worker at each tick.\<close>

definition watch_tick :: "ClientEx \<Rightarrow> ClientEx" where
  "watch_tick c = flush_workers c"

section \<open>Runs\<close>

text \<open>
  The methods of \<open>ClientInterfaceEx\<close> with their arguments, and the turns of the goroutines, which
  are gone once the client is closed.
\<close>

type_synonym 'v method_call = "bytes \<times> 'v \<times> bytes list \<times> f64 \<times> parameter list"

datatype client_op =
    Gauge random "f64 method_call"
  | GaugeWithTimestamp random "f64 method_call" go_time
  | Count random "i64 method_call"
  | CountWithTimestamp random "i64 method_call" go_time
  | Histogram random "f64 method_call"
  | Distribution random "f64 method_call"
  | Decr random "unit method_call"
  | Incr random "unit method_call"
  | SetOp random "bytes method_call"
  | Timing random "i64 method_call"
  | TimeInMilliseconds random "f64 method_call"
  | EventOp random "Event option" "parameter list"
  | SimpleEvent random bytes bytes "parameter list"
  | ServiceCheckOp random "ServiceCheck option" "parameter list"
  | SimpleServiceCheck random bytes ServiceCheckStatus "parameter list"
  | DistributionSamples random bytes "f64 list" "bytes list" f64
  | Flush flush_env
  | Close flush_env "nat \<Rightarrow> bytes option"
  | WorkerPull f64 nat
  | AggregatorPull random
  | AggregatorTick visits "nat \<Rightarrow> f64"
  | SenderTurn "bytes option"
  | WatchTick

definition goroutine where
  "goroutine f cp = unless_nil cp (\<lambda>c.
     if c_isClosed c then Done (c, None) else obind (f c) (\<lambda>c. Done (c, None)))"

fun client_step ::
  "globals \<Rightarrow> client_op \<Rightarrow> ClientEx option \<Rightarrow> (ClientEx option \<times> client_error option) outcome" where
  "client_step g (Gauge r (n, v, ts, rt, ps)) cp = client_Gauge g r cp n v ts rt ps"
| "client_step g (GaugeWithTimestamp r (n, v, ts, rt, ps) t) cp =
     client_GaugeWithTimestamp g r cp n v ts rt t ps"
| "client_step g (Count r (n, v, ts, rt, ps)) cp = client_Count g r cp n v ts rt ps"
| "client_step g (CountWithTimestamp r (n, v, ts, rt, ps) t) cp =
     client_CountWithTimestamp g r cp n v ts rt t ps"
| "client_step g (Histogram r (n, v, ts, rt, ps)) cp = client_Histogram g r cp n v ts rt ps"
| "client_step g (Distribution r (n, v, ts, rt, ps)) cp = client_Distribution g r cp n v ts rt ps"
| "client_step g (Decr r (n, _, ts, rt, ps)) cp = client_Decr g r cp n ts rt ps"
| "client_step g (Incr r (n, _, ts, rt, ps)) cp = client_Incr g r cp n ts rt ps"
| "client_step g (SetOp r (n, v, ts, rt, ps)) cp = client_Set g r cp n v ts rt ps"
| "client_step g (Timing r (n, v, ts, rt, ps)) cp = client_Timing g r cp n v ts rt ps"
| "client_step g (TimeInMilliseconds r (n, v, ts, rt, ps)) cp =
     client_TimeInMilliseconds g r cp n v ts rt ps"
| "client_step g (EventOp r e ps) cp = client_Event g r cp e ps"
| "client_step g (SimpleEvent r title txt ps) cp = client_SimpleEvent g r cp title txt ps"
| "client_step g (ServiceCheckOp r sc ps) cp = client_ServiceCheck g r cp sc ps"
| "client_step g (SimpleServiceCheck r name status ps) cp =
     client_SimpleServiceCheck g r cp name status ps"
| "client_step g (DistributionSamples r n vs ts rt) cp = client_DistributionSamples g r cp n vs ts rt"
| "client_step g (Flush e) cp = client_Flush g e cp"
| "client_step g (Close e outs) cp = client_Close g e outs cp"
| "client_step g (WorkerPull draw i) cp = goroutine (worker_pull g draw i) cp"
| "client_step g (AggregatorPull r) cp = goroutine (aggregator_pull r) cp"
| "client_step g (AggregatorTick v draws) cp = goroutine (aggregator_flush g v draws) cp"
| "client_step g (SenderTurn out) cp = goroutine (\<lambda>c. Done (sender_turn out c)) cp"
| "client_step g WatchTick cp = goroutine (\<lambda>c. Done (watch_tick c)) cp"

text \<open>A run, with the error each operation returned.\<close>

fun client_run ::
  "globals \<Rightarrow> client_op list \<Rightarrow> ClientEx option
     \<Rightarrow> (ClientEx option \<times> client_error option list) outcome" where
  "client_run g [] cp = Done (cp, [])"
| "client_run g (op # ops) cp =
     obind (client_step g op cp) (\<lambda>(cp, err).
       obind (client_run g ops cp) (\<lambda>(cp, errs). Done (cp, err # errs)))"

end
