(* ===== verification/Options.thy ===== *)
theory Options
  imports Client
begin

text \<open>
  \<open>src/statsd/options.go\<close>: the options of a client, their defaults and setters, and the checks of
  \<open>resolveOptions\<close>.  An option is a function that returns the new record or an error; Go changes
  the record in place and drops it on an error.  An error handler is modelled by whether it is
  non-nil.
\<close>

section \<open>The code\<close>

type_synonym duration = i64

record Options =
  o_namespace :: bytes
  o_tags :: "bytes list"
  o_maxBytesPerPayload :: int
  o_maxMessagesPerPayload :: int
  o_bufferPoolSize :: int
  o_bufferFlushInterval :: duration
  o_workersCount :: int
  o_senderQueueSize :: int
  o_writeTimeout :: duration
  o_connectTimeout :: duration
  o_telemetry :: bool
  o_receiveMode :: receivingMode
  o_channelModeBufferSize :: int
  o_aggregationFlushInterval :: duration
  o_aggregation :: bool
  o_extendedAggregation :: bool
  o_maxBufferedSamplesPerContext :: int
  o_aggregatorShardCount :: int
  o_telemetryAddr :: bytes
  o_originDetection :: bool
  o_containerID :: bytes
  o_channelModeErrorsWhenFull :: bool
  o_errorHandler :: bool
  o_tagCardinality :: "cardinality option"

definition millisecond :: duration where
  "millisecond = 1000000"

definition defaultOptions :: Options where
  "defaultOptions =
     \<lparr>o_namespace = '''', o_tags = [], o_maxBytesPerPayload = 0,
      o_maxMessagesPerPayload = 2147483647, o_bufferPoolSize = 0,
      o_bufferFlushInterval = 100 * millisecond, o_workersCount = 32, o_senderQueueSize = 0,
      o_writeTimeout = 100 * millisecond, o_connectTimeout = 1000 * millisecond,
      o_telemetry = True, o_receiveMode = mutexMode, o_channelModeBufferSize = 4096,
      o_aggregationFlushInterval = 2000 * millisecond, o_aggregation = True,
      o_extendedAggregation = False, o_maxBufferedSamplesPerContext = - 1,
      o_aggregatorShardCount = 1, o_telemetryAddr = '''', o_originDetection = True,
      o_containerID = '''', o_channelModeErrorsWhenFull = False, o_errorHandler = True,
      o_tagCardinality = None\<rparr>"

datatype option_error =
    WorkersCountNotPositive
  | InvalidCardinality cardinality
  | ShardCountNotPositive

type_synonym Option = "Options \<Rightarrow> option_error + Options"

fun applyOptions :: "Option list \<Rightarrow> Options \<Rightarrow> option_error + Options" where
  "applyOptions [] o' = Inr o'"
| "applyOptions (opt # opts) o' =
     (case opt o' of Inl err \<Rightarrow> Inl err | Inr o' \<Rightarrow> applyOptions opts o')"

definition resolveOptions :: "Option list \<Rightarrow> option_error + Options" where
  "resolveOptions options = applyOptions options defaultOptions"

definition WithNamespace :: "bytes \<Rightarrow> Option" where
  "WithNamespace namespace = (\<lambda>o'. Inr
     (if namespace \<noteq> [] \<and> last namespace = CHR ''.'' then o'\<lparr>o_namespace := namespace\<rparr>
      else o'\<lparr>o_namespace := namespace @ ''.''\<rparr>))"

definition WithTags :: "bytes list \<Rightarrow> Option" where
  "WithTags tags = (\<lambda>o'. Inr (o'\<lparr>o_tags := tags\<rparr>))"

definition WithMaxMessagesPerPayload :: "int \<Rightarrow> Option" where
  "WithMaxMessagesPerPayload n = (\<lambda>o'. Inr (o'\<lparr>o_maxMessagesPerPayload := n\<rparr>))"

definition WithMaxBytesPerPayload :: "int \<Rightarrow> Option" where
  "WithMaxBytesPerPayload n = (\<lambda>o'. Inr (o'\<lparr>o_maxBytesPerPayload := n\<rparr>))"

definition WithBufferPoolSize :: "int \<Rightarrow> Option" where
  "WithBufferPoolSize n = (\<lambda>o'. Inr (o'\<lparr>o_bufferPoolSize := n\<rparr>))"

definition WithBufferFlushInterval :: "duration \<Rightarrow> Option" where
  "WithBufferFlushInterval d = (\<lambda>o'. Inr (o'\<lparr>o_bufferFlushInterval := d\<rparr>))"

definition WithWorkersCount :: "int \<Rightarrow> Option" where
  "WithWorkersCount n = (\<lambda>o'.
     if n < 1 then Inl WorkersCountNotPositive else Inr (o'\<lparr>o_workersCount := n\<rparr>))"

definition WithSenderQueueSize :: "int \<Rightarrow> Option" where
  "WithSenderQueueSize n = (\<lambda>o'. Inr (o'\<lparr>o_senderQueueSize := n\<rparr>))"

definition WithWriteTimeout :: "duration \<Rightarrow> Option" where
  "WithWriteTimeout d = (\<lambda>o'. Inr (o'\<lparr>o_writeTimeout := d\<rparr>))"

definition WithConnectTimeout :: "duration \<Rightarrow> Option" where
  "WithConnectTimeout d = (\<lambda>o'. Inr (o'\<lparr>o_connectTimeout := d\<rparr>))"

definition WithChannelMode :: Option where
  "WithChannelMode = (\<lambda>o'. Inr (o'\<lparr>o_receiveMode := channelMode\<rparr>))"

definition WithMutexMode :: Option where
  "WithMutexMode = (\<lambda>o'. Inr (o'\<lparr>o_receiveMode := mutexMode\<rparr>))"

definition WithChannelModeBufferSize :: "int \<Rightarrow> Option" where
  "WithChannelModeBufferSize n = (\<lambda>o'. Inr (o'\<lparr>o_channelModeBufferSize := n\<rparr>))"

definition WithChannelModeErrorsWhenFull :: Option where
  "WithChannelModeErrorsWhenFull = (\<lambda>o'. Inr (o'\<lparr>o_channelModeErrorsWhenFull := True\<rparr>))"

definition WithoutChannelModeErrorsWhenFull :: Option where
  "WithoutChannelModeErrorsWhenFull = (\<lambda>o'. Inr (o'\<lparr>o_channelModeErrorsWhenFull := False\<rparr>))"

definition WithErrorHandler :: "bool \<Rightarrow> Option" where
  "WithErrorHandler h = (\<lambda>o'. Inr (o'\<lparr>o_errorHandler := h\<rparr>))"

definition WithAggregationInterval :: "duration \<Rightarrow> Option" where
  "WithAggregationInterval d = (\<lambda>o'. Inr (o'\<lparr>o_aggregationFlushInterval := d\<rparr>))"

definition WithClientSideAggregation :: Option where
  "WithClientSideAggregation = (\<lambda>o'. Inr (o'\<lparr>o_aggregation := True\<rparr>))"

definition WithoutClientSideAggregation :: Option where
  "WithoutClientSideAggregation = (\<lambda>o'.
     Inr (let o' = o'\<lparr>o_aggregation := False\<rparr> in o'\<lparr>o_extendedAggregation := False\<rparr>))"

definition WithExtendedClientSideAggregation :: Option where
  "WithExtendedClientSideAggregation = (\<lambda>o'.
     Inr (let o' = o'\<lparr>o_aggregation := True\<rparr> in o'\<lparr>o_extendedAggregation := True\<rparr>))"

definition WithMaxSamplesPerContext :: "int \<Rightarrow> Option" where
  "WithMaxSamplesPerContext n = (\<lambda>o'.
     Inr (let o' = o'\<lparr>o_aggregation := True\<rparr> in o'\<lparr>o_maxBufferedSamplesPerContext := n\<rparr>))"

definition WithoutTelemetry :: Option where
  "WithoutTelemetry = (\<lambda>o'. Inr (o'\<lparr>o_telemetry := False\<rparr>))"

definition WithTelemetryAddr :: "bytes \<Rightarrow> Option" where
  "WithTelemetryAddr addr = (\<lambda>o'. Inr (o'\<lparr>o_telemetryAddr := addr\<rparr>))"

definition WithoutOriginDetection :: Option where
  "WithoutOriginDetection = (\<lambda>o'. Inr (o'\<lparr>o_originDetection := False\<rparr>))"

definition WithOriginDetection :: Option where
  "WithOriginDetection = (\<lambda>o'. Inr (o'\<lparr>o_originDetection := True\<rparr>))"

definition WithContainerID :: "bytes \<Rightarrow> Option" where
  "WithContainerID cid = (\<lambda>o'. Inr (o'\<lparr>o_containerID := cid\<rparr>))"

definition WithCardinality :: "cardinality \<Rightarrow> Option" where
  "WithCardinality crd = (\<lambda>o'.
     if \<not> isValid crd then Inl (InvalidCardinality crd)
     else Inr (o'\<lparr>o_tagCardinality := Some crd\<rparr>))"

definition WithAggregatorShardCount :: "int \<Rightarrow> Option" where
  "WithAggregatorShardCount n = (\<lambda>o'.
     if n < 1 then Inl ShardCountNotPositive else Inr (o'\<lparr>o_aggregatorShardCount := n\<rparr>))"

lemmas option_defs =
  WithNamespace_def WithTags_def WithMaxMessagesPerPayload_def WithMaxBytesPerPayload_def
  WithBufferPoolSize_def WithBufferFlushInterval_def WithWorkersCount_def WithSenderQueueSize_def
  WithWriteTimeout_def WithConnectTimeout_def WithChannelMode_def WithMutexMode_def
  WithChannelModeBufferSize_def WithChannelModeErrorsWhenFull_def
  WithoutChannelModeErrorsWhenFull_def WithErrorHandler_def WithAggregationInterval_def
  WithClientSideAggregation_def WithoutClientSideAggregation_def
  WithExtendedClientSideAggregation_def WithMaxSamplesPerContext_def WithoutTelemetry_def
  WithTelemetryAddr_def WithoutOriginDetection_def WithOriginDetection_def WithContainerID_def
  WithCardinality_def WithAggregatorShardCount_def

section \<open>What every sequence of options keeps\<close>

text \<open>The options of this file; a user can pass no other, because the fields are private.\<close>

inductive library_option :: "Option \<Rightarrow> bool" where
  "library_option (WithNamespace ns)"
| "library_option (WithTags ts)"
| "library_option (WithMaxMessagesPerPayload n)"
| "library_option (WithMaxBytesPerPayload n)"
| "library_option (WithBufferPoolSize n)"
| "library_option (WithBufferFlushInterval d)"
| "library_option (WithWorkersCount n)"
| "library_option (WithSenderQueueSize n)"
| "library_option (WithWriteTimeout d)"
| "library_option (WithConnectTimeout d)"
| "library_option WithChannelMode"
| "library_option WithMutexMode"
| "library_option (WithChannelModeBufferSize n)"
| "library_option WithChannelModeErrorsWhenFull"
| "library_option WithoutChannelModeErrorsWhenFull"
| "library_option (WithErrorHandler h)"
| "library_option (WithAggregationInterval d)"
| "library_option WithClientSideAggregation"
| "library_option WithoutClientSideAggregation"
| "library_option WithExtendedClientSideAggregation"
| "library_option (WithMaxSamplesPerContext n)"
| "library_option WithoutTelemetry"
| "library_option (WithTelemetryAddr addr)"
| "library_option WithoutOriginDetection"
| "library_option WithOriginDetection"
| "library_option (WithContainerID cid)"
| "library_option (WithCardinality crd)"
| "library_option (WithAggregatorShardCount n)"

definition valid_options :: "Options \<Rightarrow> bool" where
  "valid_options o' \<longleftrightarrow> 1 \<le> o_workersCount o' \<and> 1 \<le> o_aggregatorShardCount o'
     \<and> (o_extendedAggregation o' \<longrightarrow> o_aggregation o')
     \<and> (o_namespace o' \<noteq> [] \<longrightarrow> last (o_namespace o') = CHR ''.'')
     \<and> (case o_tagCardinality o' of None \<Rightarrow> True | Some crd \<Rightarrow> isValid crd)"

lemma library_option_valid:
  "library_option opt \<Longrightarrow> valid_options o1 \<Longrightarrow>
   (case opt o1 of Inl err \<Rightarrow> True | Inr o2 \<Rightarrow> valid_options o2)"
  by (induction rule: library_option.induct)
    (simp_all add: option_defs valid_options_def Let_def)

lemma applyOptions_valid:
  "list_all library_option opts \<Longrightarrow> applyOptions opts o1 = Inr o2 \<Longrightarrow> valid_options o1 \<Longrightarrow>
   valid_options o2"
proof (induction opts arbitrary: o1)
  case (Cons opt opts)
  then show ?case
    using library_option_valid [of opt o1] by (cases "opt o1") auto
qed simp

lemma applyOptions_append:
  "applyOptions (xs @ ys) o1 =
     (case applyOptions xs o1 of Inl err \<Rightarrow> Inl err | Inr o2 \<Rightarrow> applyOptions ys o2)"
  by (induction xs arbitrary: o1) (auto split: sum.split)

end
