(* ===== verification/Regex.thy ===== *)
theory Regex
  imports GoStd
begin

text \<open>
  The part of Go's \<open>regexp\<close> that \<open>container_linux.go\<close> uses.  An expression yields its matches of a
  prefix in the order of preference of the standard library (leftmost first, as Perl): the first
  is the match.  Texts are lists of runes.
\<close>

section \<open>Matching\<close>

datatype rx =
    Rune "nat \<Rightarrow> bool"
  | Star "nat \<Rightarrow> bool"
  | Eps
  | Seq rx rx
  | Alt rx rx
  | End
  | Group nat rx

type_synonym captures = "(nat \<times> nat list) list"

text \<open>What remains after a run of runes of a class, the longest run first.\<close>

fun star_rests :: "(nat \<Rightarrow> bool) \<Rightarrow> nat list \<Rightarrow> nat list list" where
  "star_rests p [] = [[]]"
| "star_rests p (r # s) = (if p r then star_rests p s @ [r # s] else [r # s])"

primrec results :: "rx \<Rightarrow> nat list \<Rightarrow> (nat list \<times> captures) list" where
  "results (Rune p) s = (case s of [] \<Rightarrow> [] | r # t \<Rightarrow> if p r then [(t, [])] else [])"
| "results (Star p) s = map (\<lambda>t. (t, [])) (star_rests p s)"
| "results Eps s = [(s, [])]"
| "results (Seq a b) s =
     concat (map (\<lambda>(t, cs). map (\<lambda>(u, ds). (u, cs @ ds)) (results b t)) (results a s))"
| "results (Alt a b) s = results a s @ results b s"
| "results End s = (if s = [] then [(s, [])] else [])"
| "results (Group n a) s =
     map (\<lambda>(t, cs). (t, (n, take (length s - length t) s) # cs)) (results a s)"

text \<open>A match at the start, and the leftmost match.\<close>

definition match_at :: "rx \<Rightarrow> nat list \<Rightarrow> (nat list \<times> captures) option" where
  "match_at a s = (case results a s of [] \<Rightarrow> None | r # _ \<Rightarrow> Some r)"

fun find_match :: "rx \<Rightarrow> nat list \<Rightarrow> (nat list \<times> captures) option" where
  "find_match a s =
     (case match_at a s of
        Some r \<Rightarrow> Some r
      | None \<Rightarrow> (case s of [] \<Rightarrow> None | _ # s \<Rightarrow> find_match a s))"

declare find_match.simps [simp del]

text \<open>
  \<open>FindAllStringSubmatch\<close>: each match is looked for after the end of the one before; the
  expressions used here never match the empty text.
\<close>

function find_all :: "rx \<Rightarrow> nat list \<Rightarrow> captures list" where
  "find_all a s =
     (case find_match a s of
        None \<Rightarrow> []
      | Some (t, cs) \<Rightarrow> if length t < length s then cs # find_all a t else [cs])"
  by pat_completeness auto
termination
  by (relation "measure (\<lambda>(a, s). length s)") auto

declare find_all.simps [simp del]

fun capture :: "nat \<Rightarrow> captures \<Rightarrow> nat list" where
  "capture n [] = []"
| "capture n ((m, u) # cs) = (if m = n then u else capture n cs)"

text \<open>Derived forms.\<close>

definition One :: "nat \<Rightarrow> rx" where "One r = Rune (\<lambda>x. x = r)"
definition Lit :: "bytes \<Rightarrow> rx" where "Lit w = foldr (\<lambda>c. Seq (One (byte_val c))) w Eps"
definition Plus :: "(nat \<Rightarrow> bool) \<Rightarrow> rx" where "Plus p = Seq (Rune p) (Star p)"
definition Times :: "nat \<Rightarrow> rx \<Rightarrow> rx" where "Times n a = (Seq a ^^ n) Eps"
definition Opt :: "rx \<Rightarrow> rx" where "Opt a = Alt a Eps"

definition digit :: "nat \<Rightarrow> bool" where "digit r \<longleftrightarrow> 48 \<le> r \<and> r \<le> 57"
definition hex :: "nat \<Rightarrow> bool" where "hex r \<longleftrightarrow> digit r \<or> 97 \<le> r \<and> r \<le> 102"
definition space :: "nat \<Rightarrow> bool" where "space r \<longleftrightarrow> r \<in> {9, 10, 12, 13, 32}"
definition dot :: "nat \<Rightarrow> bool" where "dot r \<longleftrightarrow> r \<noteq> 10"

lemmas class_defs = digit_def hex_def space_def dot_def

section \<open>What a match consumes\<close>

text \<open>Every rune of a match of the expression satisfies \<open>P\<close>; every match of its group \<open>n\<close> does.\<close>

primrec within :: "(nat \<Rightarrow> bool) \<Rightarrow> rx \<Rightarrow> bool" where
  "within P (Rune p) \<longleftrightarrow> (\<forall>r. p r \<longrightarrow> P r)"
| "within P (Star p) \<longleftrightarrow> (\<forall>r. p r \<longrightarrow> P r)"
| "within P Eps \<longleftrightarrow> True"
| "within P (Seq a b) \<longleftrightarrow> within P a \<and> within P b"
| "within P (Alt a b) \<longleftrightarrow> within P a \<and> within P b"
| "within P End \<longleftrightarrow> True"
| "within P (Group n a) \<longleftrightarrow> within P a"

primrec group_within :: "nat \<Rightarrow> (nat \<Rightarrow> bool) \<Rightarrow> rx \<Rightarrow> bool" where
  "group_within n P (Rune p) \<longleftrightarrow> True"
| "group_within n P (Star p) \<longleftrightarrow> True"
| "group_within n P Eps \<longleftrightarrow> True"
| "group_within n P (Seq a b) \<longleftrightarrow> group_within n P a \<and> group_within n P b"
| "group_within n P (Alt a b) \<longleftrightarrow> group_within n P a \<and> group_within n P b"
| "group_within n P End \<longleftrightarrow> True"
| "group_within n P (Group m a) \<longleftrightarrow> (m = n \<longrightarrow> within P a) \<and> group_within n P a"

lemma star_rests_split:
  "t \<in> set (star_rests p s) \<Longrightarrow> \<exists>u. s = u @ t \<and> list_all p u"
proof (induction s)
  case (Cons r s)
  then show ?case
    by (auto split: if_splits intro: exI [of _ "[]"] exI [of _ "r # u" for u])
qed simp

lemma results_split:
  "(t, cs) \<in> set (results a s) \<Longrightarrow> \<exists>u. s = u @ t \<and> (\<forall>P. within P a \<longrightarrow> list_all P u)"
proof (induction a arbitrary: s t cs)
  case (Rune p)
  then show ?case by (auto split: list.splits if_splits)
next
  case (Star p)
  then show ?case using star_rests_split by (force simp: list_all_iff)
next
  case (Seq a b)
  from Seq.prems obtain t1 cs1 ds where "(t1, cs1) \<in> set (results a s)" "(t, ds) \<in> set (results b t1)"
    by auto
  from Seq.IH(1) [OF this(1)] Seq.IH(2) [OF this(2)] show ?case
    by auto
next
  case (Alt a b)
  then show ?case by fastforce
qed (auto split: if_splits)

lemma results_capture:
  "(t, cs) \<in> set (results a s) \<Longrightarrow> group_within n P a \<Longrightarrow> (n, u) \<in> set cs \<Longrightarrow> list_all P u"
proof (induction a arbitrary: s t cs)
  case (Rune p)
  then show ?case by (auto split: list.splits if_splits)
next
  case (Group m a)
  then obtain ds where d: "(t, ds) \<in> set (results a s)" "cs = (m, take (length s - length t) s) # ds"
    by auto
  obtain v where v: "s = v @ t" "within P a \<longrightarrow> list_all P v"
    using results_split [OF d(1)] by blast
  then have "take (length s - length t) s = v" by simp
  with Group d v show ?case by auto
qed (fastforce split: if_splits)+

lemma capture_in: "capture n cs \<noteq> [] \<Longrightarrow> (n, capture n cs) \<in> set cs"
  by (induction cs rule: capture.induct) auto

lemma match_at_in: "match_at a s = Some r \<Longrightarrow> r \<in> set (results a s)"
  by (auto simp: match_at_def split: list.splits)

lemma find_match_in: "find_match a s = Some r \<Longrightarrow> \<exists>s'. r \<in> set (results a s')"
proof (induction s)
  case Nil
  then show ?case
    by (subst (asm) find_match.simps) (auto dest: match_at_in split: option.splits)
next
  case (Cons x s)
  then show ?case
    by (subst (asm) (1) find_match.simps) (auto dest: match_at_in split: option.splits)
qed

lemma find_match_capture:
  assumes "find_match a s = Some (t, cs)" and "group_within n P a"
  shows "list_all P (capture n cs)"
proof (cases "capture n cs = []")
  case False
  from find_match_in [OF assms(1)] results_capture [OF _ assms(2) capture_in [OF False]] show ?thesis
    by blast
qed simp

lemma find_all_capture:
  "cs \<in> set (find_all a s) \<Longrightarrow> group_within n P a \<Longrightarrow> list_all P (capture n cs)"
proof (induction "length s" arbitrary: s rule: less_induct)
  case less
  obtain t ds where f: "find_match a s = Some (t, ds)"
    using less.prems(1) by (cases "find_match a s") (auto simp: find_all.simps [of a s])
  then have "find_all a s = (if length t < length s then ds # find_all a t else [ds])"
    by (simp add: find_all.simps [of a s])
  with less.prems less.hyps [of t] find_match_capture [OF f] show ?case
    by (auto split: if_splits)
qed

lemma within_Lit: "within P (Lit w) \<longleftrightarrow> (\<forall>c \<in> set w. P (byte_val c))"
  by (induction w) (simp_all add: Lit_def One_def)

lemma group_within_Lit [simp]: "group_within n P (Lit w)"
  by (induction w) (simp_all add: Lit_def One_def)

lemma within_Times [simp]: "within P (Times n a) \<longleftrightarrow> n = 0 \<or> within P a"
  by (induction n) (auto simp: Times_def)

lemma group_within_Times [simp]: "group_within m P (Times n a) \<longleftrightarrow> n = 0 \<or> group_within m P a"
  by (induction n) (auto simp: Times_def)

end
