(* ===== verification/Container.thy ===== *)
theory Container
  imports Regex Format_Facts
begin

text \<open>
  \<open>src/statsd/container_linux.go\<close>: the container id of the process, found in \<open>/proc/self/cgroup\<close>
  or \<open>/proc/self/mountinfo\<close>, or the inode of its cgroup.  Files and their inodes are arguments:
  the content of a path that can be opened, the inode of one that exists.
\<close>

section \<open>Reading lines and paths\<close>

text \<open>
  \<open>bufio.Scanner\<close> with its default limit: a line that does not fit in 64 KiB ends the scan, a final
  carriage return is dropped.  \<open>acc\<close> is the line so far.
\<close>

definition MaxScanTokenSize :: nat where "MaxScanTokenSize = 65536"

definition drop_cr :: "bytes \<Rightarrow> bytes" where
  "drop_cr line = (if line \<noteq> [] \<and> last line = CHR 0x0D then butlast line else line)"

fun scan_lines :: "bytes \<Rightarrow> bytes \<Rightarrow> bytes list" where
  "scan_lines acc [] =
     (if acc = [] \<or> length acc \<ge> MaxScanTokenSize then [] else [drop_cr acc])"
| "scan_lines acc (c # s) =
     (if c = nl
      then (if length acc < MaxScanTokenSize then drop_cr acc # scan_lines [] s else [])
      else scan_lines (acc @ [c]) s)"

text \<open>\<open>strings.Split\<close> at one byte.\<close>

fun split_at :: "char \<Rightarrow> bytes \<Rightarrow> bytes \<Rightarrow> bytes list" where
  "split_at sep acc [] = [acc]"
| "split_at sep acc (c # s) =
     (if c = sep then acc # split_at sep [] s else split_at sep (acc @ [c]) s)"

fun join_with :: "char \<Rightarrow> bytes list \<Rightarrow> bytes" where
  "join_with sep [] = []"
| "join_with sep [x] = x"
| "join_with sep (x # xs) = x @ sep # join_with sep xs"

text \<open>\<open>path.Clean\<close> and \<open>path.Join\<close>.\<close>

definition clean_step :: "bool \<Rightarrow> bytes list \<Rightarrow> bytes \<Rightarrow> bytes list" where
  "clean_step rooted stack elem =
     (if elem = '''' \<or> elem = ''.'' then stack
      else if elem = ''..''
      then (if stack \<noteq> [] \<and> last stack \<noteq> ''..'' then butlast stack
            else if rooted then stack else stack @ [''..''])
      else stack @ [elem])"

definition path_Clean :: "bytes \<Rightarrow> bytes" where
  "path_Clean p =
     (if p = '''' then ''.''
      else let rooted = (hd p = CHR ''/'');
               res = join_with (CHR ''/'') (foldl (clean_step rooted) [] (split_at (CHR ''/'') [] p))
           in if rooted then CHR ''/'' # res else if res = '''' then ''.'' else res)"

definition path_Join :: "bytes list \<Rightarrow> bytes" where
  "path_Join elems =
     (let es = filter (\<lambda>e. e \<noteq> '''') elems
      in if es = [] then '''' else path_Clean (join_with (CHR ''/'') es))"

section \<open>The code\<close>

definition cgroupPath :: bytes where "cgroupPath = ''/proc/self/cgroup''"
definition selfMountInfoPath :: bytes where "selfMountInfoPath = ''/proc/self/mountinfo''"
definition defaultCgroupMountPath :: bytes where "defaultCgroupMountPath = ''/sys/fs/cgroup''"
definition cgroupV1BaseController :: bytes where "cgroupV1BaseController = ''memory''"
definition containerdSandboxPrefix :: bytes where "containerdSandboxPrefix = ''sandboxes''"
definition hostCgroupNamespaceInode :: u64 where "hostCgroupNamespaceInode = 0xEFFFFFFB"

abbreviation minus_sign :: nat where "minus_sign \<equiv> byte_val (CHR ''-'')"

definition uuidSource :: rx where
  "uuidSource =
     (let h = (\<lambda>n. Times n (Rune hex)); d = Rune (\<lambda>r. r = minus_sign \<or> r = byte_val (CHR ''_''))
      in Seq (h 8) (Seq d (Seq (h 4) (Seq d (Seq (h 4) (Seq d (Seq (h 4) (Seq d (h 12)))))))))"

definition containerSource :: rx where "containerSource = Times 64 (Rune hex)"

definition taskSource :: rx where
  "taskSource = Seq (Times 32 (Rune hex)) (Seq (One minus_sign) (Plus digit))"

definition containerRegexp :: rx where
  "containerRegexp =
     Alt (Group 3 (Times 64 (Rune hex)))
       (Alt (Group 4 (Seq (Times 32 (Rune hex)) (Seq (One minus_sign) (Plus digit))))
         (Group 5 (Seq (Times 8 (Rune hex))
            (Seq (Times 4 (Group 6 (Seq (One minus_sign) (Times 4 (Rune hex))))) End))))"

definition cIDMountInfoRegexp :: rx where
  "cIDMountInfoRegexp =
     Seq (Star dot) (Seq (Lit ''/'')
       (Seq (Group 1 (Plus (\<lambda>r. \<not> space r \<and> r \<noteq> byte_val (CHR ''/'')))) (Seq (Lit ''/'')
         (Seq (Group 2 containerRegexp) (Seq (Lit ''/'')
           (Seq (Star (\<lambda>r. \<not> space r)) (Lit ''hostname'')))))))"

text \<open>The anchor at its start is the use of \<open>match_at\<close>.\<close>

definition expLine :: rx where
  "expLine = Seq (Plus digit) (Seq (Lit '':'') (Seq (Star (\<lambda>r. r \<noteq> byte_val (CHR '':'')))
     (Seq (Lit '':'') (Seq (Group 1 (Plus dot)) End))))"

definition expContainerID :: rx where
  "expContainerID =
     Seq (Group 1 (Alt uuidSource (Alt containerSource taskSource)))
       (Seq (Opt (Seq (Rune dot) (Lit ''scope''))) End)"

text \<open>A captured text of ASCII runes as bytes.\<close>

definition captured :: "nat list \<Rightarrow> bytes" where
  "captured u = map char_of u"

fun parseLines :: "bytes list \<Rightarrow> bytes" where
  "parseLines [] = ''''"
| "parseLines (line # rest) =
     (case match_at expLine (runes line) of
        None \<Rightarrow> parseLines rest
      | Some (_, path) \<Rightarrow>
          (case find_match expContainerID (capture 1 path) of
             Some (_, parts) \<Rightarrow> captured (capture 1 parts)
           | None \<Rightarrow> parseLines rest))"

definition parseContainerID :: "bytes \<Rightarrow> bytes" where
  "parseContainerID r = parseLines (scan_lines [] r)"

text \<open>The world: the files that can be read, and the inodes of the paths that exist.\<close>

record host =
  files :: "bytes \<Rightarrow> bytes option"
  inode_of :: "bytes \<Rightarrow> u64 option"

definition readContainerID :: "host \<Rightarrow> bytes \<Rightarrow> bytes" where
  "readContainerID h fpath = (case files h fpath of None \<Rightarrow> '''' | Some r \<Rightarrow> parseContainerID r)"

fun parseMounts :: "bytes list \<Rightarrow> bytes" where
  "parseMounts [] = ''''"
| "parseMounts (line # rest) =
     (let allMatches = find_all cIDMountInfoRegexp (runes line) in
      if length allMatches = 0 then parseMounts rest
      else let matches = last allMatches in
        if capture 1 matches \<noteq> map byte_val containerdSandboxPrefix then captured (capture 2 matches)
        else parseMounts rest)"

definition parseMountinfo :: "bytes \<Rightarrow> bytes" where
  "parseMountinfo r = parseMounts (scan_lines [] r)"

definition readMountinfo :: "host \<Rightarrow> bytes \<Rightarrow> bytes" where
  "readMountinfo h path = (case files h path of None \<Rightarrow> '''' | Some r \<Rightarrow> parseMountinfo r)"

definition isHostCgroupNamespace :: "host \<Rightarrow> bool" where
  "isHostCgroupNamespace h =
     (case inode_of h ''/proc/self/ns/cgroup'' of
        None \<Rightarrow> False | Some inode \<Rightarrow> inode = hostCgroupNamespaceInode)"

definition parseCgroupNodePath :: "bytes \<Rightarrow> (bytes \<rightharpoonup> bytes)" where
  "parseCgroupNodePath r =
     foldl (\<lambda>res line.
       let tokens = split_at (CHR '':'') [] line in
       if length tokens \<noteq> 3 then res
       else if tokens ! 1 = cgroupV1BaseController \<or> tokens ! 1 = ''''
       then res(tokens ! 1 \<mapsto> tokens ! 2) else res) Map.empty (scan_lines [] r)"

definition inodeForPath :: "host \<Rightarrow> bytes \<Rightarrow> bytes" where
  "inodeForPath h path =
     (case inode_of h path of None \<Rightarrow> '''' | Some ino \<Rightarrow> ''in-'' @ nat_digits (unat ino))"

definition getCgroupInode :: "host \<Rightarrow> bytes \<Rightarrow> bytes \<Rightarrow> bytes" where
  "getCgroupInode h cgroupMountPath procSelfCgroupPath =
     (case files h procSelfCgroupPath of
        None \<Rightarrow> ''''
      | Some f \<Rightarrow>
          let paths = parseCgroupNodePath f;
              inode = (\<lambda>controller. case paths controller of
                None \<Rightarrow> ''''
              | Some node \<Rightarrow> inodeForPath h (path_Join [cgroupMountPath, controller, node]))
          in if inode cgroupV1BaseController \<noteq> '''' then inode cgroupV1BaseController
             else inode '''')"

definition readCIDOrInode ::
  "host \<Rightarrow> bytes \<Rightarrow> bytes \<Rightarrow> bytes \<Rightarrow> bytes \<Rightarrow> bool \<Rightarrow> bool \<Rightarrow> globals \<Rightarrow> globals" where
  "readCIDOrInode h userProvidedID cgroup mountInfo cgroupMount cgroupFallback isHostCgroupNs g =
     (if userProvidedID \<noteq> '''' then g\<lparr>containerID := userProvidedID\<rparr>
      else if cgroupFallback then
        let cid = readContainerID h cgroup in
        if cid \<noteq> '''' then g\<lparr>containerID := cid\<rparr>
        else let cid = readMountinfo h mountInfo in
          if cid \<noteq> '''' then g\<lparr>containerID := cid\<rparr>
          else if isHostCgroupNs then g
          else g\<lparr>containerID := getCgroupInode h cgroupMount cgroup\<rparr>
      else g)"

text \<open>The state of the process: the globals, and whether \<open>initOnce\<close> has run.\<close>

record process =
  pr_globals :: globals
  pr_initialized :: bool

definition internalInitContainerID :: "host \<Rightarrow> bytes \<Rightarrow> bool \<Rightarrow> bool \<Rightarrow> process \<Rightarrow> process" where
  "internalInitContainerID h userProvidedID cgroupFallback isHostCgroupNs p =
     (if pr_initialized p then p
      else \<lparr>pr_globals = readCIDOrInode h userProvidedID cgroupPath selfMountInfoPath
              defaultCgroupMountPath cgroupFallback isHostCgroupNs (pr_globals p),
            pr_initialized = True\<rparr>)"

text \<open>
  \<open>container_stub.go\<close>: on other systems than Linux only an id the user provides is stored, and only by
  the first client.
\<close>

definition storeContainerID :: "bytes \<Rightarrow> globals \<Rightarrow> globals" where
  "storeContainerID i g = g\<lparr>containerID := i\<rparr>"

definition stub_isHostCgroupNamespace :: bool where
  "stub_isHostCgroupNamespace = False"

definition stub_initContainerID :: "bytes \<Rightarrow> process \<Rightarrow> process" where
  "stub_initContainerID userProvidedID p =
     (if pr_initialized p then p
      else \<lparr>pr_globals = (if userProvidedID \<noteq> '''' then storeContainerID userProvidedID (pr_globals p)
              else pr_globals p),
            pr_initialized = True\<rparr>)"

lemma stub_first_wins: "stub_initContainerID j (stub_initContainerID i p) = stub_initContainerID i p"
  by (simp add: stub_initContainerID_def)

section \<open>The ids that can be found\<close>

definition id_rune :: "nat \<Rightarrow> bool" where
  "id_rune r \<longleftrightarrow> hex r \<or> r = 45 \<or> r = 95"

text \<open>The bytes of an id, and those of \<open>in-\<close> and a number.\<close>

definition id_byte :: "char \<Rightarrow> bool" where
  "id_byte c \<longleftrightarrow> id_rune (byte_val c) \<or> c = CHR ''i'' \<or> c = CHR ''n''"

lemma id_rune_ascii: "id_rune r \<Longrightarrow> r < 128"
  by (auto simp: id_rune_def class_defs)

lemma captured_id: "list_all id_rune u \<Longrightarrow> list_all id_byte (captured u)"
  using id_rune_ascii by (fastforce simp: captured_def list_all_iff id_byte_def)

lemma id_groups:
  "group_within 1 id_rune expContainerID" "group_within 2 id_rune cIDMountInfoRegexp"
  by (simp_all add: expContainerID_def uuidSource_def containerSource_def taskSource_def Let_def
      cIDMountInfoRegexp_def containerRegexp_def Opt_def Plus_def One_def id_rune_def class_defs)

lemma parseLines_id: "list_all id_byte (parseLines ls)"
proof (induction ls)
  case (Cons line ls)
  then show ?case
    using find_match_capture [OF _ id_groups(1)] captured_id by (auto split: option.splits)
qed simp

lemma parseMounts_id: "list_all id_byte (parseMounts ls)"
proof (induction ls)
  case (Cons line ls)
  have "list_all id_byte (captured (capture 2 (last (find_all cIDMountInfoRegexp (runes line)))))"
    if "find_all cIDMountInfoRegexp (runes line) \<noteq> []"
    using find_all_capture [OF last_in_set [OF that] id_groups(2)] captured_id by blast
  with Cons show ?case by (simp add: Let_def)
qed simp

lemma digit_char_id:
  assumes "d < 10"
  shows "id_byte (digit_char d)"
proof -
  have "digit_char d \<in> set ''0123456789''"
    unfolding digit_char_def using assms by (intro nth_mem) simp
  then show ?thesis by (auto simp: id_byte_def id_rune_def class_defs)
qed

lemma nat_digits_id: "list_all id_byte (nat_digits n)"
proof (induction n rule: nat_digits.induct)
  case (1 n)
  then show ?case by (simp add: nat_digits.simps [of n] digit_char_id)
qed

lemma getCgroupInode_id: "list_all id_byte (getCgroupInode h mount path)"
  using nat_digits_id
  by (auto simp: getCgroupInode_def inodeForPath_def Let_def id_byte_def id_rune_def class_defs
      split: option.splits)

lemma read_id:
  "list_all id_byte (readContainerID h path)" "list_all id_byte (readMountinfo h path)"
  by (simp_all add: readContainerID_def readMountinfo_def parseContainerID_def parseMountinfo_def
      parseLines_id parseMounts_id split: option.split)

lemma readCIDOrInode_id:
  "list_all id_byte (containerID g) \<Longrightarrow>
   list_all id_byte (containerID (readCIDOrInode h '''' p1 p2 p3 fallback ns g))"
  by (simp add: readCIDOrInode_def Let_def read_id getCgroupInode_id)

text \<open>
  C31. Whatever the files under \<open>/proc\<close> hold, the container id the library finds by itself consists of
  hexadecimal digits, \<open>-\<close>, \<open>_\<close>, and \<open>in-\<close> before an inode: put into a datagram it cannot end a field
  or a line.
\<close>

theorem detected_id_safe:
  assumes "containerID (pr_globals p) = ''''"
  shows "list_all (\<lambda>c. id_byte c \<and> c \<noteq> CHR ''|'' \<and> c \<noteq> nl \<and> c \<noteq> CHR '','')
    (containerID (pr_globals (internalInitContainerID h '''' fallback ns p)))"
proof -
  have "list_all id_byte (containerID (pr_globals (internalInitContainerID h '''' fallback ns p)))"
    using assms by (auto simp: internalInitContainerID_def intro: readCIDOrInode_id)
  moreover have "id_byte c \<Longrightarrow> c \<noteq> CHR ''|'' \<and> c \<noteq> nl \<and> c \<noteq> CHR '',''" for c
    by (auto simp: id_byte_def id_rune_def class_defs)
  ultimately show ?thesis by (auto simp: list_all_iff)
qed

definition cgroup_host :: host where
  "cgroup_host = \<lparr>files = (\<lambda>path. if path = cgroupPath
       then Some (''12:pids:/ecs/0123456789abcdef0123456789abcdef-77.scope'') else None),
     inode_of = (\<lambda>_. None)\<rparr>"

lemma Times_numeral:
  "Times (numeral k) a = Seq a (Times (pred_numeral k) a)" "Times 0 a = Eps" "Times (Suc 0) a = Seq a Eps"
  by (simp_all add: Times_def numeral_eq_Suc)

lemma cgroup_host_id:
  "containerID (pr_globals (internalInitContainerID cgroup_host '''' True False
      \<lparr>pr_globals = \<lparr>containerID = '''', externalEnv = ''''\<rparr>, pr_initialized = False\<rparr>))
    = ''0123456789abcdef0123456789abcdef-77''"
  by (simp add: internalInitContainerID_def readCIDOrInode_def readContainerID_def cgroup_host_def
      cgroupPath_def parseContainerID_def drop_cr_def MaxScanTokenSize_def runes_ascii match_at_def
      find_match.simps expLine_def expContainerID_def Plus_def Lit_def One_def class_defs
      uuidSource_def containerSource_def taskSource_def Opt_def Times_numeral Let_def captured_def char_of_def bit_Suc_0_iff)

theorem detected_id_safe_witness:
  "list_all (\<lambda>c. id_byte c \<and> c \<noteq> CHR ''|'' \<and> c \<noteq> nl \<and> c \<noteq> CHR '','')
    ''0123456789abcdef0123456789abcdef-77''"
  using detected_id_safe [of "\<lparr>pr_globals = \<lparr>containerID = '''', externalEnv = ''''\<rparr>, pr_initialized = False\<rparr>"
      cgroup_host True False]
  unfolding cgroup_host_id by simp

text \<open>
  The alternative for Garden ids in the expression for \<open>mountinfo\<close> ends in \<open>$\<close> and is followed by a
  slash, so it never matches.
\<close>

definition mountInfoWithoutGarden :: rx where
  "mountInfoWithoutGarden =
     Seq (Star dot) (Seq (Lit ''/'')
       (Seq (Group 1 (Plus (\<lambda>r. \<not> space r \<and> r \<noteq> byte_val (CHR ''/'')))) (Seq (Lit ''/'')
         (Seq (Group 2 (Alt (Group 3 (Times 64 (Rune hex)))
            (Group 4 (Seq (Times 32 (Rune hex)) (Seq (One minus_sign) (Plus digit))))))
           (Seq (Lit ''/'') (Seq (Star (\<lambda>r. \<not> space r)) (Lit ''hostname'')))))))"

lemma concat_map_Nil: "(\<And>x. x \<in> set xs \<Longrightarrow> f x = []) \<Longrightarrow> concat (map f xs) = []"
  by simp

lemma results_Seq_cong:
  "(\<And>t. results b t = results b' t) \<Longrightarrow> results (Seq a b) s = results (Seq a b') s"
  by simp

lemma results_garden:
  assumes "\<And>t cs. (t, cs) \<in> set (results z s) \<Longrightarrow> t = []"
  shows "results (Seq (Group n (Alt x (Alt y (Group m z)))) (Seq (Lit ''/'') w)) s
    = results (Seq (Group n (Alt x y)) (Seq (Lit ''/'') w)) s"
proof -
  have "results (Seq (Lit ''/'') w) [] = []"
    by (simp add: Lit_def One_def)
  with assms show ?thesis
    by (auto simp: comp_def split: prod.splits intro!: concat_map_Nil)
qed

lemma ends_at_End: "(t, cs) \<in> set (results (Seq a (Seq b End)) s) \<Longrightarrow> t = []"
  by (auto split: if_splits)

lemma mountinfo_without_garden: "results cIDMountInfoRegexp s = results mountInfoWithoutGarden s"
  unfolding cIDMountInfoRegexp_def mountInfoWithoutGarden_def containerRegexp_def
  by (intro results_Seq_cong results_garden) (rule ends_at_End)

end
