(* ===== verification/Origin.thy ===== *)
theory Origin
  imports Options Container
begin

text \<open>
  Origin detection: \<open>src/statsd/external_env.go\<close>, and \<open>isOriginDetectionEnabled\<close> and
  \<open>fillInContainerID\<close> of \<open>statsdex.go\<close>.

  What the process stores once is the record \<open>globals\<close>.  \<open>unicode.IsPrint\<close> is spelled out for
  Latin-1 and an argument for the runes above.
\<close>

section \<open>Encoding runes\<close>

text \<open>\<open>string(r)\<close>: the UTF-8 encoding; an invalid code point becomes U+FFFD.\<close>

definition valid_rune :: "nat \<Rightarrow> bool" where
  "valid_rune r \<longleftrightarrow> r < 0xD800 \<or> 0xDFFF < r \<and> r \<le> 0x10FFFF"

definition encode_vals :: "nat \<Rightarrow> nat list" where
  "encode_vals r0 =
     (let r = (if valid_rune r0 then r0 else 0xFFFD) in
      if r < 0x80 then [r]
      else if r < 0x800 then [0xC0 + r div 64, 0x80 + r mod 64]
      else if r < 0x10000 then [0xE0 + r div 4096, 0x80 + r div 64 mod 64, 0x80 + r mod 64]
      else [0xF0 + r div 262144, 0x80 + r div 4096 mod 64, 0x80 + r div 64 mod 64, 0x80 + r mod 64])"

definition encode_rune :: "nat \<Rightarrow> bytes" where
  "encode_rune r = map char_of (encode_vals r)"

section \<open>The code\<close>

definition latin1_print :: "nat \<Rightarrow> bool" where
  "latin1_print r \<longleftrightarrow> 0x20 \<le> r \<and> r \<le> 0x7E \<or> 0xA1 \<le> r \<and> r \<le> 0xFF \<and> r \<noteq> 0xAD"

definition IsPrint :: "(nat \<Rightarrow> bool) \<Rightarrow> nat \<Rightarrow> bool" where
  "IsPrint wide_print r \<longleftrightarrow> (if r \<le> 0xFF then latin1_print r else wide_print r)"

definition sanitizeExternalEnv :: "(nat \<Rightarrow> bool) \<Rightarrow> bytes \<Rightarrow> bytes" where
  "sanitizeExternalEnv wide_print s =
     (if s = '''' then ''''
      else foldl (\<lambda>output r.
        if IsPrint wide_print r \<and> r \<noteq> byte_val (CHR ''|'') then output @ encode_rune r else output) '''' (runes s))"

definition initExternalEnv :: "(nat \<Rightarrow> bool) \<Rightarrow> environ \<Rightarrow> globals \<Rightarrow> globals" where
  "initExternalEnv wide_print getenv g =
     (let value = getenv ''DD_EXTERNAL_ENV'' in
      if value \<noteq> '''' then g\<lparr>externalEnv := sanitizeExternalEnv wide_print value\<rparr> else g)"

text \<open>\<open>strconv.ParseBool\<close>.\<close>

definition ParseBool :: "bytes \<Rightarrow> bool option" where
  "ParseBool s =
     (if s \<in> {''1'', ''t'', ''T'', ''TRUE'', ''true'', ''True''} then Some True
      else if s \<in> {''0'', ''f'', ''F'', ''FALSE'', ''false'', ''False''} then Some False
      else None)"

definition isOriginDetectionEnabled :: "environ \<Rightarrow> Options \<Rightarrow> bool" where
  "isOriginDetectionEnabled getenv o' =
     (if \<not> o_originDetection o' then False
      else let envVarValue = getenv ''DD_ORIGIN_DETECTION_ENABLED'' in
        if envVarValue = '''' then True
        else case ParseBool envVarValue of None \<Rightarrow> True | Some enabled \<Rightarrow> enabled)"

definition fillInContainerID :: "environ \<Rightarrow> Options \<Rightarrow> bool" where
  "fillInContainerID getenv o' =
     (if o_containerID o' \<noteq> '''' then False else isOriginDetectionEnabled getenv o')"

section \<open>UTF-8 round trip\<close>

lemma div_digits:
  fixes r :: nat
  shows "r div 4096 * 4096 + r div 64 mod 64 * 64 + r mod 64 = r"
    and "r div 262144 * 262144 + r div 4096 mod 64 * 4096 + r div 64 mod 64 * 64 + r mod 64 = r"
proof -
  have a: "r mod 4096 = 64 * (r div 64 mod 64) + r mod 64"
    using mod_mult2_eq [of r 64 64] by simp
  have b: "r mod 262144 = 4096 * (r div 4096 mod 64) + r mod 4096"
    using mod_mult2_eq [of r 4096 64] by simp
  show "r div 4096 * 4096 + r div 64 mod 64 * 64 + r mod 64 = r"
    using a div_mult_mod_eq [of r 4096] by simp
  show "r div 262144 * 262144 + r div 4096 mod 64 * 4096 + r div 64 mod 64 * 64 + r mod 64 = r"
    using a b div_mult_mod_eq [of r 262144] by simp
qed

lemma mod_64 [simp]: "r mod 64 \<le> (63 :: nat)"
  using mod_less_divisor [of 64 r] by linarith

lemma decode_encode:
  assumes "valid_rune r"
  shows "decode_rune (encode_vals r @ rest) = (r, length (encode_vals r))"
proof -
  consider (a) "r < 0x80" | (b) "0x80 \<le> r" "r < 0x800" | (c) "0x800 \<le> r" "r < 0x10000"
    | (d) "0x10000 \<le> r" by linarith
  then show ?thesis
  proof cases
    case a
    then show ?thesis using assms by (simp add: encode_vals_def)
  next
    case b
    then have "2 \<le> r div 64" "r div 64 \<le> 31" by auto
    with b assms show ?thesis
      by (simp add: encode_vals_def cont_byte_def)
  next
    case c
    define x y z where "x = r div 4096" and "y = r div 64 mod 64" and "z = r mod 64"
    have r: "r = x * 4096 + y * 64 + z" and yz: "y \<le> 63" "z \<le> 63" "x \<le> 15"
      using div_digits(1) [of r] c by (auto simp: x_def y_def z_def)
    have "x = 0 \<Longrightarrow> 32 \<le> y" and "x = 13 \<Longrightarrow> y \<le> 31"
      using r c assms yz by (auto simp: valid_rune_def)
    moreover have "encode_vals r = [0xE0 + x, 0x80 + y, 0x80 + z]"
      using c assms by (simp add: encode_vals_def x_def y_def z_def)
    ultimately show ?thesis
      using r yz by (auto simp: cont_byte_def)
  next
    case d
    define w x y z where "w = r div 262144" and "x = r div 4096 mod 64" and "y = r div 64 mod 64"
      and "z = r mod 64"
    have r: "r = w * 262144 + x * 4096 + y * 64 + z" and xyz: "x \<le> 63" "y \<le> 63" "z \<le> 63"
      using div_digits(2) [of r] by (simp_all add: w_def x_def y_def z_def)
    have r': "r \<le> 0x10FFFF" using assms d by (simp add: valid_rune_def)
    then have w: "w \<le> 4" unfolding w_def by auto
    have "w = 0 \<Longrightarrow> 16 \<le> x" and "w = 4 \<Longrightarrow> x \<le> 15"
      using r r' d xyz by auto
    moreover have "encode_vals r = [0xF0 + w, 0x80 + x, 0x80 + y, 0x80 + z]"
      using d assms by (simp add: encode_vals_def w_def x_def y_def z_def)
    ultimately show ?thesis
      using r w xyz by (auto simp: cont_byte_def)
  qed
qed

lemma encode_vals_bytes:
  assumes "v \<in> set (encode_vals r)"
  shows "v < 256" and "v < 0x80 \<Longrightarrow> encode_vals r = [v]"
proof -
  define q where "q = (if valid_rune r then r else 0xFFFD)"
  have q: "q \<le> 0x10FFFF" by (auto simp: q_def valid_rune_def)
  then have "q div 262144 \<le> 4" by auto
  moreover have "q div 4096 \<le> 15" if "q < 0x10000" using that by auto
  moreover have "q div 64 \<le> 31" if "q < 0x800" using that by auto
  moreover have "encode_vals r =
      (if q < 0x80 then [q]
       else if q < 0x800 then [0xC0 + q div 64, 0x80 + q mod 64]
       else if q < 0x10000 then [0xE0 + q div 4096, 0x80 + q div 64 mod 64, 0x80 + q mod 64]
       else [0xF0 + q div 262144, 0x80 + q div 4096 mod 64, 0x80 + q div 64 mod 64, 0x80 + q mod 64])"
    by (simp add: encode_vals_def q_def Let_def)
  ultimately show "v < 256" and "v < 0x80 \<Longrightarrow> encode_vals r = [v]"
    using assms mod_64 [of q] mod_64 [of "q div 64"] mod_64 [of "q div 4096"]
    by (auto split: if_splits)
qed

lemma cont_byteE:
  assumes "cont_byte lo hi b" and "0x80 \<le> lo"
  obtains x where "b = 0x80 + x" and "lo \<le> 0x80 + x" and "0x80 + x \<le> hi"
  using assms le_Suc_ex [of "0x80" b] by (auto simp: cont_byte_def)

lemma valid_two:
  "b \<le> 0xDF \<Longrightarrow> cont_byte 0x80 0xBF b1 \<Longrightarrow> valid_rune ((b - 0xC0) * 64 + (b1 - 0x80))"
  unfolding valid_rune_def cont_byte_def by linarith

lemma valid_three:
  assumes "0xE0 \<le> b" and "b \<le> 0xEF"
    and "cont_byte (if b = 0xE0 then 0xA0 else 0x80) (if b = 0xED then 0x9F else 0xBF) b1"
    and "cont_byte 0x80 0xBF b2"
  shows "valid_rune ((b - 0xE0) * 4096 + (b1 - 0x80) * 64 + (b2 - 0x80))"
proof -
  obtain x where x: "b = 0xE0 + x" using le_Suc_ex [OF assms(1)] by blast
  obtain y where y: "b1 = 0x80 + y" "0x80 + y \<le> (if b = 0xED then 0x9F else 0xBF)"
    by (rule cont_byteE [OF assms(3)]) auto
  obtain z where z: "b2 = 0x80 + z" "0x80 + z \<le> 0xBF"
    by (rule cont_byteE [OF assms(4)]) auto
  have v: "(b - 0xE0) * 4096 + (b1 - 0x80) * 64 + (b2 - 0x80) = x * 4096 + y * 64 + z"
    by (simp add: x y z)
  have "y \<le> 63" "z \<le> 63" "x \<le> 15" "x = 13 \<Longrightarrow> y \<le> 31"
    using x y z assms(2) by (auto split: if_splits)
  then show ?thesis
    unfolding v valid_rune_def by (cases "x \<le> 12"; cases "x = 13") auto
qed

lemma valid_four:
  assumes "0xF0 \<le> b" and "b \<le> 0xF4"
    and "cont_byte (if b = 0xF0 then 0x90 else 0x80) (if b = 0xF4 then 0x8F else 0xBF) b1"
    and "cont_byte 0x80 0xBF b2" and "cont_byte 0x80 0xBF b3"
  shows "valid_rune ((b - 0xF0) * 262144 + (b1 - 0x80) * 4096 + (b2 - 0x80) * 64 + (b3 - 0x80))"
proof -
  obtain w where w: "b = 0xF0 + w" using le_Suc_ex [OF assms(1)] by blast
  obtain x where x: "b1 = 0x80 + x" "(if b = 0xF0 then 0x90 else 0x80) \<le> 0x80 + x"
    "0x80 + x \<le> (if b = 0xF4 then 0x8F else 0xBF)"
    by (rule cont_byteE [OF assms(3)]) auto
  obtain y where y: "b2 = 0x80 + y" "0x80 + y \<le> 0xBF"
    by (rule cont_byteE [OF assms(4)]) auto
  obtain z where z: "b3 = 0x80 + z" "0x80 + z \<le> 0xBF"
    by (rule cont_byteE [OF assms(5)]) auto
  have v: "(b - 0xF0) * 262144 + (b1 - 0x80) * 4096 + (b2 - 0x80) * 64 + (b3 - 0x80)
      = w * 262144 + x * 4096 + y * 64 + z"
    by (simp add: w x y z)
  have "w \<le> 4" "x \<le> 63" "y \<le> 63" "z \<le> 63" "w = 0 \<Longrightarrow> 16 \<le> x" "w = 4 \<Longrightarrow> x \<le> 15"
    using assms(2) w x y z by (auto split: if_splits)
  then show ?thesis
    unfolding v valid_rune_def by (cases "w = 0"; cases "w = 4") auto
qed

lemma valid_error [simp]: "valid_rune 0xFFFD"
  by (simp add: valid_rune_def)

lemma valid_small [simp]: "b < 0x80 \<Longrightarrow> valid_rune b"
  by (simp add: valid_rune_def)

lemma valid_if:
  "(c \<Longrightarrow> valid_rune x) \<Longrightarrow> (\<not> c \<Longrightarrow> valid_rune (fst r)) \<Longrightarrow> valid_rune (fst (if c then (x, k) else r))"
  by simp

lemma valid_case:
  "valid_rune (fst e) \<Longrightarrow> (\<And>h t. valid_rune (fst (f h t))) \<Longrightarrow>
   valid_rune (fst (case xs of [] \<Rightarrow> e | h # t \<Rightarrow> f h t))"
  by (cases xs) simp_all

lemma decode_rune_valid: "valid_rune (fst (decode_rune bs))"
proof (cases bs)
  case (Cons b cs)
  show ?thesis
    unfolding Cons decode_rune.simps
    by (intro valid_if valid_case; (elim conjE)?; (rule valid_two valid_three valid_four; assumption)?)
      simp_all
qed simp

lemma decode_runes_valid: "list_all valid_rune (decode_runes bs)"
proof (induction bs rule: decode_runes.induct)
  case (2 b bs)
  obtain r w where d: "decode_rune (b # bs) = (r, w)" by (cases "decode_rune (b # bs)")
  with 2 decode_rune_valid [of "b # bs"] show ?case by simp
qed simp

lemma encode_vals_not_Nil [simp]: "encode_vals r \<noteq> []"
  by (simp add: encode_vals_def Let_def)

lemma decode_runes_encode:
  assumes "valid_rune r"
  shows "decode_runes (encode_vals r @ rest) = r # decode_runes rest"
proof -
  obtain b bs where e: "encode_vals r = b # bs" by (cases "encode_vals r") auto
  with decode_encode [OF assms, of rest] show ?thesis by simp
qed

lemma decode_runes_map: "list_all valid_rune rs \<Longrightarrow> decode_runes (concat (map encode_vals rs)) = rs"
  by (induction rs) (simp_all add: decode_runes_encode)

lemma byte_vals_encode: "map byte_val (encode_rune r) = encode_vals r"
  using encode_vals_bytes(1) by (simp add: encode_rune_def map_idI comp_def)

lemma runes_encode: "list_all valid_rune rs \<Longrightarrow> runes (concat (map encode_rune rs)) = rs"
  by (simp add: runes_def map_concat comp_def byte_vals_encode decode_runes_map)

lemma runes_valid: "list_all valid_rune (runes s)"
  by (simp add: runes_def decode_runes_valid)

section \<open>The sanitized external environment\<close>

definition keeps_rune :: "(nat \<Rightarrow> bool) \<Rightarrow> nat \<Rightarrow> bool" where
  "keeps_rune wide_print r \<longleftrightarrow> IsPrint wide_print r \<and> r \<noteq> byte_val (CHR ''|'')"

lemma sanitize_eq:
  "sanitizeExternalEnv wide_print s = concat (map encode_rune (filter (keeps_rune wide_print) (runes s)))"
proof -
  have "foldl (\<lambda>output r. if keeps_rune wide_print r then output @ encode_rune r else output) out rs
      = out @ concat (map encode_rune (filter (keeps_rune wide_print) rs))" for out rs
    by (induction rs arbitrary: out) auto
  then show ?thesis
    by (auto simp: sanitizeExternalEnv_def keeps_rune_def [abs_def] runes_def)
qed

lemma encode_rune_ascii_byte:
  assumes "c \<in> set (encode_rune r)" and "byte_val c < 0x80" and "valid_rune r"
  shows "r = byte_val c"
proof -
  have "byte_val c \<in> set (encode_vals r)"
    using assms(1) by (metis byte_vals_encode image_eqI list.set_map)
  from encode_vals_bytes(2) [OF this assms(2)] decode_encode [OF assms(3), of "[]"] assms(2)
  show ?thesis by simp
qed

lemma sanitize_clean:
  "(\<forall>c \<in> set (sanitizeExternalEnv wide_print s). c \<noteq> CHR ''|'' \<and> 0x20 \<le> byte_val c \<and> byte_val c \<noteq> 0x7F)
   \<and> runes (sanitizeExternalEnv wide_print s) = filter (keeps_rune wide_print) (runes s)
   \<and> sanitizeExternalEnv wide_print (sanitizeExternalEnv wide_print s) = sanitizeExternalEnv wide_print s"
proof -
  let ?rs = "filter (keeps_rune wide_print) (runes s)"
  have valid: "list_all valid_rune ?rs"
    using runes_valid [of s] by (auto simp: list_all_iff)
  then have r: "runes (sanitizeExternalEnv wide_print s) = ?rs"
    by (simp add: sanitize_eq runes_encode)
  moreover have "sanitizeExternalEnv wide_print (sanitizeExternalEnv wide_print s)
      = sanitizeExternalEnv wide_print s"
    by (simp add: sanitize_eq [of wide_print "sanitizeExternalEnv wide_print s"] r)
      (simp add: sanitize_eq)
  moreover have "c \<noteq> CHR ''|'' \<and> 0x20 \<le> byte_val c \<and> byte_val c \<noteq> 0x7F"
    if "c \<in> set (sanitizeExternalEnv wide_print s)" for c
  proof (cases "byte_val c < 0x80")
    case True
    from that obtain r where "c \<in> set (encode_rune r)" "keeps_rune wide_print r" "valid_rune r"
      using valid by (auto simp: sanitize_eq list_all_iff)
    with encode_rune_ascii_byte [OF this(1) True] True show ?thesis
      by (auto simp: keeps_rune_def IsPrint_def latin1_print_def)
  qed auto
  ultimately show ?thesis by blast
qed

lemma sanitize_no_newline [no_nl, simp]: "no_newline (sanitizeExternalEnv wide_print s)"
  using sanitize_clean [of wide_print s] by (fastforce simp: no_newline_def)

text \<open>
  C32. The external environment a client stores is one clean field of a datagram, whatever the
  environment variable holds: it has no bar and no control character, and it is stable under
  sanitizing again, so that only unwanted runes were removed.
\<close>

theorem sanitizeExternalEnv_clean:
  "list_all (\<lambda>c. c \<noteq> CHR ''|'' \<and> 0x20 \<le> byte_val c \<and> byte_val c \<noteq> 0x7F) (sanitizeExternalEnv wide_print s)
   \<and> runes (sanitizeExternalEnv wide_print s) = filter (keeps_rune wide_print) (runes s)
   \<and> sanitizeExternalEnv wide_print (sanitizeExternalEnv wide_print s) = sanitizeExternalEnv wide_print s"
  unfolding list_all_iff by (rule sanitize_clean)

end
