(* ===== verification/Address.thy ===== *)
theory Address
  imports TagCardinality
begin

text \<open>
  Where a client sends: \<open>resolveAddr\<close>, \<open>parseAgentURL\<close> and \<open>createWriter\<close> of
  \<open>src/statsd/statsdex.go\<close>.  \<open>url.Parse\<close> of the standard library is an argument; of its result the
  code reads the scheme and the host.  Opening a transport is an argument too: the error text, or
  \<open>None\<close> for success.
\<close>

section \<open>The code\<close>

definition HasPrefix :: "bytes \<Rightarrow> bytes \<Rightarrow> bool" where
  "HasPrefix s p \<longleftrightarrow> take (length p) s = p"

definition UnixAddressPrefix :: bytes where "UnixAddressPrefix = ''unix://''"
definition UnixAddressDatagramPrefix :: bytes where "UnixAddressDatagramPrefix = ''unixgram://''"
definition UnixAddressStreamPrefix :: bytes where "UnixAddressStreamPrefix = ''unixstream://''"

definition WindowsPipeAddressPrefix :: bytes where
  "WindowsPipeAddressPrefix =
     [CHR 0x5C, CHR 0x5C, CHR ''.'', CHR 0x5C] @ ''pipe'' @ [CHR 0x5C]"

definition AddressPrefixes :: "bytes list" where
  "AddressPrefixes = [UnixAddressPrefix, UnixAddressDatagramPrefix, UnixAddressStreamPrefix,
     WindowsPipeAddressPrefix]"

definition defaultUDPPort :: bytes where "defaultUDPPort = ''8125''"

lemmas prefix_defs =
  UnixAddressPrefix_def UnixAddressDatagramPrefix_def UnixAddressStreamPrefix_def
  WindowsPipeAddressPrefix_def

text \<open>The parts of a parsed URL the code reads.\<close>

record URL =
  url_Scheme :: bytes
  url_Host :: bytes

type_synonym url_parser = "bytes \<Rightarrow> URL option"

definition parseAgentURL :: "url_parser \<Rightarrow> bytes \<Rightarrow> bytes" where
  "parseAgentURL parse agentURL =
     (if agentURL \<noteq> '''' then
        if HasPrefix agentURL WindowsPipeAddressPrefix then agentURL
        else case parse agentURL of
          None \<Rightarrow> ''''
        | Some u \<Rightarrow>
            if url_Scheme u = ''udp'' then
              if CHR '':'' \<in> set (url_Host u) then url_Host u
              else url_Host u @ '':'' @ defaultUDPPort
            else if url_Scheme u = ''unix'' then agentURL
            else ''''
      else '''')"

definition resolveAddr :: "url_parser \<Rightarrow> environ \<Rightarrow> bytes \<Rightarrow> bytes" where
  "resolveAddr parse getenv addr0 =
     (let (addr, envPort, agentURL) =
            (if addr0 = '''' then (getenv ''DD_AGENT_HOST'', getenv ''DD_DOGSTATSD_PORT'',
               parseAgentURL parse (getenv ''DD_DOGSTATSD_URL''))
             else (addr0, '''', ''''))
      in if agentURL \<noteq> '''' then agentURL
         else if addr = '''' then ''''
         else if \<exists>p \<in> set AddressPrefixes. HasPrefix addr p then addr
         else if CHR '':'' \<in> set addr then addr
         else if envPort \<noteq> '''' then addr @ '':'' @ envPort
         else addr @ '':'' @ defaultUDPPort)"

text \<open>The transport to open: its constructor with the arguments the code passes.\<close>

datatype transport =
    WindowsPipe bytes
  | UDS (uds_addr: bytes) (uds_network: bytes)
  | UDP bytes
  | CustomWriter

type_synonym opener = "transport \<Rightarrow> bytes option"

definition writerNameUDP :: bytes where "writerNameUDP = ''udp''"
definition writerNameUDS :: bytes where "writerNameUDS = ''uds''"
definition writerNameUDSStream :: bytes where "writerNameUDSStream = ''uds-stream''"
definition writerWindowsPipe :: bytes where "writerWindowsPipe = ''pipe''"
definition writerNameCustom :: bytes where "writerNameCustom = ''custom''"

lemmas writer_names =
  writerNameUDP_def writerNameUDS_def writerNameUDSStream_def writerWindowsPipe_def
  writerNameCustom_def

definition noAddress :: bytes where
  "noAddress = ''No address passed and autodetection from environment failed''"

definition createWriter :: "opener \<Rightarrow> bytes \<Rightarrow> transport option \<times> bytes \<times> bytes option" where
  "createWriter try_open addr =
     (if addr = '''' then (None, '''', Some noAddress)
      else
        let (w, name) =
          (if HasPrefix addr WindowsPipeAddressPrefix then (WindowsPipe addr, writerWindowsPipe)
           else if HasPrefix addr UnixAddressPrefix
             then (UDS (drop (length UnixAddressPrefix) addr) '''', writerNameUDS)
           else if HasPrefix addr UnixAddressDatagramPrefix
             then (UDS (drop (length UnixAddressDatagramPrefix) addr) ''unixgram'', writerNameUDS)
           else if HasPrefix addr UnixAddressStreamPrefix
             then (UDS (drop (length UnixAddressStreamPrefix) addr) ''unix'', writerNameUDS)
           else (UDP addr, writerNameUDP))
        in (Some w, name, try_open w))"

section \<open>Facts\<close>

lemma HasPrefix_append [simp]: "HasPrefix (p @ s) p"
  by (simp add: HasPrefix_def)

lemma HasPrefixE:
  assumes "HasPrefix s p"
  obtains t where "s = p @ t"
  using assms unfolding HasPrefix_def by (metis append_take_drop_id)

text \<open>The prefixes differ before the end of the shorter one, so at most one matches.\<close>

lemma HasPrefix_prefixes [simp]:
  "\<not> HasPrefix (UnixAddressPrefix @ s) WindowsPipeAddressPrefix"
  "\<not> HasPrefix (UnixAddressDatagramPrefix @ s) WindowsPipeAddressPrefix"
  "\<not> HasPrefix (UnixAddressStreamPrefix @ s) WindowsPipeAddressPrefix"
  "\<not> HasPrefix (UnixAddressDatagramPrefix @ s) UnixAddressPrefix"
  "\<not> HasPrefix (UnixAddressStreamPrefix @ s) UnixAddressPrefix"
  "\<not> HasPrefix (UnixAddressStreamPrefix @ s) UnixAddressDatagramPrefix"
  by (simp_all add: HasPrefix_def prefix_defs)

lemma prefixes_not_Nil [simp]:
  "UnixAddressPrefix \<noteq> []" "UnixAddressDatagramPrefix \<noteq> []" "UnixAddressStreamPrefix \<noteq> []"
  "WindowsPipeAddressPrefix \<noteq> []"
  by (simp_all add: prefix_defs)

section \<open>Properties\<close>

text \<open>
  A resolved address names its transport: it is empty, carries one of the four prefixes,
  or has a port separator.  Resolving it again changes nothing.
\<close>

theorem resolveAddr_wellformed:
  assumes "\<And>s u. parse s = Some u \<Longrightarrow> url_Scheme u = ''unix'' \<Longrightarrow> CHR '':'' \<in> set s"
  shows "let r = resolveAddr parse env addr in
    (r = '''' \<or> (\<exists>p \<in> set AddressPrefixes. HasPrefix r p) \<or> CHR '':'' \<in> set r)
    \<and> (r = '''' \<or> resolveAddr parse env r = r)"
proof -
  let ?r = "resolveAddr parse env addr"
  have url: "s' = '''' \<or> HasPrefix s' WindowsPipeAddressPrefix \<or> CHR '':'' \<in> set s'"
    if "s' = parseAgentURL parse s" for s s'
    using assms [of s] that by (auto simp: parseAgentURL_def split: if_splits option.splits)
  have shape: "?r = '''' \<or> (\<exists>p \<in> set AddressPrefixes. HasPrefix ?r p) \<or> CHR '':'' \<in> set ?r"
    using url [OF refl, of "env ''DD_DOGSTATSD_URL''"]
    by (auto simp: resolveAddr_def Let_def AddressPrefixes_def)
  then have "?r = '''' \<or> resolveAddr parse env ?r = ?r"
    by (auto simp: resolveAddr_def [of parse env ?r] Let_def)
  with shape show ?thesis by (simp add: Let_def)
qed

text \<open>A URL parser for the witness: it splits at the first colon.\<close>

definition demo_parser :: url_parser where
  "demo_parser s = (if CHR '':'' \<in> set s
     then Some \<lparr>url_Scheme = takeWhile (\<lambda>c. c \<noteq> CHR '':'') s,
       url_Host = drop 3 (dropWhile (\<lambda>c. c \<noteq> CHR '':'') s)\<rparr> else None)"

theorem resolveAddr_wellformed_witness:
  "resolveAddr demo_parser (\<lambda>k. if k = ''DD_AGENT_HOST'' then ''h'' else '''') '''' = ''h:8125''
   \<and> resolveAddr demo_parser (\<lambda>k. if k = ''DD_AGENT_HOST'' then ''h'' else '''') ''h:8125'' = ''h:8125''"
proof -
  have r: "resolveAddr demo_parser (\<lambda>k. if k = ''DD_AGENT_HOST'' then ''h'' else '''') '''' = ''h:8125''"
    by (simp add: resolveAddr_def parseAgentURL_def AddressPrefixes_def HasPrefix_def prefix_defs
        defaultUDPPort_def)
  let ?env = "\<lambda>k. if k = ''DD_AGENT_HOST'' then ''h'' else ''''"
  have "let r = resolveAddr demo_parser ?env '''' in
      (r = '''' \<or> (\<exists>p \<in> set AddressPrefixes. HasPrefix r p) \<or> CHR '':'' \<in> set r)
      \<and> (r = '''' \<or> resolveAddr demo_parser ?env r = r)"
    by (rule resolveAddr_wellformed) (auto simp: demo_parser_def split: if_splits)
  with r show ?thesis by (simp add: Let_def)
qed

text \<open>
  The scheme of an address decides the transport, and exactly the path behind it is
  opened: \<open>unix://\<close> leaves the socket type open, \<open>unixgram://\<close> and \<open>unixstream://\<close> fix it, a pipe keeps its
  whole name, and everything else is a UDP address; an error of the transport is passed on.
\<close>

theorem createWriter_scheme:
  "createWriter try_open (UnixAddressPrefix @ path)
     = (Some (UDS path ''''), ''uds'', try_open (UDS path ''''))
   \<and> createWriter try_open (UnixAddressDatagramPrefix @ path)
     = (Some (UDS path ''unixgram''), ''uds'', try_open (UDS path ''unixgram''))
   \<and> createWriter try_open (UnixAddressStreamPrefix @ path)
     = (Some (UDS path ''unix''), ''uds'', try_open (UDS path ''unix''))
   \<and> createWriter try_open (WindowsPipeAddressPrefix @ path)
     = (Some (WindowsPipe (WindowsPipeAddressPrefix @ path)), ''pipe'',
        try_open (WindowsPipe (WindowsPipeAddressPrefix @ path)))
   \<and> createWriter try_open '''' = (None, '''', Some noAddress)"
  by (simp add: createWriter_def writer_names Let_def)

end
