(* ===== verification/Telemetry.thy ===== *)
theory Telemetry
  imports Client Address
begin

text \<open>
  \<open>src/statsd/telemetry.go\<close>: the counters of client, sender and aggregator in one record, and the
  periodic flush that sends how much each has grown since the last one.

  The Go record is flat; here it holds the records of the three parts, whose fields have the
  same names.  The name of the transport is an argument where \<open>GetTransport\<close> is called.
\<close>

section \<open>The code\<close>

record Telemetry =
  TotalMetrics :: u64
  tlm_client :: statsdTelemetry
  tlm_sender :: senderTelemetry
  TotalPayloadsDropped :: u64
  TotalBytesDropped :: u64
  AggregationNbContext :: u64
  tlm_agg :: aggTelemetry

definition zero_aggTelemetry :: aggTelemetry where
  "zero_aggTelemetry =
     \<lparr>AggregationNbContextGauge = 0, AggregationNbContextCount = 0, AggregationNbContextSet = 0,
      AggregationNbContextHistogram = 0, AggregationNbContextDistribution = 0,
      AggregationNbContextTiming = 0\<rparr>"

definition zero_Telemetry :: Telemetry where
  "zero_Telemetry =
     \<lparr>TotalMetrics = 0, tlm_client = zero_statsdTelemetry, tlm_sender = zero_senderTelemetry,
      TotalPayloadsDropped = 0, TotalBytesDropped = 0, AggregationNbContext = 0,
      tlm_agg = zero_aggTelemetry\<rparr>"

record telemetryClient =
  tc_aggEnabled :: bool
  tc_transport :: bytes
  tc_tags :: "bytes list"
  tc_tagsByType :: "metricType \<Rightarrow> bytes list"
  tc_worker :: "(shared \<times> worker) option"
  tc_lastSample :: Telemetry

definition clientTelemetryTag :: bytes where "clientTelemetryTag = ''client:go''"

definition clientVersionTelemetryTag :: bytes where
  "clientVersionTelemetryTag = ''client_version:5.9.0''"

text \<open>Each of the three parts copies its counters.\<close>

definition client_flushTelemetryMetrics :: "ClientEx \<Rightarrow> Telemetry \<Rightarrow> Telemetry" where
  "client_flushTelemetryMetrics c t = t\<lparr>tlm_client := c_telemetry c\<rparr>"

definition sender_flushTelemetryMetrics :: "sender \<Rightarrow> Telemetry \<Rightarrow> Telemetry" where
  "sender_flushTelemetryMetrics s t = t\<lparr>tlm_sender := s_telemetry s\<rparr>"

definition getTelemetry :: "telemetryClient option \<Rightarrow> ClientEx \<Rightarrow> Telemetry" where
  "getTelemetry tc c =
     (case tc of
        None \<Rightarrow> zero_Telemetry
      | Some t \<Rightarrow>
          let tlm = zero_Telemetry;
              tlm = client_flushTelemetryMetrics c tlm;
              tlm = sender_flushTelemetryMetrics (sh_sender (c_shared c)) tlm;
              tlm = tlm\<lparr>tlm_agg := flushTelemetryMetrics (c_agg c) (tlm_agg tlm)\<rparr>;
              cl = tlm_client tlm; se = tlm_sender tlm; ag = tlm_agg tlm;
              tlm = tlm\<lparr>TotalMetrics := totalMetricsGauge cl + totalMetricsCount cl
                + totalMetricsSet cl + totalMetricsHistogram cl + totalMetricsDistribution cl
                + totalMetricsTiming cl\<rparr>;
              tlm = tlm\<lparr>TotalPayloadsDropped :=
                totalPayloadsDroppedQueueFull se + totalPayloadsDroppedWriter se\<rparr>;
              tlm = tlm\<lparr>TotalBytesDropped :=
                totalBytesDroppedQueueFull se + totalBytesDroppedWriter se\<rparr>
          in if tc_aggEnabled t
             then tlm\<lparr>AggregationNbContext := AggregationNbContextGauge ag
               + AggregationNbContextCount ag + AggregationNbContextSet ag
               + AggregationNbContextHistogram ag + AggregationNbContextDistribution ag
               + AggregationNbContextTiming ag\<rparr>
             else tlm)"

text \<open>\<open>setTags\<close>; the map \<open>tagsByType\<close> yields nil for a type that has no entry.\<close>

definition type_tag :: "metricType \<Rightarrow> bytes option" where
  "type_tag ty = (case ty of
     gaugeT \<Rightarrow> Some ''metrics_type:gauge'' | countT \<Rightarrow> Some ''metrics_type:count''
   | setT \<Rightarrow> Some ''metrics_type:set'' | timingT \<Rightarrow> Some ''metrics_type:timing''
   | histogramT \<Rightarrow> Some ''metrics_type:histogram''
   | distributionT \<Rightarrow> Some ''metrics_type:distribution'' | _ \<Rightarrow> None)"

definition setTags :: "bytes \<Rightarrow> bytes list \<Rightarrow> telemetryClient \<Rightarrow> telemetryClient" where
  "setTags transport clientTags t =
     (let needsRefresh = (length (tc_tags t) = length clientTags \<or> tc_transport t \<noteq> transport) in
      if \<not> needsRefresh then t
      else
        let tags = clientTags @ [clientTelemetryTag, clientVersionTelemetryTag];
            tags = (if transport \<noteq> '''' then tags @ [''client_transport:'' @ transport] else tags)
        in t\<lparr>tc_transport := transport, tc_tags := tags,
             tc_tagsByType := (\<lambda>ty. case type_tag ty of
               None \<Rightarrow> tc_tagsByType t ty
             | Some tag \<Rightarrow> tags @ [tag])\<rparr>)"

definition newTelemetryClient :: "bytes \<Rightarrow> bytes list \<Rightarrow> bool \<Rightarrow> telemetryClient" where
  "newTelemetryClient transport clientTags aggregationEnabled =
     setTags transport clientTags
       \<lparr>tc_aggEnabled = aggregationEnabled, tc_transport = '''', tc_tags = [],
        tc_tagsByType = (\<lambda>_. []), tc_worker = None, tc_lastSample = zero_Telemetry\<rparr>"

definition DefaultUDPBufferPoolSize :: int where "DefaultUDPBufferPoolSize = 2048"

text \<open>
  With an address of its own, telemetry has its own worker and sender, which share the client's
  pool of buffers.  \<open>None\<close> stands for the error \<open>Could not resolve telemetry address\<close>.
\<close>

definition newTelemetryClientWithCustomAddr ::
  "url_parser \<Rightarrow> environ \<Rightarrow> opener \<Rightarrow> bytes \<Rightarrow> bytes list \<Rightarrow> bytes \<Rightarrow> bool \<Rightarrow> bool \<Rightarrow> bufferPool
     \<Rightarrow> (telemetryClient \<times> bufferPool) option" where
  "newTelemetryClientWithCustomAddr parse getenv try_open transport clientTags telemetryAddr
       aggregationEnabled hasHandler p =
     (let telemetryAddr = resolveAddr parse getenv telemetryAddr in
      case createWriter try_open telemetryAddr of
        (_, _, Some err) \<Rightarrow> None
      | (_, _, None) \<Rightarrow>
          let t = newTelemetryClient transport clientTags aggregationEnabled;
              s = newSender (nat DefaultUDPBufferPoolSize) hasHandler;
              (sh, w) = newWorker \<lparr>sh_pool = p, sh_sender = s, sh_log = []\<rparr>
          in Some (t\<lparr>tc_worker := Some (sh, w)\<rparr>, sh_pool sh))"

definition telemetryCount :: "cardinality \<Rightarrow> bytes \<Rightarrow> u64 \<Rightarrow> bytes list \<Rightarrow> metric" where
  "telemetryCount crd name value tags =
     zero_metric\<lparr>m_type := countT, m_name := name, m_ivalue := value, m_tags := tags,
       m_rate := f64_one, m_cardinality := crd\<rparr>"

text \<open>
  The metrics of a flush: for each its name, the counter it reports, and the type whose tags it
  has (\<open>None\<close> for the common tags), in the order of the code.
\<close>

abbreviation client_name :: "string \<Rightarrow> bytes" where
  "client_name s \<equiv> ''datadog.dogstatsd.client.'' @ s"

definition telemetry_table :: "(bytes \<times> (Telemetry \<Rightarrow> u64) \<times> metricType option) list" where
  "telemetry_table =
     [(client_name ''metrics'', TotalMetrics, None),
      (client_name ''metrics_by_type'', totalMetricsGauge \<circ> tlm_client, Some gaugeT),
      (client_name ''metrics_by_type'', totalMetricsCount \<circ> tlm_client, Some countT),
      (client_name ''metrics_by_type'', totalMetricsHistogram \<circ> tlm_client, Some histogramT),
      (client_name ''metrics_by_type'', totalMetricsDistribution \<circ> tlm_client, Some distributionT),
      (client_name ''metrics_by_type'', totalMetricsSet \<circ> tlm_client, Some setT),
      (client_name ''metrics_by_type'', totalMetricsTiming \<circ> tlm_client, Some timingT),
      (client_name ''events'', totalEvents \<circ> tlm_client, None),
      (client_name ''service_checks'', totalServiceChecks \<circ> tlm_client, None),
      (client_name ''metric_dropped_on_receive'', totalDroppedOnReceive \<circ> tlm_client, None),
      (client_name ''packets_sent'', totalPayloadsSent \<circ> tlm_sender, None),
      (client_name ''packets_dropped'', TotalPayloadsDropped, None),
      (client_name ''packets_dropped_queue'', totalPayloadsDroppedQueueFull \<circ> tlm_sender, None),
      (client_name ''packets_dropped_writer'', totalPayloadsDroppedWriter \<circ> tlm_sender, None),
      (client_name ''bytes_dropped'', TotalBytesDropped, None),
      (client_name ''bytes_sent'', totalBytesSent \<circ> tlm_sender, None),
      (client_name ''bytes_dropped_queue'', totalBytesDroppedQueueFull \<circ> tlm_sender, None),
      (client_name ''bytes_dropped_writer'', totalBytesDroppedWriter \<circ> tlm_sender, None)]"

definition aggregation_table :: "(bytes \<times> (Telemetry \<Rightarrow> u64) \<times> metricType option) list" where
  "aggregation_table =
     [(client_name ''aggregated_context'', AggregationNbContext, None),
      (client_name ''aggregated_context_by_type'', AggregationNbContextGauge \<circ> tlm_agg, Some gaugeT),
      (client_name ''aggregated_context_by_type'', AggregationNbContextSet \<circ> tlm_agg, Some setT),
      (client_name ''aggregated_context_by_type'', AggregationNbContextCount \<circ> tlm_agg, Some countT),
      (client_name ''aggregated_context_by_type'', AggregationNbContextHistogram \<circ> tlm_agg, Some histogramT),
      (client_name ''aggregated_context_by_type'', AggregationNbContextDistribution \<circ> tlm_agg, Some distributionT),
      (client_name ''aggregated_context_by_type'', AggregationNbContextTiming \<circ> tlm_agg, Some timingT)]"

definition telemetry_metrics ::
  "cardinality \<Rightarrow> telemetryClient \<Rightarrow> Telemetry \<Rightarrow> (bytes \<times> (Telemetry \<Rightarrow> u64) \<times> metricType option) list
     \<Rightarrow> metric list" where
  "telemetry_metrics crd t tlm table =
     map (\<lambda>(name, counter, ty). telemetryCount crd name (counter tlm - counter (tc_lastSample t))
        (case ty of None \<Rightarrow> tc_tags t | Some ty \<Rightarrow> tc_tagsByType t ty)) table"

definition telemetry_flush ::
  "bytes \<Rightarrow> ClientEx \<Rightarrow> telemetryClient \<Rightarrow> telemetryClient \<times> metric list" where
  "telemetry_flush transport c t =
     (let tlm = getTelemetry (Some t) c;
          t = setTags transport (c_tags c) t;
          m = telemetry_metrics (c_defaultCardinality c) t tlm telemetry_table;
          m = (if tc_aggEnabled t
               then m @ telemetry_metrics (c_defaultCardinality c) t tlm aggregation_table else m)
      in (t\<lparr>tc_lastSample := tlm\<rparr>, m))"

text \<open>
  \<open>sendTelemetry\<close>: through the worker of its own if there is one, else through the client.  The pool
  is the client's, so it moves with the worker's view of it.
\<close>

fun client_sendAll :: "globals \<Rightarrow> (nat \<Rightarrow> f64) \<Rightarrow> metric list \<Rightarrow> ClientEx \<Rightarrow> ClientEx outcome" where
  "client_sendAll g draws [] c = Done c"
| "client_sendAll g draws (m # ms) c =
     obind (client_send g (draws 0) m c) (\<lambda>(c, _). client_sendAll g (\<lambda>i. draws (Suc i)) ms c)"

definition sendTelemetry ::
  "globals \<Rightarrow> bytes \<Rightarrow> (nat \<Rightarrow> f64) \<Rightarrow> ClientEx \<Rightarrow> telemetryClient \<Rightarrow> (ClientEx \<times> telemetryClient) outcome" where
  "sendTelemetry g transport draws c t =
     (let (t, ms) = telemetry_flush transport c t in
      case tc_worker t of
        None \<Rightarrow> obind (client_sendAll g draws ms c) (\<lambda>c. Done (c, t))
      | Some (sh, w) \<Rightarrow>
          let sh = sh\<lparr>sh_pool := sh_pool (c_shared c)\<rparr>;
              (sh, w, _) = processAll g sh w (zip (map draws [0..<length ms]) ms);
              (sh, w) = flushUnsafe sh w
          in Done (c\<lparr>c_shared := (c_shared c)\<lparr>sh_pool := sh_pool sh\<rparr>\<rparr>,
                   t\<lparr>tc_worker := Some (sh, w)\<rparr>))"

text \<open>
  The own worker has an own sender with a send loop of its own, and \<open>DefaultUDPBufferPoolSize\<close>
  places in its queue; both senders return buffers to one pool.  A turn of that loop writes the
  first payload of the queue; \<open>out\<close> is the outcome.  When \<open>Close\<close> closes the channel \<open>stop\<close>, telemetry
  closes this sender, which writes all that is left; \<open>outs\<close> are the outcomes.
\<close>

definition own_sent ::
  "shared \<Rightarrow> worker \<Rightarrow> bufferPool \<times> sender \<Rightarrow> ClientEx \<Rightarrow> telemetryClient \<Rightarrow> ClientEx \<times> telemetryClient" where
  "own_sent sh w ps c t =
     (c\<lparr>c_shared := (c_shared c)\<lparr>sh_pool := fst ps\<rparr>\<rparr>,
      t\<lparr>tc_worker := Some (sh\<lparr>sh_pool := fst ps, sh_sender := snd ps\<rparr>, w)\<rparr>)"

definition own_sender_turn ::
  "bytes option \<Rightarrow> ClientEx \<Rightarrow> telemetryClient \<Rightarrow> ClientEx \<times> telemetryClient" where
  "own_sender_turn out c t =
     (case tc_worker t of
        None \<Rightarrow> (c, t)
      | Some (sh, w) \<Rightarrow>
          (case queue (sh_sender sh) of
             [] \<Rightarrow> (c, t)
           | b # q \<Rightarrow>
               own_sent sh w (sender_write (sh_pool (c_shared c)) ((sh_sender sh)\<lparr>queue := q\<rparr>) b out) c t))"

definition own_sender_close ::
  "(nat \<Rightarrow> bytes option) \<Rightarrow> ClientEx \<Rightarrow> telemetryClient \<Rightarrow> ClientEx \<times> telemetryClient" where
  "own_sender_close outs c t =
     (case tc_worker t of
        None \<Rightarrow> (c, t)
      | Some (sh, w) \<Rightarrow> own_sent sh w (flushInputQueue (sh_pool (c_shared c)) (sh_sender sh) outs) c t)"

end
