(* ===== verification/NewClient.thy ===== *)
theory NewClient
  imports Origin Telemetry
begin

text \<open>
  Construction of a client: \<open>newWithWriter\<close>, \<open>NewEx\<close>, \<open>NewWithWriterEx\<close> and
  \<open>CloneWithExtraOptionsEx\<close> of \<open>src/statsd/statsdex.go\<close>.

  \<open>newWithWriter\<close> adapts the sizes to the transport, builds pool, sender, aggregator and workers, and
  starts the goroutines.  It panics where Go does: a channel or slice whose size is negative or too
  large, a ticker whose interval is not positive.  The world around it (environment, files, transports) is
  the record \<open>world\<close>.
\<close>

section \<open>The code\<close>

record world =
  getenv :: environ
  wide_print :: "nat \<Rightarrow> bool"
  the_host :: host
  urlParse :: url_parser
  try_open :: opener

text \<open>\<open>ddEnvTagsMapping\<close>.\<close>

definition ddEnvTagsMapping :: "(bytes \<times> bytes) list" where
  "ddEnvTagsMapping =
     [(''DD_ENTITY_ID'', ''dd.internal.entity_id''), (''DD_ENV'', ''env''),
      (''DD_SERVICE'', ''service''), (''DD_VERSION'', ''version'')]"

definition envTags :: "environ \<Rightarrow> bytes list" where
  "envTags env =
     concat (map (\<lambda>(envName, tagName).
       let value = env envName in if value \<noteq> '''' then [tagName @ '':'' @ value] else [])
       ddEnvTagsMapping)"

definition OptimalUDPPayloadSize :: int where "OptimalUDPPayloadSize = 1432"
definition DefaultMaxAgentPayloadSize :: int where "DefaultMaxAgentPayloadSize = 8192"
definition DefaultUDSBufferPoolSize :: int where "DefaultUDSBufferPoolSize = 512"

text \<open>The sizes that are 0 are replaced by the optimum for the transport.\<close>

definition adaptSizes :: "bool \<Rightarrow> Options \<Rightarrow> Options" where
  "adaptSizes isUDS o' =
     (let o' = (if o_maxBytesPerPayload o' = 0
                then o'\<lparr>o_maxBytesPerPayload :=
                  (if isUDS then DefaultMaxAgentPayloadSize else OptimalUDPPayloadSize)\<rparr> else o');
          o' = (if o_bufferPoolSize o' = 0
                then o'\<lparr>o_bufferPoolSize :=
                  (if isUDS then DefaultUDSBufferPoolSize else DefaultUDPBufferPoolSize)\<rparr> else o')
      in if o_senderQueueSize o' = 0
         then o'\<lparr>o_senderQueueSize :=
           (if isUDS then DefaultUDSBufferPoolSize else DefaultUDPBufferPoolSize)\<rparr> else o')"

definition chosenCardinality :: "environ \<Rightarrow> Options \<Rightarrow> cardinality" where
  "chosenCardinality env o' =
     (case o_tagCardinality o' of
        Some crd \<Rightarrow> crd
      | None \<Rightarrow> let (crd, ok) = envTagCardinality env in if ok then crd else CardinalityNotSet)"

text \<open>The loop that creates the workers.\<close>

fun newWorkers :: "nat \<Rightarrow> shared \<Rightarrow> shared \<times> worker list" where
  "newWorkers 0 sh = (sh, [])"
| "newWorkers (Suc n) sh =
     (let (sh, w) = newWorker sh; (sh, ws) = newWorkers n sh in (sh, w # ws))"

text \<open>The aggregator, if the options ask for one.\<close>

definition wantsAggregator :: "Options \<Rightarrow> bool" where
  "wantsAggregator o' \<longleftrightarrow> o_aggregation o' \<or> o_extendedAggregation o'
     \<or> o_maxBufferedSamplesPerContext o' > 0"

text \<open>The size of a \<open>metric\<close>, the element of the input channels.\<close>

definition metricSize :: int where
  "metricSize = 208"

definition startAggregator :: "Options \<Rightarrow> aggregator option outcome" where
  "startAggregator o' =
     (if wantsAggregator o' then
        case newAggregator (of_int (o_maxBufferedSamplesPerContext o')) (o_aggregatorShardCount o') of
          None \<Rightarrow> Panicked
        | Some a \<Rightarrow>
            if sint (o_aggregationFlushInterval o') \<le> 0 then Panicked
            else if o_extendedAggregation o' \<and> o_receiveMode o' = channelMode
                    \<and> \<not> make_chan metricSize (o_channelModeBufferSize o') then Panicked
            else Done (Some a)
      else Done None)"

datatype client_failure = OptionError option_error | WriterError bytes | TelemetryAddressError
  | CloneNil | CloneWithoutAddress

type_synonym new_result = "(client_failure + ClientEx \<times> telemetryClient option) outcome"

text \<open>
  \<open>newWithWriter\<close>; \<open>writerName\<close> is the name \<open>createWriter\<close> returned, \<open>transport\<close> what
  \<open>GetTransport\<close> will say.
\<close>

definition newWithWriter ::
  "world \<Rightarrow> process \<Rightarrow> Options \<Rightarrow> bytes \<Rightarrow> bytes \<Rightarrow> process \<times> new_result" where
  "newWithWriter wd pr o0 writerName transport =
     (let env = getenv wd;
          tags = o_tags o0 @ envTags env;
          pr = pr\<lparr>pr_globals := initExternalEnv (wide_print wd) env (pr_globals pr)\<rparr>;
          defaultCardinality = chosenCardinality env o0;
          pr = internalInitContainerID (the_host wd) (o_containerID o0) (fillInContainerID env o0)
                 (isHostCgroupNamespace (the_host wd)) pr;
          o' = adaptSizes (writerName = writerNameUDS) o0
      in (pr,
        (case newBufferPool (o_bufferPoolSize o') (o_maxBytesPerPayload o') (o_maxMessagesPerPayload o') of
          None \<Rightarrow> Panicked
        | Some p \<Rightarrow>
            if \<not> make_chan 8 (o_senderQueueSize o') then Panicked
            else obind (startAggregator o') (\<lambda>agg.
              let s = newSender (nat (o_senderQueueSize o')) (o_errorHandler o');
                  workersMode = (if o_extendedAggregation o' then mutexMode else o_receiveMode o');
                  n = nat (o_workersCount o');
                  (sh, ws) = newWorkers n \<lparr>sh_pool = p, sh_sender = s, sh_log = []\<rparr>;
                  c = \<lparr>c_shared = sh, c_namespace = o_namespace o', c_tags = tags,
                       c_telemetry = zero_statsdTelemetry, c_workers = ws,
                       c_inputs = (if workersMode = channelMode then replicate n [] else []),
                       c_inputCap = nat (o_channelModeBufferSize o'), c_workersMode = workersMode,
                       c_aggregatorMode = o_receiveMode o', c_agg = agg,
                       c_extended = (o_extendedAggregation o'), c_aggInput = [],
                       c_isClosed = False,
                       c_errorOnBlockedChannel = o_channelModeErrorsWhenFull o',
                       c_hasErrorHandler = o_errorHandler o', c_handled = [],
                       c_originDetection = isOriginDetectionEnabled env o',
                       c_defaultCardinality = defaultCardinality, c_sent = [], c_done = []\<rparr>
              in if workersMode = channelMode \<and> 0 < n \<and> \<not> make_chan metricSize (o_channelModeBufferSize o')
                 then Panicked
                 else if sint (o_bufferFlushInterval o') \<le> 0 then Panicked
                 else if \<not> o_telemetry o' then Done (Inr (c, None))
                 else if o_telemetryAddr o' = ''''
                 then Done (Inr (c, Some (newTelemetryClient transport tags (agg \<noteq> None))))
                 else case newTelemetryClientWithCustomAddr (urlParse wd) env (try_open wd) transport
                             tags (o_telemetryAddr o') (agg \<noteq> None) (o_errorHandler o') (sh_pool sh) of
                        None \<Rightarrow> Done (Inl TelemetryAddressError)
                      | Some (t, p) \<Rightarrow>
                          Done (Inr (c\<lparr>c_shared := sh\<lparr>sh_pool := p\<rparr>\<rparr>, Some t))))))"

text \<open>The name a transport reports before it has connected.\<close>

definition transportName :: "transport \<Rightarrow> bytes" where
  "transportName w = (case w of
     UDP _ \<Rightarrow> writerNameUDP
   | UDS _ network \<Rightarrow> if network = ''unix'' then writerNameUDSStream else writerNameUDS
   | WindowsPipe _ \<Rightarrow> writerWindowsPipe
   | CustomWriter \<Rightarrow> writerNameCustom)"

definition NewEx ::
  "world \<Rightarrow> process \<Rightarrow> bytes \<Rightarrow> Option list \<Rightarrow> process \<times> new_result" where
  "NewEx wd pr addr options =
     (case resolveOptions options of
        Inl err \<Rightarrow> (pr, Done (Inl (OptionError err)))
      | Inr o' \<Rightarrow>
          let addr = resolveAddr (urlParse wd) (getenv wd) addr in
          (case createWriter (try_open wd) addr of
             (_, _, Some err) \<Rightarrow> (pr, Done (Inl (WriterError err)))
           | (None, _, None) \<Rightarrow> (pr, Panicked)
           | (Some w, writerType, None) \<Rightarrow> newWithWriter wd pr o' writerType (transportName w)))"

definition NewWithWriterEx ::
  "world \<Rightarrow> process \<Rightarrow> Option list \<Rightarrow> process \<times> new_result" where
  "NewWithWriterEx wd pr options =
     (case resolveOptions options of
        Inl err \<Rightarrow> (pr, Done (Inl (OptionError err)))
      | Inr o' \<Rightarrow> newWithWriter wd pr o' writerNameCustom (transportName CustomWriter))"

text \<open>
  The options and the address a client was made with are the fields \<open>options\<close> and \<open>addrOption\<close>; only
  \<open>NewEx\<close> sets them, here they are arguments.
\<close>

definition CloneWithExtraOptionsEx ::
  "world \<Rightarrow> process \<Rightarrow> (Option list \<times> bytes) option \<Rightarrow> Option list \<Rightarrow> process \<times> new_result" where
  "CloneWithExtraOptionsEx wd pr client options =
     (case client of
        None \<Rightarrow> (pr, Done (Inl CloneNil))
      | Some (opts, addrOption) \<Rightarrow>
          if addrOption = '''' then (pr, Done (Inl CloneWithoutAddress))
          else NewEx wd pr addrOption (opts @ options))"

end
