(* ===== verification/Aggregator_Facts.thy ===== *)
theory Aggregator_Facts
  imports Aggregator
begin

text \<open>
  What the aggregator computes: whatever the number of shards, the metrics of a flush are one
  per context, with the sum of the counts, the last gauge, and the set of values; the
  contexts of the buffered kinds stay well formed.  An operation never panics.
\<close>

section \<open>Calls and their shard\<close>

text \<open>A call of \<open>count\<close>, \<open>gauge\<close> or \<open>set\<close>: name, value, tags, cardinality.\<close>

type_synonym 'a call = "bytes \<times> 'a \<times> bytes list \<times> cardinality"

definition call_key :: "'a call \<Rightarrow> bytes" where
  "call_key = (\<lambda>(name, v, tags, c). context_text name tags (card_String c))"

definition call_val :: "'a call \<Rightarrow> 'a" where
  "call_val = (\<lambda>(name, v, tags, c). v)"

definition shard_index :: "int \<Rightarrow> 'a call \<Rightarrow> nat" where
  "shard_index n = (\<lambda>(name, v, tags, c). getShardIndexFromHash n
     (if n > 1
      then if tags = [] \<and> c = CardinalityNotSet then hashString32 name
           else snd (appendContextAndHash [] name tags (card_String c))
      else 0))"

definition shard_place :: "int \<Rightarrow> bytes \<Rightarrow> nat" where
  "shard_place n k = getShardIndexFromHash n (if n > 1 then fnv1a init32 k else 0)"

definition ascii_call :: "int \<Rightarrow> 'a call \<Rightarrow> bool" where
  "ascii_call n = (\<lambda>(name, v, tags, c). 1 \<le> n \<and> n < 2 ^ 32 \<and> ascii name \<and> list_all ascii tags)"

lemma ascii_card_String [simp]: "ascii (card_String c)"
  using card_String_range [of c] by (auto simp: card_String_def)

lemma shard_index_place: "ascii_call n c \<Longrightarrow> shard_index n c = shard_place n (call_key c)"
  by (auto simp: ascii_call_def shard_index_def shard_place_def call_key_def hashString32_def
      addString32_ascii snd_appendContextAndHash context_text_def list_all_iff split: prod.splits)

lemma shard_index_less: "ascii_call n c \<Longrightarrow> shard_index n c < nat n"
  using getShardIndexFromHash_less [of n]
  by (fastforce simp: ascii_call_def shard_index_def zless_nat_eq_int_zless split: prod.splits)

interpretation cs: sharded_store call_key "\<lambda>(name, v, tags, c). newCountMetric name v tags c"
  "\<lambda>(name, v, tags, c) m. count_sample m v" "ascii_call n" "shard_index n" "shard_place n" "nat n"
  for n :: int
  by unfold_locales (erule shard_index_place, erule shard_index_less)

interpretation gs: sharded_store call_key "\<lambda>(name, v, tags, c). newGaugeMetric name v tags c"
  "\<lambda>(name, v, tags, c) m. gauge_sample m v" "ascii_call n" "shard_index n" "shard_place n" "nat n"
  for n :: int
  by unfold_locales (erule shard_index_place, erule shard_index_less)

interpretation ss: sharded_store call_key "\<lambda>(name, v, tags, c). newSetMetric name v tags c"
  "\<lambda>(name, v, tags, c) m. set_sample m v" "ascii_call n" "shard_index n" "shard_place n" "nat n"
  for n :: int
  by unfold_locales (erule shard_index_place, erule shard_index_less)

text \<open>Every path of an operation is the same call on the shards.\<close>

lemmas path_defs =
  countWithLargeContextBuffer_def countWithContextBuffer_def countWithStringContext_def
  gaugeWithLargeContextBuffer_def gaugeWithContextBuffer_def gaugeWithStringContext_def
  setWithLargeContextBuffer_def setWithContextBuffer_def setWithStringContext_def

lemma contextAndHash_eq:
  "contextAndHash a [] name tags cs =
     (context_text name tags cs,
      if shardsCount a > 1 then snd (appendContextAndHash [] name tags cs) else 0)"
  by (simp add: contextAndHash_def prod_eq_iff fst_appendContextAndHash appendContext_eq)

lemma agg_count_eq:
  "agg_count a name v tags c =
     map_option (\<lambda>s. a\<lparr>countShards := s\<rparr>)
       (sampleShard (newCountMetric name v tags c) (\<lambda>m. count_sample m v)
         (context_text name tags (card_String c)) (shard_index (shardsCount a) (name, v, tags, c))
         (countShards a))"
  by (simp add: agg_count_def path_defs contextAndHash_eq shard_index_def context_text_def Let_def)

lemma agg_count_call:
  "agg_count a name v tags c =
     map_option (\<lambda>s. a\<lparr>countShards := s\<rparr>)
       (cs.call (shardsCount a) (name, v, tags, c) (countShards a))"
  unfolding agg_count_eq cs.call_def by (simp add: call_key_def)

lemma agg_gauge_eq:
  "agg_gauge a name v tags c =
     map_option (\<lambda>s. a\<lparr>gaugeShards := s\<rparr>)
       (sampleShard (newGaugeMetric name v tags c) (\<lambda>m. gauge_sample m v)
         (context_text name tags (card_String c)) (shard_index (shardsCount a) (name, v, tags, c))
         (gaugeShards a))"
  by (simp add: agg_gauge_def path_defs contextAndHash_eq shard_index_def context_text_def Let_def)

lemma agg_gauge_call:
  "agg_gauge a name v tags c =
     map_option (\<lambda>s. a\<lparr>gaugeShards := s\<rparr>)
       (gs.call (shardsCount a) (name, v, tags, c) (gaugeShards a))"
  unfolding agg_gauge_eq gs.call_def by (simp add: call_key_def)

lemma agg_set_eq:
  "agg_set a name v tags c =
     map_option (\<lambda>s. a\<lparr>setShards := s\<rparr>)
       (sampleShard (newSetMetric name v tags c) (\<lambda>m. set_sample m v)
         (context_text name tags (card_String c)) (shard_index (shardsCount a) (name, v, tags, c))
         (setShards a))"
  by (simp add: agg_set_def path_defs contextAndHash_eq shard_index_def context_text_def Let_def)

lemma agg_set_call:
  "agg_set a name v tags c =
     map_option (\<lambda>s. a\<lparr>setShards := s\<rparr>)
       (ss.call (shardsCount a) (name, v, tags, c) (setShards a))"
  unfolding agg_set_eq ss.call_def by (simp add: call_key_def)

section \<open>Runs of operations\<close>

datatype agg_op =
    OpCount "i64 call"
  | OpGauge "f64 call"
  | OpSet "bytes call"
  | OpHistogram random buffered_call
  | OpDistribution random buffered_call
  | OpTiming random buffered_call

fun run_op :: "agg_op \<Rightarrow> aggregator \<Rightarrow> aggregator option" where
  "run_op (OpCount (name, v, tags, c)) a = agg_count a name v tags c"
| "run_op (OpGauge (name, v, tags, c)) a = agg_gauge a name v tags c"
| "run_op (OpSet (name, v, tags, c)) a = agg_set a name v tags c"
| "run_op (OpHistogram r (name, v, tags, rate, c)) a = agg_histogram r a name v tags rate c"
| "run_op (OpDistribution r (name, v, tags, rate, c)) a = agg_distribution r a name v tags rate c"
| "run_op (OpTiming r (name, v, tags, rate, c)) a = agg_timing r a name v tags rate c"

fun run_ops :: "agg_op list \<Rightarrow> aggregator \<Rightarrow> aggregator option" where
  "run_ops [] a = Some a"
| "run_ops (op # ops) a = (case run_op op a of None \<Rightarrow> None | Some a \<Rightarrow> run_ops ops a)"

text \<open>The calls of one kind.\<close>

definition counts_of :: "agg_op list \<Rightarrow> i64 call list" where
  "counts_of ops = concat (map (\<lambda>op. case op of OpCount c \<Rightarrow> [c] | _ \<Rightarrow> []) ops)"

definition gauges_of :: "agg_op list \<Rightarrow> f64 call list" where
  "gauges_of ops = concat (map (\<lambda>op. case op of OpGauge c \<Rightarrow> [c] | _ \<Rightarrow> []) ops)"

definition sets_of :: "agg_op list \<Rightarrow> bytes call list" where
  "sets_of ops = concat (map (\<lambda>op. case op of OpSet c \<Rightarrow> [c] | _ \<Rightarrow> []) ops)"

fun good_op :: "int \<Rightarrow> agg_op \<Rightarrow> bool" where
  "good_op n (OpCount c) \<longleftrightarrow> ascii_call n c"
| "good_op n (OpGauge c) \<longleftrightarrow> ascii_call n c"
| "good_op n (OpSet c) \<longleftrightarrow> ascii_call n c"
| "good_op n (OpHistogram r c) \<longleftrightarrow> good_int63n (snd r)"
| "good_op n (OpDistribution r c) \<longleftrightarrow> good_int63n (snd r)"
| "good_op n (OpTiming r c) \<longleftrightarrow> good_int63n (snd r)"

definition agg_state :: "int \<Rightarrow> i64 \<Rightarrow> agg_op list \<Rightarrow> aggregator \<Rightarrow> bool" where
  "agg_state n mx ops a \<longleftrightarrow> shardsCount a = n
     \<and> cs.holds n (counts_of ops) (countShards a)
     \<and> gs.holds n (gauges_of ops) (gaugeShards a)
     \<and> ss.holds n (sets_of ops) (setShards a)
     \<and> wf_contexts histogramAggregatedT mx (int (length ops)) (histograms a)
     \<and> wf_contexts distributionAggregatedT mx (int (length ops)) (distributions a)
     \<and> wf_contexts timingAggregatedT mx (int (length ops)) (timings a)"

lemma wf_contexts_Suc: "wf_contexts ty mx k bc \<Longrightarrow> wf_contexts ty mx (1 + k) bc"
  by (force simp: wf_contexts_def)

lemmas of_snoc = counts_of_def gauges_of_def sets_of_def

lemma run_op_state:
  assumes "agg_state n mx ops a" and "good_op n op" and "int (length ops) < 2 ^ 63 - 1"
  shows "\<exists>a'. run_op op a = Some a' \<and> agg_state n mx (ops @ [op]) a'"
proof (cases op)
  case (OpCount c)
  with assms cs.holds_call [of n c "counts_of ops" "countShards a"] show ?thesis
    by (cases c) (auto simp: agg_state_def agg_count_call of_snoc intro: wf_contexts_Suc)
next
  case (OpGauge c)
  with assms gs.holds_call [of n c "gauges_of ops" "gaugeShards a"] show ?thesis
    by (cases c) (auto simp: agg_state_def agg_gauge_call of_snoc intro: wf_contexts_Suc)
next
  case (OpSet c)
  with assms ss.holds_call [of n c "sets_of ops" "setShards a"] show ?thesis
    by (cases c) (auto simp: agg_state_def agg_set_call of_snoc intro: wf_contexts_Suc)
next
  case (OpHistogram r c)
  obtain nm v tags rate cd where c: "c = (nm, v, tags, rate, cd)" by (metis prod_cases5)
  have "wf_contexts histogramAggregatedT mx (int (length ops)) (histograms a)" and "good_int63n (snd r)"
    using assms(1,2) OpHistogram by (simp_all add: agg_state_def)
  from bc_sample_wf [OF this(1) _ _ this(2)] assms(3) obtain bc where
    "bc_sample (snd r) (fst r) nm v tags rate cd (histograms a) = Some bc"
    "wf_contexts histogramAggregatedT mx (1 + int (length ops)) bc"
    by (metis add.commute of_nat_0_le_iff)
  with assms(1) OpHistogram c show ?thesis
    by (simp add: agg_state_def agg_histogram_def of_snoc wf_contexts_Suc)
next
  case (OpDistribution r c)
  obtain nm v tags rate cd where c: "c = (nm, v, tags, rate, cd)" by (metis prod_cases5)
  have "wf_contexts distributionAggregatedT mx (int (length ops)) (distributions a)" and "good_int63n (snd r)"
    using assms(1,2) OpDistribution by (simp_all add: agg_state_def)
  from bc_sample_wf [OF this(1) _ _ this(2)] assms(3) obtain bc where
    "bc_sample (snd r) (fst r) nm v tags rate cd (distributions a) = Some bc"
    "wf_contexts distributionAggregatedT mx (1 + int (length ops)) bc"
    by (metis add.commute of_nat_0_le_iff)
  with assms(1) OpDistribution c show ?thesis
    by (simp add: agg_state_def agg_distribution_def of_snoc wf_contexts_Suc)
next
  case (OpTiming r c)
  obtain nm v tags rate cd where c: "c = (nm, v, tags, rate, cd)" by (metis prod_cases5)
  have "wf_contexts timingAggregatedT mx (int (length ops)) (timings a)" and "good_int63n (snd r)"
    using assms(1,2) OpTiming by (simp_all add: agg_state_def)
  from bc_sample_wf [OF this(1) _ _ this(2)] assms(3) obtain bc where
    "bc_sample (snd r) (fst r) nm v tags rate cd (timings a) = Some bc"
    "wf_contexts timingAggregatedT mx (1 + int (length ops)) bc"
    by (metis add.commute of_nat_0_le_iff)
  with assms(1) OpTiming c show ?thesis
    by (simp add: agg_state_def agg_timing_def of_snoc wf_contexts_Suc)
qed

lemma run_ops_snoc:
  "run_ops (ops @ [op]) a = (case run_ops ops a of None \<Rightarrow> None | Some a \<Rightarrow> run_op op a)"
  by (induction ops arbitrary: a) (auto split: option.split)

lemma newAggregator_state:
  assumes "newAggregator mx n = Some a"
  shows "agg_state n mx [] a"
  using assms cs.holds_new [of n] gs.holds_new [of n] ss.holds_new [of n]
  by (auto simp: newAggregator_def size_defs agg_state_def of_snoc newHistogramMetric_def
      newDistributionMetric_def newTimingMetric_def split: if_splits)

lemma run_ops_state:
  assumes "newAggregator mx n = Some a" and "list_all (good_op n) ops"
    and "int (length ops) < 2 ^ 63"
  shows "\<exists>a'. run_ops ops a = Some a' \<and> agg_state n mx ops a'"
  using assms(2,3)
proof (induction ops rule: rev_induct)
  case Nil
  then show ?case by (simp add: newAggregator_state [OF assms(1)])
next
  case (snoc op ops)
  then obtain a' where "run_ops ops a = Some a'" "agg_state n mx ops a'"
    by auto
  with run_op_state [of n mx ops a' op] snoc.prems show ?case
    by (simp add: run_ops_snoc)
qed

section \<open>What a flush returns\<close>

definition fair :: "visits \<Rightarrow> bool" where
  "fair v \<longleftrightarrow> fair_visit (v_sets v) \<and> fair_visit (v_gauges v) \<and> fair_visit (v_counts v)
     \<and> (\<forall>k m. mset (v_values v k m) = mset m) \<and> (\<forall>ty m. mset (v_buffered v ty m) = mset m)"

definition plain_visits :: visits where
  "plain_visits = \<lparr>v_values = \<lambda>_ m. m, v_sets = \<lambda>_ m. m, v_gauges = \<lambda>_ m. m,
     v_counts = \<lambda>_ m. m, v_buffered = \<lambda>_ m. m\<rparr>"

lemma fair_plain_visits [simp]: "fair plain_visits"
  by (simp add: fair_def plain_visits_def)

text \<open>What each part of the state contributes to a flush.\<close>

definition set_part :: "visits \<Rightarrow> aggregator \<Rightarrow> metric list" where
  "set_part v a =
     concat (map (\<lambda>(k, s). set_flushUnsafe (v_values v k) s) (concat (setShards a)))"

definition gauge_part :: "aggregator \<Rightarrow> metric list" where
  "gauge_part a = map (\<lambda>(k, g). gauge_flushUnsafe g) (concat (gaugeShards a))"

definition count_part :: "aggregator \<Rightarrow> metric list" where
  "count_part a = map (\<lambda>(k, c). count_flushUnsafe c) (concat (countShards a))"

definition buffered_part :: "bufferedMetricContexts \<Rightarrow> metric list" where
  "buffered_part bc = map (\<lambda>(k, d). buffered_flushUnsafe d) (bc_values bc)"

definition emptied :: "bufferedMetricContexts \<Rightarrow> bufferedMetricContexts" where
  "emptied bc = bc\<lparr>bc_values := [], bc_nbContext := bc_nbContext bc + of_nat (length (bc_values bc))\<rparr>"

lemma bc_flush_eq:
  assumes "\<And>m. mset (visit m) = mset m"
  shows "fst (bc_flush visit bc ms) = emptied bc
    \<and> mset (snd (bc_flush visit bc ms)) = mset ms + mset (buffered_part bc)"
  using assms by (simp add: bc_flush_def emptied_def buffered_part_def Let_def)

lemma concat_singletons: "concat (map (\<lambda>(k, x). [f x]) xs) = map (\<lambda>(k, x). f x) xs"
  by (induction xs) auto

lemma flushMetrics_spec:
  assumes "fair v" and "flushMetrics v a = (a', ms)"
  shows "a' = a\<lparr>setShards := replicate (length (setShards a)) [],
        nbContextSet := nbContextSet a + of_nat (length (concat (setShards a))),
        gaugeShards := replicate (length (gaugeShards a)) [],
        nbContextGauge := nbContextGauge a + of_nat (length (concat (gaugeShards a))),
        countShards := replicate (length (countShards a)) [],
        nbContextCount := nbContextCount a + of_nat (length (concat (countShards a))),
        histograms := emptied (histograms a), distributions := emptied (distributions a),
        timings := emptied (timings a)\<rparr>"
    and "mset ms = mset (set_part v a) + mset (gauge_part a) + mset (count_part a)
      + mset (buffered_part (histograms a)) + mset (buffered_part (distributions a))
      + mset (buffered_part (timings a))"
proof -
  obtain s1 n1 m1 where 1: "flushShards (v_sets v) (\<lambda>(k, s). set_flushUnsafe (v_values v k) s) 0
      (setShards a) (nbContextSet a) [] = (s1, n1, m1)" by (metis prod_cases3)
  obtain s2 n2 m2 where 2: "flushShards (v_gauges v) (\<lambda>(_, g). [gauge_flushUnsafe g]) 0
      (gaugeShards a) (nbContextGauge a) m1 = (s2, n2, m2)" by (metis prod_cases3)
  obtain s3 n3 m3 where 3: "flushShards (v_counts v) (\<lambda>(_, c). [count_flushUnsafe c]) 0
      (countShards a) (nbContextCount a) m2 = (s3, n3, m3)" by (metis prod_cases3)
  let ?h = "bc_flush (v_buffered v histogramAggregatedT) (histograms a) m3"
  let ?d = "bc_flush (v_buffered v distributionAggregatedT) (distributions a) (snd ?h)"
  let ?t = "bc_flush (v_buffered v timingAggregatedT) (timings a) (snd ?d)"
  have f: "fair_visit (v_sets v)" "fair_visit (v_gauges v)" "fair_visit (v_counts v)"
    "\<And>ty m. mset (v_buffered v ty m) = mset m"
    using assms(1) by (simp_all add: fair_def)
  note spec = flushShards_spec [OF f(1) 1] flushShards_spec [OF f(2) 2] flushShards_spec [OF f(3) 3]
  note b = bc_flush_eq [of "v_buffered v histogramAggregatedT" "histograms a" m3, OF f(4)]
    bc_flush_eq [of "v_buffered v distributionAggregatedT" "distributions a" "snd ?h", OF f(4)]
    bc_flush_eq [of "v_buffered v timingAggregatedT" "timings a" "snd ?d", OF f(4)]
  have "flushMetrics v a = (a\<lparr>setShards := s1, nbContextSet := n1, gaugeShards := s2,
      nbContextGauge := n2, countShards := s3, nbContextCount := n3, histograms := fst ?h,
      distributions := fst ?d, timings := fst ?t\<rparr>, snd ?t)"
    by (simp only: flushMetrics_def Let_def 1 2 3 prod.case) (simp only: case_prod_unfold)
  then have run: "a' = a\<lparr>setShards := s1, nbContextSet := n1, gaugeShards := s2,
      nbContextGauge := n2, countShards := s3, nbContextCount := n3, histograms := fst ?h,
      distributions := fst ?d, timings := fst ?t\<rparr>" "ms = snd ?t"
    using assms(2) by simp_all
  show "a' = a\<lparr>setShards := replicate (length (setShards a)) [],
        nbContextSet := nbContextSet a + of_nat (length (concat (setShards a))),
        gaugeShards := replicate (length (gaugeShards a)) [],
        nbContextGauge := nbContextGauge a + of_nat (length (concat (gaugeShards a))),
        countShards := replicate (length (countShards a)) [],
        nbContextCount := nbContextCount a + of_nat (length (concat (countShards a))),
        histograms := emptied (histograms a), distributions := emptied (distributions a),
        timings := emptied (timings a)\<rparr>"
    using spec b by (simp add: run(1))
  show "mset ms = mset (set_part v a) + mset (gauge_part a) + mset (count_part a)
      + mset (buffered_part (histograms a)) + mset (buffered_part (distributions a))
      + mset (buffered_part (timings a))"
    using spec b
    by (simp add: run(2) set_part_def gauge_part_def count_part_def concat_singletons ac_simps)
qed

section \<open>The metrics of a flush, from the calls alone\<close>

definition calls_with :: "bytes \<Rightarrow> 'a call list \<Rightarrow> 'a call list" where
  "calls_with k calls = filter (\<lambda>c. call_key c = k) calls"

definition expected_counts :: "i64 call list \<Rightarrow> metric list" where
  "expected_counts calls =
     map (\<lambda>k. case hd (calls_with k calls) of (name, _, tags, c) \<Rightarrow>
         zero_metric\<lparr>m_type := countT, m_name := name, m_tags := tags, m_rate := f64_one,
           m_ivalue := sum_list (map call_val (calls_with k calls)), m_cardinality := c\<rparr>)
       (remdups (map call_key calls))"

definition expected_gauges :: "f64 call list \<Rightarrow> metric list" where
  "expected_gauges calls =
     map (\<lambda>k. case hd (calls_with k calls) of (name, _, tags, c) \<Rightarrow>
         zero_metric\<lparr>m_type := gaugeT, m_name := name, m_tags := tags, m_rate := f64_one,
           m_fvalue := call_val (last (calls_with k calls)), m_cardinality := c\<rparr>)
       (remdups (map call_key calls))"

definition expected_sets :: "bytes call list \<Rightarrow> metric list" where
  "expected_sets calls =
     concat (map (\<lambda>k. case hd (calls_with k calls) of (name, _, tags, c) \<Rightarrow>
         map (\<lambda>value. zero_metric\<lparr>m_type := setT, m_name := name, m_tags := tags, m_rate := f64_one,
             m_svalue := value, m_cardinality := c\<rparr>)
           (remdups (map call_val (calls_with k calls))))
       (remdups (map call_key calls)))"

text \<open>The summary of a context by the laws of its kind.\<close>

lemma fold_calls:
  "foldl (\<lambda>m c. (case c of (name, v, tags, cd) \<Rightarrow> \<lambda>m. f m v) m) m cs
     = foldl f m (map call_val cs)"
  by (induction cs arbitrary: m) (auto simp: call_val_def)

lemma count_summary:
  assumes "calls_with k calls = (name, v, tags, c) # rest"
  shows "count_flushUnsafe (the (cs.summary calls k)) =
    zero_metric\<lparr>m_type := countT, m_name := name, m_tags := tags, m_rate := f64_one,
      m_ivalue := sum_list (map call_val (calls_with k calls)), m_cardinality := c\<rparr>"
proof -
  have "the (cs.summary calls k) = foldl count_sample (newCountMetric name v tags c) (map call_val rest)"
    using assms unfolding cs.summary_def calls_with_def by (simp add: fold_calls)
  with cm.fold_new [of name v tags c "map call_val rest"] assms show ?thesis
    by (simp add: count_flushUnsafe_def fold_add call_val_def)
qed

lemma gauge_summary:
  assumes "calls_with k calls = (name, v, tags, c) # rest"
  shows "gauge_flushUnsafe (the (gs.summary calls k)) =
    zero_metric\<lparr>m_type := gaugeT, m_name := name, m_tags := tags, m_rate := f64_one,
      m_fvalue := call_val (last (calls_with k calls)), m_cardinality := c\<rparr>"
proof -
  have "the (gs.summary calls k) = foldl gauge_sample (newGaugeMetric name v tags c) (map call_val rest)"
    using assms unfolding gs.summary_def calls_with_def by (simp add: fold_calls)
  with gm.fold_new [of name v tags c "map call_val rest"] assms show ?thesis
    by (simp add: gauge_flushUnsafe_def fold_last last_map call_val_def)
qed

lemma set_summary:
  assumes "calls_with k calls = (name, v, tags, c) # rest"
    and "\<And>m. mset (visit m) = mset m"
  shows "mset (set_flushUnsafe visit (the (ss.summary calls k))) =
    mset (map (\<lambda>value. zero_metric\<lparr>m_type := setT, m_name := name, m_tags := tags,
        m_rate := f64_one, m_svalue := value, m_cardinality := c\<rparr>)
      (remdups (map call_val (calls_with k calls))))"
proof -
  let ?m = "foldl set_sample (newSetMetric name v tags c) (map call_val rest)"
  let ?f = "\<lambda>value. zero_metric\<lparr>m_type := setT, m_name := name, m_tags := tags,
    m_rate := f64_one, m_svalue := value, m_cardinality := c\<rparr>"
  have m: "the (ss.summary calls k) = ?m"
    using assms(1) unfolding ss.summary_def calls_with_def by (simp add: fold_calls)
  have i: "s_name ?m = name" "s_tags ?m = tags" "s_cardinality ?m = c"
    and d: "set (map fst (s_data ?m)) = set (map call_val (calls_with k calls))"
    using sm.fold_new [of name v tags c "map call_val rest"] assms(1)
    by (simp_all add: fold_insert call_val_def)
  then have "s_data ?m \<noteq> []"
    using assms(1) by auto
  with i have "mset (set_flushUnsafe visit ?m) = image_mset ?f (mset (map fst (s_data ?m)))"
    using assms(2) [of "s_data ?m"]
    by (simp add: set_flushUnsafe_def case_prod_unfold multiset.map_comp comp_def)
  also have "mset (map fst (s_data ?m)) = mset (remdups (map call_val (calls_with k calls)))"
    using d wf_set_fold [OF wf_set_new, of name v tags c "map call_val rest"]
    by (subst set_eq_iff_mset_eq_distinct [symmetric]) (simp_all add: wf_map_def)
  finally show ?thesis by (simp add: m)
qed

lemma calls_with_Cons:
  assumes "k \<in> set (map call_key calls)"
  obtains name v tags c rest where "calls_with k calls = (name, v, tags, c) # rest"
proof -
  have "calls_with k calls \<noteq> []"
    using assms by (auto simp: calls_with_def filter_empty_conv)
  then show thesis
    using that by (metis list.exhaust prod_cases4)
qed

lemma count_part_expected:
  assumes "cs.holds n calls (countShards a)"
  shows "mset (count_part a) = mset (expected_counts calls)"
proof -
  have "mset (count_part a) = mset (map (\<lambda>(k, c). count_flushUnsafe c) (cs.entries calls))"
    using cs.holds_entries [OF assms] by (simp add: count_part_def)
  also have "map (\<lambda>(k, c). count_flushUnsafe c) (cs.entries calls) = expected_counts calls"
    unfolding cs.entries_def expected_counts_def map_map comp_def prod.case
  proof (rule map_cong [OF refl])
    fix k
    assume "k \<in> set (remdups (map call_key calls))"
    then obtain name v tags c rest where "calls_with k calls = (name, v, tags, c) # rest"
      by (metis calls_with_Cons set_remdups)
    from count_summary [OF this] this show "count_flushUnsafe (the (cs.summary calls k)) =
      (case hd (calls_with k calls) of (name, _, tags, c) \<Rightarrow>
         zero_metric\<lparr>m_type := countT, m_name := name, m_tags := tags, m_rate := f64_one,
           m_ivalue := sum_list (map call_val (calls_with k calls)),
           m_cardinality := c\<rparr>)"
      by simp
  qed
  finally show ?thesis .
qed

lemma gauge_part_expected:
  assumes "gs.holds n calls (gaugeShards a)"
  shows "mset (gauge_part a) = mset (expected_gauges calls)"
proof -
  have "mset (gauge_part a) = mset (map (\<lambda>(k, g). gauge_flushUnsafe g) (gs.entries calls))"
    using gs.holds_entries [OF assms] by (simp add: gauge_part_def)
  also have "map (\<lambda>(k, g). gauge_flushUnsafe g) (gs.entries calls) = expected_gauges calls"
    unfolding gs.entries_def expected_gauges_def map_map comp_def prod.case
  proof (rule map_cong [OF refl])
    fix k
    assume "k \<in> set (remdups (map call_key calls))"
    then obtain name v tags c rest where "calls_with k calls = (name, v, tags, c) # rest"
      by (metis calls_with_Cons set_remdups)
    from gauge_summary [OF this] this show "gauge_flushUnsafe (the (gs.summary calls k)) =
      (case hd (calls_with k calls) of (name, _, tags, c) \<Rightarrow>
         zero_metric\<lparr>m_type := gaugeT, m_name := name, m_tags := tags, m_rate := f64_one,
           m_fvalue := call_val (last (calls_with k calls)),
           m_cardinality := c\<rparr>)"
      by simp
  qed
  finally show ?thesis .
qed

lemma mset_concat_map_cong:
  "(\<And>x. x \<in> set xs \<Longrightarrow> mset (f x) = mset (g x)) \<Longrightarrow>
   mset (concat (map f xs)) = mset (concat (map g xs))"
  by (induction xs) auto

lemma set_part_expected:
  assumes "ss.holds n calls (setShards a)" and "fair v"
  shows "mset (set_part v a) = mset (expected_sets calls)"
proof -
  have v: "\<And>k m. mset (v_values v k m) = mset m"
    using assms(2) by (simp add: fair_def)
  have "mset (set_part v a)
      = mset (concat (map (\<lambda>(k, s). set_flushUnsafe (v_values v k) s) (ss.entries calls)))"
    unfolding set_part_def
    by (rule mset_concat_map_visit) (rule ss.holds_entries [OF assms(1)])
  also have "\<dots> = mset (expected_sets calls)"
    unfolding ss.entries_def expected_sets_def map_map comp_def
    by (rule mset_concat_map_cong)
      (auto simp: set_summary [OF _ v] elim!: calls_with_Cons [simplified])
  finally show ?thesis .
qed

text \<open>Each part holds metrics of its own type.\<close>

lemma part_types:
  "m \<in> set (gauge_part a) \<Longrightarrow> m_type m = gaugeT"
  "m \<in> set (count_part a) \<Longrightarrow> m_type m = countT"
  by (auto simp: gauge_part_def count_part_def gauge_flushUnsafe_def count_flushUnsafe_def)

lemma expected_types: "m \<in> set (expected_sets calls) \<Longrightarrow> m_type m = setT"
  by (auto simp: expected_sets_def split: prod.splits)

lemma buffered_types:
  "wf_contexts ty mx n bc \<Longrightarrow> m \<in> set (buffered_part bc) \<Longrightarrow> m_type m = ty"
  by (auto simp: wf_contexts_def buffered_part_def buffered_flushUnsafe_def Let_def)

section \<open>Properties\<close>

lemma typed_filter:
  "(\<And>m. m \<in> set ms \<Longrightarrow> m_type m = t) \<Longrightarrow>
   {#m \<in># mset ms. m_type m = u#} = (if u = t then mset ms else {#})"
  by (induction ms) auto

lemma flush_parts_by_type:
  assumes "agg_state n mx ops a" and "fair v" and "flushMetrics v a = (a', ms)"
  shows "mset (filter (\<lambda>m. m_type m = countT) ms) = mset (count_part a)"
    and "mset (filter (\<lambda>m. m_type m = gaugeT) ms) = mset (gauge_part a)"
    and "mset (filter (\<lambda>m. m_type m = setT) ms) = mset (set_part v a)"
    and "mset (filter (\<lambda>m. m_type m = histogramAggregatedT) ms)
      = mset (buffered_part (histograms a))"
    and "mset (filter (\<lambda>m. m_type m = distributionAggregatedT) ms)
      = mset (buffered_part (distributions a))"
    and "mset (filter (\<lambda>m. m_type m = timingAggregatedT) ms)
      = mset (buffered_part (timings a))"
proof -
  have "mset (set_part v a) = mset (expected_sets (sets_of ops))"
    using assms(1,2) by (intro set_part_expected) (auto simp: agg_state_def)
  then have s: "m_type m = setT" if "m \<in> set (set_part v a)" for m
    using expected_types that by (metis set_mset_mset)
  have b: "wf_contexts histogramAggregatedT mx (int (length ops)) (histograms a)"
    "wf_contexts distributionAggregatedT mx (int (length ops)) (distributions a)"
    "wf_contexts timingAggregatedT mx (int (length ops)) (timings a)"
    using assms(1) by (simp_all add: agg_state_def)
  note parts = typed_filter [OF s] typed_filter [OF part_types(1) [of _ a]]
    typed_filter [OF part_types(2) [of _ a]] typed_filter [OF buffered_types [OF b(1)]]
    typed_filter [OF buffered_types [OF b(2)]] typed_filter [OF buffered_types [OF b(3)]]
  show "mset (filter (\<lambda>m. m_type m = countT) ms) = mset (count_part a)"
    and "mset (filter (\<lambda>m. m_type m = gaugeT) ms) = mset (gauge_part a)"
    and "mset (filter (\<lambda>m. m_type m = setT) ms) = mset (set_part v a)"
    and "mset (filter (\<lambda>m. m_type m = histogramAggregatedT) ms)
      = mset (buffered_part (histograms a))"
    and "mset (filter (\<lambda>m. m_type m = distributionAggregatedT) ms)
      = mset (buffered_part (distributions a))"
    and "mset (filter (\<lambda>m. m_type m = timingAggregatedT) ms)
      = mset (buffered_part (timings a))"
    by (simp_all add: flushMetrics_spec(2) [OF assms(2,3)] parts)
qed

text \<open>A small run: two shards, all three kinds.\<close>

definition small_ops :: "agg_op list" where
  "small_ops =
     [OpCount (''m'', 2, [''a''], CardinalityNotSet), OpGauge (''g'', 7, [], CardinalityNotSet),
      OpSet (''s'', ''x'', [], CardinalityLow), OpCount (''m'', 3, [''a''], CardinalityNotSet),
      OpSet (''s'', ''y'', [], CardinalityLow), OpGauge (''g'', 9, [], CardinalityNotSet)]"

definition small_agg :: aggregator where
  "small_agg = the (newAggregator 0 2)"

lemma small_run:
  "newAggregator 0 2 = Some small_agg" "list_all (good_op 2) small_ops"
  "int (length small_ops) < 2 ^ 63"
  by (simp_all add: small_agg_def newAggregator_def size_defs small_ops_def ascii_call_def)

definition small_result :: "aggregator \<times> metric list" where
  "small_result = flushMetrics plain_visits (the (run_ops small_ops small_agg))"

lemma small_result:
  "run_ops small_ops small_agg = Some (the (run_ops small_ops small_agg))"
  "flushMetrics plain_visits (the (run_ops small_ops small_agg)) = (fst small_result, snd small_result)"
  using run_ops_state [OF small_run] by (auto simp: small_result_def)

lemma small_calls:
  "counts_of small_ops = [(''m'', 2, [''a''], CardinalityNotSet), (''m'', 3, [''a''], CardinalityNotSet)]"
  "gauges_of small_ops = [(''g'', 7, [], CardinalityNotSet), (''g'', 9, [], CardinalityNotSet)]"
  "sets_of small_ops = [(''s'', ''x'', [], CardinalityLow), (''s'', ''y'', [], CardinalityLow)]"
  by (simp_all add: of_snoc small_ops_def)

lemmas expected_eval =
  small_calls calls_with_def call_key_def call_val_def context_text_def context_prefix_def
  separator_defs card_String_def cardinality_defs

text \<open>
  C10. A flush returns exactly one count per context that was counted, with the name, tags and
  cardinality of the first call and the 64-bit sum of all its values, whatever the number of
  shards, the order of the calls of other kinds in between, and the order Go visits its maps.
\<close>

theorem flush_counts:
  assumes "newAggregator mx n = Some a0" and "list_all (good_op n) ops"
    and "int (length ops) < 2 ^ 63" and "run_ops ops a0 = Some a" and "fair v"
    and "flushMetrics v a = (a', ms)"
  shows "mset (filter (\<lambda>m. m_type m = countT) ms) = mset (expected_counts (counts_of ops))"
proof -
  have "agg_state n mx ops a"
    using run_ops_state [OF assms(1-3)] assms(4) by auto
  with flush_parts_by_type(1) [OF this assms(5,6)] count_part_expected show ?thesis
    by (auto simp: agg_state_def)
qed

theorem flush_counts_witness:
  "mset (filter (\<lambda>m. m_type m = countT) (snd small_result)) =
     {#zero_metric\<lparr>m_type := countT, m_name := ''m'', m_tags := [''a''], m_rate := f64_one,
       m_ivalue := 5, m_cardinality := CardinalityNotSet\<rparr>#}"
  using flush_counts [OF small_run small_result(1) fair_plain_visits small_result(2)]
  by (simp add: expected_counts_def expected_eval)

text \<open>
  C28. A flush returns exactly one gauge per context, with the value of the last call, whatever the
  number of shards and the order in which they are visited.
\<close>

theorem flush_gauges:
  assumes "newAggregator mx n = Some a0" and "list_all (good_op n) ops"
    and "int (length ops) < 2 ^ 63" and "run_ops ops a0 = Some a" and "fair v"
    and "flushMetrics v a = (a', ms)"
  shows "mset (filter (\<lambda>m. m_type m = gaugeT) ms) = mset (expected_gauges (gauges_of ops))"
proof -
  have "agg_state n mx ops a"
    using run_ops_state [OF assms(1-3)] assms(4) by auto
  with flush_parts_by_type(2) [OF this assms(5,6)] gauge_part_expected show ?thesis
    by (auto simp: agg_state_def)
qed

theorem flush_gauges_witness:
  "mset (filter (\<lambda>m. m_type m = gaugeT) (snd small_result)) =
     {#zero_metric\<lparr>m_type := gaugeT, m_name := ''g'', m_tags := [], m_rate := f64_one,
       m_fvalue := 9, m_cardinality := CardinalityNotSet\<rparr>#}"
  using flush_gauges [OF small_run small_result(1) fair_plain_visits small_result(2)]
  by (simp add: expected_gauges_def expected_eval)

text \<open>
  C22. A flush returns one set metric per context and distinct value, so the Agent can count the
  values of several applications.
\<close>

theorem flush_sets:
  assumes "newAggregator mx n = Some a0" and "list_all (good_op n) ops"
    and "int (length ops) < 2 ^ 63" and "run_ops ops a0 = Some a" and "fair v"
    and "flushMetrics v a = (a', ms)"
  shows "mset (filter (\<lambda>m. m_type m = setT) ms) = mset (expected_sets (sets_of ops))"
proof -
  have "agg_state n mx ops a"
    using run_ops_state [OF assms(1-3)] assms(4) by auto
  with flush_parts_by_type(3) [OF this assms(5,6)] set_part_expected [OF _ assms(5)] show ?thesis
    by (auto simp: agg_state_def)
qed

theorem flush_sets_witness:
  "size (mset (filter (\<lambda>m. m_type m = setT) (snd small_result))) = 2"
  using flush_sets [OF small_run small_result(1) fair_plain_visits small_result(2)]
  by (simp add: expected_sets_def expected_eval)

text \<open>
  No operation of the aggregator panics: from a new aggregator with any admissible number of
  shards every run succeeds, with every index in range and every reservoir in bounds.
\<close>

theorem aggregator_never_panics:
  assumes "newAggregator mx n = Some a0" and "list_all (good_op n) ops"
    and "int (length ops) < 2 ^ 63"
  shows "run_ops ops a0 \<noteq> None"
  using run_ops_state [OF assms] by auto

theorem aggregator_never_panics_witness: "run_ops small_ops small_agg \<noteq> None"
  by (rule aggregator_never_panics [OF small_run])

text \<open>
  A flush leaves nothing behind: all shards and contexts are empty, so that an idle interval
  sends no metric, the shards keep their number, and the telemetry counters have grown by the
  number of contexts flushed.
\<close>

theorem flush_resets:
  assumes "fair v" and "flushMetrics v a = (a', ms)"
  shows "concat (countShards a') = [] \<and> concat (gaugeShards a') = [] \<and> concat (setShards a') = []
    \<and> bc_values (histograms a') = [] \<and> bc_values (distributions a') = []
    \<and> bc_values (timings a') = []
    \<and> length (countShards a') = length (countShards a)
    \<and> nbContextCount a' = nbContextCount a + of_nat (length (concat (countShards a)))
    \<and> nbContextGauge a' = nbContextGauge a + of_nat (length (concat (gaugeShards a)))
    \<and> nbContextSet a' = nbContextSet a + of_nat (length (concat (setShards a)))
    \<and> getNbContext (histograms a')
        = getNbContext (histograms a) + of_nat (length (bc_values (histograms a)))
    \<and> snd (flushMetrics v a') = []"
proof -
  have a': "a' = a\<lparr>setShards := replicate (length (setShards a)) [],
        nbContextSet := nbContextSet a + of_nat (length (concat (setShards a))),
        gaugeShards := replicate (length (gaugeShards a)) [],
        nbContextGauge := nbContextGauge a + of_nat (length (concat (gaugeShards a))),
        countShards := replicate (length (countShards a)) [],
        nbContextCount := nbContextCount a + of_nat (length (concat (countShards a))),
        histograms := emptied (histograms a), distributions := emptied (distributions a),
        timings := emptied (timings a)\<rparr>"
    by (rule flushMetrics_spec(1) [OF assms])
  have "mset (snd (flushMetrics v a')) = {#}"
    using flushMetrics_spec(2) [OF assms(1) surjective_pairing, of a']
    by (simp add: a' set_part_def gauge_part_def count_part_def buffered_part_def emptied_def)
  then show ?thesis
    by (simp add: a' emptied_def getNbContext_def)
qed

theorem flush_resets_witness:
  "snd (flushMetrics plain_visits (fst small_result)) = []"
  using flush_resets [OF fair_plain_visits small_result(2)] by simp

end
