(* ===== verification/Worker_Facts.thy ===== *)
theory Worker_Facts
  imports Worker
begin

text \<open>
  What a worker does to the stream of bytes it has produced: the payloads handed to the
  sender followed by its current buffer.  The flush-and-retry protocol of \<open>processMetric\<close>
  is proved once, in the locale \<open>flush_retry\<close>, and instantiated for the worker's buffer;
  aggregated metrics, which may spread over several payloads, are treated by induction on
  the loop.
\<close>

section \<open>The flush-and-retry protocol\<close>

text \<open>
  A store of bytes that takes an element if there is room and refuses it unchanged
  otherwise; a flush keeps what was stored and leaves room for any element that can fit at
  all.
\<close>

locale flush_retry =
  fixes content :: "'s \<Rightarrow> bytes"
    and inv :: "'s \<Rightarrow> bool"
    and room :: "bytes \<Rightarrow> 's \<Rightarrow> bool"
    and can_fit :: "bytes \<Rightarrow> bool"
    and put :: "bytes \<Rightarrow> 's \<Rightarrow> 's \<times> write_error option"
    and flush :: "'s \<Rightarrow> 's"
  assumes put_room: "inv s \<Longrightarrow> room el s \<Longrightarrow>
      snd (put el s) = None \<and> content (fst (put el s)) = content s @ el @ [nl]"
    and put_full: "inv s \<Longrightarrow> \<not> room el s \<Longrightarrow> put el s = (s, Some errBufferFull)"
    and put_inv: "inv s \<Longrightarrow> inv (fst (put el s))"
    and flush_content: "inv s \<Longrightarrow> content (flush s) = content s"
    and flush_inv: "inv s \<Longrightarrow> inv (flush s)"
    and flush_room: "inv s \<Longrightarrow> \<not> room el s \<Longrightarrow> room el (flush s) \<longleftrightarrow> can_fit el"
    and room_can_fit: "inv s \<Longrightarrow> room el s \<Longrightarrow> can_fit el"
begin

definition put_retry :: "bytes \<Rightarrow> 's \<Rightarrow> 's \<times> write_error option" where
  "put_retry el s =
     (case put el s of (s, err) \<Rightarrow> if err = Some errBufferFull then put el (flush s) else (s, err))"

lemma put_retry_inv: "inv s \<Longrightarrow> inv (fst (put_retry el s))"
  using put_inv [of s el] put_full [of s el] flush_inv [of s] put_inv [of "flush s" el]
    put_room [of s el]
  by (cases "room el s") (auto simp: put_retry_def split: prod.splits)

lemma put_retry_fits:
  assumes "inv s" and "can_fit el"
  shows "snd (put_retry el s) = None \<and> content (fst (put_retry el s)) = content s @ el @ [nl]"
proof (cases "room el s")
  case True
  then show ?thesis
    using put_room [OF assms(1) True] by (auto simp: put_retry_def split: prod.splits)
next
  case False
  with assms have "room el (flush s)" by (simp add: flush_room)
  then show ?thesis
    using put_full [OF assms(1) False] put_room [OF flush_inv [OF assms(1)]] flush_content [OF assms(1)]
    by (simp add: put_retry_def)
qed

lemma put_retry_too_long:
  assumes "inv s" and "\<not> can_fit el"
  shows "put_retry el s = (flush s, Some errBufferFull)"
proof -
  have "\<not> room el s"
    using assms room_can_fit by blast
  moreover from this have "\<not> room el (flush s)"
    using assms flush_room by blast
  ultimately show ?thesis
    using put_full [OF assms(1)] put_full [OF flush_inv [OF assms(1)]]
    by (simp add: put_retry_def)
qed

end

section \<open>The worker as such a store\<close>

definition stream :: "shared \<Rightarrow> worker \<Rightarrow> bytes" where
  "stream sh w = concat (map buf_bytes (sh_log sh)) @ buf_bytes (w_buffer w)"

definition wf_state :: "int \<Rightarrow> int \<Rightarrow> shared \<Rightarrow> worker \<Rightarrow> bool" where
  "wf_state ms me sh w \<longleftrightarrow> sender_pool_ok ms me (sh_pool sh) (sh_sender sh)
     \<and> ledger (sh_log sh) (sh_sender sh)
     \<and> list_all (\<lambda>b. wf_buffer b \<and> has_limits ms me b) (sh_log sh)
     \<and> wf_buffer (w_buffer w) \<and> has_limits ms me (w_buffer w)"

definition fits_payload :: "int \<Rightarrow> int \<Rightarrow> bytes \<Rightarrow> bool" where
  "fits_payload ms me el \<longleftrightarrow> 0 < me \<and> int (length el) + 1 \<le> ms"

definition has_room :: "bytes \<Rightarrow> shared \<times> worker \<Rightarrow> bool" where
  "has_room el = (\<lambda>(sh, w). elementCount (w_buffer w) < maxElements (w_buffer w)
     \<and> buf_len (w_buffer w) + int (length el) + 1 \<le> maxSize (w_buffer w))"

definition push_state :: "bytes \<Rightarrow> shared \<times> worker \<Rightarrow> (shared \<times> worker) \<times> write_error option" where
  "push_state el = (\<lambda>(sh, w). case push (w_buffer w) el of (b, err) \<Rightarrow> ((sh, w\<lparr>w_buffer := b\<rparr>), err))"

lemma worker_same_buffer [simp]: "(w :: worker)\<lparr>w_buffer := w_buffer w\<rparr> = w"
  by (cases w) simp

lemma flushUnsafe_stream [simp]: "flushUnsafe sh w = (sh', w') \<Longrightarrow> wf_state ms me sh w \<Longrightarrow> stream sh' w' = stream sh w"
proof -
  assume f: "flushUnsafe sh w = (sh', w')" and wf: "wf_state ms me sh w"
  let ?p = "fst (sender_send (sh_pool sh) (sh_sender sh) (w_buffer w))"
  have "wf_pool ms me ?p"
    using wf sender_pool_send by (simp add: wf_state_def sender_pool_ok_def)
  then have "buffer (fst (borrowBuffer ?p)) = []"
    using bp.borrow_fresh [of ms me ?p] by (simp add: fresh_buffer_def newStatsdBuffer_def)
  with f show ?thesis
    by (auto simp: flushUnsafe_def stream_def buf_bytes_def case_prod_unfold Let_def split: if_splits)
qed

lemma flushUnsafe_wf:
  assumes "flushUnsafe sh w = (sh', w')" and "wf_state ms me sh w"
  shows "wf_state ms me sh' w'" and "fresh_buffer ms me (w_buffer w')"
proof -
  let ?r = "sender_send (sh_pool sh) (sh_sender sh) (w_buffer w)"
  have ok: "sender_pool_ok ms me (fst ?r) (snd ?r)"
    using assms(2) by (auto simp: wf_state_def intro: sender_pool_send)
  then have p: "wf_pool ms me (fst ?r)"
    by (simp add: sender_pool_ok_def)
  note fresh = bp.borrow_fresh [OF p] and pok = bp.borrow_ok [OF p]
  have l: "ledger (sh_log sh @ [w_buffer w]) (snd ?r)"
    using assms(2) by (auto simp: wf_state_def intro: ledger_send)
  have "wf_state ms me sh' w' \<and> fresh_buffer ms me (w_buffer w')"
  proof (cases "buffer (w_buffer w) = []")
    case True
    with assms show ?thesis
      by (cases "w_buffer w")
        (auto simp: flushUnsafe_def buf_bytes_def wf_state_def fresh_buffer_def has_limits_def
          wf_buffer_def newStatsdBuffer_def)
  next
    case False
    with assms fresh pok l ok show ?thesis
      by (auto simp: flushUnsafe_def buf_bytes_def wf_state_def sender_pool_ok_def
          case_prod_unfold Let_def)
  qed
  then show "wf_state ms me sh' w'" and "fresh_buffer ms me (w_buffer w')"
    by simp_all
qed

lemma push_wf_state:
  "wf_state ms me sh w \<Longrightarrow> wf_state ms me sh (w\<lparr>w_buffer := fst (push (w_buffer w) el)\<rparr>)"
  using wf_buffer_push [of "w_buffer w" el] same_limits_push [of "w_buffer w" el]
  by (simp add: wf_state_def has_limits_def same_limits_def)

text \<open>The worker's push and flush obey the protocol, for every payload limit.\<close>

interpretation wr: flush_retry "\<lambda>(sh, w). stream sh w" "\<lambda>(sh, w). wf_state ms me sh w" has_room
  "fits_payload ms me" push_state "\<lambda>(sh, w). flushUnsafe sh w" for ms me
proof (unfold_locales, goal_cases)
  case (1 s el)
  then show ?case
    by (auto simp: has_room_def push_state_def push_def stream_def buf_bytes_def)
next
  case (2 s el)
  then show ?case
    by (cases s) (auto simp: has_room_def push_state_def push_def split: if_splits)
next
  case (3 s el)
  then show ?case
    using push_wf_state by (auto simp: push_state_def split: prod.splits) (metis fst_conv)
next
  case (4 s)
  then show ?case by (auto simp: case_prod_unfold)
next
  case (5 s)
  then show ?case
    by (auto simp: case_prod_unfold intro: flushUnsafe_wf(1) [of "fst s" "snd s"])
next
  case (6 s el)
  obtain sh w where s: "s = (sh, w)" by (cases s)
  obtain sh' w' where f: "flushUnsafe sh w = (sh', w')" by (cases "flushUnsafe sh w")
  have "fresh_buffer ms me (w_buffer w')"
    using flushUnsafe_wf(2) [OF f] 6 s by simp
  then show ?case
    using f by (simp add: s has_room_def fits_payload_def fresh_buffer_def newStatsdBuffer_def
        buf_len_def)
next
  case (7 s el)
  then show ?case
    by (auto simp: has_room_def fits_payload_def wf_state_def wf_buffer_def has_limits_def
        buf_len_def)
qed

section \<open>Simple metrics\<close>

text \<open>The element a simple metric is serialized to; \<open>None\<close> for aggregated ones and nil pointers.\<close>

definition element_text :: "globals \<Rightarrow> metric \<Rightarrow> bytes option" where
  "element_text g m =
     (let txt = (\<lambda>sy v. metric_text g sy (m_namespace m) (m_globalTags m) (m_name m) v (m_tags m)
                   (m_rate m) (m_originDetection m));
          crd = card_text (m_cardinality m)
      in case m_type m of
        gaugeT \<Rightarrow> Some (txt gaugeSymbol (fmt_float (- 1) (m_fvalue m))
                   @ timestamp_text (m_timestamp m) @ crd)
      | countT \<Rightarrow> Some (txt countSymbol (fmt_int (sint (m_ivalue m)))
                   @ timestamp_text (m_timestamp m) @ crd)
      | histogramT \<Rightarrow> Some (txt histogramSymbol (fmt_float (- 1) (m_fvalue m)) @ crd)
      | distributionT \<Rightarrow> Some (txt distributionSymbol (fmt_float (- 1) (m_fvalue m)) @ crd)
      | setT \<Rightarrow> Some (txt setSymbol (m_svalue m) @ crd)
      | timingT \<Rightarrow> Some (txt timingSymbol (fmt_float 6 (m_fvalue m)) @ crd)
      | eventT \<Rightarrow> map_option (\<lambda>e. event_text g e (m_globalTags m) (m_originDetection m) @ crd)
                   (m_evalue m)
      | serviceCheckT \<Rightarrow>
          map_option (\<lambda>sc. service_check_text g sc (m_globalTags m) (m_originDetection m) @ crd)
            (m_scvalue m)
      | _ \<Rightarrow> None)"

lemma element_text_not_aggregated: "element_text g m = Some el \<Longrightarrow> \<not> is_aggregated (m_type m)"
  by (auto simp: element_text_def is_aggregated_def Let_def)

lemma writeMetricUnsafe_simple:
  "element_text g m = Some el \<Longrightarrow>
   writeMetricUnsafe g sh w m = with_buffer sh w (push (w_buffer w) el)"
  by (cases "m_type m")
    (auto simp: element_text_def writeMetricUnsafe_def write_push Let_def)

lemma push_state_eq:
  "with_buffer sh w (push (w_buffer w) el) =
     (case push_state el (sh, w) of ((sh, w), err) \<Rightarrow> (sh, w, err))"
  by (simp add: with_buffer_def push_state_def case_prod_unfold)

lemma processMetric_retry:
  assumes "element_text g m = Some el" and "shouldSample (m_rate m) draw"
  shows "processMetric g draw sh w m =
     (case wr.put_retry el (sh, w) of ((sh, w), err) \<Rightarrow> (sh, w, err))"
  using assms element_text_not_aggregated [OF assms(1)]
  by (auto simp: processMetric_def writeMetricUnsafe_simple push_state_eq wr.put_retry_def
      split: prod.splits)

lemma processMetric_dropped:
  "\<not> is_aggregated (m_type m) \<Longrightarrow> \<not> shouldSample (m_rate m) draw \<Longrightarrow>
   processMetric g draw sh w m = (sh, w, None)"
  by (simp add: processMetric_def)

lemma processMetric_simple:
  assumes wf: "wf_state ms me sh w"
    and el: "element_text g m = Some el"
    and keep: "shouldSample (m_rate m) draw"
    and run: "processMetric g draw sh w m = (sh', w', err)"
  shows "wf_state ms me sh' w'"
    and "err = (if fits_payload ms me el then None else Some errBufferFull)"
    and "stream sh' w' = stream sh w @ (if fits_payload ms me el then el @ [nl] else [])"
proof -
  have inv: "case (sh, w) of (sh, w) \<Rightarrow> wf_state ms me sh w"
    using wf by simp
  obtain e where r: "wr.put_retry el (sh, w) = ((sh', w'), e)" and e: "e = err"
    using run processMetric_retry [OF el keep, of sh w] by (auto split: prod.splits)
  show "wf_state ms me sh' w'"
    using wr.put_retry_inv [OF inv, of el] r by simp
  show "err = (if fits_payload ms me el then None else Some errBufferFull)"
    using wr.put_retry_fits [OF inv, of el] wr.put_retry_too_long [OF inv, of el] r e by auto
  show "stream sh' w' = stream sh w @ (if fits_payload ms me el then el @ [nl] else [])"
    using wr.put_retry_fits [OF inv, of el] wr.put_retry_too_long [OF inv, of el] r
      wr.flush_content [OF inv] by (auto split: prod.splits)
qed

section \<open>Aggregated metrics\<close>

text \<open>The element that carries the values \<open>vs\<close> of an aggregated metric.\<close>

definition chunk_text :: "globals \<Rightarrow> metric \<Rightarrow> bytes \<Rightarrow> int \<Rightarrow> f64 list \<Rightarrow> bytes" where
  "chunk_text g m sy prec vs =
     aggregated_text g sy (m_namespace m) (m_globalTags m) (m_name m) vs (m_stags m) prec (m_rate m)
       (m_originDetection m) (m_cardinality m)"

definition full_estimate :: "globals \<Rightarrow> metric \<Rightarrow> bytes \<Rightarrow> int" where
  "full_estimate g m sy =
     augmentTagSize g (aggregatedExtraSize m sy) (m_originDetection m) (m_cardinality m)"

definition trailer :: "globals \<Rightarrow> metric \<Rightarrow> bytes \<Rightarrow> bytes" where
  "trailer g m sy =
     trailer_text g sy (m_globalTags m) (m_stags m) (m_rate m) (m_originDetection m)
       (m_cardinality m)"

text \<open>The code's estimate covers the trailer when the sample rate prints in 18 characters.\<close>

lemma aggregatedExtraSize_eq:
  "aggregatedExtraSize m sy =
     int (length (m_stags m)) + 4 + int (length sy)
       + (if f64_lt (m_rate m) f64_one then 20 else 0)
       + int (sum_list (map (\<lambda>t. length t + 1) (m_globalTags m)))"
proof -
  have "foldl (\<lambda>x t. x + (int (length t) + 1)) n ts = n + int (sum_list (map (\<lambda>t. length t + 1) ts))"
    for n and ts :: "bytes list"
    by (induction ts arbitrary: n) auto
  then show ?thesis by (simp add: aggregatedExtraSize_def Let_def)
qed

lemma estimate_covers:
  assumes "f64_lt (m_rate m) f64_one \<Longrightarrow> length (fmt_float (- 1) (m_rate m)) \<le> 18"
  shows "int (length (trailer g m sy)) + 1 \<le> full_estimate g m sy"
  using assms length_tags_text [of "m_globalTags m" "m_stags m"]
  by (auto simp: trailer_def trailer_text_def full_estimate_def augmentTagSize_eq
      aggregatedExtraSize_eq rate_text_def)

text \<open>One turn: either nothing was written or a non-empty chunk of the values was.\<close>

definition turn ::
  "globals \<Rightarrow> worker \<Rightarrow> metric \<Rightarrow> bytes \<Rightarrow> int \<Rightarrow> f64 list \<Rightarrow> statsdBuffer \<times> nat \<times> write_error option" where
  "turn g w m sy prec vals =
     writeAggregated g (w_buffer w) sy (m_namespace m) (m_globalTags m) (m_name m) vals (m_stags m)
       (aggregatedExtraSize m sy) prec (m_rate m) (m_originDetection m) (m_cardinality m)"

lemma turn_cases:
  assumes "turn g w m sy prec vals = (b, pos, e)" and "wf_state ms me sh w"
    and "int (length (trailer g m sy)) + 1 \<le> full_estimate g m sy"
  obtains (full) "b = w_buffer w" "pos = 0" "e = Some errBufferFull"
      "elementCount (w_buffer w) \<ge> me \<or> vals = [] \<or> ms
         < int (length (buffer (w_buffer w) @ header_text (m_namespace m) (m_name m)
             @ values_text prec (take 1 vals))) + full_estimate g m sy"
  | (wrote) "0 < pos" "pos \<le> length vals"
      "e = (if pos = length vals then None else Some errPartialWrite)"
      "wf_state ms me sh (w\<lparr>w_buffer := b\<rparr>)"
      "stream sh (w\<lparr>w_buffer := b\<rparr>)
         = stream sh w @ chunk_text g m sy prec (take pos vals) @ [nl]"
  using assms(1)[unfolded turn_def]
proof (cases rule: writeAggregated_cases)
  case full
  then show ?thesis
    using assms(2) by (intro that(1)) (auto simp: full_estimate_def wf_state_def has_limits_def)
next
  case wrote
  have "wf_buffer b"
    using wf_buffer_aggregated [OF _ assms(1)[unfolded turn_def]] assms(2,3)
    by (simp add: wf_state_def trailer_def full_estimate_def)
  with wrote show ?thesis
    using assms(2)
    by (intro that(2)) (auto simp: wf_state_def has_limits_def stream_def buf_bytes_def chunk_text_def)
qed

lemma loop_unfold:
  "writeAggregatedLoop g sh w m sy (aggregatedExtraSize m sy) prec (m_rate m) vals =
     (case turn g w m sy prec vals of (b, pos, err) \<Rightarrow>
        if err = Some errPartialWrite
        then case flushUnsafe sh (w\<lparr>w_buffer := b\<rparr>) of
          (sh, w) \<Rightarrow> writeAggregatedLoop g sh w m sy (aggregatedExtraSize m sy) prec (m_rate m)
                      (drop pos vals)
        else (sh, w\<lparr>w_buffer := b\<rparr>, err))"
  by (subst writeAggregatedLoop.simps) (simp add: turn_def)

text \<open>
  One run of the loop writes some non-empty chunks, in order; without an error they are
  all the values, otherwise a proper prefix.
\<close>

definition chunks_written ::
  "globals \<Rightarrow> metric \<Rightarrow> bytes \<Rightarrow> int \<Rightarrow> f64 list \<Rightarrow> bytes \<Rightarrow> bytes \<Rightarrow> write_error option \<Rightarrow> bool" where
  "chunks_written g m sy prec vals before after err \<longleftrightarrow>
     (\<exists>chunks rest. after = before @ frame (map (chunk_text g m sy prec) chunks)
        \<and> [] \<notin> set chunks \<and> vals = concat chunks @ rest
        \<and> (err = None \<and> vals \<noteq> [] \<and> rest = []
           \<or> err = Some errBufferFull \<and> (rest \<noteq> [] \<or> vals = [])))"

lemma chunks_written_subset:
  assumes "chunks_written g m sy prec vals before after e"
  shows "\<exists>chunks. after = before @ frame (map (chunk_text g m sy prec) chunks)
    \<and> (\<forall>c \<in> set chunks. c \<noteq> [] \<and> set c \<subseteq> set vals)"
proof -
  obtain chunks rest where "after = before @ frame (map (chunk_text g m sy prec) chunks)"
    "[] \<notin> set chunks" "vals = concat chunks @ rest"
    using assms unfolding chunks_written_def by blast
  then show ?thesis by (intro exI [of _ chunks]) auto
qed

lemma chunks_written_none:
  "chunks_written g m sy prec vals before before (Some errBufferFull)"
  unfolding chunks_written_def
  by (intro exI [of _ "[]"] exI [of _ vals]) (auto simp: frame_def)

lemma chunks_written_all:
  "vals \<noteq> [] \<Longrightarrow>
   chunks_written g m sy prec vals before (before @ chunk_text g m sy prec vals @ [nl]) None"
  unfolding chunks_written_def
  by (intro exI [of _ "[vals]"] exI [of _ "[]"]) (auto simp: frame_def)

lemma chunks_written_one:
  assumes "0 < pos" and "pos \<le> length vals"
    and "chunks_written g m sy prec (drop pos vals)
           (before @ chunk_text g m sy prec (take pos vals) @ [nl]) after err"
    and "drop pos vals \<noteq> []"
  shows "chunks_written g m sy prec vals before after err"
proof -
  obtain chunks rest where c: "after = (before @ chunk_text g m sy prec (take pos vals) @ [nl])
      @ frame (map (chunk_text g m sy prec) chunks)"
    "[] \<notin> set chunks" "drop pos vals = concat chunks @ rest"
    "err = None \<and> rest = [] \<or> err = Some errBufferFull \<and> rest \<noteq> []"
    using assms(3,4) unfolding chunks_written_def by blast
  have "vals = concat (take pos vals # chunks) @ rest"
    using c(3) by (metis append.assoc append_take_drop_id concat.simps(2))
  moreover have "[] \<notin> set (take pos vals # chunks)"
    using c(2) assms(1,2) by (cases vals) auto
  moreover have "vals \<noteq> []"
    using assms(1,2) by auto
  ultimately show ?thesis
    unfolding chunks_written_def using c(1,4)
    by (intro exI [of _ "take pos vals # chunks"] exI [of _ rest])
      (auto simp: frame_def)
qed

lemma writeAggregatedLoop_stream:
  assumes "writeAggregatedLoop g sh w m sy (aggregatedExtraSize m sy) prec (m_rate m) vals
             = (sh', w', err)"
    and "wf_state ms me sh w"
    and "int (length (trailer g m sy)) + 1 \<le> full_estimate g m sy"
  shows "wf_state ms me sh' w'
    \<and> chunks_written g m sy prec vals (stream sh w) (stream sh' w') err"
  using assms(1,2)
proof (induction "length vals" arbitrary: sh w vals rule: less_induct)
  case less
  obtain b pos e where t: "turn g w m sy prec vals = (b, pos, e)"
    by (cases "turn g w m sy prec vals")
  from t less.prems(2) assms(3) show ?case
  proof (cases rule: turn_cases)
    case full
    with less.prems t show ?thesis
      by (auto simp: loop_unfold chunks_written_none)
  next
    case wrote
    let ?w = "w\<lparr>w_buffer := b\<rparr>"
    show ?thesis
    proof (cases "pos = length vals")
      case True
      with less.prems t wrote show ?thesis
        by (auto simp: loop_unfold chunks_written_all)
    next
      case False
      obtain sh1 w1 where f: "flushUnsafe sh ?w = (sh1, w1)"
        by (cases "flushUnsafe sh ?w")
      have run: "writeAggregatedLoop g sh1 w1 m sy (aggregatedExtraSize m sy) prec (m_rate m)
          (drop pos vals) = (sh', w', err)"
        using less.prems(1) t wrote(3) False f by (simp add: loop_unfold [of g sh])
      have "length (drop pos vals) < length vals"
        using wrote(1,2) by simp
      from less.hyps [OF this run flushUnsafe_wf(1) [OF f wrote(4)]]
      have "wf_state ms me sh' w'" and "chunks_written g m sy prec (drop pos vals)
          (stream sh w @ chunk_text g m sy prec (take pos vals) @ [nl]) (stream sh' w') err"
        using flushUnsafe_stream [OF f wrote(4)] wrote(5) by simp_all
      with chunks_written_one wrote(1,2) False show ?thesis by simp
    qed
  qed
qed

subsection \<open>When every value can fit\<close>

definition aggregated_symbol :: "metricType \<Rightarrow> (bytes \<times> int) option" where
  "aggregated_symbol t =
     (case t of histogramAggregatedT \<Rightarrow> Some (histogramSymbol, - 1)
      | distributionAggregatedT \<Rightarrow> Some (distributionSymbol, - 1)
      | timingAggregatedT \<Rightarrow> Some (timingSymbol, 6)
      | _ \<Rightarrow> None)"

lemma aggregated_symbol_type: "aggregated_symbol (m_type m) = Some r \<Longrightarrow> is_aggregated (m_type m)"
  by (auto simp: aggregated_symbol_def is_aggregated_def split: metricType.splits)

lemma writeMetricUnsafe_aggregated:
  "aggregated_symbol (m_type m) = Some (sy, prec) \<Longrightarrow>
   writeMetricUnsafe g sh w m =
     writeAggregatedLoop g sh w m sy (aggregatedExtraSize m sy) prec (m_rate m) (m_fvalues m)"
  by (auto simp: aggregated_symbol_def writeMetricUnsafe_def writeAggregatedMetricUnsafe_def
      split: metricType.splits)

definition single_fits :: "globals \<Rightarrow> int \<Rightarrow> int \<Rightarrow> metric \<Rightarrow> bytes \<Rightarrow> int \<Rightarrow> f64 \<Rightarrow> bool" where
  "single_fits g ms me m sy prec v \<longleftrightarrow> 0 < me
     \<and> int (length (header_text (m_namespace m) (m_name m) @ fmt_float prec v))
         + full_estimate g m sy \<le> ms"

lemma ball_drop: "\<forall>x \<in> set xs. P x \<Longrightarrow> \<forall>x \<in> set (drop n xs). P x"
  by (meson in_set_dropD)

lemma fresh_turn:
  assumes "turn g w m sy prec vals = (b, pos, e)" and "wf_state ms me sh w"
    and "int (length (trailer g m sy)) + 1 \<le> full_estimate g m sy"
    and "fresh_buffer ms me (w_buffer w)" and "vals \<noteq> []"
    and "single_fits g ms me m sy prec (hd vals)"
  shows "0 < pos"
  using assms(1-3)
proof (cases rule: turn_cases)
  case full
  with assms(4-6) show ?thesis
    by (cases vals) (auto simp: fresh_buffer_def newStatsdBuffer_def single_fits_def)
qed simp

lemma writeAggregatedLoop_fresh:
  assumes "writeAggregatedLoop g sh w m sy (aggregatedExtraSize m sy) prec (m_rate m) vals
             = (sh', w', err)"
    and "wf_state ms me sh w" and "fresh_buffer ms me (w_buffer w)"
    and "int (length (trailer g m sy)) + 1 \<le> full_estimate g m sy"
    and "vals \<noteq> []" and "\<forall>v \<in> set vals. single_fits g ms me m sy prec v"
  shows "err = None"
  using assms(1-3,5,6)
proof (induction "length vals" arbitrary: sh w vals rule: less_induct)
  case less
  obtain b pos e where t: "turn g w m sy prec vals = (b, pos, e)"
    by (cases "turn g w m sy prec vals")
  have "0 < pos"
    using fresh_turn [OF t less.prems(2) assms(4) less.prems(3,4)] less.prems(4,5) by simp
  from t less.prems(2) assms(4) show ?case
  proof (cases rule: turn_cases)
    case full
    with \<open>0 < pos\<close> show ?thesis by simp
  next
    case wrote
    let ?w = "w\<lparr>w_buffer := b\<rparr>"
    show ?thesis
    proof (cases "pos = length vals")
      case True
      with less.prems t wrote show ?thesis by (simp add: loop_unfold)
    next
      case False
      obtain sh1 w1 where f: "flushUnsafe sh ?w = (sh1, w1)"
        by (cases "flushUnsafe sh ?w")
      have run: "writeAggregatedLoop g sh1 w1 m sy (aggregatedExtraSize m sy) prec (m_rate m)
          (drop pos vals) = (sh', w', err)"
        using less.prems(1) t wrote(3) False f by (simp add: loop_unfold [of g sh])
      show ?thesis
        using less.hyps [OF _ run flushUnsafe_wf [OF f wrote(4)] _ ball_drop [OF less.prems(5)]]
          wrote(1,2) False by simp
    qed
  qed
qed

text \<open>From any state: either the first turn refuses, and nothing has changed, or it all goes.\<close>

lemma writeAggregatedLoop_fits:
  assumes "writeAggregatedLoop g sh w m sy (aggregatedExtraSize m sy) prec (m_rate m) vals
             = (sh', w', err)"
    and "wf_state ms me sh w"
    and "int (length (trailer g m sy)) + 1 \<le> full_estimate g m sy"
    and "vals \<noteq> []" and "\<forall>v \<in> set vals. single_fits g ms me m sy prec v"
  shows "err = None \<or> err = Some errBufferFull \<and> sh' = sh \<and> w' = w"
proof -
  obtain b pos e where t: "turn g w m sy prec vals = (b, pos, e)"
    by (cases "turn g w m sy prec vals")
  from t assms(2,3) show ?thesis
  proof (cases rule: turn_cases)
    case full
    with assms(1) t show ?thesis by (simp add: loop_unfold)
  next
    case wrote
    let ?w = "w\<lparr>w_buffer := b\<rparr>"
    show ?thesis
    proof (cases "pos = length vals")
      case True
      with assms(1) t wrote show ?thesis by (simp add: loop_unfold)
    next
      case False
      obtain sh1 w1 where f: "flushUnsafe sh ?w = (sh1, w1)"
        by (cases "flushUnsafe sh ?w")
      have "writeAggregatedLoop g sh1 w1 m sy (aggregatedExtraSize m sy) prec (m_rate m)
          (drop pos vals) = (sh', w', err)"
        using assms(1) t wrote(3) False f by (simp add: loop_unfold [of g sh])
      from writeAggregatedLoop_fresh [OF this flushUnsafe_wf [OF f wrote(4)] assms(3)]
      show ?thesis
        using ball_drop [OF assms(5)] wrote(2) False by simp
    qed
  qed
qed

subsection \<open>Processing an aggregated metric\<close>

lemma processMetric_aggregated_wf:
  assumes "wf_state ms me sh w"
    and "aggregated_symbol (m_type m) = Some (sy, prec)"
    and "int (length (trailer g m sy)) + 1 \<le> full_estimate g m sy"
    and "processMetric g draw sh w m = (sh', w', err)"
  shows "wf_state ms me sh' w'"
    and "\<exists>chunks. stream sh' w' = stream sh w @ frame (map (chunk_text g m sy prec) chunks)
           \<and> (\<forall>c \<in> set chunks. c \<noteq> [] \<and> set c \<subseteq> set (m_fvalues m))"
proof -
  note W = writeMetricUnsafe_aggregated [OF assms(2)]
  obtain sh1 w1 e1 where r1: "writeMetricUnsafe g sh w m = (sh1, w1, e1)"
    by (metis prod_cases3)
  note s1 = writeAggregatedLoop_stream [OF r1 [unfolded W] assms(1,3)]
  note sub = chunks_written_subset
  have "wf_state ms me sh' w' \<and> (\<exists>chunks. stream sh' w' = stream sh w
      @ frame (map (chunk_text g m sy prec) chunks)
      \<and> (\<forall>c \<in> set chunks. c \<noteq> [] \<and> set c \<subseteq> set (m_fvalues m)))"
  proof (cases "e1 = Some errBufferFull")
    case False
    with assms(2,4) r1 have "sh' = sh1" "w' = w1"
      by (simp_all add: processMetric_def aggregated_symbol_type)
    with s1 sub show ?thesis by blast
  next
    case True
    obtain sh2 w2 where f: "flushUnsafe sh1 w1 = (sh2, w2)"
      by (cases "flushUnsafe sh1 w1")
    have r2: "writeMetricUnsafe g sh2 w2 m = (sh', w', err)"
      using assms(2,4) r1 True f by (simp add: processMetric_def aggregated_symbol_type)
    note wf2 = flushUnsafe_wf(1) [OF f conjunct1 [OF s1]]
    note s2 = writeAggregatedLoop_stream [OF r2 [unfolded W] wf2 assms(3)]
    obtain c1 where c1: "stream sh1 w1 = stream sh w @ frame (map (chunk_text g m sy prec) c1)"
      "\<forall>c \<in> set c1. c \<noteq> [] \<and> set c \<subseteq> set (m_fvalues m)"
      using sub [OF conjunct2 [OF s1]] by blast
    obtain c2 where c2: "stream sh' w' = stream sh2 w2 @ frame (map (chunk_text g m sy prec) c2)"
      "\<forall>c \<in> set c2. c \<noteq> [] \<and> set c \<subseteq> set (m_fvalues m)"
      using sub [OF conjunct2 [OF s2]] by blast
    have "stream sh' w' = stream sh w @ frame (map (chunk_text g m sy prec) (c1 @ c2))"
      using c1(1) c2(1) flushUnsafe_stream [OF f conjunct1 [OF s1]] by (simp add: frame_append)
    moreover have "\<forall>c \<in> set (c1 @ c2). c \<noteq> [] \<and> set c \<subseteq> set (m_fvalues m)"
      using c1(2) c2(2) by auto
    ultimately show ?thesis using s2 by blast
  qed
  then show "wf_state ms me sh' w'" and "\<exists>chunks. stream sh' w' = stream sh w
      @ frame (map (chunk_text g m sy prec) chunks)
      \<and> (\<forall>c \<in> set chunks. c \<noteq> [] \<and> set c \<subseteq> set (m_fvalues m))"
    by blast+
qed

lemma processMetric_aggregated_fits:
  assumes "wf_state ms me sh w"
    and "aggregated_symbol (m_type m) = Some (sy, prec)"
    and "int (length (trailer g m sy)) + 1 \<le> full_estimate g m sy"
    and "m_fvalues m \<noteq> []" and "\<forall>v \<in> set (m_fvalues m). single_fits g ms me m sy prec v"
    and "processMetric g draw sh w m = (sh', w', err)"
  shows "err = None"
    and "\<exists>chunks. stream sh' w' = stream sh w @ frame (map (chunk_text g m sy prec) chunks)
           \<and> [] \<notin> set chunks \<and> concat chunks = m_fvalues m"
proof -
  note W = writeMetricUnsafe_aggregated [OF assms(2)]
  obtain sh1 w1 e1 where r1: "writeMetricUnsafe g sh w m = (sh1, w1, e1)"
    by (metis prod_cases3)
  have "err = None \<and> chunks_written g m sy prec (m_fvalues m) (stream sh w) (stream sh' w') None"
    using writeAggregatedLoop_fits [OF r1 [unfolded W] assms(1,3-5)]
  proof
    assume "e1 = None"
    with assms(2,6) r1 have "sh' = sh1" "w' = w1" "err = None"
      by (simp_all add: processMetric_def aggregated_symbol_type)
    with writeAggregatedLoop_stream [OF r1 [unfolded W] assms(1,3)] \<open>e1 = None\<close>
    show ?thesis by simp
  next
    assume same: "e1 = Some errBufferFull \<and> sh1 = sh \<and> w1 = w"
    obtain sh2 w2 where f: "flushUnsafe sh w = (sh2, w2)"
      by (cases "flushUnsafe sh w")
    have r2: "writeMetricUnsafe g sh2 w2 m = (sh', w', err)"
      using assms(2,6) r1 same f by (simp add: processMetric_def aggregated_symbol_type)
    note wf2 = flushUnsafe_wf [OF f assms(1)]
    have "err = None"
      using writeAggregatedLoop_fresh [OF r2 [unfolded W] wf2 assms(3-5)] .
    with writeAggregatedLoop_stream [OF r2 [unfolded W] wf2(1) assms(3)]
      flushUnsafe_stream [OF f assms(1)]
    show ?thesis by simp
  qed
  then show "err = None"
    and "\<exists>chunks. stream sh' w' = stream sh w @ frame (map (chunk_text g m sy prec) chunks)
           \<and> [] \<notin> set chunks \<and> concat chunks = m_fvalues m"
    unfolding chunks_written_def by auto
qed

subsection \<open>When a value fits nowhere\<close>

lemma length_value_le: "v \<in> set vs \<Longrightarrow> length (fmt_float prec v) \<le> length (values_text prec vs)"
proof (cases vs)
  case (Cons u us)
  have more: "v \<in> set xs \<Longrightarrow> length (fmt_float prec v) \<le> length (more_values prec xs)" for xs
    by (induction xs) (auto simp: more_values_def)
  assume "v \<in> set vs"
  with more [of us] Cons show ?thesis by auto
qed simp

text \<open>A value that is written in any buffer also fits in an empty one.\<close>

lemma turn_values_fit:
  assumes "turn g w m sy prec vals = (b, pos, e)" and "wf_state ms me sh w"
    and "v \<in> set (take pos vals)"
  shows "single_fits g ms me m sy prec v"
  using assms(1)[unfolded turn_def]
proof (cases rule: writeAggregated_cases)
  case full
  with assms(3) show ?thesis by simp
next
  case wrote
  with assms(2) length_value_le [OF assms(3), of prec] show ?thesis
    by (auto simp: single_fits_def full_estimate_def wf_state_def wf_buffer_def has_limits_def)
qed

text \<open>
  The loop on values of which the first ones fit in an empty payload and the next does not: if
  the first turn can write, exactly the first ones are written and the call fails.
\<close>

lemma writeAggregatedLoop_stuck:
  assumes "writeAggregatedLoop g sh w m sy (aggregatedExtraSize m sy) prec (m_rate m)
             (good @ v # rest) = (sh', w', err)"
    and "wf_state ms me sh w"
    and "int (length (trailer g m sy)) + 1 \<le> full_estimate g m sy"
    and "\<forall>u \<in> set good. single_fits g ms me m sy prec u" and "\<not> single_fits g ms me m sy prec v"
    and "fresh_buffer ms me (w_buffer w)
      \<or> 0 < fst (snd (turn g w m sy prec (good @ v # rest)))"
  shows "err = Some errBufferFull \<and> (\<exists>cs. concat cs = good \<and> [] \<notin> set cs
    \<and> stream sh' w' = stream sh w @ frame (map (chunk_text g m sy prec) cs))"
  using assms(1,2,4,6)
proof (induction "length good" arbitrary: sh w good rule: less_induct)
  case less
  let ?vals = "good @ v # rest"
  obtain b pos e where t: "turn g w m sy prec ?vals = (b, pos, e)"
    by (cases "turn g w m sy prec ?vals")
  have "v \<notin> set (take pos ?vals)"
    using turn_values_fit [OF t less.prems(2), of v] assms(5) by blast
  then have pos: "pos \<le> length good"
    by (cases "pos \<le> length good") (auto simp: take_Cons')
  from t less.prems(2) assms(3) show ?case
  proof (cases rule: turn_cases)
    case full
    have "good = []"
      using fresh_turn [OF t less.prems(2) assms(3)] less.prems(3,4) full(2) t by (cases good) auto
    with full t less.prems(1) show ?thesis
      by (auto simp: loop_unfold frame_def intro!: exI [of _ "[]"])
  next
    case wrote
    let ?w = "w\<lparr>w_buffer := b\<rparr>"
    obtain sh1 w1 where f: "flushUnsafe sh ?w = (sh1, w1)"
      by (cases "flushUnsafe sh ?w")
    have run: "writeAggregatedLoop g sh1 w1 m sy (aggregatedExtraSize m sy) prec (m_rate m)
        (drop pos good @ v # rest) = (sh', w', err)"
      using less.prems(1) t wrote(3) f pos by (simp add: loop_unfold [of g sh])
    have "length (drop pos good) < length good"
      using wrote(1) pos by simp
    from less.hyps [OF this run flushUnsafe_wf(1) [OF f wrote(4)] ball_drop [OF less.prems(3)]]
    obtain cs where cs: "err = Some errBufferFull" "concat cs = drop pos good" "[] \<notin> set cs"
      "stream sh' w' = stream sh1 w1 @ frame (map (chunk_text g m sy prec) cs)"
      using flushUnsafe_wf(2) [OF f wrote(4)] by auto
    have "take pos good \<noteq> []"
      using wrote(1) pos by auto
    with cs wrote(5) pos flushUnsafe_stream [OF f wrote(4)] show ?thesis
      by (intro conjI exI [of _ "take pos good # cs"]) (auto simp: frame_def)
  qed
qed

end
