(* ===== verification/Worker_Properties.thy ===== *)
theory Worker_Properties
  imports Worker_Facts
begin

text \<open>
  What a worker promises: each metric that can fit in a payload is written exactly once and in
  order, whatever the state of its buffer; payloads respect the limits; aggregated metrics are
  split but not lost.  Two theorems show where the promise fails: a value too long for a
  payload makes earlier values of the same metric appear twice, and a sampling rate with more
  than 18 characters makes a payload too long.
\<close>

section \<open>A start state\<close>

lemma newWorker_wf:
  assumes "wf_pool ms me p"
    and "newWorker \<lparr>sh_pool = p, sh_sender = newSender qs h, sh_log = []\<rparr> = (sh, w)"
  shows "wf_state ms me sh w" and "stream sh w = []"
proof -
  note fresh = bp.borrow_fresh [OF assms(1)] and ok = bp.borrow_ok [OF assms(1)]
  have sh: "sh = \<lparr>sh_pool = snd (borrowBuffer p), sh_sender = newSender qs h, sh_log = []\<rparr>"
    and w: "w = \<lparr>w_buffer = fst (borrowBuffer p)\<rparr>"
    using assms(2) by (simp_all add: newWorker_def case_prod_unfold Let_def)
  show "wf_state ms me sh w"
    using fresh ok ledger_start [of qs h]
    by (simp add: sh w wf_state_def sender_pool_ok_def newSender_def)
  show "stream sh w = []"
    using fresh by (simp add: sh w stream_def buf_bytes_def fresh_buffer_def newStatsdBuffer_def)
qed

definition start_shared :: "int \<Rightarrow> int \<Rightarrow> shared" where
  "start_shared ms me =
     \<lparr>sh_pool = \<lparr>pool = [], poolCap = 1, bufferMaxSize = ms, bufferMaxElements = me\<rparr>,
      sh_sender = newSender 8 True, sh_log = []\<rparr>"

definition start_worker :: "int \<Rightarrow> int \<Rightarrow> worker" where
  "start_worker ms me = \<lparr>w_buffer = newStatsdBuffer ms me\<rparr>"

lemma start_wf: "wf_state ms me (start_shared ms me) (start_worker ms me)"
  and start_stream: "stream (start_shared ms me) (start_worker ms me) = []"
  using newWorker_wf [of ms me "sh_pool (start_shared ms me)" 8 True "start_shared ms me"
      "start_worker ms me"]
  by (simp_all add: start_shared_def start_worker_def newWorker_def wf_pool_def borrowBuffer_def)

definition no_globals :: globals where
  "no_globals = \<lparr>containerID = '''', externalEnv = ''''\<rparr>"

definition sample_count :: metric where
  "sample_count = zero_metric\<lparr>m_type := countT, m_name := ''m'', m_ivalue := 5, m_rate := f64_one\<rparr>"

lemmas text_eval =
  metric_text_def header_text_def rate_text_def tags_text_def container_text_def env_text_def
  timestamp_text_def card_text_def no_globals_def symbol_defs

lemma f64_lt_one_one [simp]: "\<not> f64_lt f64_one f64_one"
  by (simp add: f64_eval)

lemma f64_le_one_one [simp]: "f64_le f64_one f64_one"
  by (simp add: f64_eval)

lemma sample_count_text: "element_text no_globals sample_count = Some ''m:5|c''"
  by (simp add: element_text_def sample_count_def zero_metric_def text_eval noTimestamp_def
      fmt_int_def nat_digits_numerals digit_char_numerals Let_def)

section \<open>Simple metrics\<close>

text \<open>
  A metric that is sampled and whose element fits in an empty payload is written exactly once
  after everything written before, without an error, whatever the buffer held; one that does
  not fit is refused with \<open>errBufferFull\<close> and leaves no trace in the stream.
\<close>

theorem processMetric_emits:
  assumes "wf_state ms me sh w" and "element_text g m = Some el" and "shouldSample (m_rate m) draw"
    and "processMetric g draw sh w m = (sh', w', err)"
  shows "wf_state ms me sh' w'
    \<and> (if fits_payload ms me el
       then err = None \<and> stream sh' w' = stream sh w @ el @ [nl]
       else err = Some errBufferFull \<and> stream sh' w' = stream sh w)"
  using processMetric_simple [OF assms] by auto

theorem processMetric_emits_witness:
  "case processMetric no_globals 0 (start_shared 8 4) (start_worker 8 4) sample_count of
     (sh', w', err) \<Rightarrow> err = None \<and> stream sh' w' = ''m:5|c'' @ [nl]"
proof -
  obtain sh' w' err where
    r: "processMetric no_globals 0 (start_shared 8 4) (start_worker 8 4) sample_count = (sh', w', err)"
    by (metis prod_cases3)
  have "shouldSample (m_rate sample_count) 0"
    by (simp add: shouldSample_def sample_count_def)
  from processMetric_emits [OF start_wf sample_count_text this r] show ?thesis
    by (simp add: r fits_payload_def start_stream)
qed

definition accepted :: "globals \<Rightarrow> int \<Rightarrow> int \<Rightarrow> f64 \<times> metric \<Rightarrow> bytes list" where
  "accepted g ms me = (\<lambda>(draw, m).
     case element_text g m of
       None \<Rightarrow> []
     | Some el \<Rightarrow> if shouldSample (m_rate m) draw \<and> fits_payload ms me el then [el] else [])"

definition refusal :: "globals \<Rightarrow> int \<Rightarrow> int \<Rightarrow> f64 \<times> metric \<Rightarrow> write_error option" where
  "refusal g ms me = (\<lambda>(draw, m).
     case element_text g m of
       None \<Rightarrow> None
     | Some el \<Rightarrow> if shouldSample (m_rate m) draw \<and> \<not> fits_payload ms me el
                  then Some errBufferFull else None)"

definition one_line :: "globals \<Rightarrow> metric \<Rightarrow> bool" where
  "one_line g m \<longleftrightarrow> (case element_text g m of None \<Rightarrow> False | Some el \<Rightarrow> no_newline el)"

lemma processMetric_accepted:
  assumes "wf_state ms me sh w" and "one_line g m"
    and "processMetric g draw sh w m = (sh', w', err)"
  shows "wf_state ms me sh' w' \<and> err = refusal g ms me (draw, m)
    \<and> stream sh' w' = stream sh w @ frame (accepted g ms me (draw, m))"
proof -
  obtain el where el: "element_text g m = Some el"
    using assms(2) by (auto simp: one_line_def split: option.splits)
  show ?thesis
  proof (cases "shouldSample (m_rate m) draw")
    case True
    from processMetric_simple [OF assms(1) el True assms(3)] el True show ?thesis
      by (simp add: refusal_def accepted_def frame_def)
  next
    case False
    with processMetric_dropped [OF element_text_not_aggregated [OF el] False, of g sh w] assms el
    show ?thesis by (simp add: refusal_def accepted_def)
  qed
qed

lemma processAll_accepted:
  assumes "wf_state ms me sh w" and "list_all (\<lambda>(draw, m). one_line g m) dms"
    and "processAll g sh w dms = (sh', w', errs)"
  shows "wf_state ms me sh' w' \<and> errs = map (refusal g ms me) dms
    \<and> stream sh' w' = stream sh w @ frame (concat (map (accepted g ms me) dms))"
  using assms
proof (induction dms arbitrary: sh w sh' w' errs)
  case (Cons dm dms)
  obtain draw m where dm: "dm = (draw, m)" by (cases dm)
  obtain sh1 w1 err where r1: "processMetric g draw sh w m = (sh1, w1, err)"
    by (metis prod_cases3)
  obtain sh2 w2 errs2 where r2: "processAll g sh1 w1 dms = (sh2, w2, errs2)"
    by (metis prod_cases3)
  have s1: "wf_state ms me sh1 w1 \<and> err = refusal g ms me (draw, m)
      \<and> stream sh1 w1 = stream sh w @ frame (accepted g ms me (draw, m))"
    using processMetric_accepted [OF Cons.prems(1) _ r1] Cons.prems(2) dm by simp
  with Cons.IH [OF _ _ r2] Cons.prems(2,3) dm r1 r2 show ?case
    by (auto simp: frame_append)
qed simp

lemma accepted_one_line:
  "list_all (\<lambda>(draw, m). one_line g m) dms \<Longrightarrow>
   \<forall>l \<in> set (concat (map (accepted g ms me) dms)). no_newline l"
  by (auto simp: accepted_def one_line_def list_all_iff split: option.splits if_splits)

text \<open>
  C6. From a fresh worker, a run of simple metrics produces a stream whose lines are exactly the
  elements of the metrics that were sampled and can fit, in the order of the calls; the error
  of each call says which were refused.
\<close>

theorem processAll_lines:
  assumes "newWorker \<lparr>sh_pool = p, sh_sender = newSender qs h, sh_log = []\<rparr> = (sh, w)"
    and "wf_pool ms me p" and "list_all (\<lambda>(draw, m). one_line g m) dms"
    and "processAll g sh w dms = (sh', w', errs)"
  shows "split_lines [] (stream sh' w') = concat (map (accepted g ms me) dms)
    \<and> errs = map (refusal g ms me) dms"
  using processAll_accepted [OF newWorker_wf(1) [OF assms(2,1)] assms(3,4)]
    newWorker_wf(2) [OF assms(2,1)] accepted_one_line [OF assms(3), of ms me]
  by (simp add: split_lines_frame)

theorem processAll_lines_witness:
  "case processAll no_globals (start_shared 8 4) (start_worker 8 4)
       [(0, sample_count), (0, sample_count\<lparr>m_name := ''longer''\<rparr>), (0, sample_count)] of
     (sh', w', errs) \<Rightarrow> split_lines [] (stream sh' w') = [''m:5|c'', ''m:5|c'']
       \<and> errs = [None, Some errBufferFull, None]"
proof -
  let ?ms = "[(0, sample_count), (0, sample_count\<lparr>m_name := ''longer''\<rparr>), (0, sample_count)]"
  obtain sh' w' errs where
    r: "processAll no_globals (start_shared 8 4) (start_worker 8 4) ?ms = (sh', w', errs)"
    by (metis prod_cases3)
  have long: "element_text no_globals (sample_count\<lparr>m_name := ''longer''\<rparr>) = Some ''longer:5|c''"
    by (simp add: element_text_def sample_count_def zero_metric_def text_eval noTimestamp_def
        fmt_int_def nat_digits_numerals digit_char_numerals Let_def)
  have keep: "shouldSample (m_rate sample_count) 0"
    by (simp add: shouldSample_def sample_count_def)
  have "newWorker \<lparr>sh_pool = sh_pool (start_shared 8 4), sh_sender = newSender 8 True, sh_log = []\<rparr>
      = (start_shared 8 4, start_worker 8 4)"
    by (simp add: start_shared_def start_worker_def newWorker_def borrowBuffer_def)
  from processAll_lines [OF this _ _ r, of 8 4]
  have "split_lines [] (stream sh' w') = [''m:5|c'', ''m:5|c'']
      \<and> errs = [None, Some errBufferFull, None]"
    by (simp add: wf_pool_def start_shared_def one_line_def sample_count_text long accepted_def
        refusal_def fits_payload_def keep)
  then show ?thesis by (simp only: r prod.case)
qed

section \<open>Aggregated metrics\<close>

text \<open>The size estimate reserves 18 characters for the sampling rate.\<close>

definition short_rate :: "metric \<Rightarrow> bool" where
  "short_rate m \<longleftrightarrow> \<not> f64_lt (m_rate m) f64_one \<or> length (fmt_float (- 1) (m_rate m)) \<le> 18"

lemma short_rate_covers:
  "short_rate m \<Longrightarrow> int (length (trailer g m sy)) + 1 \<le> full_estimate g m sy"
  by (rule estimate_covers) (simp add: short_rate_def)

text \<open>
  C7. If each value alone fits in an empty payload, an aggregated metric is written without an
  error: its values appear exactly once, in order, split into non-empty elements over as many
  payloads as needed, each element with the full name, tags and fields.
\<close>

theorem aggregated_exactly_once:
  assumes "wf_state ms me sh w" and "aggregated_symbol (m_type m) = Some (sy, prec)"
    and "short_rate m" and "m_fvalues m \<noteq> []"
    and "\<forall>v \<in> set (m_fvalues m). single_fits g ms me m sy prec v"
    and "processMetric g draw sh w m = (sh', w', err)"
  shows "err = None \<and> (\<exists>chunks. concat chunks = m_fvalues m \<and> [] \<notin> set chunks
    \<and> stream sh' w' = stream sh w @ frame (map (chunk_text g m sy prec) chunks))"
  using processMetric_aggregated_fits [OF assms(1,2) short_rate_covers [OF assms(3)] assms(4-6)]
  by blast

definition sample_histogram :: metric where
  "sample_histogram = zero_metric\<lparr>m_type := histogramAggregatedT, m_name := ''m'',
     m_fvalues := [f64_one, f64_one, f64_one], m_stags := ''t'', m_rate := f64_one\<rparr>"

lemmas estimate_eval =
  full_estimate_def augmentTagSize_def aggregatedExtraSize_def card_text_def header_text_def
  no_globals_def symbol_defs

theorem aggregated_exactly_once_witness:
  "case processMetric no_globals 0 (start_shared 12 4) (start_worker 12 4) sample_histogram of
     (sh', w', err) \<Rightarrow> err = None \<and> (\<exists>chunks. concat chunks = [f64_one, f64_one, f64_one]
       \<and> [] \<notin> set chunks
       \<and> stream sh' w' = frame (map (chunk_text no_globals sample_histogram ''h'' (- 1)) chunks))"
proof -
  obtain sh' w' err where r: "processMetric no_globals 0 (start_shared 12 4) (start_worker 12 4)
      sample_histogram = (sh', w', err)"
    by (metis prod_cases3)
  have sy: "aggregated_symbol (m_type sample_histogram) = Some (''h'', - 1)"
    and short: "short_rate sample_histogram"
    and vals: "m_fvalues sample_histogram = [f64_one, f64_one, f64_one]"
    by (simp_all add: aggregated_symbol_def sample_histogram_def symbol_defs short_rate_def)
  have "\<forall>v \<in> set (m_fvalues sample_histogram).
      single_fits no_globals 12 4 sample_histogram ''h'' (- 1) v"
    by (simp add: sample_histogram_def zero_metric_def single_fits_def estimate_eval fmt_float_one)
  from aggregated_exactly_once [OF start_wf sy short _ this r] show ?thesis
    by (simp add: r start_stream vals)
qed

section \<open>Limits of payloads\<close>

definition serializable :: "globals \<Rightarrow> metric \<Rightarrow> bool" where
  "serializable g m \<longleftrightarrow>
     element_text g m \<noteq> None \<or> aggregated_symbol (m_type m) \<noteq> None \<and> short_rate m"

lemma processMetric_wf:
  assumes "wf_state ms me sh w" and "serializable g m"
    and "processMetric g draw sh w m = (sh', w', err)"
  shows "wf_state ms me sh' w'"
proof (cases "element_text g m")
  case None
  then obtain sy prec where a: "aggregated_symbol (m_type m) = Some (sy, prec)" "short_rate m"
    using assms(2) by (auto simp: serializable_def)
  show ?thesis
    by (rule processMetric_aggregated_wf(1) [OF assms(1) a(1) short_rate_covers [OF a(2)] assms(3)])
next
  case (Some el)
  show ?thesis
  proof (cases "shouldSample (m_rate m) draw")
    case True
    show ?thesis by (rule processMetric_simple(1) [OF assms(1) Some True assms(3)])
  next
    case False
    with processMetric_dropped [OF element_text_not_aggregated [OF Some] False, of g sh w] assms
    show ?thesis by simp
  qed
qed

lemma processAll_wf:
  "wf_state ms me sh w \<Longrightarrow> list_all (\<lambda>(draw, m). serializable g m) dms \<Longrightarrow>
   processAll g sh w dms = (sh', w', errs) \<Longrightarrow> wf_state ms me sh' w'"
proof (induction dms arbitrary: sh w errs)
  case (Cons dm dms)
  obtain draw m where dm: "dm = (draw, m)" by (cases dm)
  obtain sh1 w1 err where r1: "processMetric g draw sh w m = (sh1, w1, err)"
    by (metis prod_cases3)
  have "wf_state ms me sh1 w1"
    using processMetric_wf [OF Cons.prems(1) _ r1] Cons.prems(2) dm by simp
  with Cons dm r1 show ?case by (auto split: prod.splits)
qed simp

definition within_limits :: "int \<Rightarrow> int \<Rightarrow> statsdBuffer \<Rightarrow> bool" where
  "within_limits ms me b \<longleftrightarrow>
     int (length (buf_bytes b)) \<le> max 0 ms \<and> elementCount b \<le> max 0 me"

lemma wf_within_limits: "wf_buffer b \<Longrightarrow> has_limits ms me b \<Longrightarrow> within_limits ms me b"
  by (auto simp: wf_buffer_def has_limits_def within_limits_def buf_bytes_def buf_len_def)

text \<open>
  C8. After any run of simple and aggregated metrics with short rates, every payload handed to
  the sender, the one being built, and every payload on the wire respect the maximum size and
  the maximum number of elements.
\<close>

theorem payloads_within_limits:
  assumes "wf_state ms me sh w" and "list_all (\<lambda>(draw, m). serializable g m) dms"
    and "processAll g sh w dms = (sh', w', errs)"
  shows "list_all (within_limits ms me) (sh_log sh' @ [w_buffer w'])
    \<and> list_all (\<lambda>p. int (length p) \<le> max 0 ms) (wire (sh_sender sh'))"
proof -
  have wf: "wf_state ms me sh' w'"
    by (rule processAll_wf [OF assms])
  then have log: "list_all (within_limits ms me) (sh_log sh' @ [w_buffer w'])"
    by (auto simp: wf_state_def list_all_iff intro: wf_within_limits)
  have "subseq (wire (sh_sender sh') @ map buf_bytes (queue (sh_sender sh')))
      (map buf_bytes (sh_log sh'))"
    using wf by (simp add: wf_state_def ledger_def)
  then have "set (wire (sh_sender sh')) \<subseteq> set (map buf_bytes (sh_log sh'))"
    by (auto dest: list_emb_set)
  with log show ?thesis
    by (fastforce simp: list_all_iff within_limits_def)
qed

theorem payloads_within_limits_witness:
  "case processAll no_globals (start_shared 12 4) (start_worker 12 4)
       [(0, sample_count), (0, sample_histogram), (0, sample_count)] of
     (sh', w', errs) \<Rightarrow> list_all (within_limits 12 4) (sh_log sh' @ [w_buffer w'])"
proof -
  obtain sh' w' errs where r: "processAll no_globals (start_shared 12 4) (start_worker 12 4)
      [(0, sample_count), (0, sample_histogram), (0, sample_count)] = (sh', w', errs)"
    by (metis prod_cases3)
  have "serializable no_globals sample_histogram" and "serializable no_globals sample_count"
    by (simp_all add: serializable_def aggregated_symbol_def short_rate_def sample_histogram_def
        sample_count_text)
  with payloads_within_limits [OF start_wf _ r] show ?thesis
    by (simp only: r prod.case) simp
qed

section \<open>Where the promises fail\<close>

definition f64_ten :: f64 where "f64_ten = 0x4024000000000000"

lemma fmt_float_ten: "fmt_float (- 1) f64_ten = ''10''"
  unfolding f64_ten_def by (simp add: f64_eval fmt_eval Let_def)

text \<open>The float64 next to 2/30; it needs 19 characters.\<close>

definition f64_fifteenth :: f64 where "f64_fifteenth = 0x3FB1111111111111"

lemma fmt_float_fifteenth: "fmt_float (- 1) f64_fifteenth = ''0.06666666666666667''"
  unfolding f64_fifteenth_def by (simp add: f64_eval fmt_eval Let_def)

lemma f64_fifteenth_less: "f64_lt f64_fifteenth f64_one"
  by (simp add: f64_eval f64_fifteenth_def)

definition too_long_histogram :: metric where
  "too_long_histogram = zero_metric\<lparr>m_type := histogramAggregatedT, m_name := ''m'',
     m_fvalues := [f64_one, f64_ten], m_rate := f64_one\<rparr>"

definition sampled_histogram :: metric where
  "sampled_histogram = zero_metric\<lparr>m_type := histogramAggregatedT, m_name := ''m'',
     m_stags := ''t'', m_fvalues := [f64_one], m_rate := f64_fifteenth\<rparr>"

definition empty_histogram :: metric where
  "empty_histogram = zero_metric\<lparr>m_type := histogramAggregatedT, m_name := ''m'',
     m_fvalues := [], m_rate := f64_one\<rparr>"

text \<open>
  C37. When the first values of an aggregated metric fit in a payload and the next one does not,
  the retry of \<open>processMetric\<close> starts again from the first value: the call reports an error, yet
  the values before the one too long are sent, and sent twice when the first of them still fits in
  the current buffer, because the first attempt wrote them before it failed.
\<close>

theorem aggregated_retry_duplicates:
  assumes "wf_state ms me sh w" and "aggregated_symbol (m_type m) = Some (sy, prec)"
    and "short_rate m" and "m_fvalues m = good @ v # rest"
    and "\<forall>u \<in> set good. single_fits g ms me m sy prec u" and "\<not> single_fits g ms me m sy prec v"
    and "processMetric g draw sh w m = (sh', w', err)"
  shows "err = Some errBufferFull \<and> (\<exists>attempt1 attempt2.
    concat attempt1 =
      (if elementCount (w_buffer w) < me
          \<and> prefix_size g (w_buffer w) (m_namespace m) (m_name m) (m_fvalues m)
              (aggregatedExtraSize m sy) prec (m_originDetection m) (m_cardinality m) 1 \<le> ms
       then good else [])
    \<and> concat attempt2 = good \<and> [] \<notin> set (attempt1 @ attempt2)
    \<and> stream sh' w' = stream sh w @ frame (map (chunk_text g m sy prec) (attempt1 @ attempt2)))"
proof -
  note W = writeMetricUnsafe_aggregated [OF assms(2), unfolded assms(4)]
  note cover = short_rate_covers [OF assms(3), of g sy]
  obtain sh1 w1 e1 where r1: "writeMetricUnsafe g sh w m = (sh1, w1, e1)"
    by (metis prod_cases3)
  obtain b pos e where t: "turn g w m sy prec (good @ v # rest) = (b, pos, e)"
    by (cases "turn g w m sy prec (good @ v # rest)")
  have lim: "maxElements (w_buffer w) = me" "maxSize (w_buffer w) = ms"
    using assms(1) by (simp_all add: wf_state_def has_limits_def)
  note writes = writeAggregated_writes [OF t [unfolded turn_def], unfolded lim, folded assms(4)]
  have "e1 = Some errBufferFull \<and> wf_state ms me sh1 w1
    \<and> (\<exists>cs. concat cs = (if 0 < pos then good else []) \<and> [] \<notin> set cs
        \<and> stream sh1 w1 = stream sh w @ frame (map (chunk_text g m sy prec) cs))"
  proof (cases "0 < pos")
    case True
    with writeAggregatedLoop_stuck [OF r1 [unfolded W] assms(1) cover assms(5,6)]
      writeAggregatedLoop_stream [OF r1 [unfolded W] assms(1) cover] t
    show ?thesis by simp
  next
    case False
    from t assms(1) cover have "b = w_buffer w \<and> e = Some errBufferFull"
      by (cases rule: turn_cases) (use False in auto)
    with r1 t assms(1) have "e1 = Some errBufferFull \<and> sh1 = sh \<and> w1 = w"
      by (simp add: W loop_unfold)
    with assms(1) False show ?thesis
      by (auto simp: frame_def intro!: exI [of _ "[]"])
  qed
  then obtain cs1 where first: "e1 = Some errBufferFull" "wf_state ms me sh1 w1"
    "concat cs1 = (if 0 < pos then good else [])" "[] \<notin> set cs1"
    "stream sh1 w1 = stream sh w @ frame (map (chunk_text g m sy prec) cs1)"
    by blast
  obtain sh2 w2 where f: "flushUnsafe sh1 w1 = (sh2, w2)"
    by (cases "flushUnsafe sh1 w1")
  have r2: "writeMetricUnsafe g sh2 w2 m = (sh', w', err)"
    using assms(7) r1 f first(1) aggregated_symbol_type [OF assms(2)] by (simp add: processMetric_def)
  obtain cs2 where second: "err = Some errBufferFull" "concat cs2 = good" "[] \<notin> set cs2"
    "stream sh' w' = stream sh2 w2 @ frame (map (chunk_text g m sy prec) cs2)"
    using writeAggregatedLoop_stuck [OF r2 [unfolded W] _ cover assms(5,6)]
      flushUnsafe_wf [OF f first(2)] by blast
  have m: "m_fvalues m \<noteq> []" using assms(4) by simp
  show ?thesis
    using first second flushUnsafe_stream [OF f first(2)] writes m
    by (intro conjI exI [of _ cs1] exI [of _ cs2]) (simp_all add: frame_append)
qed

theorem aggregated_retry_duplicates_witness:
  "case processMetric no_globals 0 (start_shared 8 4) (start_worker 8 4) too_long_histogram of
     (sh', w', err) \<Rightarrow> err = Some errBufferFull
       \<and> stream sh' w' = ''m:1|h'' @ [nl] @ ''m:1|h'' @ [nl]"
proof -
  let ?m = too_long_histogram
  obtain sh' w' err where r: "processMetric no_globals 0 (start_shared 8 4) (start_worker 8 4) ?m
      = (sh', w', err)"
    by (metis prod_cases3)
  have sy: "aggregated_symbol (m_type ?m) = Some (''h'', - 1)" and short: "short_rate ?m"
    and vals: "m_fvalues ?m = [f64_one] @ f64_ten # []"
    by (simp_all add: aggregated_symbol_def too_long_histogram_def symbol_defs short_rate_def)
  have one: "concat cs = [f64_one] \<Longrightarrow> [] \<notin> set cs \<Longrightarrow> cs = [[f64_one]]" for cs
    by (cases cs; cases "hd cs"; cases "tl cs") (auto simp: concat_eq_Nil_conv)
  have "single_fits no_globals 8 4 ?m ''h'' (- 1) f64_one"
    and "\<not> single_fits no_globals 8 4 ?m ''h'' (- 1) f64_ten"
    by (simp_all add: too_long_histogram_def zero_metric_def single_fits_def estimate_eval
        fmt_float_one fmt_float_ten)
  moreover have first: "elementCount (w_buffer (start_worker 8 4)) < 4
      \<and> prefix_size no_globals (w_buffer (start_worker 8 4)) (m_namespace ?m) (m_name ?m)
          (m_fvalues ?m) (aggregatedExtraSize ?m ''h'') (- 1) (m_originDetection ?m)
          (m_cardinality ?m) 1 \<le> 8"
    by (simp add: prefix_size_def start_worker_def newStatsdBuffer_def too_long_histogram_def
        zero_metric_def estimate_eval fmt_float_one)
  ultimately obtain cs1 cs2 where c: "err = Some errBufferFull" "concat cs1 = [f64_one]"
    "concat cs2 = [f64_one]" "[] \<notin> set (cs1 @ cs2)" "stream sh' w'
      = [] @ frame (map (chunk_text no_globals ?m ''h'' (- 1)) (cs1 @ cs2))"
    using aggregated_retry_duplicates [OF start_wf sy short vals _ _ r,
        unfolded if_P [OF first] start_stream] by auto
  then have "cs1 = [[f64_one]]" and "cs2 = [[f64_one]]" using one by auto
  with c(1,5) show ?thesis
    unfolding r by (simp add: frame_def chunk_text_def aggregated_text_def trailer_text_def
        too_long_histogram_def zero_metric_def text_eval fmt_float_one)
qed

text \<open>With tags free of line feeds the estimate misses the trailer by the rate's length alone.\<close>

lemma length_tags_body_exact:
  assumes "list_all no_newline ts" and "no_newline t"
  shows "length (tags_body (ts @ [t])) = sum_list (map (\<lambda>t. length t + 1) ts) + length t"
  using assms
  by (induction ts) (auto simp: tags_body_Cons filter_id_iff_no_newline)

lemma trailer_exact:
  assumes "f64_lt (m_rate m) f64_one" and "m_stags m \<noteq> []" and "no_newline (m_stags m)"
    and "list_all no_newline (m_globalTags m)"
  shows "int (length (trailer g m sy)) + 1
    = full_estimate g m sy + (int (length (fmt_float (- 1) (m_rate m))) - 18)"
  using assms length_tags_body_exact [OF assms(4,3)]
  by (simp add: trailer_def trailer_text_def full_estimate_def augmentTagSize_eq
      aggregatedExtraSize_eq rate_text_def tags_text_def)

text \<open>
  C38. The estimate allows 18 characters for a sampling rate below one. An aggregated metric whose
  values pass the estimate with \<open>slack\<close> bytes left is written at once and without an error, and
  the buffer is then longer than the maximum size exactly when its rate has more than
  \<open>18 + slack\<close> characters, whatever the state of the worker.
\<close>

theorem long_rate_exceeds_limit:
  assumes "aggregated_symbol (m_type m) = Some (sy, prec)" and "m_fvalues m \<noteq> []"
    and "f64_lt (m_rate m) f64_one" and "m_stags m \<noteq> []" and "no_newline (m_stags m)"
    and "list_all no_newline (m_globalTags m)"
    and "elementCount (w_buffer w) < maxElements (w_buffer w)"
    and "prefix_size g (w_buffer w) (m_namespace m) (m_name m) (m_fvalues m)
        (aggregatedExtraSize m sy) prec (m_originDetection m) (m_cardinality m)
        (length (m_fvalues m)) + int slack = maxSize (w_buffer w)"
    and "processMetric g draw sh w m = (sh', w', err)"
  shows "err = None \<and> sh' = sh
    \<and> int (length (buf_bytes (w_buffer w'))) + int slack + 18
        = maxSize (w_buffer w) + int (length (fmt_float (- 1) (m_rate m)))
    \<and> (maxSize (w_buffer w) < int (length (buf_bytes (w_buffer w')))
        \<longleftrightarrow> 18 + slack < length (fmt_float (- 1) (m_rate m)))"
proof -
  note W = writeMetricUnsafe_aggregated [OF assms(1)]
  let ?vs = "m_fvalues m" and ?b = "w_buffer w"
  let ?sz = "prefix_size g ?b (m_namespace m) (m_name m) ?vs (aggregatedExtraSize m sy) prec
    (m_originDetection m) (m_cardinality m)"
  obtain b pos e where t: "turn g w m sy prec ?vs = (b, pos, e)"
    by (cases "turn g w m sy prec ?vs")
  have le: "?sz k \<le> maxSize ?b" if "k \<le> length ?vs" for k
    using prefix_size_mono [OF that, of g ?b "m_namespace m" "m_name m" ?vs
        "aggregatedExtraSize m sy" prec "m_originDetection m" "m_cardinality m"] assms(8)
    by linarith
  have "1 \<le> length ?vs" using assms(2) by (cases ?vs) auto
  then have "0 < pos"
    using writeAggregated_writes [OF t [unfolded turn_def]] assms(2,7) le by simp
  from t [unfolded turn_def]
  have all: "pos = length ?vs \<and> e = None
    \<and> b = ?b\<lparr>buffer := buffer ?b @ chunk_text g m sy prec ?vs @ [nl],
        elementCount := elementCount ?b + 1\<rparr>"
  proof (cases rule: writeAggregated_cases)
    case full
    with \<open>0 < pos\<close> show ?thesis by simp
  next
    case wrote
    have "pos = length ?vs"
    proof (rule ccontr)
      assume "pos \<noteq> length ?vs"
      with wrote(2) have "pos < length ?vs" by simp
      from wrote(7) [OF this] le [of "Suc pos"] \<open>pos < length ?vs\<close> show False
        by (simp add: prefix_size_def)
    qed
    with wrote show ?thesis by (simp add: chunk_text_def)
  qed
  then have r: "sh' = sh" "w' = w\<lparr>w_buffer := b\<rparr>" "err = None"
    using assms(9) t aggregated_symbol_type [OF assms(1)]
    by (simp_all add: processMetric_def W loop_unfold)
  have "int (length (buf_bytes b)) + int slack + 18
      = maxSize ?b + int (length (fmt_float (- 1) (m_rate m)))"
    using all assms(8) trailer_exact [OF assms(3-6), of g sy]
    by (simp add: buf_bytes_def chunk_text_def aggregated_text_def prefix_size_def
        full_estimate_def trailer_def)
  moreover from this have "maxSize ?b < int (length (buf_bytes b))
      \<longleftrightarrow> 18 + slack < length (fmt_float (- 1) (m_rate m))"
    by (intro iffI) linarith+
  ultimately show ?thesis using r by simp
qed

theorem long_rate_exceeds_limit_witness:
  "case processMetric no_globals 0 (start_shared 29 4) (start_worker 29 4) sampled_histogram of
     (sh', w', err) \<Rightarrow> err = None \<and> length (buf_bytes (w_buffer w')) = 30"
proof -
  let ?m = sampled_histogram and ?w = "start_worker 29 4"
  obtain sh' w' err where r: "processMetric no_globals 0 (start_shared 29 4) ?w ?m = (sh', w', err)"
    by (metis prod_cases3)
  have m: "m_fvalues ?m = [f64_one]" "m_rate ?m = f64_fifteenth" "m_stags ?m = ''t''"
    "m_globalTags ?m = []" "aggregated_symbol (m_type ?m) = Some (''h'', - 1)"
    by (simp_all add: sampled_histogram_def zero_metric_def aggregated_symbol_def symbol_defs)
  have size: "prefix_size no_globals (w_buffer ?w) (m_namespace ?m) (m_name ?m) (m_fvalues ?m)
      (aggregatedExtraSize ?m ''h'') (- 1) (m_originDetection ?m) (m_cardinality ?m)
      (length (m_fvalues ?m)) + int 0 = maxSize (w_buffer ?w)"
    by (simp add: prefix_size_def start_worker_def newStatsdBuffer_def sampled_histogram_def
        zero_metric_def estimate_eval fmt_float_one f64_fifteenth_less)
  have "no_newline ''t''" by (simp add: no_newline_def)
  with long_rate_exceeds_limit [OF m(5) _ _ _ _ _ _ size r] show ?thesis
    unfolding r
    by (simp add: m f64_fifteenth_less fmt_float_fifteenth)
      (simp add: start_worker_def newStatsdBuffer_def)
qed

text \<open>
  An aggregated metric without values, as \<open>DistributionSamples\<close> sends for an empty slice, is
  refused as too long, whatever the size of the payload.
\<close>

theorem aggregated_without_values:
  assumes "wf_state ms me sh w" and "aggregated_symbol (m_type m) = Some (sy, prec)"
    and "short_rate m" and "m_fvalues m = []"
    and "processMetric g draw sh w m = (sh', w', err)"
  shows "err = Some errBufferFull \<and> stream sh' w' = stream sh w"
proof -
  note W = writeMetricUnsafe_aggregated [OF assms(2)]
  have refuse: "e = Some errBufferFull \<and> sh2 = sh1 \<and> w2 = w1"
    if "writeMetricUnsafe g sh1 w1 m = (sh2, w2, e)" and "wf_state ms me sh1 w1" for sh1 w1 sh2 w2 e
  proof -
    obtain b pos e1 where t: "turn g w1 m sy prec [] = (b, pos, e1)"
      by (cases "turn g w1 m sy prec []")
    from t that(2) short_rate_covers [OF assms(3)] show ?thesis
      by (cases rule: turn_cases) (use that(1) t assms(4) in \<open>simp_all add: W loop_unfold\<close>)
  qed
  obtain sh1 w1 where f: "flushUnsafe sh w = (sh1, w1)" by (cases "flushUnsafe sh w")
  obtain sh2 w2 e where r1: "writeMetricUnsafe g sh w m = (sh2, w2, e)" by (metis prod_cases3)
  obtain sh3 w3 e3 where r2: "writeMetricUnsafe g sh1 w1 m = (sh3, w3, e3)" by (metis prod_cases3)
  from refuse [OF r1 assms(1)] refuse [OF r2 flushUnsafe_wf(1) [OF f assms(1)]]
  show ?thesis
    using assms(5) r1 r2 f flushUnsafe_stream [OF f assms(1)] aggregated_symbol_type [OF assms(2)]
    by (simp add: processMetric_def)
qed

theorem aggregated_without_values_witness:
  "case processMetric no_globals 0 (start_shared 1432 64) (start_worker 1432 64) empty_histogram of
     (sh', w', err) \<Rightarrow> err = Some errBufferFull \<and> stream sh' w' = []"
proof -
  obtain sh' w' err where r: "processMetric no_globals 0 (start_shared 1432 64)
      (start_worker 1432 64) empty_histogram = (sh', w', err)"
    by (metis prod_cases3)
  have "aggregated_symbol (m_type empty_histogram) = Some (''h'', - 1)"
    and "short_rate empty_histogram" and "m_fvalues empty_histogram = []"
    by (simp_all add: aggregated_symbol_def empty_histogram_def symbol_defs short_rate_def)
  from aggregated_without_values [OF start_wf this r] show ?thesis
    by (simp add: r start_stream)
qed

end
