(* ===== verification/Client_Facts.thy ===== *)
theory Client_Facts
  imports Client Aggregator_Facts Worker_Properties
begin

text \<open>
  How the state of a client evolves.  Every operation is a sequence of activities: a worker
  processes a metric or flushes, the sender writes, or fields change that no worker sees.  The
  invariant is proved per activity: each worker's payloads carry exactly the elements of the
  metrics it has processed, in order, and each payload consists of whole elements.
\<close>

section \<open>What a worker's operation does to the shared state\<close>

text \<open>A property kept by a flush and by adding one element is kept by processing a metric.\<close>

definition add_element :: "bytes \<Rightarrow> worker \<Rightarrow> worker" where
  "add_element el w = w\<lparr>w_buffer := (w_buffer w)
     \<lparr>buffer := buffer (w_buffer w) @ el @ [nl], elementCount := elementCount (w_buffer w) + 1\<rparr>\<rparr>"

definition stable :: "(shared \<Rightarrow> worker \<Rightarrow> bool) \<Rightarrow> bool" where
  "stable I \<longleftrightarrow>
     (\<forall>sh w sh' w'. I sh w \<longrightarrow> flushUnsafe sh w = (sh', w') \<longrightarrow> I sh' w')
     \<and> (\<forall>sh w el. I sh w \<longrightarrow> I sh (add_element el w))"

lemma stableD:
  "stable I \<Longrightarrow> I sh w \<Longrightarrow> flushUnsafe sh w = (sh', w') \<Longrightarrow> I sh' w'"
  "stable I \<Longrightarrow> I sh w \<Longrightarrow> I sh (add_element el w)"
  unfolding stable_def by blast+

lemma push_stable: "stable I \<Longrightarrow> I sh w \<Longrightarrow> I sh (w\<lparr>w_buffer := fst (push (w_buffer w) el)\<rparr>)"
  using stableD(2) [of I sh w el] by (simp add: push_def add_element_def)

lemma loop_stable:
  assumes "stable I"
  shows "writeAggregatedLoop g sh w m sy es prec rate vals = (sh', w', err) \<Longrightarrow> I sh w \<Longrightarrow> I sh' w'"
proof (induction "length vals" arbitrary: sh w vals rule: less_induct)
  case less
  obtain b pos e where t: "writeAggregated g (w_buffer w) sy (m_namespace m) (m_globalTags m)
      (m_name m) vals (m_stags m) es prec rate (m_originDetection m) (m_cardinality m) = (b, pos, e)"
    by (metis prod_cases3)
  from t show ?case
  proof (cases rule: writeAggregated_cases)
    case full
    with less.prems t show ?thesis
      by (simp add: writeAggregatedLoop.simps [of g sh])
  next
    case wrote
    have I: "I sh (w\<lparr>w_buffer := b\<rparr>)"
      using stableD(2) [OF assms less.prems(2)] wrote(4) by (simp add: add_element_def)
    show ?thesis
    proof (cases "pos = length vals")
      case True
      with less.prems t wrote I show ?thesis
        by (simp add: writeAggregatedLoop.simps [of g sh])
    next
      case False
      obtain sh1 w1 where f: "flushUnsafe sh (w\<lparr>w_buffer := b\<rparr>) = (sh1, w1)"
        by (cases "flushUnsafe sh (w\<lparr>w_buffer := b\<rparr>)")
      have "writeAggregatedLoop g sh1 w1 m sy es prec rate (drop pos vals) = (sh', w', err)"
        using less.prems(1) t wrote(5) False f by (simp add: writeAggregatedLoop.simps [of g sh])
      with less.hyps [of "drop pos vals" sh1 w1] stableD(1) [OF assms I f] wrote(1,2)
      show ?thesis by simp
    qed
  qed
qed

lemma writeEvent_stable:
  "stable I \<Longrightarrow> I sh w \<Longrightarrow> I sh (w\<lparr>w_buffer := fst (writeEvent g (w_buffer w) e gts od c)\<rparr>)"
  by (cases e) (simp_all add: writeEvent_push push_stable, simp add: writeEvent_def)

lemma writeServiceCheck_stable:
  "stable I \<Longrightarrow> I sh w \<Longrightarrow> I sh (w\<lparr>w_buffer := fst (writeServiceCheck g (w_buffer w) e gts od c)\<rparr>)"
  by (cases e) (simp_all add: writeServiceCheck_push push_stable, simp add: writeServiceCheck_def)

lemma writeMetricUnsafe_stable:
  assumes "stable I" and "I sh w" and "writeMetricUnsafe g sh w m = (sh', w', err)"
  shows "I sh' w'"
  using assms loop_stable [OF assms(1)]
  by (cases "m_type m")
    (auto simp: writeMetricUnsafe_def writeAggregatedMetricUnsafe_def with_buffer_def write_push
      push_stable writeEvent_stable writeServiceCheck_stable Let_def)

lemma processMetric_stable:
  assumes "stable I" and "I sh w" and "processMetric g draw sh w m = (sh', w', err)"
  shows "I sh' w'"
proof (cases "\<not> is_aggregated (m_type m) \<and> \<not> shouldSample (m_rate m) draw")
  case True
  with assms show ?thesis by (simp add: processMetric_def)
next
  case False
  obtain sh1 w1 e where r: "writeMetricUnsafe g sh w m = (sh1, w1, e)" by (metis prod_cases3)
  obtain sh2 w2 where f: "flushUnsafe sh1 w1 = (sh2, w2)" by (cases "flushUnsafe sh1 w1")
  note I1 = writeMetricUnsafe_stable [OF assms(1,2) r]
  show ?thesis
    using False assms(3) r f I1 writeMetricUnsafe_stable [OF assms(1) stableD(1) [OF assms(1) I1 f]]
    by (auto simp: processMetric_def split: if_splits)
qed

text \<open>A flush only adds to the log of payloads.\<close>

lemma log_grows: "stable (\<lambda>sh w. \<exists>L. sh_log sh = l0 @ L)"
  by (auto simp: stable_def flushUnsafe_def case_prod_unfold Let_def split: if_splits)

text \<open>Payloads are sequences of terminated elements: nothing is cut in the middle.\<close>

definition line_ended :: "bytes \<Rightarrow> bool" where
  "line_ended s \<longleftrightarrow> s = [] \<or> last s = nl"

definition whole :: "statsdBuffer \<Rightarrow> bool" where
  "whole b \<longleftrightarrow> line_ended (buf_bytes b)"

definition whole_payloads :: "int \<Rightarrow> int \<Rightarrow> shared \<Rightarrow> worker \<Rightarrow> bool" where
  "whole_payloads ms me sh w \<longleftrightarrow> sender_pool_ok ms me (sh_pool sh) (sh_sender sh)
     \<and> has_limits ms me (w_buffer w) \<and> list_all whole (sh_log sh) \<and> whole (w_buffer w)"

lemma whole_fresh: "fresh_buffer ms me b \<Longrightarrow> whole b"
  by (simp add: fresh_buffer_def whole_def buf_bytes_def newStatsdBuffer_def line_ended_def)

lemma flushUnsafe_whole:
  assumes "whole_payloads ms me sh w" and "flushUnsafe sh w = (sh', w')"
  shows "whole_payloads ms me sh' w'"
proof (cases "buf_bytes (w_buffer w) = []")
  case True
  with assms show ?thesis by (simp add: flushUnsafe_def)
next
  case False
  let ?r = "sender_send (sh_pool sh) (sh_sender sh) (w_buffer w)"
  have ok: "sender_pool_ok ms me (fst ?r) (snd ?r)"
    using assms(1) by (auto simp: whole_payloads_def intro: sender_pool_send)
  then have p: "wf_pool ms me (fst ?r)"
    by (simp add: sender_pool_ok_def)
  show ?thesis
    using assms False ok bp.borrow_fresh [OF p] bp.borrow_ok [OF p] whole_fresh
    by (auto simp: flushUnsafe_def whole_payloads_def sender_pool_ok_def case_prod_unfold Let_def)
qed

lemma whole_stable: "stable (whole_payloads ms me)"
  unfolding stable_def
  by (auto intro: flushUnsafe_whole)
    (auto simp: whole_payloads_def add_element_def has_limits_def whole_def buf_bytes_def line_ended_def)

lemma wf_state_pool_ok: "wf_state ms me sh w \<Longrightarrow> sender_pool_ok ms me (sh_pool sh) (sh_sender sh)"
  by (simp add: wf_state_def)

section \<open>The elements a processed metric yields\<close>

text \<open>
  The lines that processing a metric adds to the stream.  An aggregated metric yields chunks of
  its values, and exactly its values when each of them fits in a payload.
\<close>

definition emits :: "globals \<Rightarrow> int \<Rightarrow> int \<Rightarrow> f64 \<times> metric \<Rightarrow> bytes list \<Rightarrow> bool" where
  "emits g ms me = (\<lambda>(draw, m) ls.
     case aggregated_symbol (m_type m) of
       None \<Rightarrow> ls = accepted g ms me (draw, m)
     | Some (sy, prec) \<Rightarrow> (\<exists>chunks. ls = map (chunk_text g m sy prec) chunks
         \<and> (\<forall>c \<in> set chunks. c \<noteq> [] \<and> set c \<subseteq> set (m_fvalues m))
         \<and> (m_fvalues m \<noteq> [] \<and> (\<forall>v \<in> set (m_fvalues m). single_fits g ms me m sy prec v)
             \<longrightarrow> concat chunks = m_fvalues m)))"

lemma aggregated_symbol_None: "element_text g m = Some el \<Longrightarrow> aggregated_symbol (m_type m) = None"
  by (auto simp: element_text_def aggregated_symbol_def Let_def split: metricType.splits)

lemma processMetric_emits_some:
  assumes "wf_state ms me sh w" and "serializable g m"
    and run: "processMetric g draw sh w m = (sh', w', err)"
  shows "wf_state ms me sh' w'"
    and "\<exists>ls. emits g ms me (draw, m) ls \<and> stream sh' w' = stream sh w @ frame ls"
proof -
  show "wf_state ms me sh' w'"
    by (rule processMetric_wf [OF assms])
  show "\<exists>ls. emits g ms me (draw, m) ls \<and> stream sh' w' = stream sh w @ frame ls"
  proof (cases "element_text g m")
    case (Some el)
    have "stream sh' w' = stream sh w @ frame (accepted g ms me (draw, m))"
    proof (cases "shouldSample (m_rate m) draw")
      case True
      from processMetric_simple(3) [OF assms(1) Some True run] Some True show ?thesis
        by (simp add: accepted_def frame_def)
    next
      case False
      with processMetric_dropped [OF element_text_not_aggregated [OF Some] False, of g sh w] run Some
      show ?thesis by (simp add: accepted_def)
    qed
    then show ?thesis
      using aggregated_symbol_None [OF Some] by (auto simp: emits_def)
  next
    case None
    then obtain sy prec where a: "aggregated_symbol (m_type m) = Some (sy, prec)" "short_rate m"
      using assms(2) by (auto simp: serializable_def)
    note covers = short_rate_covers [OF a(2), of g sy]
    show ?thesis
    proof (cases "m_fvalues m \<noteq> [] \<and> (\<forall>v \<in> set (m_fvalues m). single_fits g ms me m sy prec v)")
      case True
      then obtain chunks where
        c: "stream sh' w' = stream sh w @ frame (map (chunk_text g m sy prec) chunks)"
        "[] \<notin> set chunks" "concat chunks = m_fvalues m"
        using processMetric_aggregated_fits(2) [OF assms(1) a(1) covers _ _ run] by blast
      moreover from c(2,3) have "\<forall>c \<in> set chunks. c \<noteq> [] \<and> set c \<subseteq> set (m_fvalues m)"
        by (metis Union_upper image_eqI set_concat)
      ultimately have "emits g ms me (draw, m) (map (chunk_text g m sy prec) chunks)"
        unfolding emits_def using a(1) by (auto intro!: exI [of _ chunks])
      with c(1) show ?thesis by blast
    next
      case False
      then obtain chunks where
        c: "stream sh' w' = stream sh w @ frame (map (chunk_text g m sy prec) chunks)"
        "\<forall>c \<in> set chunks. c \<noteq> [] \<and> set c \<subseteq> set (m_fvalues m)"
        using processMetric_aggregated_wf(2) [OF assms(1) a(1) covers run] by blast
      then have "emits g ms me (draw, m) (map (chunk_text g m sy prec) chunks)"
        unfolding emits_def using a(1) False by (auto intro!: exI [of _ chunks])
      with c(1) show ?thesis by blast
    qed
  qed
qed

section \<open>Streams of the workers of a client\<close>

definition payloads_of :: "ClientEx \<Rightarrow> nat \<Rightarrow> statsdBuffer list" where
  "payloads_of c i = map snd (filter (\<lambda>(j, b). j = i) (c_sent c))"

definition worker_stream :: "ClientEx \<Rightarrow> nat \<Rightarrow> bytes" where
  "worker_stream c i =
     concat (map buf_bytes (payloads_of c i)) @ buf_bytes (w_buffer (c_workers c ! i))"

definition done_of :: "ClientEx \<Rightarrow> nat \<Rightarrow> (f64 \<times> metric) list" where
  "done_of c i = map (\<lambda>(j, draw, m, err). (draw, m)) (filter (\<lambda>(j, r). j = i) (c_done c))"

definition wrote :: "globals \<Rightarrow> int \<Rightarrow> int \<Rightarrow> (f64 \<times> metric) list \<Rightarrow> bytes \<Rightarrow> bool" where
  "wrote g ms me dms s \<longleftrightarrow> (\<exists>lss. list_all2 (emits g ms me) dms lss \<and> s = frame (concat lss))"

lemma wrote_Nil [simp]: "wrote g ms me [] s \<longleftrightarrow> s = []"
  by (auto simp: wrote_def)

lemma wrote_snoc:
  assumes "wrote g ms me dms s" and "emits g ms me dm ls"
  shows "wrote g ms me (dms @ [dm]) (s @ frame ls)"
proof -
  obtain lss where "list_all2 (emits g ms me) dms lss" "s = frame (concat lss)"
    using assms(1) by (auto simp: wrote_def)
  with assms(2) show ?thesis
    unfolding wrote_def
    by (intro exI [of _ "lss @ [ls]"]) (auto simp: frame_append intro: list_all2_appendI)
qed

lemma filter_Pair [simp]: "filter (\<lambda>(j, b). j = i) (map (Pair k) xs) = (if k = i then map (Pair k) xs else [])"
  by (induction xs) auto

lemma on_worker_result:
  assumes "on_worker i f c = (c', e)" and "f (c_shared c) (c_workers c ! i) = (sh', w', e')"
    and "sh_log sh' = sh_log (c_shared c) @ L"
  shows "e' = e"
    and "c' = c\<lparr>c_shared := sh', c_workers := (c_workers c)[i := w'],
           c_sent := c_sent c @ map (Pair i) L\<rparr>"
  using assms by (auto simp: on_worker_def)

lemma on_worker_stream:
  assumes "on_worker i f c = (c', e)" and "f (c_shared c) (c_workers c ! i) = (sh', w', e)"
    and "sh_log sh' = sh_log (c_shared c) @ L" and "i < length (c_workers c)"
    and "stream sh' w' = stream (c_shared c) (c_workers c ! i) @ X"
  shows "worker_stream c' j = worker_stream c j @ (if j = i then X else [])"
  using on_worker_result(2) [OF assms(1-3)] assms(3-5)
  by (auto simp: worker_stream_def payloads_of_def stream_def nth_list_update comp_def)

section \<open>Activities\<close>

text \<open>What every activity leaves alone.\<close>

definition config where
  "config c = (c_namespace c, c_tags c, c_inputCap c, c_workersMode c, c_aggregatorMode c,
     c_extended c, c_errorOnBlockedChannel c, c_hasErrorHandler c, c_originDetection c,
     c_defaultCardinality c, length (c_workers c), length (c_inputs c))"

inductive activity :: "globals \<Rightarrow> ClientEx \<Rightarrow> ClientEx \<Rightarrow> bool" for g where
  process: "i < length (c_workers c) \<Longrightarrow> worker_processMetric g draw i m c = Done (c', err) \<Longrightarrow>
    activity g c c'"
| flush: "i < length (c_workers c) \<Longrightarrow> activity g c (worker_flush i c)"
| drain: "activity g c (sender_drain outs c)"
| turn: "activity g c (sender_turn out c)"
| other: "c_shared c' = c_shared c \<Longrightarrow> c_workers c' = c_workers c \<Longrightarrow> c_sent c' = c_sent c \<Longrightarrow>
    c_done c' = c_done c \<Longrightarrow> config c' = config c \<Longrightarrow> activity g c c'"

definition activities :: "globals \<Rightarrow> ClientEx \<Rightarrow> ClientEx \<Rightarrow> bool" where
  "activities g = (activity g)\<^sup>*\<^sup>*"

lemma activities_refl [simp, intro]: "activities g c c"
  by (simp add: activities_def)

lemma activities_trans [trans]: "activities g a b \<Longrightarrow> activities g b c \<Longrightarrow> activities g a c"
  by (simp add: activities_def)

lemma activity_activities: "activity g a b \<Longrightarrow> activities g a b"
  by (simp add: activities_def r_into_rtranclp)

lemma activities_step: "activities g a b \<Longrightarrow> activity g b c \<Longrightarrow> activities g a c"
  by (simp add: activities_def)

lemma config_on_worker: "on_worker i f c = (c', e) \<Longrightarrow> config c' = config c"
  by (auto simp: on_worker_def config_def split: prod.splits)

lemma worker_processMetric_Done:
  assumes "worker_processMetric g draw i m c = Done (c', err)"
  obtains c1 where "on_worker i (\<lambda>sh w. processMetric g draw sh w m) c = (c1, err)"
    "c' = c1\<lparr>c_done := c_done c1 @ [(i, draw, m, err)]\<rparr>"
  using assms by (auto simp: worker_processMetric_def split: prod.splits if_splits)

lemma activity_config: "activity g c c' \<Longrightarrow> config c' = config c"
proof (induction rule: activity.induct)
  case (process i c draw m c' err)
  from process(2) show ?case
    by (elim worker_processMetric_Done) (auto dest: config_on_worker simp: config_def)
next
  case (flush i c)
  show ?case
    unfolding worker_flush_def
    by (metis config_on_worker prod.collapse)
qed (auto simp: sender_drain_def sender_turn_def config_def Let_def split: prod.splits list.splits)

lemma activities_config: "activities g c c' \<Longrightarrow> config c' = config c"
  unfolding activities_def by (induction rule: rtranclp_induct) (auto dest: activity_config)

section \<open>The invariant of a client\<close>

definition all_serializable :: "globals \<Rightarrow> ClientEx \<Rightarrow> bool" where
  "all_serializable g c \<longleftrightarrow> list_all (\<lambda>(i, draw, m, err). serializable g m) (c_done c)"

definition client_ok :: "int \<Rightarrow> int \<Rightarrow> ClientEx \<Rightarrow> bool" where
  "client_ok ms me c \<longleftrightarrow> map snd (c_sent c) = sh_log (c_shared c)
     \<and> list_all (\<lambda>(i, b). i < length (c_workers c)) (c_sent c)
     \<and> list_all (\<lambda>(i, r). i < length (c_workers c)) (c_done c)
     \<and> sender_pool_ok ms me (sh_pool (c_shared c)) (sh_sender (c_shared c))
     \<and> ledger (sh_log (c_shared c)) (sh_sender (c_shared c))
     \<and> list_all (whole_payloads ms me (c_shared c)) (c_workers c)"

definition client_inv :: "globals \<Rightarrow> int \<Rightarrow> int \<Rightarrow> ClientEx \<Rightarrow> bool" where
  "client_inv g ms me c \<longleftrightarrow> client_ok ms me c \<and> (all_serializable g c \<longrightarrow>
     (\<forall>i < length (c_workers c). wf_state ms me (c_shared c) (c_workers c ! i)
        \<and> wrote g ms me (done_of c i) (worker_stream c i)))"

text \<open>Another worker's operation matters to a worker through the shared state only.\<close>

lemma wf_state_other: "wf_state ms me sh w \<Longrightarrow> wf_state ms me sh' w' \<Longrightarrow> wf_state ms me sh' w"
  by (simp add: wf_state_def)

lemma whole_other:
  "whole_payloads ms me sh w \<Longrightarrow> whole_payloads ms me sh' w' \<Longrightarrow> whole_payloads ms me sh' w"
  by (simp add: whole_payloads_def)

lemma list_all_update:
  "list_all P xs \<Longrightarrow> (\<And>x. P x \<Longrightarrow> Q x) \<Longrightarrow> Q y \<Longrightarrow> list_all Q (xs[i := y])"
  by (auto simp: list_all_iff dest!: set_update_subset_insert [THEN subsetD])

lemma ledger_stable: "stable (\<lambda>sh w. ledger (sh_log sh) (sh_sender sh))"
  unfolding stable_def
  by (auto simp: flushUnsafe_def case_prod_unfold Let_def ledger_send split: if_splits)

text \<open>An operation that keeps every stable property of its worker keeps \<open>client_ok\<close>.\<close>

definition keeps_stable :: "shared \<Rightarrow> worker \<Rightarrow> shared \<Rightarrow> worker \<Rightarrow> bool" where
  "keeps_stable sh w sh' w' \<longleftrightarrow> (\<forall>I. stable I \<longrightarrow> I sh w \<longrightarrow> I sh' w')"

lemma keeps_stableD: "keeps_stable sh w sh' w' \<Longrightarrow> stable I \<Longrightarrow> I sh w \<Longrightarrow> I sh' w'"
  unfolding keeps_stable_def by blast

lemma keeps_process: "processMetric g draw sh w m = (sh', w', err) \<Longrightarrow> keeps_stable sh w sh' w'"
  unfolding keeps_stable_def by (blast intro: processMetric_stable)

lemma keeps_flush: "flushUnsafe sh w = (sh', w') \<Longrightarrow> keeps_stable sh w sh' w'"
  unfolding keeps_stable_def by (blast intro: stableD(1))

lemma on_worker_ok:
  assumes "client_ok ms me c" and "i < length (c_workers c)"
    and "on_worker i f c = (c', e)" and "f (c_shared c) (c_workers c ! i) = (sh', w', e)"
    and keeps: "keeps_stable (c_shared c) (c_workers c ! i) sh' w'"
  shows "client_ok ms me c'"
    and "\<exists>L. sh_log sh' = sh_log (c_shared c) @ L"
proof -
  show L: "\<exists>L. sh_log sh' = sh_log (c_shared c) @ L"
    by (rule keeps_stableD [OF keeps log_grows]) (rule exI [of _ "[]"], simp)
  then obtain L where L: "sh_log sh' = sh_log (c_shared c) @ L" ..
  note c' = on_worker_result(2) [OF assms(3,4) L]
  have w: "whole_payloads ms me (c_shared c) (c_workers c ! i)"
    using assms(1,2) by (simp add: client_ok_def list_all_length)
  have w': "whole_payloads ms me sh' w'"
    by (rule keeps_stableD [OF keeps whole_stable w])
  have l: "ledger (sh_log sh') (sh_sender sh')"
    by (rule keeps_stableD [OF keeps ledger_stable]) (use assms(1) in \<open>simp add: client_ok_def\<close>)
  have all: "list_all (whole_payloads ms me sh') ((c_workers c)[i := w'])"
  proof (rule list_all_update)
    show "list_all (whole_payloads ms me (c_shared c)) (c_workers c)"
      using assms(1) by (simp add: client_ok_def)
  qed (fact whole_other [OF _ w'], fact w')
  have "map snd (c_sent c @ map (Pair i) L) = sh_log sh'"
    using assms(1) L by (simp add: client_ok_def comp_def)
  moreover have "list_all (\<lambda>(j, b). j < length (c_workers c)) (map (Pair i) L)"
    using assms(2) by (simp add: list_all_iff)
  moreover have "sender_pool_ok ms me (sh_pool sh') (sh_sender sh')"
    using w' by (simp add: whole_payloads_def)
  ultimately show "client_ok ms me c'"
    using assms(1) all l unfolding client_ok_def c' by simp
qed

lemma process_inv:
  assumes "client_inv g ms me c" and "i < length (c_workers c)"
    and "worker_processMetric g draw i m c = Done (c', err)"
  shows "client_inv g ms me c'"
proof -
  from assms(3) obtain c1 where
    o: "on_worker i (\<lambda>sh w. processMetric g draw sh w m) c = (c1, err)"
    and c': "c' = c1\<lparr>c_done := c_done c1 @ [(i, draw, m, err)]\<rparr>"
    by (rule worker_processMetric_Done)
  obtain sh' w' where r: "processMetric g draw (c_shared c) (c_workers c ! i) m = (sh', w', err)"
    using o by (auto simp: on_worker_def split: prod.splits)
  have ok: "client_ok ms me c"
    using assms(1) by (simp add: client_inv_def)
  note S = on_worker_ok [OF ok assms(2) o r keeps_process [OF r]]
  then obtain L where L: "sh_log sh' = sh_log (c_shared c) @ L" by blast
  note c1 = on_worker_result(2) [OF o r L]
  have ok': "client_ok ms me c'"
    using S(1) assms(2) by (simp add: client_ok_def c' c1)
  have "wf_state ms me (c_shared c') (c_workers c' ! j) \<and> wrote g ms me (done_of c' j) (worker_stream c' j)"
    if "all_serializable g c'" and j: "j < length (c_workers c')" for j
  proof -
    have sm: "serializable g m" and sc: "all_serializable g c"
      using that(1) by (simp_all add: all_serializable_def c' c1)
    have wf: "wf_state ms me (c_shared c) (c_workers c ! k)"
      and wr: "wrote g ms me (done_of c k) (worker_stream c k)" if "k < length (c_workers c)" for k
      using assms(1) sc that by (simp_all add: client_inv_def)
    have j': "j < length (c_workers c)"
      using j by (simp add: c' c1)
    note e = processMetric_emits_some [OF wf [OF assms(2)] sm r]
    then obtain ls where ls: "emits g ms me (draw, m) ls"
      "stream sh' w' = stream (c_shared c) (c_workers c ! i) @ frame ls" by blast
    note st = on_worker_stream [OF o r L assms(2) ls(2), of j]
    have "worker_stream c' j = worker_stream c1 j" and "done_of c' j
        = done_of c j @ (if j = i then [(draw, m)] else [])"
      by (simp_all add: c' c1 worker_stream_def payloads_of_def done_of_def)
    then show ?thesis
      using st wf [OF j'] wr [OF j'] e(1) ls(1) assms(2) wf_state_other [OF wf [OF j'] e(1)]
      by (cases "j = i") (simp_all add: c' c1 wrote_snoc)
  qed
  with ok' show ?thesis by (simp add: client_inv_def)
qed

text \<open>A flush of a worker adds nothing to any stream.\<close>

lemma worker_flush_result:
  assumes "flushUnsafe (c_shared c) (c_workers c ! i) = (sh', w')"
  shows "on_worker i (\<lambda>sh w. case flushUnsafe sh w of (sh, w) \<Rightarrow> (sh, w, ())) c = (worker_flush i c, ())"
  by (simp add: worker_flush_def prod_eq_iff)

lemma flush_inv:
  assumes "client_inv g ms me c" and "i < length (c_workers c)"
  shows "client_inv g ms me (worker_flush i c)"
proof -
  obtain sh' w' where r: "flushUnsafe (c_shared c) (c_workers c ! i) = (sh', w')"
    by (cases "flushUnsafe (c_shared c) (c_workers c ! i)")
  let ?f = "\<lambda>sh w. case flushUnsafe sh w of (sh, w) \<Rightarrow> (sh, w, ())"
  note o = worker_flush_result [OF r]
  have r': "?f (c_shared c) (c_workers c ! i) = (sh', w', ())"
    by (simp add: r)
  have ok: "client_ok ms me c"
    using assms(1) by (simp add: client_inv_def)
  note S = on_worker_ok [OF ok assms(2) o r' keeps_flush [OF r]]
  then obtain L where L: "sh_log sh' = sh_log (c_shared c) @ L" by blast
  note c' = on_worker_result(2) [OF o r' L]
  have "wf_state ms me (c_shared (worker_flush i c)) (c_workers (worker_flush i c) ! j)
      \<and> wrote g ms me (done_of (worker_flush i c) j) (worker_stream (worker_flush i c) j)"
    if "all_serializable g (worker_flush i c)" and j: "j < length (c_workers (worker_flush i c))" for j
  proof -
    have wf: "wf_state ms me (c_shared c) (c_workers c ! k)"
      and wr: "wrote g ms me (done_of c k) (worker_stream c k)" if "k < length (c_workers c)" for k
      using assms(1) \<open>all_serializable g (worker_flush i c)\<close> that
      by (simp_all add: client_inv_def all_serializable_def c')
    have j': "j < length (c_workers c)"
      using j by (simp add: c')
    note wf' = flushUnsafe_wf(1) [OF r wf [OF assms(2)]]
    have "stream sh' w' = stream (c_shared c) (c_workers c ! i) @ []"
      using flushUnsafe_stream [OF r wf [OF assms(2)]] by simp
    note st = on_worker_stream [OF o r' L assms(2) this, of j]
    have "done_of (worker_flush i c) j = done_of c j"
      by (simp add: c' done_of_def)
    with st show ?thesis
      using wf' wr [OF j'] wf_state_other [OF wf [OF j'] wf']
      by (cases "j = i") (simp_all add: c' assms(2))
  qed
  with S(1) show ?thesis by (simp add: client_inv_def)
qed

text \<open>The sender's work touches the pool and the queue only.\<close>

lemma new_sender_inv:
  assumes "client_inv g ms me c" and "sender_pool_ok ms me p s"
    and "ledger (sh_log (c_shared c)) s"
  shows "client_inv g ms me (c\<lparr>c_shared := (c_shared c)\<lparr>sh_pool := p, sh_sender := s\<rparr>\<rparr>)"
  using assms
  by (simp add: client_inv_def client_ok_def wf_state_def all_serializable_def done_of_def
      worker_stream_def payloads_of_def list_all_length whole_payloads_def)

lemma client_inv_sender:
  "client_inv g ms me c \<Longrightarrow> sender_pool_ok ms me (sh_pool (c_shared c)) (sh_sender (c_shared c))
     \<and> ledger (sh_log (c_shared c)) (sh_sender (c_shared c))"
  by (simp add: client_inv_def client_ok_def)

lemma drain_inv: "client_inv g ms me c \<Longrightarrow> client_inv g ms me (sender_drain outs c)"
  unfolding sender_drain_def case_prod_unfold
  by (intro new_sender_inv sender_pool_flush ledger_flush) (simp_all add: client_inv_sender)

lemma turn_inv: "client_inv g ms me c \<Longrightarrow> client_inv g ms me (sender_turn out c)"
proof (cases "queue (sh_sender (c_shared c))")
  case (Cons b q)
  assume inv: "client_inv g ms me c"
  with Cons show ?thesis
    unfolding sender_turn_def case_prod_unfold Let_def
    by (auto intro!: new_sender_inv sender_pool_write ledger_write simp: client_inv_sender)
qed (simp add: sender_turn_def)

lemma other_inv:
  assumes "client_inv g ms me c" and "c_shared c' = c_shared c" and "c_workers c' = c_workers c"
    and "c_sent c' = c_sent c" and "c_done c' = c_done c"
  shows "client_inv g ms me c'"
  using assms by (simp add: client_inv_def client_ok_def all_serializable_def done_of_def
      worker_stream_def payloads_of_def)

lemma activity_inv: "activity g c c' \<Longrightarrow> client_inv g ms me c \<Longrightarrow> client_inv g ms me c'"
  by (induction rule: activity.induct)
    (auto intro: process_inv flush_inv drain_inv turn_inv other_inv)

lemma activities_inv: "activities g c c' \<Longrightarrow> client_inv g ms me c \<Longrightarrow> client_inv g ms me c'"
  unfolding activities_def by (induction rule: rtranclp_induct) (auto intro: activity_inv)

end
