(* ===== verification/Client_Run.thy ===== *)
theory Client_Run
  imports Client_Facts
begin

text \<open>
  Runs of a client: every operation consists of activities, so the invariant holds after every
  run that returns, whatever the interleaving of calls with the goroutines.
\<close>

section \<open>Operations as activities\<close>

lemma workerIndex_less: "workerIndex c name = Some i \<Longrightarrow> i < length (c_workers c)"
proof -
  assume i: "workerIndex c name = Some i"
  let ?n = "of_nat (length (c_workers c)) :: u32"
  have n: "?n \<noteq> 0" and i: "i = unat (hashString32 name mod ?n)"
    using i by (auto simp: workerIndex_def Let_def split: if_splits)
  have "hashString32 name mod ?n < ?n"
    using n by (simp add: word_mod_less_divisor word_gt_0)
  then have "i < unat ?n"
    using i word_less_nat_alt by blast
  also have "unat ?n \<le> length (c_workers c)"
    by (simp add: unat_of_nat)
  finally show ?thesis .
qed

lemma obind_DoneE:
  assumes "obind x f = Done y"
  obtains z where "x = Done z" and "f z = Done y"
  using assms by (cases x) auto

lemma or_panic_Done [simp]: "or_panic x = Done y \<longleftrightarrow> x = Some y"
  by (simp add: or_panic_def split: option.split)

lemma same_activities:
  "c_shared c' = c_shared c \<Longrightarrow> c_workers c' = c_workers c \<Longrightarrow> c_sent c' = c_sent c \<Longrightarrow>
   c_done c' = c_done c \<Longrightarrow> config c' = config c \<Longrightarrow> activities g c c'"
  by (intro activity_activities other)

lemma process_activities:
  "worker_processMetric g draw i m c = Done (c', err) \<Longrightarrow> i < length (c_workers c) \<Longrightarrow>
   activities g c c'"
  by (intro activity_activities process)

lemma dropOnReceive_activities: "dropOnReceive m n msg c = (c', err) \<Longrightarrow> activities g c c'"
  by (intro same_activities) (auto simp: dropOnReceive_def config_def Let_def split: if_splits)

lemma client_send_activities:
  assumes "client_send g draw m c = Done (c', err)"
  shows "activities g c c'"
proof -
  obtain i where i: "workerIndex c (m_name m) = Some i"
    using assms by (cases "workerIndex c (m_name m)") (auto simp: client_send_def)
  show ?thesis
    using assms i workerIndex_less [OF i]
    by (auto simp: client_send_def config_def elim!: obind_DoneE
        intro: process_activities dropOnReceive_activities same_activities split: if_splits prod.splits)
qed

lemma sendBlocking_activities:
  assumes "sendBlocking g draw m c = Done (c', err)"
  shows "activities g c c'"
  using assms workerIndex_less [of c "m_name m"]
  by (auto simp: sendBlocking_def Let_def elim!: obind_DoneE intro: process_activities
      split: option.splits)

lemma sendAll_activities: "sendAll g draws ms c = Done c' \<Longrightarrow> activities g c c'"
proof (induction ms arbitrary: draws c)
  case (Cons m ms)
  then obtain c1 e where "sendBlocking g (draws 0) m c = Done (c1, e)"
    and "sendAll g (\<lambda>i. draws (Suc i)) ms c1 = Done c'"
    by (auto elim!: obind_DoneE)
  with Cons.IH sendBlocking_activities activities_trans show ?case by blast
qed simp

lemma sendToAggregator_activities:
  "sendToAggregator ty name v ts rt f crd a c = Done (c', err) \<Longrightarrow> activities g c c'"
  by (auto simp: sendToAggregator_def Let_def config_def elim!: obind_DoneE split: if_splits
      intro: dropOnReceive_activities same_activities)

lemma aggregator_flush_activities:
  assumes "aggregator_flush g v draws c = Done c'"
  shows "activities g c c'"
proof (cases "c_agg c")
  case (Some a)
  obtain a' ms where f: "flushMetrics v a = (a', ms)" by (cases "flushMetrics v a")
  have "activities g c (c\<lparr>c_agg := Some a'\<rparr>)"
    by (intro same_activities) (simp_all add: config_def)
  with assms Some f sendAll_activities activities_trans show ?thesis
    by (fastforce simp: aggregator_flush_def)
qed (use assms in \<open>simp add: aggregator_flush_def\<close>)

lemma foldl_flush_activities:
  "list_all (\<lambda>i. i < length (c_workers c)) is \<Longrightarrow> activities g c (foldl (\<lambda>c i. worker_flush i c) c is)"
proof (induction "is" arbitrary: c)
  case (Cons i "is")
  then have f: "activity g c (worker_flush i c)"
    by (auto intro: flush)
  then have "length (c_workers (worker_flush i c)) = length (c_workers c)"
    using activity_config by (force simp: config_def)
  with Cons f show ?case
    using activities_trans [OF activity_activities [OF f]] by simp
qed simp

lemma flush_workers_activities: "activities g c (flush_workers c)"
  unfolding flush_workers_def by (rule foldl_flush_activities) (simp add: list_all_iff)

lemma client_flush_activities:
  assumes "client_flush g e c = Done c'"
  shows "activities g c c'"
proof -
  from assms obtain c1 where c1: "aggregator_flush g (fe_visits e) (fe_draws e) c = Done c1"
    and c': "sender_flush (fe_outs e) (flush_workers c1) = Done c'"
    unfolding client_flush_def by (elim obind_DoneE)
  have "c' = sender_drain (fe_outs e) (flush_workers c1)"
    using c' by (simp add: sender_flush_def split: if_splits)
  with aggregator_flush_activities [OF c1] flush_workers_activities [of g c1] show ?thesis
    by (metis activities_trans activity_activities drain)
qed

text \<open>A method that first counts its call.\<close>

definition quiet :: "ClientEx \<Rightarrow> ClientEx \<Rightarrow> bool" where
  "quiet c c' \<longleftrightarrow> c_shared c' = c_shared c \<and> c_workers c' = c_workers c \<and> c_sent c' = c_sent c
     \<and> c_done c' = c_done c \<and> config c' = config c"

lemma quiet_activities: "quiet c c1 \<Longrightarrow> activities g c1 c' \<Longrightarrow> activities g c c'"
  by (rule activities_trans [OF same_activities]) (auto simp: quiet_def)

lemma quiet_only: "quiet c c1 \<Longrightarrow> activities g c c1"
  by (erule quiet_activities) simp

lemma quiet_telemetry [simp]:
  "quiet c (c\<lparr>c_telemetry := t\<rparr>)" "quiet c (c\<lparr>c_agg := a\<rparr>)" "quiet c (c\<lparr>c_telemetry := t, c_agg := a\<rparr>)"
  "quiet c (c\<lparr>c_isClosed := b\<rparr>)"
  "quiet c (c\<lparr>c_aggInput := ms, c_agg := a\<rparr>)" "quiet c (c\<lparr>c_inputs := (c_inputs c)[i := q]\<rparr>)"
  by (simp_all add: quiet_def config_def)

lemmas method_defs =
  client_Gauge_def client_GaugeWithTimestamp_def client_Count_def client_CountWithTimestamp_def
  client_Histogram_def client_Distribution_def client_Decr_def client_Incr_def client_Set_def
  client_Timing_def client_TimeInMilliseconds_def client_Event_def client_SimpleEvent_def
  client_ServiceCheck_def client_SimpleServiceCheck_def client_DistributionSamples_def

lemma unless_nil_Done:
  assumes "unless_nil (Some c) f = Done (cp, err)"
  obtains c' where "cp = Some c'" and "f c = Done (c', err)"
  using assms by (auto simp: unless_nil_def elim!: obind_DoneE)

lemma unless_nil_None [simp]: "unless_nil None f = Done (None, Some ErrNoClient)"
  by (simp add: unless_nil_def)

lemma worker_pull_activities:
  assumes "worker_pull g draw i c = Done c'" and "length (c_inputs c) \<le> length (c_workers c)"
  shows "activities g c c'"
proof (cases "i < length (c_inputs c) \<and> c_inputs c ! i \<noteq> []")
  case True
  then obtain m ms where q: "c_inputs c ! i = m # ms" by (cases "c_inputs c ! i") auto
  with assms True obtain e where
    p: "worker_processMetric g draw i m (c\<lparr>c_inputs := (c_inputs c)[i := ms]\<rparr>) = Done (c', e)"
    by (auto simp: worker_pull_def elim!: obind_DoneE)
  show ?thesis
    by (rule quiet_activities [OF _ process_activities [OF p]]) (use True assms(2) in simp_all)
next
  case False
  with assms show ?thesis by (auto simp: worker_pull_def split: list.splits)
qed

lemma aggregator_pull_activities: "aggregator_pull r c = Done c' \<Longrightarrow> activities g c c'"
  by (auto simp: aggregator_pull_def elim!: obind_DoneE split: list.splits option.splits
      intro: quiet_only)

lemma close_activities:
  assumes "client_flush g e c = Done c1"
  shows "activities g c (sender_drain outs (c1\<lparr>c_isClosed := b\<rparr>))"
proof -
  note client_flush_activities [OF assms]
  also have "activities g c1 (c1\<lparr>c_isClosed := b\<rparr>)" by (rule quiet_only) simp
  also have "activities g (c1\<lparr>c_isClosed := b\<rparr>) (sender_drain outs (c1\<lparr>c_isClosed := b\<rparr>))"
    by (intro activity_activities drain)
  finally show ?thesis .
qed

text \<open>The two shapes of a method's body: after the call is counted, aggregate or send.\<close>

lemma aggregate_or_send:
  assumes "(case oa of
      None \<Rightarrow> client_send g draw m (c\<lparr>c_telemetry := t\<rparr>)
    | Some a \<Rightarrow> obind (or_panic (f a)) (\<lambda>a. Done (c\<lparr>c_telemetry := t, c_agg := Some a\<rparr>, None)))
      = Done (c', err)"
  shows "activities g c c'"
  using assms quiet_activities [OF quiet_telemetry(1) client_send_activities]
  by (auto split: option.splits elim!: obind_DoneE intro: quiet_only)

lemma buffer_or_send:
  assumes "(case oa of
      None \<Rightarrow> client_send g draw m (c\<lparr>c_telemetry := t\<rparr>)
    | Some a \<Rightarrow> sendToAggregator ty name v ts rt f crd a (c\<lparr>c_telemetry := t\<rparr>)) = Done (c', err)"
  shows "activities g c c'"
  using assms quiet_activities [OF quiet_telemetry(1) client_send_activities]
    quiet_activities [OF quiet_telemetry(1) sendToAggregator_activities]
  by (auto split: option.splits)

lemmas counted =
  aggregate_or_send buffer_or_send quiet_activities [OF quiet_telemetry(1) client_send_activities]

lemmas activity_rules =
  counted quiet_only client_flush_activities
  aggregator_flush_activities aggregator_pull_activities flush_workers_activities
  activity_activities [OF turn]

lemma goroutine_Done:
  assumes "goroutine f (Some c) = Done (cp, err)"
  obtains (gone) "cp = Some c"
  | (alive) c' where "cp = Some c'" "f c = Done c'"
  using assms by (auto simp: goroutine_def elim!: unless_nil_Done obind_DoneE split: if_splits)

lemma client_step_activities:
  assumes "client_step g op (Some c) = Done (cp, err)" and "length (c_inputs c) \<le> length (c_workers c)"
  shows "\<exists>c'. cp = Some c' \<and> activities g c c'"
proof -
  note a = assms(1)
  show ?thesis
  proof (cases "(g, op, Some c)" rule: client_step.cases)
    case (18 g e outs cp)
    with a show ?thesis
      by (auto simp: client_Close_def Let_def elim!: unless_nil_Done obind_DoneE split: if_splits
          intro: close_activities)
  qed (use a assms(2) in \<open>auto simp: method_defs client_Flush_def watch_tick_def Let_def
      elim!: unless_nil_Done obind_DoneE goroutine_Done split: if_splits
      intro: activity_rules worker_pull_activities\<close>)
qed

section \<open>Runs\<close>

lemma client_run_Cons:
  assumes "client_run g (op # ops) (Some c) = Done (cp, errs)"
    and "length (c_inputs c) \<le> length (c_workers c)"
  obtains c1 err errs1 where "client_step g op (Some c) = Done (Some c1, err)"
    "activities g c c1" "client_run g ops (Some c1) = Done (cp, errs1)" "errs = err # errs1"
    "length (c_inputs c1) \<le> length (c_workers c1)"
proof -
  obtain cp1 err errs1 where s: "client_step g op (Some c) = Done (cp1, err)"
    and r: "client_run g ops cp1 = Done (cp, errs1)" "errs = err # errs1"
    using assms(1) by (auto elim!: obind_DoneE)
  obtain c1 where "cp1 = Some c1" "activities g c c1"
    using client_step_activities [OF s assms(2)] by blast
  moreover from this have "length (c_inputs c1) \<le> length (c_workers c1)"
    using activities_config assms(2) by (force simp: config_def)
  ultimately show ?thesis
    using s r that by blast
qed

lemma client_run_activities:
  "client_run g ops (Some c) = Done (cp, errs) \<Longrightarrow> length (c_inputs c) \<le> length (c_workers c) \<Longrightarrow>
   (\<exists>c'. cp = Some c' \<and> activities g c c') \<and> length errs = length ops"
proof (induction ops arbitrary: c errs)
  case (Cons op ops)
  from Cons.prems show ?case
    by (rule client_run_Cons) (use Cons.IH activities_trans in fastforce)
qed auto

lemma obind_assoc: "obind (obind x f) h = obind x (\<lambda>y. obind (f y) h)"
  by (cases x) auto

lemma obind_Done_right [simp]: "obind x Done = x"
  by (cases x) auto

lemma client_run_append:
  "client_run g (ops @ ops') cp = obind (client_run g ops cp) (\<lambda>(cp, errs).
     obind (client_run g ops' cp) (\<lambda>(cp, errs'). Done (cp, errs @ errs')))"
  by (induction ops arbitrary: cp) (simp_all add: obind_assoc case_prod_unfold)

end
