(* ===== verification/Client_Delivery.thy ===== *)
theory Client_Delivery
  imports Client_Run
begin

text \<open>
  What reaches the transport.  Each worker's payloads hold the elements of the metrics it
  processed, in order; after a flush nothing is left behind, so that if no drop was counted the
  lines on the wire are exactly those elements.
\<close>

section \<open>A client at its start\<close>

definition new_client :: "int \<Rightarrow> int \<Rightarrow> ClientEx \<Rightarrow> bool" where
  "new_client ms me c \<longleftrightarrow> c_sent c = [] \<and> c_done c = [] \<and> sh_log (c_shared c) = []
     \<and> wf_pool ms me (sh_pool (c_shared c))
     \<and> (\<exists>qs h. sh_sender (c_shared c) = newSender qs h)
     \<and> list_all (\<lambda>w. fresh_buffer ms me (w_buffer w)) (c_workers c)
     \<and> length (c_inputs c) \<le> length (c_workers c) \<and> list_all (\<lambda>q. q = []) (c_inputs c)
     \<and> c_aggInput c = [] \<and> c_telemetry c = zero_statsdTelemetry \<and> c_handled c = []
     \<and> \<not> c_isClosed c"

lemma new_client_start:
  assumes "new_client ms me c"
  shows "client_inv g ms me c"
proof -
  obtain qs h where s: "sh_sender (c_shared c) = newSender qs h"
    using assms by (auto simp: new_client_def)
  have pool: "sender_pool_ok ms me (sh_pool (c_shared c)) (newSender qs h)"
    using assms by (simp add: new_client_def sender_pool_ok_def newSender_def)
  have w: "wf_buffer (w_buffer w)" "has_limits ms me (w_buffer w)" "whole (w_buffer w)"
    "buf_bytes (w_buffer w) = []" if "w \<in> set (c_workers c)" for w
  proof -
    have "fresh_buffer ms me (w_buffer w)"
      using assms that by (auto simp: new_client_def list_all_iff)
    then show "wf_buffer (w_buffer w)" "has_limits ms me (w_buffer w)" "whole (w_buffer w)"
      "buf_bytes (w_buffer w) = []"
      by (simp_all add: whole_fresh) (simp add: fresh_buffer_def newStatsdBuffer_def buf_bytes_def)
  qed
  show ?thesis
    using assms s pool w ledger_start [of qs h]
    by (auto simp: new_client_def client_inv_def client_ok_def wf_state_def whole_payloads_def
        worker_stream_def payloads_of_def done_of_def list_all_iff)
qed

lemma client_run_inv:
  assumes "new_client ms me c0" and "client_run g ops (Some c0) = Done (Some c, errs)"
  shows "client_inv g ms me c" and "activities g c0 c"
proof -
  show a: "activities g c0 c"
    using client_run_activities [OF assms(2)] assms(1) by (auto simp: new_client_def)
  show "client_inv g ms me c"
    by (rule activities_inv [OF a new_client_start [OF assms(1)]])
qed

section \<open>Lines of payloads\<close>

definition lines_of :: "bytes list \<Rightarrow> bytes list" where
  "lines_of ps = concat (map (split_lines []) ps)"

lemma split_lines_append:
  "line_ended a \<Longrightarrow> split_lines acc (a @ b) =
     (if a = [] then split_lines acc b else split_lines acc a @ split_lines [] b)"
proof (induction a arbitrary: acc)
  case (Cons x a)
  then show ?case
    by (cases "a = []") (auto simp: line_ended_def)
qed simp

lemma split_lines_concat:
  "list_all line_ended ps \<Longrightarrow> split_lines [] (concat ps) = lines_of ps"
  by (induction ps) (auto simp: split_lines_append lines_of_def)

section \<open>Collecting what the workers did\<close>

lemma sum_fun_upd_lessThan:
  fixes f :: "nat \<Rightarrow> 'a :: comm_monoid_add"
  assumes "i < n"
  shows "(\<Sum>j<n. if j = i then a + f j else f j) = a + (\<Sum>j<n. f j)"
proof -
  have "(\<Sum>j<n. if j = i then a + f j else f j) = (\<Sum>j<n. (if j = i then a else 0) + f j)"
    by (intro sum.cong) auto
  also have "\<dots> = a + (\<Sum>j<n. f j)"
    using assms by (simp add: sum.distrib)
  finally show ?thesis .
qed

text \<open>Items tagged with the index of a worker, taken together or worker by worker.\<close>

definition tagged :: "nat \<Rightarrow> (nat \<times> 'a) list \<Rightarrow> 'a list" where
  "tagged i xs = map snd (filter (\<lambda>(j, x). j = i) xs)"

lemma tagged_Cons: "tagged i ((j, x) # xs) = (if j = i then x # tagged i xs else tagged i xs)"
  by (simp add: tagged_def)

lemma mset_by_worker:
  "list_all (\<lambda>(i, x). i < n) xs \<Longrightarrow>
   mset (concat (map (\<lambda>(i, x). f x) xs)) = (\<Sum>i<n. mset (concat (map f (tagged i xs))))"
proof (induction xs)
  case (Cons p xs)
  obtain i x where p: "p = (i, x)" by (cases p)
  have "(\<Sum>j<n. mset (concat (map f (tagged j (p # xs)))))
      = (\<Sum>j<n. if j = i then mset (f x) + mset (concat (map f (tagged j xs)))
                 else mset (concat (map f (tagged j xs))))"
    by (intro sum.cong) (auto simp: p tagged_Cons)
  with Cons sum_fun_upd_lessThan [of i n "mset (f x)" "\<lambda>j. mset (concat (map f (tagged j xs)))"] p
  show ?case by simp
qed (simp add: tagged_def)

lemma merge_by_worker:
  assumes "list_all (\<lambda>(i, x). i < n) xs" and "\<forall>i<n. list_all2 R (tagged i xs) (ls i)"
  shows "\<exists>zs. list_all2 R (map snd xs) zs \<and> mset (concat zs) = (\<Sum>i<n. mset (concat (ls i)))"
  using assms
proof (induction xs arbitrary: ls)
  case Nil
  then have "\<forall>i<n. ls i = []" by (simp add: tagged_def)
  then show ?case by (intro exI [of _ "[]"]) simp
next
  case (Cons p xs)
  obtain i x where p: "p = (i, x)" by (cases p)
  have i: "i < n" using Cons.prems(1) p by simp
  have "list_all2 R (x # tagged i xs) (ls i)"
    using Cons.prems(2) i by (auto simp: p tagged_Cons)
  then obtain z zs where z: "ls i = z # zs" "R x z" "list_all2 R (tagged i xs) zs"
    by (auto simp: list_all2_Cons1)
  have "\<forall>j<n. list_all2 R (tagged j xs) ((ls(i := zs)) j)"
    using Cons.prems(2) z(3) by (auto simp: p tagged_Cons)
  from Cons.IH [OF _ this] Cons.prems(1) obtain ws where ws: "list_all2 R (map snd xs) ws"
    "mset (concat ws) = (\<Sum>j<n. mset (concat ((ls(i := zs)) j)))" by auto
  have "(\<Sum>j<n. mset (concat (ls j))) = (\<Sum>j<n. if j = i then mset z + mset (concat ((ls(i := zs)) j))
      else mset (concat ((ls(i := zs)) j)))"
    using z(1) by (intro sum.cong) auto
  also have "\<dots> = mset z + mset (concat ws)"
    unfolding ws(2) by (rule sum_fun_upd_lessThan [OF i])
  finally have "mset (concat (z # ws)) = (\<Sum>j<n. mset (concat (ls j)))"
    by simp
  with ws(1) z(2) p show ?case by (intro exI [of _ "z # ws"]) simp
qed

section \<open>Elements of one line\<close>

definition clean_metric :: "globals \<Rightarrow> metric \<Rightarrow> bool" where
  "clean_metric g m \<longleftrightarrow> one_line g m
     \<or> is_aggregated (m_type m) \<and> clean_globals g \<and> no_newline (m_namespace m) \<and> no_newline (m_name m)"

lemma aggregated_symbol_clean: "aggregated_symbol ty = Some (sy, prec) \<Longrightarrow> no_newline sy"
  by (auto simp: aggregated_symbol_def split: metricType.splits)

lemma emits_clean:
  assumes "emits g ms me (draw, m) ls" and "clean_metric g m"
  shows "\<forall>l \<in> set ls. no_newline l"
proof (cases "aggregated_symbol (m_type m)")
  case None
  then have "\<not> is_aggregated (m_type m)"
    by (auto simp: aggregated_symbol_def is_aggregated_def)
  with assms None show ?thesis
    by (auto simp: emits_def clean_metric_def one_line_def accepted_def split: option.splits if_splits)
next
  case (Some r)
  obtain sy prec where r: "r = (sy, prec)" by (cases r)
  have "\<not> one_line g m"
    using element_text_not_aggregated [of g m] aggregated_symbol_type [OF Some]
    by (auto simp: one_line_def split: option.splits)
  then have clean: "clean_globals g" "no_newline (m_namespace m)" "no_newline (m_name m)"
    using assms(2) by (simp_all add: clean_metric_def)
  obtain chunks where "ls = map (chunk_text g m sy prec) chunks"
    using assms(1) Some r by (auto simp: emits_def)
  moreover have "no_newline (chunk_text g m sy prec vs)" for vs
    using clean aggregated_symbol_clean [of "m_type m" sy prec] Some r by (simp add: chunk_text_def)
  ultimately show ?thesis by simp
qed

lemma emits_all_clean:
  "list_all2 (emits g ms me) dms lss \<Longrightarrow> list_all (\<lambda>(d, m). clean_metric g m) dms \<Longrightarrow>
   \<forall>l \<in> set (concat lss). no_newline l"
proof (induction rule: list_all2_induct)
  case (Cons dm dms ls lss)
  then show ?case using emits_clean [of g ms me "fst dm" "snd dm" ls] by auto
qed simp

section \<open>A flush leaves nothing behind\<close>

definition idle :: "ClientEx \<Rightarrow> nat \<Rightarrow> bool" where
  "idle c i \<longleftrightarrow> buf_bytes (w_buffer (c_workers c ! i)) = []"

lemma worker_flush_fields:
  "length (c_workers (worker_flush i c)) = length (c_workers c)"
  "c_done (worker_flush i c) = c_done c"
  "j \<noteq> i \<Longrightarrow> c_workers (worker_flush i c) ! j = c_workers c ! j"
  by (simp_all add: worker_flush_def on_worker_def case_prod_unfold)

lemma worker_flush_idle:
  assumes "client_ok ms me c" and "i < length (c_workers c)"
  shows "idle (worker_flush i c) i"
proof (cases "idle c i")
  case True
  with assms show ?thesis
    by (simp add: idle_def worker_flush_def on_worker_def flushUnsafe_def)
next
  case False
  let ?w = "c_workers c ! i"
  let ?r = "sender_send (sh_pool (c_shared c)) (sh_sender (c_shared c)) (w_buffer ?w)"
  have "has_limits ms me (w_buffer ?w)"
    using assms by (simp add: client_ok_def list_all_length whole_payloads_def)
  then have "wf_pool ms me (fst ?r)"
    using sender_pool_send [of ms me "sh_pool (c_shared c)" "sh_sender (c_shared c)" "w_buffer ?w"]
      assms(1) by (simp add: client_ok_def sender_pool_ok_def)
  from bp.borrow_fresh [OF this] assms(2) False show ?thesis
    by (simp add: idle_def worker_flush_def on_worker_def flushUnsafe_def case_prod_unfold Let_def
        fresh_buffer_def newStatsdBuffer_def buf_bytes_def)
qed

lemma worker_flush_keeps_idle:
  "client_ok ms me c \<Longrightarrow> i < length (c_workers c) \<Longrightarrow> idle c j \<Longrightarrow> idle (worker_flush i c) j"
  using worker_flush_idle [of ms me c i] worker_flush_fields(3) [of j i c]
  by (cases "j = i") (simp_all add: idle_def)

lemma foldl_flush:
  assumes "client_inv g ms me c" and "list_all (\<lambda>i. i < length (c_workers c)) is"
  shows "client_inv g ms me (foldl (\<lambda>c i. worker_flush i c) c is)
    \<and> (\<forall>i. idle c i \<or> i \<in> set is \<longrightarrow> idle (foldl (\<lambda>c i. worker_flush i c) c is) i)
    \<and> c_done (foldl (\<lambda>c i. worker_flush i c) c is) = c_done c
    \<and> length (c_workers (foldl (\<lambda>c i. worker_flush i c) c is)) = length (c_workers c)"
  using assms
proof (induction "is" arbitrary: c)
  case (Cons i "is")
  have inv: "client_inv g ms me (worker_flush i c)"
    using Cons.prems by (intro flush_inv) auto
  have len: "list_all (\<lambda>j. j < length (c_workers (worker_flush i c))) is"
    using Cons.prems by (simp add: worker_flush_fields)
  have ok: "client_ok ms me c" "i < length (c_workers c)"
    using Cons.prems by (simp_all add: client_inv_def)
  from Cons.IH [OF inv len] worker_flush_idle [OF ok] worker_flush_keeps_idle [OF ok]
  show ?case by (auto simp: worker_flush_fields)
qed simp

lemma flush_workers_result:
  assumes "client_inv g ms me c"
  shows "client_inv g ms me (flush_workers c)"
    and "i < length (c_workers c) \<Longrightarrow> idle (flush_workers c) i"
    and "c_done (flush_workers c) = c_done c"
    and "length (c_workers (flush_workers c)) = length (c_workers c)"
  using foldl_flush [OF assms, of "[0..<length (c_workers c)]"]
  by (auto simp: flush_workers_def list_all_iff)

lemma sender_drain_result:
  "queue (sh_sender (c_shared (sender_drain outs c))) = []"
  "c_workers (sender_drain outs c) = c_workers c" "c_done (sender_drain outs c) = c_done c"
  using flushInputQueue_empties [of "sh_pool (c_shared c)" "sh_sender (c_shared c)" outs]
  by (auto simp: sender_drain_def split: prod.splits)

definition drained :: "ClientEx \<Rightarrow> bool" where
  "drained c \<longleftrightarrow> queue (sh_sender (c_shared c)) = [] \<and> (\<forall>i < length (c_workers c). idle c i)"

lemma client_flush_drained:
  assumes "client_inv g ms me c" and "client_flush g e c = Done c'"
  shows "client_inv g ms me c'" and "drained c'"
proof -
  show "client_inv g ms me c'"
    by (rule activities_inv [OF client_flush_activities [OF assms(2)] assms(1)])
  from assms(2) obtain c1 where c1: "aggregator_flush g (fe_visits e) (fe_draws e) c = Done c1"
    and c': "c' = sender_drain (fe_outs e) (flush_workers c1)"
    unfolding client_flush_def sender_flush_def by (auto elim!: obind_DoneE split: if_splits)
  have "client_inv g ms me c1"
    by (rule activities_inv [OF aggregator_flush_activities [OF c1] assms(1)])
  note flush_workers_result [OF this]
  then show "drained c'"
    by (simp add: c' drained_def sender_drain_result idle_def)
qed

section \<open>The wire\<close>

definition processed :: "ClientEx \<Rightarrow> (f64 \<times> metric) list" where
  "processed c = map (\<lambda>(i, draw, m, err). (draw, m)) (c_done c)"

lemma payloads_tagged: "payloads_of c i = tagged i (c_sent c)"
  by (simp add: payloads_of_def tagged_def)

lemma done_tagged:
  "done_of c i = tagged i (map (\<lambda>(i, draw, m, err). (i, draw, m)) (c_done c))"
  by (auto simp: done_of_def tagged_def filter_map comp_def case_prod_unfold)

lemma processed_snd: "processed c = map snd (map (\<lambda>(i, draw, m, err). (i, draw, m)) (c_done c))"
  by (auto simp: processed_def)

definition sent_lines :: "ClientEx \<Rightarrow> bytes list" where
  "sent_lines c = lines_of (map buf_bytes (sh_log (c_shared c)))"

text \<open>When no worker holds anything back, the payloads carry what was processed.\<close>

lemma sent_lines_processed:
  assumes inv: "client_inv g ms me c" and ser: "all_serializable g c"
    and clean: "list_all (\<lambda>(d, m). clean_metric g m) (processed c)"
    and idle: "\<forall>i < length (c_workers c). idle c i"
  shows "\<exists>lss. list_all2 (emits g ms me) (processed c) lss
    \<and> mset (sent_lines c) = mset (concat lss)"
proof -
  let ?n = "length (c_workers c)" and ?done = "map (\<lambda>(i, draw, m, err). (i, draw, m)) (c_done c)"
  have ok: "client_ok ms me c"
    using inv by (simp add: client_inv_def)
  have "\<forall>i<?n. \<exists>lss. list_all2 (emits g ms me) (tagged i ?done) lss
      \<and> worker_stream c i = frame (concat lss)"
    using inv ser by (auto simp: client_inv_def wrote_def done_tagged)
  then obtain ls where ls: "\<forall>i<?n. list_all2 (emits g ms me) (tagged i ?done) (ls i)
      \<and> worker_stream c i = frame (concat (ls i))" by metis
  have "list_all (\<lambda>(i, x). i < ?n) ?done"
    using ok by (auto simp: client_ok_def list_all_iff)
  from merge_by_worker [OF this, of "emits g ms me" ls] ls obtain lss where
    lss: "list_all2 (emits g ms me) (processed c) lss"
      "mset (concat lss) = (\<Sum>i<?n. mset (concat (ls i)))"
    by (auto simp: processed_snd)
  have whole: "list_all line_ended (map buf_bytes (tagged i (c_sent c)))" if "i < ?n" for i
  proof -
    have "whole_payloads ms me (c_shared c) (c_workers c ! i)"
      using ok that by (simp add: client_ok_def list_all_length)
    then have "\<forall>b \<in> set (map snd (c_sent c)). whole b"
      using ok by (simp add: client_ok_def whole_payloads_def list_all_iff)
    then show ?thesis
      by (auto simp: tagged_def whole_def list_all_iff)
  qed
  have one: "mset (lines_of (map buf_bytes (tagged i (c_sent c)))) = mset (concat (ls i))"
    if i: "i < ?n" for i
  proof -
    have "\<forall>l \<in> set (concat (ls i)). no_newline l"
    proof (rule emits_all_clean)
      show "list_all2 (emits g ms me) (tagged i ?done) (ls i)" using ls i by simp
      show "list_all (\<lambda>(d, m). clean_metric g m) (tagged i ?done)"
        using clean by (auto simp: processed_def tagged_def list_all_iff)
    qed
    then have "split_lines [] (worker_stream c i) = concat (ls i)"
      using ls i by (simp add: split_lines_frame)
    moreover have "worker_stream c i = concat (map buf_bytes (tagged i (c_sent c)))"
      using idle i by (simp add: worker_stream_def payloads_tagged idle_def)
    ultimately show ?thesis
      using split_lines_concat [OF whole [OF i]] by simp
  qed
  have log: "sh_log (c_shared c) = map snd (c_sent c)"
    using ok by (simp add: client_ok_def)
  have "sent_lines c = concat (map (\<lambda>(i, b). split_lines [] (buf_bytes b)) (c_sent c))"
    by (simp add: sent_lines_def lines_of_def log comp_def case_prod_unfold)
  also have "mset \<dots> = (\<Sum>i<?n. mset (lines_of (map buf_bytes (tagged i (c_sent c)))))"
    using mset_by_worker [of ?n "c_sent c" "\<lambda>b. split_lines [] (buf_bytes b)"] ok
    by (simp add: client_ok_def lines_of_def comp_def)
  also have "\<dots> = mset (concat lss)"
    unfolding lss(2) using one by (intro sum.cong) auto
  finally show ?thesis using lss(1) by blast
qed

text \<open>The drop counters; each is 64 bits wide.\<close>

definition nothing_dropped :: "ClientEx \<Rightarrow> bool" where
  "nothing_dropped c \<longleftrightarrow> (let t = s_telemetry (sh_sender (c_shared c)) in
     totalPayloadsDroppedQueueFull t = 0 \<and> totalPayloadsDroppedWriter t = 0)"

lemma wire_complete:
  assumes "ledger subs s" and "queue s = []" and "totalPayloadsDroppedQueueFull (s_telemetry s) = 0"
    and "totalPayloadsDroppedWriter (s_telemetry s) = 0" and "length subs < 2 ^ 64"
  shows "wire s = map buf_bytes subs"
proof -
  have sub: "subseq (wire s) (map buf_bytes subs)"
    using assms(1,2) by (simp add: ledger_def)
  have "totalPayloadsSent (s_telemetry s) = of_nat (length subs)"
    using assms(1-4) by (simp add: ledger_def payloads_accounted_def)
  moreover have "totalPayloadsSent (s_telemetry s) = of_nat (length (wire s))"
    using assms(1) by (simp add: ledger_def wire_counted_def)
  ultimately have "(of_nat (length (wire s)) :: u64) = of_nat (length subs)" by simp
  from arg_cong [OF this, of unat] have "length (wire s) mod 2 ^ 64 = length subs mod 2 ^ 64"
    by (simp add: unat_of_nat)
  moreover have "length (wire s) \<le> length subs"
    using list_emb_length [OF sub] by simp
  ultimately have "length (wire s) = length subs"
    using assms(5) by simp
  with sub show ?thesis
    by (intro subseq_same_length) simp_all
qed

text \<open>Once all is drained, and nothing was dropped on the way, the wire holds what was processed.\<close>

lemma drained_delivered:
  assumes inv: "client_inv g ms me c" and drained: "drained c"
    and "all_serializable g c" and "list_all (\<lambda>(d, m). clean_metric g m) (processed c)"
    and "nothing_dropped c" and "length (c_sent c) < 2 ^ 64"
  shows "\<exists>lss. list_all2 (emits g ms me) (processed c) lss
    \<and> mset (lines_of (wire (sh_sender (c_shared c)))) = mset (concat lss)"
proof -
  obtain lss where lss: "list_all2 (emits g ms me) (processed c) lss"
    "mset (sent_lines c) = mset (concat lss)"
    using sent_lines_processed [OF inv assms(3,4)] drained by (auto simp: drained_def)
  have ok: "client_ok ms me c"
    using inv by (simp add: client_inv_def)
  then have "length (sh_log (c_shared c)) < 2 ^ 64"
    using assms(6) by (metis client_ok_def length_map)
  with wire_complete [of "sh_log (c_shared c)" "sh_sender (c_shared c)"] ok drained assms(5)
  have "wire (sh_sender (c_shared c)) = map buf_bytes (sh_log (c_shared c))"
    by (simp add: client_ok_def drained_def nothing_dropped_def Let_def)
  with lss show ?thesis
    by (auto simp: sent_lines_def)
qed

lemma flush_delivered:
  assumes "new_client ms me c0" and "client_run g ops (Some c0) = Done (Some c, errs)"
    and "client_Flush g e (Some c) = Done (Some c', err)"
    and "all_serializable g c'" and "list_all (\<lambda>(d, m). clean_metric g m) (processed c')"
    and "nothing_dropped c'" and "length (c_sent c') < 2 ^ 64"
  shows "\<exists>lss. list_all2 (emits g ms me) (processed c') lss
    \<and> mset (lines_of (wire (sh_sender (c_shared c')))) = mset (concat lss)"
proof -
  have "client_flush g e c = Done c'"
    using assms(3) by (auto simp: client_Flush_def unless_nil_def elim!: obind_DoneE)
  from client_flush_drained [OF client_run_inv(1) [OF assms(1,2)] this] assms(4-7) show ?thesis
    by (intro drained_delivered)
qed

end
