(* ===== verification/Buffered_Spec.thy ===== *)
theory Buffered_Spec
  imports Aggregator_Facts
begin

text \<open>
  What the buffered kinds owe at a flush, context by context: histograms, distributions and timings
  of the calls since the last one.  The specification has no map: for each context it folds the
  sampling of one metric over the calls of that context.  The contexts of the aggregator hold it.
\<close>

section \<open>The specification\<close>

text \<open>A call with its randomness; a call whose rate is below 1 can be dropped at once.\<close>

type_synonym random_call = "random \<times> buffered_call"

definition survives :: "random_call \<Rightarrow> bool" where
  "survives = (\<lambda>(r, c). \<not> (f64_lt (call_rate c) f64_one \<and> \<not> shouldSample (call_rate c) (fst r)))"

fun buffered_call_of :: "metricType \<Rightarrow> agg_op \<Rightarrow> random_call list" where
  "buffered_call_of ty (OpHistogram r c) = (if ty = histogramAggregatedT then [(r, c)] else [])"
| "buffered_call_of ty (OpDistribution r c) = (if ty = distributionAggregatedT then [(r, c)] else [])"
| "buffered_call_of ty (OpTiming r c) = (if ty = timingAggregatedT then [(r, c)] else [])"
| "buffered_call_of ty _ = []"

definition buffered_of :: "metricType \<Rightarrow> agg_op list \<Rightarrow> random_call list" where
  "buffered_of ty ops = filter survives (concat (map (buffered_call_of ty) ops))"

lemma buffered_of_snoc:
  "buffered_of ty [] = []"
  "buffered_of ty (ops @ [op]) = buffered_of ty ops @ filter survives (buffered_call_of ty op)"
  by (simp_all add: buffered_of_def)

definition random_context :: "random_call \<Rightarrow> bytes" where
  "random_context = (\<lambda>(r, c). call_context c)"

definition in_context :: "bytes \<Rightarrow> random_call list \<Rightarrow> random_call list" where
  "in_context k calls = filter (\<lambda>c. random_context c = k) calls"

text \<open>The metric of one context: made by the first call, sampled by the others.\<close>

definition first_metric :: "metricType \<Rightarrow> i64 \<Rightarrow> random_call \<Rightarrow> bufferedMetric" where
  "first_metric ty mx = (\<lambda>(r, (name, value, tags, rate, c)).
     newBufferedMetric ty name value (join_tags tags) mx rate c)"

definition sample_next :: "bufferedMetric option \<Rightarrow> random_call \<Rightarrow> bufferedMetric option" where
  "sample_next m = (\<lambda>(r, c). Option.bind m (\<lambda>m. maybeKeepSample (snd r) m (call_value c)))"

definition sampled_metric :: "metricType \<Rightarrow> i64 \<Rightarrow> random_call list \<Rightarrow> bufferedMetric option" where
  "sampled_metric ty mx calls =
     (case calls of [] \<Rightarrow> None | c # rest \<Rightarrow> foldl sample_next (Some (first_metric ty mx c)) rest)"

definition expected_buffered :: "metricType \<Rightarrow> i64 \<Rightarrow> random_call list \<Rightarrow> metric list" where
  "expected_buffered ty mx calls =
     map (\<lambda>k. buffered_flushUnsafe (the (sampled_metric ty mx (in_context k calls))))
       (remdups (map random_context calls))"

section \<open>The contexts hold it\<close>

definition holds_samples :: "metricType \<Rightarrow> i64 \<Rightarrow> random_call list \<Rightarrow> bufferedMetricContexts \<Rightarrow> bool" where
  "holds_samples ty mx calls bc \<longleftrightarrow> wf_map (bc_values bc)
     \<and> fst ` set (bc_values bc) = random_context ` set calls
     \<and> (\<forall>k. map_of (bc_values bc) k = sampled_metric ty mx (in_context k calls))"

lemma sampled_metric_snoc:
  "sampled_metric ty mx (calls @ [c]) =
     (if calls = [] then Some (first_metric ty mx c) else sample_next (sampled_metric ty mx calls) c)"
  by (cases calls) (simp_all add: sampled_metric_def)

lemma in_context_snoc:
  "in_context k (calls @ [c]) = in_context k calls @ (if random_context c = k then [c] else [])"
  by (simp add: in_context_def)

lemma in_context_Nil_iff: "in_context k calls = [] \<longleftrightarrow> k \<notin> random_context ` set calls"
  by (auto simp: in_context_def filter_empty_conv)

lemma holds_samples_empty [simp]: "bc_values bc = [] \<Longrightarrow> holds_samples ty mx [] bc"
  by (simp add: holds_samples_def in_context_def sampled_metric_def)

lemma holds_samples_call:
  assumes "holds_samples ty mx calls bc" and "wf_contexts ty mx seen bc"
    and "bc_sample (snd r) (fst r) name value tags rate c bc = Some bc'"
  shows "holds_samples ty mx (calls @ filter survives [(r, (name, value, tags, rate, c))]) bc'"
proof (cases "survives (r, (name, value, tags, rate, c))")
  case False
  with assms(1,3) show ?thesis
    by (auto simp: survives_def call_rate_def bc_sample_eq)
next
  case True
  let ?c = "(r, (name, value, tags, rate, c))" and ?k = "context_text name tags (card_String c)"
  have k: "random_context ?c = ?k"
    by (simp add: random_context_def call_context_def)
  have "bc_newMetric bc name value (join_tags tags) rate c = first_metric ty mx ?c"
    using assms(2) by (simp add: wf_contexts_def first_metric_def)
  with True assms(3) have run: "bc_sampleContext (snd r) ?k (first_metric ty mx ?c) value bc = Some bc'"
    by (auto simp: survives_def call_rate_def bc_sample_eq)
  have m: "map_of (bc_values bc) ?k = sampled_metric ty mx (in_context ?k calls)"
    using assms(1) by (simp add: holds_samples_def)
  obtain m' where bc': "bc' = bc\<lparr>bc_values := map_put ?k m' (bc_values bc)\<rparr>"
    and m': "Some m' = sampled_metric ty mx (in_context ?k calls @ [?c])"
  proof (cases "map_of (bc_values bc) ?k")
    case None
    then have "?k \<notin> fst ` set (bc_values bc)"
      by (simp add: map_of_eq_None_iff)
    then have "in_context ?k calls = []"
      using assms(1) by (simp add: in_context_Nil_iff holds_samples_def)
    moreover have "sampled_metric ty mx [?c] = Some (first_metric ty mx ?c)"
      by (simp add: sampled_metric_def)
    ultimately show thesis
      using that [of "first_metric ty mx ?c"] None run by (simp add: bc_sampleContext_eq)
  next
    case (Some v)
    then have "in_context ?k calls \<noteq> []"
      using m by (auto simp: sampled_metric_def)
    with Some run m that show thesis
      by (auto simp: bc_sampleContext_eq bc_keep_def sampled_metric_snoc sample_next_def call_value_def
          split: option.splits)
  qed
  have "map_of (bc_values bc') k' = sampled_metric ty mx (in_context k' (calls @ [?c]))" for k'
    using assms(1) m' by (simp add: holds_samples_def bc' in_context_snoc k)
  with assms(1) True k show ?thesis
    by (simp add: holds_samples_def bc')
qed

lemma buffered_part_expected:
  assumes "holds_samples ty mx calls bc"
  shows "mset (buffered_part bc) = mset (expected_buffered ty mx calls)"
proof -
  let ?f = "\<lambda>k. buffered_flushUnsafe (the (sampled_metric ty mx (in_context k calls)))"
  have wf: "distinct (map fst (bc_values bc))"
    using assms by (simp add: holds_samples_def wf_map_def)
  have "buffered_flushUnsafe d = ?f k" if "(k, d) \<in> set (bc_values bc)" for k d
    using map_of_is_SomeI [OF wf that] assms by (simp add: holds_samples_def)
  then have "buffered_part bc = map ?f (map fst (bc_values bc))"
    by (auto simp: buffered_part_def)
  moreover have "mset (map fst (bc_values bc)) = mset (remdups (map random_context calls))"
    using assms wf by (subst set_eq_iff_mset_eq_distinct [symmetric]) (simp_all add: holds_samples_def)
  ultimately show ?thesis
    unfolding expected_buffered_def by (simp only: mset_map)
qed

section \<open>The aggregator\<close>

definition agg_holds :: "i64 \<Rightarrow> agg_op list \<Rightarrow> aggregator \<Rightarrow> bool" where
  "agg_holds mx ops a \<longleftrightarrow>
     holds_samples histogramAggregatedT mx (buffered_of histogramAggregatedT ops) (histograms a)
     \<and> holds_samples distributionAggregatedT mx (buffered_of distributionAggregatedT ops) (distributions a)
     \<and> holds_samples timingAggregatedT mx (buffered_of timingAggregatedT ops) (timings a)"

lemma agg_holds_start:
  "bc_values (histograms a) = [] \<Longrightarrow> bc_values (distributions a) = [] \<Longrightarrow> bc_values (timings a) = [] \<Longrightarrow>
   agg_holds mx [] a"
  by (simp add: agg_holds_def buffered_of_snoc)

lemma run_op_holds:
  assumes "agg_state n mx ops a" and "agg_holds mx ops a" and "run_op op a = Some a'"
  shows "agg_holds mx (ops @ [op]) a'"
proof (cases op)
  case (OpHistogram r c)
  obtain nm v tags rate cd where c: "c = (nm, v, tags, rate, cd)" by (metis prod_cases5)
  with assms(3) OpHistogram obtain bc where bc: "bc_sample (snd r) (fst r) nm v tags rate cd (histograms a) = Some bc"
    "a' = a\<lparr>histograms := bc\<rparr>"
    by (auto simp: agg_histogram_def)
  with holds_samples_call [OF _ _ bc(1)] assms(1,2) show ?thesis
    unfolding agg_holds_def agg_state_def by (force simp: OpHistogram c bc(2) buffered_of_snoc)
next
  case (OpDistribution r c)
  obtain nm v tags rate cd where c: "c = (nm, v, tags, rate, cd)" by (metis prod_cases5)
  with assms(3) OpDistribution obtain bc where bc: "bc_sample (snd r) (fst r) nm v tags rate cd (distributions a) = Some bc"
    "a' = a\<lparr>distributions := bc\<rparr>"
    by (auto simp: agg_distribution_def)
  with holds_samples_call [OF _ _ bc(1)] assms(1,2) show ?thesis
    unfolding agg_holds_def agg_state_def by (force simp: OpDistribution c bc(2) buffered_of_snoc)
next
  case (OpTiming r c)
  obtain nm v tags rate cd where c: "c = (nm, v, tags, rate, cd)" by (metis prod_cases5)
  with assms(3) OpTiming obtain bc where bc: "bc_sample (snd r) (fst r) nm v tags rate cd (timings a) = Some bc"
    "a' = a\<lparr>timings := bc\<rparr>"
    by (auto simp: agg_timing_def)
  with holds_samples_call [OF _ _ bc(1)] assms(1,2) show ?thesis
    unfolding agg_holds_def agg_state_def by (force simp: OpTiming c bc(2) buffered_of_snoc)
next
  case (OpCount c)
  with assms(2,3) show ?thesis
    by (cases c) (auto simp: agg_count_call agg_holds_def buffered_of_snoc)
next
  case (OpGauge c)
  with assms(2,3) show ?thesis
    by (cases c) (auto simp: agg_gauge_call agg_holds_def buffered_of_snoc)
next
  case (OpSet c)
  with assms(2,3) show ?thesis
    by (cases c) (auto simp: agg_set_call agg_holds_def buffered_of_snoc)
qed

section \<open>Without a bound\<close>

text \<open>
  Then the specification is explicit: a metric has the identity and the rate of the first call of
  its context and the samples of all its calls, in order.
\<close>

definition all_samples :: "metricType \<Rightarrow> random_call list \<Rightarrow> metric list" where
  "all_samples ty calls =
     map (\<lambda>k. case hd (in_context k calls) of (_, (name, _, tags, rate, c)) \<Rightarrow>
         zero_metric\<lparr>m_type := ty, m_name := name, m_stags := join_tags tags,
           m_rate := (if f64_eq rate f64_one then f64_one else rate),
           m_fvalues := map (call_value \<circ> snd) (in_context k calls), m_cardinality := c\<rparr>)
       (remdups (map random_context calls))"

lemma fold_samples:
  assumes "wf_buffered m" and "sint (b_maxSamples m) \<le> 0"
    and "sint (b_totalSamples m) + int (length calls) < 2 ^ 63"
  shows "\<exists>m'. foldl sample_next (Some m) calls = Some m' \<and> wf_buffered m'
    \<and> buffered_identity m' = buffered_identity m \<and> kept m' = kept m @ map (call_value \<circ> snd) calls"
  using assms
proof (induction calls arbitrary: m)
  case (Cons c calls)
  have t: "sint (b_totalSamples m) < 2 ^ 63 - 1"
    using Cons.prems(3) by simp
  obtain r b where c: "c = (r, b)" by (cases c)
  from maybeKeepSample_append [OF Cons.prems(1) t, of "snd r" "call_value b"] Cons.prems(2)
  obtain m1 where m1: "maybeKeepSample (snd r) m (call_value b) = Some m1" "wf_buffered m1"
    "b_totalSamples m1 = b_totalSamples m + 1" "buffered_identity m1 = buffered_identity m"
    "kept m1 = kept m @ [call_value b]" by blast
  from Cons.IH [OF m1(2)] Cons.prems t m1 c show ?case
    by (auto simp: sample_next_def sint_Suc buffered_identity_def)
qed simp

lemma flush_identity:
  assumes "wf_buffered m" and "sint (b_maxSamples m) \<le> 0"
  shows "buffered_flushUnsafe m = zero_metric\<lparr>m_type := b_mtype m, m_name := b_name m, m_stags := b_tags m,
    m_rate := (if f64_eq (b_specifiedRate m) f64_one then f64_one else b_specifiedRate m),
    m_fvalues := kept m, m_cardinality := b_cardinality m\<rparr>"
proof -
  have "sint (b_storedSamples m) < 2 ^ 63"
    using sint_lt [of "b_storedSamples m"] by simp
  then show ?thesis
    using assms f64_div_self [of "sint (b_storedSamples m)"]
    by (auto simp: buffered_flushUnsafe_def wf_buffered_def kept_def Let_def)
qed

lemma expected_unbounded:
  assumes "sint mx \<le> 0" and "int (length calls) < 2 ^ 63"
  shows "expected_buffered ty mx calls = all_samples ty calls"
  unfolding expected_buffered_def all_samples_def
proof (rule map_cong [OF refl])
  fix k
  assume "k \<in> set (remdups (map random_context calls))"
  then have "in_context k calls \<noteq> []"
    by (auto simp: in_context_Nil_iff)
  then obtain r name v tags rate c rest where k: "in_context k calls = (r, (name, v, tags, rate, c)) # rest"
    by (metis list.exhaust prod_cases5 surj_pair)
  let ?m = "newBufferedMetric ty name v (join_tags tags) mx rate c"
  have "length (in_context k calls) \<le> length calls"
    by (simp add: in_context_def)
  then have "sint (b_totalSamples ?m) + int (length rest) < 2 ^ 63"
    using assms(2) k by simp
  from fold_samples [OF _ _ this] assms(1) obtain m' where
    "foldl sample_next (Some ?m) rest = Some m'" "wf_buffered m'"
    "buffered_identity m' = buffered_identity ?m" "kept m' = v # map (call_value \<circ> snd) rest"
    by auto
  with assms(1) k show "buffered_flushUnsafe (the (sampled_metric ty mx (in_context k calls))) =
      (case hd (in_context k calls) of (_, (name, _, tags, rate, c)) \<Rightarrow>
         zero_metric\<lparr>m_type := ty, m_name := name, m_stags := join_tags tags,
           m_rate := (if f64_eq rate f64_one then f64_one else rate),
           m_fvalues := map (call_value \<circ> snd) (in_context k calls), m_cardinality := c\<rparr>)"
    by (simp add: sampled_metric_def first_metric_def flush_identity buffered_identity_def call_value_def)
qed

lemma run_ops_holds:
  assumes "newAggregator mx n = Some a0" and "list_all (good_op n) ops" and "int (length ops) < 2 ^ 63"
    and "run_ops ops a0 = Some a"
  shows "agg_holds mx ops a"
  using assms(2-)
proof (induction ops arbitrary: a rule: rev_induct)
  case Nil
  then show ?case
    using assms(1) by (intro agg_holds_start) (auto simp: newAggregator_def size_defs newBufferedContexts_def split: if_splits)
next
  case (snoc op ops)
  then obtain a1 where a1: "run_ops ops a0 = Some a1" "run_op op a1 = Some a"
    by (auto simp: run_ops_snoc split: option.splits)
  then have "agg_state n mx ops a1"
    using run_ops_state [OF assms(1), of ops] snoc.prems by auto
  with run_op_holds [OF this _ a1(2)] snoc.IH [OF _ _ a1(1)] snoc.prems show ?case by auto
qed

text \<open>
  C23. A flush returns exactly one metric per context of each buffered kind: the identity and rate of
  the first call that survived sampling, and, without a bound, all the samples of the context in
  the order of the calls; with a bound, what the reservoir of that context alone computes.
\<close>

theorem flush_buffered:
  assumes "newAggregator mx n = Some a0" and "list_all (good_op n) ops" and "int (length ops) < 2 ^ 63"
    and "run_ops ops a0 = Some a" and "fair v" and "flushMetrics v a = (a', ms)"
    and "ty \<in> {histogramAggregatedT, distributionAggregatedT, timingAggregatedT}"
  shows "mset (filter (\<lambda>m. m_type m = ty) ms) =
    mset (if sint mx \<le> 0 then all_samples ty (buffered_of ty ops) else expected_buffered ty mx (buffered_of ty ops))"
proof -
  have "agg_state n mx ops a"
    using run_ops_state [OF assms(1-3)] assms(4) by auto
  note parts = flush_parts_by_type [OF this assms(5,6)]
  have "length (buffered_of ty ops) \<le> length ops"
  proof (induction ops rule: rev_induct)
    case (snoc op ops)
    then show ?case by (cases op) (auto simp: buffered_of_snoc)
  qed (simp add: buffered_of_snoc)
  then have "int (length (buffered_of ty ops)) < 2 ^ 63"
    using assms(3) by simp
  from expected_unbounded [OF _ this, of mx ty] run_ops_holds [OF assms(1-4)] parts(4-6) assms(7) show ?thesis
    by (auto simp: agg_holds_def buffered_part_expected)
qed

definition buffered_ops :: "agg_op list" where
  "buffered_ops =
     [OpTiming (0, \<lambda>_. 0) (''t'', 7, [''a''], f64_one, CardinalityNotSet),
      OpHistogram (0, \<lambda>_. 0) (''t'', 8, [''a''], f64_one, CardinalityNotSet),
      OpTiming (0, \<lambda>_. 0) (''t'', 9, [''a''], f64_one, CardinalityNotSet)]"

definition buffered_result :: "aggregator \<times> metric list" where
  "buffered_result = flushMetrics plain_visits (the (run_ops buffered_ops small_agg))"

lemma buffered_run:
  "list_all (good_op 2) buffered_ops" "int (length buffered_ops) < 2 ^ 63"
  "run_ops buffered_ops small_agg = Some (the (run_ops buffered_ops small_agg))"
  "flushMetrics plain_visits (the (run_ops buffered_ops small_agg)) = (fst buffered_result, snd buffered_result)"
proof -
  show ok: "list_all (good_op 2) buffered_ops" "int (length buffered_ops) < 2 ^ 63"
    by (simp_all add: buffered_ops_def good_int63n_def)
  from run_ops_state [OF small_run(1) ok]
  show "run_ops buffered_ops small_agg = Some (the (run_ops buffered_ops small_agg))" by auto
qed (simp add: buffered_result_def)

theorem flush_buffered_witness:
  "mset (filter (\<lambda>m. m_type m = timingAggregatedT) (snd buffered_result)) =
     {#zero_metric\<lparr>m_type := timingAggregatedT, m_name := ''t'', m_stags := ''a'', m_rate := f64_one,
       m_fvalues := [7, 9], m_cardinality := CardinalityNotSet\<rparr>#}"
proof -
  have "buffered_of timingAggregatedT buffered_ops =
      [((0, \<lambda>_. 0), (''t'', 7, [''a''], f64_one, CardinalityNotSet)),
       ((0, \<lambda>_. 0), (''t'', 9, [''a''], f64_one, CardinalityNotSet))]"
    by (simp add: buffered_of_def buffered_ops_def survives_def call_rate_def not_lt_one)
  moreover have "f64_eq f64_one f64_one"
    by (simp add: f64_eval)
  ultimately show ?thesis
    using flush_buffered [OF small_run(1) buffered_run(1-3) fair_plain_visits buffered_run(4), of timingAggregatedT]
    by (simp add: all_samples_def in_context_def random_context_def call_context_def call_value_def
        context_text_def context_prefix_def separator_defs card_String_def cardinality_defs)
qed

end
