(* ===== verification/Client_Spec.thy ===== *)
theory Client_Spec
  imports Client_Delivery NewClient Buffered_Spec
begin

text \<open>
  A specification of the client in mutex mode, with or without extended aggregation, and the proof
  that the client refines it.  The specification keeps the aggregated calls since the last flush,
  the metrics the workers have to process, and the lines owed for those that make one line; a call
  that is not aggregated owes its metric at once, a flush owes one per context and kind.  Workers,
  payloads, shards, the pool and the queue do not appear in it.
\<close>

section \<open>The specification\<close>

text \<open>The metric a call sends when it is not aggregated.\<close>

fun metric_of :: "ClientEx \<Rightarrow> client_op \<Rightarrow> metric option" where
  "metric_of k (Gauge r (n, v, ts, rt, ps)) = Some ((call_metric k gaugeT n ts rt
     (parameterCardinality ps (c_defaultCardinality k)))\<lparr>m_fvalue := v\<rparr>)"
| "metric_of k (GaugeWithTimestamp r (n, v, ts, rt, ps) t) =
     (if sint (unix_sec t) \<le> 0 then None
      else Some ((call_metric k gaugeT n ts rt (parameterCardinality ps (c_defaultCardinality k)))
        \<lparr>m_fvalue := v, m_timestamp := unix_sec t\<rparr>))"
| "metric_of k (Count r (n, v, ts, rt, ps)) = Some ((call_metric k countT n ts rt
     (parameterCardinality ps (c_defaultCardinality k)))\<lparr>m_ivalue := v\<rparr>)"
| "metric_of k (CountWithTimestamp r (n, v, ts, rt, ps) t) =
     (if sint (unix_sec t) \<le> 0 then None
      else Some ((call_metric k countT n ts rt (parameterCardinality ps (c_defaultCardinality k)))
        \<lparr>m_ivalue := v, m_timestamp := unix_sec t\<rparr>))"
| "metric_of k (Histogram r (n, v, ts, rt, ps)) = Some ((call_metric k histogramT n ts rt
     (parameterCardinality ps (c_defaultCardinality k)))\<lparr>m_fvalue := v\<rparr>)"
| "metric_of k (Distribution r (n, v, ts, rt, ps)) = Some ((call_metric k distributionT n ts rt
     (parameterCardinality ps (c_defaultCardinality k)))\<lparr>m_fvalue := v\<rparr>)"
| "metric_of k (Decr r (n, _, ts, rt, ps)) = Some ((call_metric k countT n ts rt
     (parameterCardinality ps (c_defaultCardinality k)))\<lparr>m_ivalue := - 1\<rparr>)"
| "metric_of k (Incr r (n, _, ts, rt, ps)) = Some ((call_metric k countT n ts rt
     (parameterCardinality ps (c_defaultCardinality k)))\<lparr>m_ivalue := 1\<rparr>)"
| "metric_of k (SetOp r (n, v, ts, rt, ps)) = Some ((call_metric k setT n ts rt
     (parameterCardinality ps (c_defaultCardinality k)))\<lparr>m_svalue := v\<rparr>)"
| "metric_of k (Timing r (n, v, ts, rt, ps)) = Some ((call_metric k timingT n ts rt
     (parameterCardinality ps (c_defaultCardinality k)))
     \<lparr>m_fvalue := f64_mul (duration_Seconds v) (f64_of_int 1000)\<rparr>)"
| "metric_of k (TimeInMilliseconds r (n, v, ts, rt, ps)) = Some ((call_metric k timingT n ts rt
     (parameterCardinality ps (c_defaultCardinality k)))\<lparr>m_fvalue := v\<rparr>)"
| "metric_of k (EventOp r e ps) = Some ((call_metric k eventT '''' [] f64_one
     (parameterCardinality ps (c_defaultCardinality k)))\<lparr>m_evalue := e\<rparr>)"
| "metric_of k (SimpleEvent r title txt ps) = Some ((call_metric k eventT '''' [] f64_one
     (parameterCardinality ps (c_defaultCardinality k)))\<lparr>m_evalue := Some (NewEvent title txt)\<rparr>)"
| "metric_of k (ServiceCheckOp r sc ps) = Some ((call_metric k serviceCheckT '''' [] f64_one
     (parameterCardinality ps (c_defaultCardinality k)))\<lparr>m_scvalue := sc\<rparr>)"
| "metric_of k (SimpleServiceCheck r name status ps) = Some ((call_metric k serviceCheckT '''' [] f64_one
     (parameterCardinality ps (c_defaultCardinality k)))\<lparr>m_scvalue := Some (NewServiceCheck name status)\<rparr>)"
| "metric_of k (DistributionSamples r n vs ts rt) = Some (zero_metric\<lparr>m_type := distributionAggregatedT,
     m_name := n, m_fvalues := vs, m_tags := ts, m_stags := join_tags ts, m_rate := rt,
     m_globalTags := c_tags k, m_namespace := c_namespace k\<rparr>)"
| "metric_of k _ = None"

fun draw_of :: "client_op \<Rightarrow> f64" where
  "draw_of (Gauge r _) = fst r"
| "draw_of (GaugeWithTimestamp r _ _) = fst r"
| "draw_of (Count r _) = fst r"
| "draw_of (CountWithTimestamp r _ _) = fst r"
| "draw_of (Histogram r _) = fst r"
| "draw_of (Distribution r _) = fst r"
| "draw_of (Decr r _) = fst r"
| "draw_of (Incr r _) = fst r"
| "draw_of (SetOp r _) = fst r"
| "draw_of (Timing r _) = fst r"
| "draw_of (TimeInMilliseconds r _) = fst r"
| "draw_of (EventOp r _ _) = fst r"
| "draw_of (SimpleEvent r _ _ _) = fst r"
| "draw_of (ServiceCheckOp r _ _) = fst r"
| "draw_of (SimpleServiceCheck r _ _ _) = fst r"
| "draw_of (DistributionSamples r _ _ _ _) = fst r"
| "draw_of _ = 0"

text \<open>The calls that go to the aggregator.\<close>

fun aggregated_call :: "ClientEx \<Rightarrow> client_op \<Rightarrow> agg_op option" where
  "aggregated_call k (Gauge r (n, v, ts, rt, ps)) =
     Some (OpGauge (n, v, ts, parameterCardinality ps (c_defaultCardinality k)))"
| "aggregated_call k (Count r (n, v, ts, rt, ps)) =
     Some (OpCount (n, v, ts, parameterCardinality ps (c_defaultCardinality k)))"
| "aggregated_call k (Decr r (n, _, ts, rt, ps)) =
     Some (OpCount (n, - 1, ts, parameterCardinality ps (c_defaultCardinality k)))"
| "aggregated_call k (Incr r (n, _, ts, rt, ps)) =
     Some (OpCount (n, 1, ts, parameterCardinality ps (c_defaultCardinality k)))"
| "aggregated_call k (SetOp r (n, v, ts, rt, ps)) =
     Some (OpSet (n, v, ts, parameterCardinality ps (c_defaultCardinality k)))"
| "aggregated_call k (Histogram r (n, v, ts, rt, ps)) = (if c_extended k
     then Some (OpHistogram r (n, v, ts, rt, parameterCardinality ps (c_defaultCardinality k))) else None)"
| "aggregated_call k (Distribution r (n, v, ts, rt, ps)) = (if c_extended k
     then Some (OpDistribution r (n, v, ts, rt, parameterCardinality ps (c_defaultCardinality k))) else None)"
| "aggregated_call k (TimeInMilliseconds r (n, v, ts, rt, ps)) = (if c_extended k
     then Some (OpTiming r (n, v, ts, rt, parameterCardinality ps (c_defaultCardinality k))) else None)"
| "aggregated_call k (Timing r (n, v, ts, rt, ps)) = (if c_extended k
     then Some (OpTiming r (n, f64_mul (duration_Seconds v) (f64_of_int 1000), ts, rt,
       parameterCardinality ps (c_defaultCardinality k))) else None)"
| "aggregated_call k _ = None"

definition inject :: "ClientEx \<Rightarrow> metric \<Rightarrow> metric" where
  "inject k m = m\<lparr>m_globalTags := c_tags k, m_namespace := c_namespace k\<rparr>"

text \<open>What a flush owes for the calls since the last one.\<close>

definition expected_metrics :: "i64 \<Rightarrow> agg_op list \<Rightarrow> metric list" where
  "expected_metrics mx ops = expected_counts (counts_of ops) @ expected_gauges (gauges_of ops)
     @ expected_sets (sets_of ops)
     @ expected_buffered histogramAggregatedT mx (buffered_of histogramAggregatedT ops)
     @ expected_buffered distributionAggregatedT mx (buffered_of distributionAggregatedT ops)
     @ expected_buffered timingAggregatedT mx (buffered_of timingAggregatedT ops)"

record spec =
  sp_pending :: "agg_op list"
  sp_processed :: "metric multiset"
  sp_lines :: "bytes multiset"

fun flushes :: "client_op \<Rightarrow> bool" where
  "flushes (Flush e) \<longleftrightarrow> True"
| "flushes (AggregatorTick v draws) \<longleftrightarrow> True"
| "flushes _ \<longleftrightarrow> False"

definition spec_flush :: "globals \<Rightarrow> int \<Rightarrow> int \<Rightarrow> i64 \<Rightarrow> ClientEx \<Rightarrow> spec \<Rightarrow> spec" where
  "spec_flush g ms me mx k s =
     (let new = map (inject k) (expected_metrics mx (sp_pending s)) in
      \<lparr>sp_pending = [], sp_processed = sp_processed s + mset new,
       sp_lines = sp_lines s + mset (concat (map (\<lambda>m. accepted g ms me (0, m)) new))\<rparr>)"

definition spec_step :: "globals \<Rightarrow> int \<Rightarrow> int \<Rightarrow> i64 \<Rightarrow> ClientEx \<Rightarrow> spec \<Rightarrow> client_op \<Rightarrow> spec" where
  "spec_step g ms me mx k s op =
     (if flushes op then spec_flush g ms me mx k s
      else case (if c_agg k = None then None else aggregated_call k op) of
        Some call \<Rightarrow> s\<lparr>sp_pending := sp_pending s @ [call]\<rparr>
      | None \<Rightarrow> (case metric_of k op of
          None \<Rightarrow> s
        | Some m \<Rightarrow> s\<lparr>sp_processed := sp_processed s + {#m#},
            sp_lines := sp_lines s + mset (accepted g ms me (draw_of op, m))\<rparr>))"

definition spec_start :: spec where
  "spec_start = \<lparr>sp_pending = [], sp_processed = {#}, sp_lines = {#}\<rparr>"

definition spec_run :: "globals \<Rightarrow> int \<Rightarrow> int \<Rightarrow> i64 \<Rightarrow> ClientEx \<Rightarrow> client_op list \<Rightarrow> spec" where
  "spec_run g ms me mx k ops = foldl (spec_step g ms me mx k) spec_start ops"

section \<open>The aggregator between flushes\<close>

lemma flush_agg_state:
  assumes "agg_state n mx ops a" and "fair v" and "flushMetrics v a = (a', ms)"
  shows "agg_state n mx [] a'" and "agg_holds mx [] a'"
proof -
  note a' = flushMetrics_spec(1) [OF assms(2,3)]
  have len: "length (countShards a) = nat n" "length (gaugeShards a) = nat n"
    "length (setShards a) = nat n"
    using assms(1) by (simp_all add: agg_state_def cs.holds_def gs.holds_def ss.holds_def)
  show "agg_holds mx [] a'"
    by (rule agg_holds_start) (simp_all add: a' emptied_def)
  show "agg_state n mx [] a'"
    using assms(1) cs.holds_new [of n] gs.holds_new [of n] ss.holds_new [of n]
    by (simp add: a' agg_state_def of_snoc len wf_contexts_def emptied_def)
qed

lemma flush_expected:
  assumes "agg_state n mx ops a" and "agg_holds mx ops a" and "fair v" and "flushMetrics v a = (a', ms)"
  shows "mset ms = mset (expected_metrics mx ops)"
proof -
  have "mset (count_part a) = mset (expected_counts (counts_of ops))"
    using assms(1) by (intro count_part_expected) (auto simp: agg_state_def)
  moreover have "mset (gauge_part a) = mset (expected_gauges (gauges_of ops))"
    using assms(1) by (intro gauge_part_expected) (auto simp: agg_state_def)
  moreover have "mset (set_part v a) = mset (expected_sets (sets_of ops))"
    using assms(1,3) by (intro set_part_expected) (auto simp: agg_state_def)
  moreover have
    "mset (buffered_part (histograms a)) = mset (expected_buffered histogramAggregatedT mx (buffered_of histogramAggregatedT ops))"
    "mset (buffered_part (distributions a)) = mset (expected_buffered distributionAggregatedT mx (buffered_of distributionAggregatedT ops))"
    "mset (buffered_part (timings a)) = mset (expected_buffered timingAggregatedT mx (buffered_of timingAggregatedT ops))"
    using assms(2) unfolding agg_holds_def by (blast intro: buffered_part_expected)+
  ultimately show ?thesis
    by (simp add: flushMetrics_spec(2) [OF assms(3,4)] expected_metrics_def)
qed

text \<open>Serializing a metric panics only if its event or service check is nil.\<close>

definition not_nil :: "metric \<Rightarrow> bool" where
  "not_nil m \<longleftrightarrow> \<not> (m_type m = eventT \<and> m_evalue m = None) \<and> \<not> (m_type m = serviceCheckT \<and> m_scvalue m = None)"

lemma validateNewElement_not_nil: "snd (validateNewElement b orig) \<noteq> Some nilDereference"
  by (simp add: validateNewElement_def)

lemma loop_not_nil:
  "writeAggregatedLoop g sh w m sy extra prec rate vs = (sh', w', err) \<Longrightarrow> err \<noteq> Some nilDereference"
proof (induction g sh w m sy extra prec rate vs arbitrary: sh' w' err rule: writeAggregatedLoop.induct)
  case (1 g sh w m sy extra prec rate vs)
  obtain b pos e where w: "writeAggregated g (w_buffer w) sy (m_namespace m) (m_globalTags m) (m_name m) vs
      (m_stags m) extra prec rate (m_originDetection m) (m_cardinality m) = (b, pos, e)"
    by (metis prod_cases3)
  then have "e \<noteq> Some nilDereference"
    by (auto simp: writeAggregated_def Let_def split: if_splits prod.splits)
  with 1 w show ?case
    by (auto simp: writeAggregatedLoop.simps [of g sh w] split: if_splits prod.splits)
qed

lemma writeMetricUnsafe_not_nil:
  assumes "not_nil m" and "writeMetricUnsafe g sh w m = (sh', w', err)"
  shows "err \<noteq> Some nilDereference"
proof (cases "aggregated_symbol (m_type m)")
  case None
  with assms validateNewElement_not_nil show ?thesis
    by (cases "m_type m") (auto simp: not_nil_def aggregated_symbol_def writeMetricUnsafe_def Let_def with_buffer_def
        write_push push_def writeEvent_push writeServiceCheck_push split: if_splits)
next
  case (Some r)
  with assms loop_not_nil show ?thesis
    by (cases "m_type m") (auto simp: aggregated_symbol_def writeMetricUnsafe_def writeAggregatedMetricUnsafe_def)
qed

lemma processMetric_not_nil:
  assumes "not_nil m" and "processMetric g draw sh w m = (sh', w', err)"
  shows "err \<noteq> Some nilDereference"
  using assms(2) writeMetricUnsafe_not_nil [OF assms(1)]
  by (auto simp: processMetric_def split: if_splits prod.splits)

text \<open>What a flush sends is never nil, and the same whatever the draws of the workers.\<close>

lemma flushed_kinds:
  assumes "agg_state n mx ops a" and "agg_holds mx ops a" and "m \<in> set (expected_metrics mx ops)"
  shows "not_nil (inject k m)" and "accepted g ms me (draw, inject k m) = accepted g ms me (0, inject k m)"
proof -
  have "m_type m = ty" if "m \<in> set (expected_buffered ty mx calls)" "holds_samples ty mx calls bc"
    "wf_contexts ty mx n' bc" for ty calls bc n'
    using buffered_types [OF that(3), of m] buffered_part_expected [OF that(2)] that(1) by (metis set_mset_mset)
  with assms have "m_rate m = f64_one \<and> m_type m \<in> {countT, gaugeT, setT} \<or>
      m_type m \<in> {histogramAggregatedT, distributionAggregatedT, timingAggregatedT}"
    unfolding expected_metrics_def agg_state_def agg_holds_def
    by (fastforce simp: expected_counts_def expected_gauges_def expected_sets_def split: prod.splits)
  then show "not_nil (inject k m)" and "accepted g ms me (draw, inject k m) = accepted g ms me (0, inject k m)"
    by (auto simp: not_nil_def inject_def accepted_def shouldSample_def element_text_def Let_def)
qed

section \<open>The simulation\<close>

text \<open>
  A client in mutex mode, also for the aggregator if extended aggregation is on; its channels stay
  empty.  \<open>k\<close> is the client at its start.
\<close>

definition sane :: "globals \<Rightarrow> int \<Rightarrow> int \<Rightarrow> ClientEx \<Rightarrow> ClientEx \<Rightarrow> bool" where
  "sane g ms me k c \<longleftrightarrow> client_inv g ms me c \<and> config c = config k
     \<and> \<not> c_isClosed c \<and> c_aggInput c = [] \<and> list_all (\<lambda>q. q = []) (c_inputs c)"

definition mutex_client :: "ClientEx \<Rightarrow> bool" where
  "mutex_client k \<longleftrightarrow> c_workersMode k = mutexMode \<and> (c_extended k \<longrightarrow> c_aggregatorMode k = mutexMode)
     \<and> of_nat (length (c_workers k)) \<noteq> (0 :: u32)"

definition owes :: "globals \<Rightarrow> int \<Rightarrow> int \<Rightarrow> ClientEx \<Rightarrow> spec \<Rightarrow> bool" where
  "owes g ms me c s \<longleftrightarrow> mset (map snd (processed c)) = sp_processed s
     \<and> mset (concat (map (accepted g ms me) (processed c))) = sp_lines s"

definition aggregates :: "int \<Rightarrow> i64 \<Rightarrow> ClientEx \<Rightarrow> ClientEx \<Rightarrow> spec \<Rightarrow> bool" where
  "aggregates n mx k c s \<longleftrightarrow> (case c_agg c of
       None \<Rightarrow> c_agg k = None \<and> sp_pending s = []
     | Some a \<Rightarrow> c_agg k \<noteq> None \<and> agg_state n mx (sp_pending s) a \<and> agg_holds mx (sp_pending s) a)"

definition outer where
  "outer c = (c_agg c, c_inputs c, c_aggInput c, c_isClosed c, config c)"

lemma sane_outer:
  "sane g ms me k c \<Longrightarrow> outer c' = outer c \<Longrightarrow> client_inv g ms me c' \<Longrightarrow> sane g ms me k c'"
  by (simp add: sane_def outer_def)

lemma all_serializable_processed:
  "all_serializable g c \<longleftrightarrow> (\<forall>m \<in> snd ` set (processed c). serializable g m)"
  by (auto simp: all_serializable_def processed_def list_all_iff image_image case_prod_unfold)

lemma worker_processMetric_outer:
  "worker_processMetric g draw i m c = Done (c', err) \<Longrightarrow>
   outer c' = outer c \<and> processed c' = processed c @ [(draw, m)]"
  by (auto simp: worker_processMetric_def on_worker_def outer_def config_def processed_def
      split: prod.splits if_splits)

lemma worker_processes:
  assumes "sane g ms me k c" and "i < length (c_workers c)" and "not_nil m"
  shows "\<exists>c' err. worker_processMetric g draw i m c = Done (c', err) \<and> sane g ms me k c'
    \<and> outer c' = outer c \<and> processed c' = processed c @ [(draw, m)]"
proof -
  obtain sh' w' err where
    r: "processMetric g draw (c_shared c) (c_workers c ! i) m = (sh', w', err)"
    by (metis prod_cases3)
  from processMetric_not_nil [OF assms(3) r] r
  obtain c' where p: "worker_processMetric g draw i m c = Done (c', err)"
    by (simp add: worker_processMetric_def on_worker_def)
  note o = worker_processMetric_outer [OF p]
  have "client_inv g ms me c'"
    using process_inv [OF _ assms(2) p] assms(1) by (simp add: sane_def)
  with p o sane_outer [OF assms(1)] show ?thesis by blast
qed

lemma worker_found:
  assumes "mutex_client k" and "sane g ms me k c"
  shows "\<exists>i. workerIndex c name = Some i \<and> i < length (c_workers c)"
proof -
  have "length (c_workers c) = length (c_workers k)"
    using assms(2) by (simp add: sane_def config_def)
  then obtain i where "workerIndex c name = Some i"
    using assms(1) by (auto simp: workerIndex_def mutex_client_def Let_def)
  with workerIndex_less show ?thesis by blast
qed

lemma send_mutex:
  assumes "mutex_client k" and "sane g ms me k c" and "not_nil m"
  shows "\<exists>c' err. client_send g draw m c = Done (c', err) \<and> sane g ms me k c'
    \<and> outer c' = outer c \<and> processed c' = processed c @ [(draw, m)]"
proof -
  obtain i where i: "workerIndex c (m_name m) = Some i" "i < length (c_workers c)"
    using worker_found [OF assms(1,2)] by blast
  have "c_workersMode c = mutexMode"
    using assms(1,2) by (simp add: sane_def config_def mutex_client_def)
  with worker_processes [OF assms(2) i(2) assms(3), of draw] i(1) show ?thesis
    by (auto simp: client_send_def)
qed

lemma sendBlocking_mutex:
  assumes "mutex_client k" and "sane g ms me k c" and "not_nil (inject k m)"
  shows "\<exists>c' err. sendBlocking g draw m c = Done (c', err) \<and> sane g ms me k c'
    \<and> outer c' = outer c \<and> processed c' = processed c @ [(draw, inject k m)]"
proof -
  have "c_tags c = c_tags k" "c_namespace c = c_namespace k"
    using assms(2) by (simp_all add: sane_def config_def)
  moreover obtain i where "workerIndex c (m_name m) = Some i" "i < length (c_workers c)"
    using worker_found [OF assms(1,2)] by blast
  ultimately show ?thesis
    using worker_processes [OF assms(2) _ assms(3), of i draw]
    by (auto simp: sendBlocking_def inject_def)
qed

lemma sendAll_mutex:
  assumes "mutex_client k" and "sane g ms me k c"
    and "\<forall>m \<in> set new. not_nil (inject k m)"
  shows "\<exists>c'. sendAll g draws new c = Done c' \<and> sane g ms me k c' \<and> outer c' = outer c
    \<and> processed c' = processed c @ map (\<lambda>i. (draws i, inject k (new ! i))) [0..<length new]"
  using assms(2,3)
proof (induction new arbitrary: draws c)
  case (Cons m new)
  from sendBlocking_mutex [OF assms(1) Cons.prems(1), of m "draws 0"] Cons.prems(2)
  obtain c1 err where c1: "sendBlocking g (draws 0) m c = Done (c1, err)" "sane g ms me k c1"
    "outer c1 = outer c" "processed c1 = processed c @ [(draws 0, inject k m)]"
    by auto
  from Cons.IH [OF c1(2), of "\<lambda>i. draws (Suc i)"] Cons.prems(2) c1 show ?case
    by (auto simp: upt_rec [of 0] map_Suc_upt [symmetric] comp_def simp del: upt_Suc)
qed simp

lemma owes_processed:
  "owes g ms me c s \<Longrightarrow> processed c' = processed c @ [(draw, m)] \<Longrightarrow>
   owes g ms me c' (s\<lparr>sp_processed := sp_processed s + {#m#},
     sp_lines := sp_lines s + mset (accepted g ms me (draw, m))\<rparr>)"
  by (simp add: owes_def)

lemma mset_concat_map:
  assumes "mset xs = mset ys"
  shows "mset (concat (map f xs)) = mset (concat (map f ys))"
proof -
  have "mset (concat (map f zs)) = sum_mset (image_mset (\<lambda>x. mset (f x)) (mset zs))" for zs
    by (induction zs) simp_all
  with assms show ?thesis by simp
qed

lemma owes_flush:
  assumes "owes g ms me c s" and "mset new = mset (expected_metrics mx (sp_pending s))"
    and "\<And>m draw. m \<in> set new \<Longrightarrow> accepted g ms me (draw, inject k m) = accepted g ms me (0, inject k m)"
    and "processed c' = processed c @ map (\<lambda>i. (draws i, inject k (new ! i))) [0..<length new]"
  shows "owes g ms me c' (spec_flush g ms me mx k s)"
proof -
  have new: "map (\<lambda>i. F (new ! i)) [0..<length new] = map F new" for F :: "metric \<Rightarrow> 'x"
    by (rule nth_equalityI) simp_all
  have "map (\<lambda>i. accepted g ms me (draws i, inject k (new ! i))) [0..<length new]
      = map (\<lambda>m. accepted g ms me (0, inject k m)) new"
    by (rule nth_equalityI) (simp_all, blast intro: assms(3) nth_mem)
  with assms(1,4) mset_concat_map [OF assms(2), of "\<lambda>m. accepted g ms me (0, inject k m)"]
    arg_cong [OF assms(2), of "image_mset (inject k)"]
  show ?thesis
    by (simp add: owes_def spec_flush_def Let_def comp_def new)
qed

definition refines :: "globals \<Rightarrow> int \<Rightarrow> int \<Rightarrow> int \<Rightarrow> i64 \<Rightarrow> ClientEx \<Rightarrow> ClientEx \<Rightarrow> spec \<Rightarrow> bool" where
  "refines g ms me n mx k c s \<longleftrightarrow> sane g ms me k c \<and> owes g ms me c s \<and> aggregates n mx k c s"

lemma expected_metrics_Nil [simp]: "expected_metrics mx [] = []"
  by (simp add: expected_metrics_def of_snoc expected_counts_def expected_gauges_def expected_sets_def
      buffered_of_snoc expected_buffered_def)

lemma aggregator_flush_refines:
  assumes "mutex_client k" and "refines g ms me n mx k c s" and "fair v"
  shows "\<exists>c'. aggregator_flush g v draws c = Done c' \<and> refines g ms me n mx k c' (spec_flush g ms me mx k s)"
proof (cases "c_agg c")
  case None
  with assms(2) have "sp_pending s = []"
    by (simp add: refines_def aggregates_def)
  then have "spec_flush g ms me mx k s = s"
    by (simp add: spec_flush_def)
  with assms(2) None show ?thesis by (simp add: aggregator_flush_def)
next
  case (Some a)
  have sane: "sane g ms me k c" and a: "agg_state n mx (sp_pending s) a" "agg_holds mx (sp_pending s) a"
    and k: "c_agg k \<noteq> None"
    using assms(2) Some by (simp_all add: refines_def aggregates_def)
  obtain a' new where f: "flushMetrics v a = (a', new)" by (cases "flushMetrics v a")
  note exp = flush_expected [OF a assms(3) f]
  let ?c = "c\<lparr>c_agg := Some a'\<rparr>"
  have "sane g ms me k ?c"
    using sane other_inv [of g ms me c ?c] by (simp add: sane_def config_def)
  moreover have kinds: "m \<in> set new \<Longrightarrow> not_nil (inject k m)"
    "m \<in> set new \<Longrightarrow> accepted g ms me (draw, inject k m) = accepted g ms me (0, inject k m)" for m draw
    using flushed_kinds [OF a] mset_eq_setD [OF exp] by blast+
  ultimately obtain c' where c': "sendAll g draws new ?c = Done c'" "sane g ms me k c'"
    "outer c' = outer ?c"
    "processed c' = processed ?c @ map (\<lambda>i. (draws i, inject k (new ! i))) [0..<length new]"
    using sendAll_mutex [OF assms(1), of g ms me ?c new draws] by blast
  have "owes g ms me ?c s" "c_agg c' = Some a'"
    using assms(2) c'(3) by (simp_all add: refines_def owes_def processed_def outer_def)
  from owes_flush [OF this(1) exp kinds(2) c'(4)] this(2) have "refines g ms me n mx k c' (spec_flush g ms me mx k s)"
    using c'(2) flush_agg_state [OF a(1) assms(3) f] k
    by (simp add: refines_def aggregates_def) (simp add: spec_flush_def Let_def)
  with c'(1) Some f show ?thesis
    by (simp add: aggregator_flush_def)
qed

text \<open>The workers' flush and the sender's work are invisible to the specification.\<close>

lemma refines_same:
  assumes "refines g ms me n mx k c s" and "activities g c c'"
    and "outer c' = outer c" and "c_done c' = c_done c"
  shows "refines g ms me n mx k c' s"
proof -
  have "client_inv g ms me c'"
    using activities_inv [OF assms(2)] assms(1) by (simp add: refines_def sane_def)
  moreover have "processed c' = processed c"
    using assms(4) by (simp add: processed_def)
  ultimately show ?thesis
    using assms(1,3) sane_outer [of g ms me k c c']
    by (simp add: refines_def owes_def aggregates_def outer_def)
qed

lemma worker_flush_outer: "outer (worker_flush i c) = outer c"
  by (simp add: worker_flush_def on_worker_def outer_def config_def case_prod_unfold)

lemma foldl_flush_outer: "outer (foldl (\<lambda>c i. worker_flush i c) c is) = outer c
    \<and> c_done (foldl (\<lambda>c i. worker_flush i c) c is) = c_done c"
  by (induction "is" arbitrary: c) (simp_all add: worker_flush_outer worker_flush_fields)

lemma flush_workers_refines:
  "refines g ms me n mx k c s \<Longrightarrow> refines g ms me n mx k (flush_workers c) s"
  using foldl_flush_outer [of c "[0..<length (c_workers c)]"]
  by (intro refines_same [OF _ flush_workers_activities]) (auto simp: flush_workers_def)

lemma sender_drain_refines:
  "refines g ms me n mx k c s \<Longrightarrow> refines g ms me n mx k (sender_drain outs c) s"
  by (erule refines_same [OF _ activity_activities [OF drain]])
    (simp_all add: sender_drain_def outer_def config_def case_prod_unfold)

lemma sender_turn_refines:
  "refines g ms me n mx k c s \<Longrightarrow> refines g ms me n mx k (sender_turn out c) s"
  by (erule refines_same [OF _ activity_activities [OF turn]])
    (auto simp: sender_turn_def outer_def config_def Let_def split: list.splits prod.splits)

lemma client_flush_refines:
  assumes "mutex_client k" and "refines g ms me n mx k c s" and "fair (fe_visits e)"
  shows "\<exists>c'. client_flush g e c = Done c' \<and> refines g ms me n mx k c' (spec_flush g ms me mx k s)"
proof -
  obtain c1 where c1: "aggregator_flush g (fe_visits e) (fe_draws e) c = Done c1"
    "refines g ms me n mx k c1 (spec_flush g ms me mx k s)"
    using aggregator_flush_refines [OF assms] by blast
  note r = flush_workers_refines [OF c1(2)]
  then have "\<not> c_isClosed (flush_workers c1)"
    by (simp add: refines_def sane_def)
  with c1(1) sender_drain_refines [OF r] show ?thesis
    by (auto simp: client_flush_def sender_flush_def)
qed

section \<open>One operation\<close>

text \<open>
  The operations of the simulation: no \<open>Close\<close>, no nil event or service check, fair iteration over
  maps, context strings of ASCII in calls that pick a shard, and random numbers in range.
\<close>

fun spec_op :: "int \<Rightarrow> ClientEx \<Rightarrow> client_op \<Rightarrow> bool" where
  "spec_op n k (Close e outs) \<longleftrightarrow> False"
| "spec_op n k (EventOp r e ps) \<longleftrightarrow> e \<noteq> None"
| "spec_op n k (ServiceCheckOp r sc ps) \<longleftrightarrow> sc \<noteq> None"
| "spec_op n k (Flush e) \<longleftrightarrow> fair (fe_visits e)"
| "spec_op n k (AggregatorTick v draws) \<longleftrightarrow> fair v"
| "spec_op n k op \<longleftrightarrow> (case aggregated_call k op of
       Some call \<Rightarrow> c_agg k = None \<or> good_op n call | None \<Rightarrow> True)"

lemma refines_telemetry:
  "refines g ms me n mx k c s \<Longrightarrow> refines g ms me n mx k (c\<lparr>c_telemetry := t\<rparr>) s"
  by (erule refines_same [OF _ quiet_only [OF quiet_telemetry(1)]]) (simp_all add: outer_def config_def)

lemma call_send:
  assumes "mutex_client k" and "refines g ms me n mx k c s" and "not_nil m"
  shows "\<exists>c' err. client_send g draw m (c\<lparr>c_telemetry := t\<rparr>) = Done (c', err)
    \<and> refines g ms me n mx k c' (s\<lparr>sp_processed := sp_processed s + {#m#},
        sp_lines := sp_lines s + mset (accepted g ms me (draw, m))\<rparr>)"
proof -
  let ?c = "c\<lparr>c_telemetry := t\<rparr>"
  note r = refines_telemetry [OF assms(2), of t]
  obtain c' err where c': "client_send g draw m ?c = Done (c', err)" "sane g ms me k c'"
    "outer c' = outer ?c" "processed c' = processed ?c @ [(draw, m)]"
    using send_mutex [OF assms(1), of g ms me ?c m draw] r assms(3) by (auto simp: refines_def)
  have "owes g ms me ?c s"
    using r by (simp add: refines_def)
  from owes_processed [OF this c'(4)] c' r show ?thesis
    by (simp add: refines_def aggregates_def outer_def split: option.splits)
qed

lemma call_aggregate:
  assumes "refines g ms me n mx k c s" and "c_agg c = Some a" and "good_op n call"
    and "int (length (sp_pending s)) < 2 ^ 63 - 1"
  shows "\<exists>a'. run_op call a = Some a' \<and> refines g ms me n mx k (c\<lparr>c_telemetry := t, c_agg := Some a'\<rparr>)
    (s\<lparr>sp_pending := sp_pending s @ [call]\<rparr>)"
proof -
  have ag: "agg_state n mx (sp_pending s) a" "agg_holds mx (sp_pending s) a" "c_agg k \<noteq> None"
    using assms(1,2) by (simp_all add: refines_def aggregates_def)
  obtain a' where a': "run_op call a = Some a'" "agg_state n mx (sp_pending s @ [call]) a'"
    using run_op_state [OF ag(1) assms(3,4)] by blast
  let ?c = "c\<lparr>c_telemetry := t, c_agg := Some a'\<rparr>"
  have "sane g ms me k ?c"
    using assms(1) other_inv [of g ms me c ?c]
    by (simp add: refines_def sane_def config_def)
  moreover have "owes g ms me ?c (s\<lparr>sp_pending := sp_pending s @ [call]\<rparr>)"
    using assms(1) by (simp add: refines_def owes_def processed_def)
  ultimately show ?thesis
    using a' ag run_op_holds [OF ag(1,2) a'(1)]
    by (auto simp: refines_def aggregates_def)
qed

lemma refines_config:
  assumes "refines g ms me n mx k c s"
  shows "call_metric c = call_metric k" "c_defaultCardinality c = c_defaultCardinality k"
    "c_extended c = c_extended k" "c_agg c = None \<longleftrightarrow> c_agg k = None"
    "c_isClosed c = False" "c_aggInput c = []" "list_all (\<lambda>q. q = []) (c_inputs c)"
  using assms
  by (auto simp: refines_def sane_def config_def call_metric_def fun_eq_iff aggregates_def
      split: option.splits)

lemma call_metric_telemetry [simp]: "call_metric (c\<lparr>c_telemetry := t\<rparr>) = call_metric c"
  by (simp add: call_metric_def fun_eq_iff)

lemma timestamp_invalid [simp]:
  "isZero t \<or> sint (unix_sec t) \<le> sint noTimestamp \<longleftrightarrow> sint (unix_sec t) \<le> 0"
  by (auto simp: isZero_def noTimestamp_def)

text \<open>The two ways a method can end: its metric is sent, or the call is aggregated.\<close>

definition sends :: "globals \<Rightarrow> f64 \<Rightarrow> metric \<Rightarrow> ClientEx
    \<Rightarrow> (ClientEx option \<times> client_error option) outcome \<Rightarrow> bool" where
  "sends g draw m c res \<longleftrightarrow>
     (\<exists>t. totalDroppedOnReceive t = totalDroppedOnReceive (c_telemetry c) \<and> res =
       obind (client_send g draw m (c\<lparr>c_telemetry := t\<rparr>)) (\<lambda>(c, err). Done (Some c, err)))"

definition aggregates_call :: "agg_op \<Rightarrow> aggregator \<Rightarrow> ClientEx
    \<Rightarrow> (ClientEx option \<times> client_error option) outcome \<Rightarrow> bool" where
  "aggregates_call call a c res \<longleftrightarrow> (\<exists>t. res =
     obind (or_panic (run_op call a)) (\<lambda>a. Done (Some (c\<lparr>c_telemetry := t, c_agg := Some a\<rparr>), None)))"

lemma sendsI [simp]:
  "totalDroppedOnReceive t = totalDroppedOnReceive (c_telemetry c) \<Longrightarrow> sends g draw m c (obind (client_send g draw m (c\<lparr>c_telemetry := t\<rparr>)) (\<lambda>(c, err). Done (Some c, err)))"
  by (auto simp: sends_def)

lemma aggregates_callI [simp]:
  "aggregates_call (OpGauge (n, v, ts, crd)) a c
     (obind (or_panic (agg_gauge a n v ts crd)) (\<lambda>a. Done (Some (c\<lparr>c_telemetry := t, c_agg := Some a\<rparr>), None)))"
  "aggregates_call (OpCount (n, i, ts, crd)) a c
     (obind (or_panic (agg_count a n i ts crd)) (\<lambda>a. Done (Some (c\<lparr>c_telemetry := t, c_agg := Some a\<rparr>), None)))"
  "aggregates_call (OpSet (n, b, ts, crd)) a c
     (obind (or_panic (agg_set a n b ts crd)) (\<lambda>a. Done (Some (c\<lparr>c_telemetry := t, c_agg := Some a\<rparr>), None)))"
  "aggregates_call (OpHistogram r (n, v, ts, rt, crd)) a c
     (obind (or_panic (agg_histogram r a n v ts rt crd)) (\<lambda>a. Done (Some (c\<lparr>c_telemetry := t, c_agg := Some a\<rparr>), None)))"
  "aggregates_call (OpDistribution r (n, v, ts, rt, crd)) a c
     (obind (or_panic (agg_distribution r a n v ts rt crd)) (\<lambda>a. Done (Some (c\<lparr>c_telemetry := t, c_agg := Some a\<rparr>), None)))"
  "aggregates_call (OpTiming r (n, v, ts, rt, crd)) a c
     (obind (or_panic (agg_timing r a n v ts rt crd)) (\<lambda>a. Done (Some (c\<lparr>c_telemetry := t, c_agg := Some a\<rparr>), None)))"
  by (auto simp: aggregates_call_def)

lemma worker_pull_mutex:
  "list_all (\<lambda>q. q = []) (c_inputs c) \<Longrightarrow> worker_pull g draw i c = Done c"
  by (auto simp: worker_pull_def list_all_length)

lemma aggExtended_telemetry [simp]: "aggExtended (c\<lparr>c_telemetry := t\<rparr>) = aggExtended c"
  by (simp add: aggExtended_def)

lemma step_sends:
  assumes "metric_of c op = Some m" and "c_agg c = None \<or> aggregated_call c op = None"
  shows "sends g (draw_of op) m c (client_step g op (Some c))"
  using assms
  by (cases "(c, op)" rule: metric_of.cases)
    (auto simp: method_defs unless_nil_def aggExtended_def Let_def split: if_splits)

lemma step_aggregates:
  assumes "aggregated_call c op = Some call" and "c_agg c = Some a"
    and "c_extended c \<longrightarrow> c_aggregatorMode c = mutexMode"
  shows "aggregates_call call a c (client_step g op (Some c))"
  using assms
  by (cases "(c, op)" rule: aggregated_call.cases)
    (auto simp: method_defs unless_nil_def aggExtended_def sendToAggregator_def Let_def obind_assoc split: if_splits)

lemma step_nothing:
  assumes "metric_of c op = None" and "\<not> flushes op" and "spec_op n k op"
    and "\<not> c_isClosed c" and "c_aggInput c = []" and "list_all (\<lambda>q. q = []) (c_inputs c)"
  obtains (same) err where "client_step g op (Some c) = Done (Some c, err)"
  | (turn) out where "client_step g op (Some c) = Done (Some (sender_turn out c), None)"
  | (tick) "client_step g op (Some c) = Done (Some (flush_workers c), None)"
  using assms
  by (cases "(c, op)" rule: metric_of.cases)
    (auto simp: method_defs unless_nil_def goroutine_def worker_pull_mutex aggregator_pull_def
      watch_tick_def split: if_splits)

lemma metric_of_not_nil:
  "metric_of k op = Some m \<Longrightarrow> spec_op n k op \<Longrightarrow> not_nil m"
  by (cases "(k, op)" rule: metric_of.cases)
    (auto simp: not_nil_def call_metric_def Let_def split: if_splits)

lemma aggregated_call_good:
  "aggregated_call k op = Some call \<Longrightarrow> spec_op n k op \<Longrightarrow> c_agg k \<noteq> None \<Longrightarrow> good_op n call"
  by (cases "(k, op)" rule: aggregated_call.cases) (auto split: option.splits)

lemma config_calls:
  assumes "config c = config k"
  shows "metric_of c op = metric_of k op" and "aggregated_call c op = aggregated_call k op"
proof -
  have "call_metric c = call_metric k" "c_defaultCardinality c = c_defaultCardinality k"
    "c_tags c = c_tags k" "c_namespace c = c_namespace k" "c_extended c = c_extended k"
    using assms by (simp_all add: config_def call_metric_def fun_eq_iff)
  then show "metric_of c op = metric_of k op" and "aggregated_call c op = aggregated_call k op"
    by (cases "(c, op)" rule: metric_of.cases, simp_all)+
qed

lemma step_refines:
  assumes "mutex_client k" and R: "refines g ms me n mx k c s" and ok: "spec_op n k op"
    and len: "int (length (sp_pending s)) < 2 ^ 63 - 1"
  shows "\<exists>c' err. client_step g op (Some c) = Done (Some c', err)
    \<and> refines g ms me n mx k c' (spec_step g ms me mx k s op)"
proof -
  note C = refines_config [OF R]
  have k: "config c = config k"
    using R by (simp add: refines_def sane_def)
  have ext: "c_extended c \<longrightarrow> c_aggregatorMode c = mutexMode"
    using C(3) assms(1) k by (simp add: mutex_client_def config_def)
  consider (flush) "flushes op"
    | (agg) call a where "\<not> flushes op" "aggregated_call k op = Some call" "c_agg c = Some a"
    | (send) m where "\<not> flushes op" "c_agg c = None \<or> aggregated_call k op = None" "metric_of k op = Some m"
    | (quiet) "\<not> flushes op" "c_agg c = None \<or> aggregated_call k op = None" "metric_of k op = None"
    by (cases "c_agg c"; cases "aggregated_call k op"; cases "metric_of k op") auto
  then show ?thesis
  proof cases
    case flush
    then have spec: "spec_step g ms me mx k s op = spec_flush g ms me mx k s"
      by (simp add: spec_step_def)
    consider (a) e where "op = Flush e" | (b) v draws where "op = AggregatorTick v draws"
      using flush by (cases op) auto
    then show ?thesis
    proof cases
      case a
      with client_flush_refines [OF assms(1) R, of e] ok show ?thesis
        unfolding spec by (auto simp: client_Flush_def unless_nil_def)
    next
      case b
      with aggregator_flush_refines [OF assms(1) R, of v draws] ok C(5) show ?thesis
        unfolding spec by (auto simp: goroutine_def unless_nil_def)
    qed
  next
    case agg
    then have kagg: "c_agg k \<noteq> None"
      using C(4) by auto
    have "aggregated_call c op = Some call"
      using agg(2) config_calls [OF k, of op] by simp
    then obtain t where t: "client_step g op (Some c) = obind (or_panic (run_op call a))
        (\<lambda>a. Done (Some (c\<lparr>c_telemetry := t, c_agg := Some a\<rparr>), None))"
      using step_aggregates [OF _ agg(3) ext, of op call g] by (auto simp: aggregates_call_def)
    obtain a' where a': "run_op call a = Some a'" "refines g ms me n mx k
        (c\<lparr>c_telemetry := t, c_agg := Some a'\<rparr>) (s\<lparr>sp_pending := sp_pending s @ [call]\<rparr>)"
      using call_aggregate [OF R agg(3) aggregated_call_good [OF agg(2) ok kagg]
          len] by blast
    have "spec_step g ms me mx k s op = s\<lparr>sp_pending := sp_pending s @ [call]\<rparr>"
      using agg(1,2) kagg by (auto simp: spec_step_def)
    with a' t show ?thesis by (simp add: or_panic_def)
  next
    case send
    have "sends g (draw_of op) m c (client_step g op (Some c))"
      using step_sends send config_calls [OF k, of op] by simp
    then obtain t where "client_step g op (Some c) =
        obind (client_send g (draw_of op) m (c\<lparr>c_telemetry := t\<rparr>)) (\<lambda>(c, err). Done (Some c, err))"
      by (auto simp: sends_def)
    moreover have "(if c_agg k = None then None else aggregated_call k op) = None"
      using send(2) C(4) by auto
    ultimately show ?thesis
      using call_send [OF assms(1) R metric_of_not_nil [OF send(3) ok], of "draw_of op" t] send
      by (auto simp: spec_step_def)
  next
    case quiet
    have "(if c_agg k = None then None else aggregated_call k op) = None"
      using quiet(2) C(4) by auto
    then have spec: "spec_step g ms me mx k s op = s"
      using quiet by (auto simp: spec_step_def)
    have "metric_of c op = None"
      using quiet config_calls [OF k, of op] by simp
    have "\<not> c_isClosed c"
      using C(5) by simp
    note R' = R sender_turn_refines [OF R] flush_workers_refines [OF R]
    from \<open>metric_of c op = None\<close> quiet(1) ok \<open>\<not> c_isClosed c\<close> C(6,7) show ?thesis
      unfolding spec by (rule step_nothing [where g = g]) (use R' in blast)+
  qed
qed

section \<open>Runs\<close>

lemma spec_pending_length: "length (sp_pending (spec_run g ms me mx k ops)) \<le> length ops"
proof (induction ops rule: rev_induct)
  case (snoc op ops)
  then show ?case
    by (auto simp: spec_run_def spec_step_def spec_flush_def Let_def split: option.splits)
qed (simp add: spec_run_def spec_start_def)

text \<open>A new client whose aggregator, if it has one, is new.\<close>

definition fresh_client :: "int \<Rightarrow> int \<Rightarrow> int \<Rightarrow> i64 \<Rightarrow> ClientEx \<Rightarrow> bool" where
  "fresh_client ms me n mx k \<longleftrightarrow> new_client ms me k
     \<and> (c_agg k = None \<or> c_agg k = newAggregator mx n)"

lemma start_refines:
  assumes "fresh_client ms me n mx k"
  shows "refines g ms me n mx k k spec_start"
proof -
  have "agg_state n mx [] a \<and> agg_holds mx [] a" if "newAggregator mx n = Some a" for a
    using newAggregator_state [OF that] that
    by (auto simp: newAggregator_def size_defs newBufferedContexts_def intro!: agg_holds_start split: if_splits)
  moreover have "client_inv g ms me k"
    using assms new_client_start by (simp add: fresh_client_def)
  ultimately show ?thesis
    using assms
    by (auto simp: fresh_client_def refines_def sane_def owes_def aggregates_def spec_start_def
        new_client_def processed_def split: option.splits)
qed

lemma run_refines:
  assumes "mutex_client k" and "fresh_client ms me n mx k" and "list_all (spec_op n k) ops"
    and "int (length ops) < 2 ^ 63"
  shows "\<exists>c errs. client_run g ops (Some k) = Done (Some c, errs)
    \<and> refines g ms me n mx k c (spec_run g ms me mx k ops)"
  using assms(3,4)
proof (induction ops rule: rev_induct)
  case Nil
  then show ?case
    using start_refines [OF assms(2)] by (simp add: spec_run_def)
next
  case (snoc op ops)
  then obtain c errs where c: "client_run g ops (Some k) = Done (Some c, errs)"
    "refines g ms me n mx k c (spec_run g ms me mx k ops)"
    by auto
  have "int (length (sp_pending (spec_run g ms me mx k ops))) < 2 ^ 63 - 1"
    using spec_pending_length [of g ms me mx k ops] snoc.prems(2) by simp
  from step_refines [OF assms(1) c(2) _ this, of op] snoc.prems(1) c(1) show ?case
    by (auto simp: client_run_append spec_run_def)
qed

lemma list_all2_accepted:
  "list_all2 (emits g ms me) dms lss \<Longrightarrow> list_all (\<lambda>(d, m). one_line g m) dms \<Longrightarrow>
   lss = map (accepted g ms me) dms"
proof (induction rule: list_all2_induct)
  case (Cons dm dms ls lss)
  obtain el where "element_text g (snd dm) = Some el"
    using Cons.prems by (auto simp: one_line_def split: option.splits)
  from aggregated_symbol_None [OF this] Cons show ?case
    by (auto simp: emits_def split: prod.splits)
qed simp

end
