(* ===== verification/NewClient_Facts.thy ===== *)
theory NewClient_Facts
  imports NewClient Client_Spec
begin

text \<open>
  What construction guarantees: the client that \<open>NewEx\<close> or \<open>NewWithWriterEx\<close> returns is in the
  start state the theorems on runs ask for, and with options in their documented ranges
  construction never panics.
\<close>

section \<open>The client that is returned\<close>

lemma newWorkers_fresh:
  "wf_pool ms me (sh_pool sh) \<Longrightarrow> newWorkers n sh = (sh', ws) \<Longrightarrow>
   wf_pool ms me (sh_pool sh') \<and> sh_sender sh' = sh_sender sh \<and> sh_log sh' = sh_log sh
   \<and> length ws = n \<and> list_all (\<lambda>w. fresh_buffer ms me (w_buffer w)) ws"
proof (induction n arbitrary: sh sh' ws)
  case (Suc n)
  obtain sh1 w where w: "newWorker sh = (sh1, w)" by (cases "newWorker sh")
  obtain ws1 where ws: "newWorkers n sh1 = (sh', ws1)" "ws = w # ws1"
    using Suc.prems(2) w by (auto split: prod.splits)
  have "wf_pool ms me (sh_pool sh1)" "fresh_buffer ms me (w_buffer w)"
    "sh_sender sh1 = sh_sender sh" "sh_log sh1 = sh_log sh"
    using w bp.borrow_ok [OF Suc.prems(1)] bp.borrow_fresh [OF Suc.prems(1)]
    by (auto simp: newWorker_def case_prod_unfold Let_def)
  with Suc.IH [OF _ ws(1)] ws(2) show ?case by simp
qed simp

lemma customAddr_pool:
  assumes "newTelemetryClientWithCustomAddr parse env op tr tags addr ae h p = Some (t, p')"
    and "wf_pool ms me p"
  shows "wf_pool ms me p'"
  using assms bp.borrow_ok [OF assms(2)]
  by (auto simp: newTelemetryClientWithCustomAddr_def newWorker_def Let_def case_prod_unfold
      split: prod.splits option.splits)

lemma startAggregator_Done:
  "startAggregator o' = Done agg \<Longrightarrow>
   agg = (if wantsAggregator o'
          then newAggregator (of_int (o_maxBufferedSamplesPerContext o')) (o_aggregatorShardCount o')
          else None)"
  by (auto simp: startAggregator_def split: option.splits if_splits)

text \<open>How the fields of the client follow from the options.\<close>

definition configured :: "Options \<Rightarrow> ClientEx \<Rightarrow> bool" where
  "configured o' c \<longleftrightarrow> length (c_workers c) = nat (o_workersCount o')
     \<and> c_namespace c = o_namespace o' \<and> c_extended c = o_extendedAggregation o'
     \<and> c_aggregatorMode c = o_receiveMode o'
     \<and> c_workersMode c = (if o_extendedAggregation o' then mutexMode else o_receiveMode o')
     \<and> (c_agg c \<noteq> None \<longleftrightarrow> wantsAggregator o') \<and> c_inputCap c = nat (o_channelModeBufferSize o')
     \<and> c_hasErrorHandler c = o_errorHandler o'"

lemma adaptSizes_fields:
  "o_workersCount (adaptSizes u o') = o_workersCount o'" "o_namespace (adaptSizes u o') = o_namespace o'"
  "o_extendedAggregation (adaptSizes u o') = o_extendedAggregation o'"
  "o_receiveMode (adaptSizes u o') = o_receiveMode o'" "wantsAggregator (adaptSizes u o') = wantsAggregator o'"
  "o_channelModeBufferSize (adaptSizes u o') = o_channelModeBufferSize o'"
  "o_errorHandler (adaptSizes u o') = o_errorHandler o'"
  "o_maxMessagesPerPayload (adaptSizes u o') = o_maxMessagesPerPayload o'"
  "o_aggregatorShardCount (adaptSizes u o') = o_aggregatorShardCount o'"
  "o_maxBufferedSamplesPerContext (adaptSizes u o') = o_maxBufferedSamplesPerContext o'"
  by (simp_all add: adaptSizes_def wantsAggregator_def Let_def)

lemma empty_channels [simp]: "list_all (\<lambda>q. q = []) (replicate n [])"
  by (simp add: list_all_iff)

lemma newWithWriter_client:
  assumes "newWithWriter wd pr o0 name tr = (pr', Done (Inr (c, t)))"
  defines "o' \<equiv> adaptSizes (name = writerNameUDS) o0"
  shows "fresh_client (o_maxBytesPerPayload o') (o_maxMessagesPerPayload o') (o_aggregatorShardCount o')
      (of_int (o_maxBufferedSamplesPerContext o')) c \<and> configured o0 c"
proof -
  have o': "adaptSizes (name = writerNameUDS) o0 = o'"
    by (simp add: o'_def)
  let ?ms = "o_maxBytesPerPayload o'" and ?me = "o_maxMessagesPerPayload o'"
  obtain p agg sh ws where
    p: "newBufferPool (o_bufferPoolSize o') ?ms ?me = Some p"
    and agg: "startAggregator o' = Done agg"
    and ws: "newWorkers (nat (o_workersCount o'))
      \<lparr>sh_pool = p, sh_sender = newSender (nat (o_senderQueueSize o')) (o_errorHandler o'), sh_log = []\<rparr>
      = (sh, ws)"
    and c: "c_workers c = ws" "c_sent c = []" "c_done c = []" "c_aggInput c = []" "c_handled c = []"
      "\<not> c_isClosed c" "c_telemetry c = zero_statsdTelemetry" "c_agg c = agg"
      "c_namespace c = o_namespace o'" "c_extended c = o_extendedAggregation o'"
      "c_aggregatorMode c = o_receiveMode o'" "c_hasErrorHandler c = o_errorHandler o'"
      "c_inputCap c = nat (o_channelModeBufferSize o')"
      "c_workersMode c = (if o_extendedAggregation o' then mutexMode else o_receiveMode o')"
      "c_inputs c = (if c_workersMode c = channelMode then replicate (nat (o_workersCount o')) [] else [])"
    and sh: "c_shared c = sh \<or> (\<exists>t' p'. c_shared c = sh\<lparr>sh_pool := p'\<rparr>
      \<and> newTelemetryClientWithCustomAddr (urlParse wd) (getenv wd) (try_open wd) tr
          (o_tags o0 @ envTags (getenv wd)) (o_telemetryAddr o') (agg \<noteq> None) (o_errorHandler o') (sh_pool sh)
          = Some (t', p'))"
    using assms(1) unfolding newWithWriter_def o' Let_def
    by (auto elim!: obind_DoneE split: option.splits prod.splits if_splits)
  note W = newWorkers_fresh [OF _ ws, of ?ms ?me, simplified, OF newBufferPool_wf [OF p]]
  have "wf_pool ?ms ?me (sh_pool (c_shared c)) \<and> sh_log (c_shared c) = []
      \<and> sh_sender (c_shared c) = newSender (nat (o_senderQueueSize o')) (o_errorHandler o')"
    using sh W customAddr_pool by auto
  moreover have "agg = None \<or> agg = newAggregator (of_int (o_maxBufferedSamplesPerContext o'))
      (o_aggregatorShardCount o')" "agg \<noteq> None \<longleftrightarrow> wantsAggregator o'"
    using startAggregator_Done [OF agg] agg
    by (auto simp: startAggregator_def split: if_splits option.splits)
  ultimately show ?thesis
    using c W by (auto simp: fresh_client_def new_client_def configured_def o'_def adaptSizes_fields)
qed

lemma NewEx_newWithWriter:
  assumes "snd (NewEx wd pr addr opts) = Done (Inr (c, t))"
  obtains pr' o' name tr where "resolveOptions opts = Inr o'"
    "newWithWriter wd pr o' name tr = (pr', Done (Inr (c, t)))"
  using assms unfolding NewEx_def
  by (auto simp: Let_def split: sum.splits prod.splits option.splits) (metis prod.collapse)+

section \<open>Construction does not panic\<close>

text \<open>
  Sizes within the limits of \<open>make\<close> (0 stands for the default of the transport) and intervals that
  are positive; \<open>resolveOptions\<close> checks only that the counts of workers and shards are positive.
\<close>

definition sizes_in_range :: "Options \<Rightarrow> bool" where
  "sizes_in_range o' \<longleftrightarrow> 0 \<le> o_maxBytesPerPayload o' \<and> o_maxBytesPerPayload o' \<le> maxAlloc - metricOverhead
     \<and> make_chan 8 (o_bufferPoolSize o') \<and> make_chan 8 (o_senderQueueSize o')
     \<and> make_chan metricSize (o_channelModeBufferSize o') \<and> make_slice 128 (o_aggregatorShardCount o')
     \<and> 0 < sint (o_bufferFlushInterval o') \<and> 0 < sint (o_aggregationFlushInterval o')"

lemma valid_default: "valid_options defaultOptions"
  by (simp add: valid_options_def defaultOptions_def)

lemma resolveOptions_valid:
  "list_all library_option opts \<Longrightarrow> resolveOptions opts = Inr o' \<Longrightarrow> valid_options o'"
  using applyOptions_valid [OF _ _ valid_default] by (simp add: resolveOptions_def)

lemma startAggregator_returns:
  "make_slice 128 (o_aggregatorShardCount o') \<Longrightarrow> 0 < sint (o_aggregationFlushInterval o') \<Longrightarrow>
   make_chan metricSize (o_channelModeBufferSize o') \<Longrightarrow> \<exists>agg. startAggregator o' = Done agg"
  by (simp add: startAggregator_def newAggregator_def)

lemma adaptSizes_range:
  assumes "sizes_in_range o'"
  shows "make_chan 8 (o_bufferPoolSize (adaptSizes u o'))
     \<and> 0 < o_maxBytesPerPayload (adaptSizes u o') \<and> o_maxBytesPerPayload (adaptSizes u o') \<le> maxAlloc - metricOverhead
     \<and> make_chan 8 (o_senderQueueSize (adaptSizes u o'))
     \<and> o_bufferFlushInterval (adaptSizes u o') = o_bufferFlushInterval o'
     \<and> o_aggregationFlushInterval (adaptSizes u o') = o_aggregationFlushInterval o'"
  using assms
  by (auto simp: adaptSizes_def sizes_in_range_def size_defs metricOverhead_def Let_def DefaultUDSBufferPoolSize_def
      DefaultUDPBufferPoolSize_def DefaultMaxAgentPayloadSize_def OptimalUDPPayloadSize_def)

lemma newWithWriter_returns:
  assumes "valid_options o'" and "sizes_in_range o'"
  shows "\<exists>r. snd (newWithWriter wd pr o' name tr) = Done r"
proof -
  let ?o = "adaptSizes (name = writerNameUDS) o'"
  note R = adaptSizes_range [OF assms(2), of "name = writerNameUDS"]
  obtain agg where "startAggregator ?o = Done agg"
    using startAggregator_returns [of ?o] R assms
    by (auto simp: sizes_in_range_def valid_options_def adaptSizes_fields)
  moreover obtain p where "newBufferPool (o_bufferPoolSize ?o) (o_maxBytesPerPayload ?o)
      (o_maxMessagesPerPayload ?o) = Some p"
    using R by (auto simp: newBufferPool_def size_defs metricOverhead_def)
  ultimately show ?thesis
    using R assms
    by (simp add: newWithWriter_def Let_def sizes_in_range_def adaptSizes_fields case_prod_unfold
        split: option.split)
qed

end
