(* ===== verification/Client_Properties.thy ===== *)
theory Client_Properties
  imports NewClient_Facts
begin

text \<open>
  The properties of the client as a whole, with a small client, built by \<open>NewWithWriterEx\<close>, on which
  each of them is applied.
\<close>

section \<open>A small client\<close>

definition demo_world :: world where
  "demo_world = \<lparr>getenv = (\<lambda>_. ''''), wide_print = (\<lambda>_. False),
     the_host = \<lparr>files = (\<lambda>_. None), inode_of = (\<lambda>_. None)\<rparr>,
     urlParse = (\<lambda>_. None), try_open = (\<lambda>_. None)\<rparr>"

definition demo_process :: process where
  "demo_process = \<lparr>pr_globals = no_globals, pr_initialized = False\<rparr>"

definition demo_options :: "Option list" where
  "demo_options = [WithoutTelemetry, WithWorkersCount 1, WithMaxBytesPerPayload 16,
     WithBufferPoolSize 2, WithSenderQueueSize 4]"

definition demo_buffer :: statsdBuffer where
  "demo_buffer = newStatsdBuffer 16 2147483647"

definition demo_client :: ClientEx where
  "demo_client =
     \<lparr>c_shared = \<lparr>sh_pool = \<lparr>pool = [demo_buffer], poolCap = 2, bufferMaxSize = 16,
        bufferMaxElements = 2147483647\<rparr>, sh_sender = newSender 4 True, sh_log = []\<rparr>,
      c_namespace = [], c_tags = [], c_telemetry = zero_statsdTelemetry,
      c_workers = [\<lparr>w_buffer = demo_buffer\<rparr>], c_inputs = [], c_inputCap = 4096,
      c_workersMode = mutexMode, c_aggregatorMode = mutexMode, c_agg = newAggregator (- 1) 1,
      c_extended = False, c_aggInput = [], c_isClosed = False, c_errorOnBlockedChannel = False,
      c_hasErrorHandler = True, c_handled = [], c_originDetection = True,
      c_defaultCardinality = CardinalityNotSet, c_sent = [], c_done = []\<rparr>"

lemma demo_options:
  "resolveOptions demo_options = Inr (defaultOptions\<lparr>o_telemetry := False, o_workersCount := 1,
     o_maxBytesPerPayload := 16, o_bufferPoolSize := 2, o_senderQueueSize := 4\<rparr>)"
  by (simp add: resolveOptions_def demo_options_def option_defs)

lemma demo_cardinality: "validateCardinality [] = (CardinalityNotSet, False)"
  by (simp add: validateCardinality_def toLower_def runes_def)

lemma replicate_2: "replicate 2 x = [x, x]"
  by (simp add: numeral_2_eq_2)

lemma demo_made:
  "\<exists>pr. NewWithWriterEx demo_world demo_process demo_options = (pr, Done (Inr (demo_client, None)))"
  by (simp add: NewWithWriterEx_def demo_options newWithWriter_def Let_def adaptSizes_def
    startAggregator_def wantsAggregator_def defaultOptions_def newBufferPool_def size_defs metricSize_def metricOverhead_def
    millisecond_def case_prod_unfold addNewBuffer_pow newWorker_def borrowBuffer_def
    demo_client_def demo_buffer_def newAggregator_def size_defs envTags_def ddEnvTagsMapping_def demo_world_def
    chosenCardinality_def envTagCardinality_def isOriginDetectionEnabled_def
    demo_cardinality replicate_2)


definition demo_random :: random where
  "demo_random = (0, \<lambda>_. 0)"

definition demo_flush :: flush_env where
  "demo_flush = \<lparr>fe_visits = plain_visits, fe_draws = (\<lambda>_. 0), fe_outs = (\<lambda>_. None)\<rparr>"

definition demo_ops :: "client_op list" where
  "demo_ops = [Incr demo_random (''hit'', (), [''a''], f64_one, []),
     CountWithTimestamp demo_random (''t'', 2, [], f64_one, []) \<lparr>unix_sec = 5, nsec = 0\<rparr>,
     Incr demo_random (''hit'', (), [''a''], f64_one, [])]"

lemmas run_eval =
  method_defs unless_nil_def client_Flush_def client_flush_def obind_assoc or_panic_def Let_def
  isZero_def noTimestamp_def agg_count_eq sampleShard_def sampleFound_def sampleOrInsert_def
  shard_index_def getShardIndexFromHash_def client_send_def workerIndex_def worker_processMetric_def
  on_worker_def processMetric_def writeMetricUnsafe_def write_push push_def with_buffer_def
  flushUnsafe_def sender_send_def borrowBuffer_def call_metric_def zero_metric_def shouldSample_def
  text_eval fmt_eval aggregator_flush_def flushMetrics_def sendBlocking_def flush_workers_def
  worker_flush_def sender_flush_def sender_drain_def flushInputQueue.simps sender_write_def
  returnBuffer_def buf_bytes_def buf_len_def newSender_def newStatsdBuffer_def bc_flush_def newBufferedContexts_def
  newHistogramMetric_def newDistributionMetric_def newTimingMetric_def
  count_sample_def newCountMetric_def count_flushUnsafe_def context_text_def context_prefix_def
  separator_defs card_String_def cardinality_defs zero_senderTelemetry_def

text \<open>The run, up to the flush and with it.\<close>

definition demo_end :: "ClientEx \<times> ClientEx" where
  "demo_end =
     (case client_run no_globals demo_ops (Some demo_client) of
        Done (Some c, _) \<Rightarrow> (c, case client_Flush no_globals demo_flush (Some c) of Done (Some c', _) \<Rightarrow> c' | _ \<Rightarrow> c)
      | _ \<Rightarrow> (demo_client, demo_client))"

lemmas demo_eval =
  run_eval demo_ops_def demo_client_def newAggregator_def size_defs demo_flush_def plain_visits_def demo_buffer_def

lemma demo_run:
  "client_run no_globals demo_ops (Some demo_client) = Done (Some (fst demo_end), [None, None, None])"
  by (simp add: demo_end_def demo_eval)

lemma demo_run_flush:
  "client_Flush no_globals demo_flush (Some (fst demo_end)) = Done (Some (snd demo_end), None)"
  "wire (sh_sender (c_shared (snd demo_end))) = [''t:2|c|T5'' @ [nl], ''hit:2|c|#a'' @ [nl]]"
  "length (c_sent (snd demo_end)) = 2" "nothing_dropped (snd demo_end)"
  "length (c_workers (snd demo_end)) = 1"
  by (simp_all add: demo_end_def demo_eval nothing_dropped_def)

lemma demo_processed:
  "processed (snd demo_end) = map (Pair 0)
     [zero_metric\<lparr>m_type := countT, m_name := ''t'', m_ivalue := 2, m_rate := f64_one, m_timestamp := 5,
        m_originDetection := True, m_cardinality := CardinalityNotSet\<rparr>,
      zero_metric\<lparr>m_type := countT, m_name := ''hit'', m_ivalue := 2, m_tags := [''a''], m_rate := f64_one,
        m_cardinality := CardinalityNotSet\<rparr>]"
  by (simp add: demo_end_def demo_eval processed_def demo_random_def)

lemma demo_lines: "list_all (\<lambda>(d, m). one_line no_globals m) (processed (snd demo_end))"
  by (simp add: demo_processed one_line_def element_text_def zero_metric_def text_eval fmt_eval Let_def
      noTimestamp_def cardinality_defs card_String_def)

lemma demo_serializable: "all_serializable no_globals (snd demo_end)"
  "list_all (\<lambda>(d, m). clean_metric no_globals m) (processed (snd demo_end))"
  using demo_lines by (auto simp: all_serializable_processed list_all_iff clean_metric_def one_line_def
      serializable_def split: option.splits)

lemma demo_run_all:
  "client_run no_globals (demo_ops @ [Flush demo_flush]) (Some demo_client)
     = Done (Some (snd demo_end), [None, None, None, None])"
  by (simp add: client_run_append demo_run demo_run_flush(1))

lemma demo_start:
  "fresh_client 16 2147483647 1 (- 1) demo_client" "new_client 16 2147483647 demo_client"
  "mutex_client demo_client"
  by (auto simp: fresh_client_def new_client_def demo_client_def mutex_client_def wf_pool_def
      fresh_buffer_def demo_buffer_def)

lemma demo_ok: "list_all (spec_op 1 demo_client) (demo_ops @ [Flush demo_flush])"
  by (simp add: demo_ops_def demo_client_def demo_flush_def newAggregator_def size_defs ascii_call_def)

lemma demo_ok_parts:
  "list_all (spec_op 1 demo_client) demo_ops" "spec_op 1 demo_client (Flush demo_flush)"
  using demo_ok by simp_all

lemmas spec_eval =
  spec_run_def spec_step_def spec_start_def spec_flush_def expected_metrics_def of_snoc buffered_of_def expected_counts_def expected_gauges_def expected_sets_def inject_def expected_eval
  call_metric_def accepted_def element_text_def fits_payload_def text_eval fmt_eval
  shouldSample_def Let_def noTimestamp_def zero_metric_def

lemma demo_spec_run:
  "sp_lines (spec_run no_globals 16 2147483647 (- 1) demo_client (demo_ops @ [Flush demo_flush]))
    = {# ''t:2|c|T5'', ''hit:2|c|#a'' #}"
  "\<forall>m \<in># sp_processed (spec_run no_globals 16 2147483647 (- 1) demo_client (demo_ops @ [Flush demo_flush])).
     one_line no_globals m"
  by (simp_all add: demo_ops_def demo_client_def newAggregator_def size_defs spec_eval expected_buffered_def one_line_def)

text \<open>The same client with extended aggregation: two samples of a distribution and a count.\<close>

definition ext_client :: ClientEx where
  "ext_client = demo_client\<lparr>c_extended := True\<rparr>"

definition ext_ops :: "client_op list" where
  "ext_ops = [Distribution demo_random (''d'', f64_one, [], f64_one, []),
     Incr demo_random (''n'', (), [], f64_one, []),
     Distribution demo_random (''d'', f64_one, [], f64_one, [])]"

lemma ext_start: "mutex_client ext_client" "fresh_client 16 2147483647 1 (- 1) ext_client"
  using demo_start by (auto simp: fresh_client_def new_client_def demo_client_def mutex_client_def ext_client_def)

lemma ext_ok: "list_all (spec_op 1 ext_client) (ext_ops @ [Flush demo_flush])"
  by (simp add: ext_ops_def demo_client_def ext_client_def demo_flush_def newAggregator_def size_defs ascii_call_def
      demo_random_def good_int63n_def)

lemma ext_spec_run:
  "sp_processed (spec_run no_globals 16 2147483647 (- 1) ext_client (ext_ops @ [Flush demo_flush])) =
     {# zero_metric\<lparr>m_type := distributionAggregatedT, m_name := ''d'', m_stags := [], m_rate := f64_one,
          m_fvalues := [f64_one, f64_one], m_cardinality := CardinalityNotSet\<rparr>,
        zero_metric\<lparr>m_type := countT, m_name := ''n'', m_ivalue := 1, m_rate := f64_one,
          m_cardinality := CardinalityNotSet\<rparr> #}"
  by (simp add: ext_ops_def ext_client_def demo_client_def newAggregator_def size_defs spec_eval survives_def call_rate_def
      not_lt_one expected_unbounded all_samples_def in_context_def call_value_def f64_eval)

section \<open>Properties\<close>

text \<open>
  After any run of a client, in whatever order calls and goroutines took effect, the payloads
  of each worker followed by its buffer hold exactly the elements of the metrics that worker
  processed, in the order it processed them, provided no sampling rate was too long.
\<close>

theorem worker_streams:
  assumes "new_client ms me c0" and "client_run g ops (Some c0) = Done (Some c, errs)"
    and "all_serializable g c" and "i < length (c_workers c)"
  shows "\<exists>lss. list_all2 (emits g ms me) (done_of c i) lss \<and> worker_stream c i = frame (concat lss)"
  using client_run_inv(1) [OF assms(1,2)] assms(3,4) by (simp add: client_inv_def wrote_def)

theorem worker_streams_witness:
  "\<exists>lss. list_all2 (emits no_globals 16 2147483647) (done_of (snd demo_end) 0) lss
    \<and> worker_stream (snd demo_end) 0 = frame (concat lss)"
  by (rule worker_streams [OF demo_start(2) demo_run_all demo_serializable(1)])
    (simp add: demo_run_flush)

text \<open>
  In every state of a run, whatever the metrics, each payload handed to the sender and each
  current buffer is a sequence of complete elements: no element is cut across two datagrams.
\<close>

theorem payloads_whole:
  assumes "new_client ms me c0" and "client_run g ops (Some c0) = Done (Some c, errs)"
  shows "list_all whole (map snd (c_sent c) @ map w_buffer (c_workers c))"
proof (cases "c_workers c")
  case Nil
  with client_run_inv(1) [OF assms] show ?thesis
    by (cases "c_sent c") (auto simp: client_inv_def client_ok_def list_all_iff)
next
  case (Cons w ws)
  have "client_ok ms me c"
    using client_run_inv(1) [OF assms] by (simp add: client_inv_def)
  with Cons show ?thesis
    by (auto simp: client_ok_def whole_payloads_def list_all_iff)
qed

theorem payloads_whole_witness:
  "list_all whole (map snd (c_sent (snd demo_end)) @ map w_buffer (c_workers (snd demo_end)))"
  by (rule payloads_whole [OF demo_start(2) demo_run_all])

text \<open>
  Flush delivers: when it returns and the sender has counted no drop, the lines the transport
  received are, as a multiset, exactly the elements of all the metrics processed so far.
\<close>

theorem flush_delivers:
  assumes "new_client ms me c0" and "client_run g ops (Some c0) = Done (Some c, errs)"
    and "client_Flush g e (Some c) = Done (Some c', err)"
    and "all_serializable g c'" and "list_all (\<lambda>(d, m). clean_metric g m) (processed c')"
    and "nothing_dropped c'" and "length (c_sent c') < 2 ^ 64"
  shows "\<exists>lss. list_all2 (emits g ms me) (processed c') lss
    \<and> mset (lines_of (wire (sh_sender (c_shared c')))) = mset (concat lss)"
  using assms by (rule flush_delivered)

theorem flush_delivers_witness:
  "\<exists>lss. list_all2 (emits no_globals 16 2147483647) (processed (snd demo_end)) lss
    \<and> mset (lines_of (wire (sh_sender (c_shared (snd demo_end))))) = mset (concat lss)"
  by (rule flush_delivers [OF demo_start(2) demo_run demo_run_flush(1) demo_serializable demo_run_flush(4)])
    (simp add: demo_run_flush(3))

text \<open>
  C1. The client implements its specification: in mutex mode, with or without extended aggregation,
  every run returns, never panics or blocks, and the metrics that the workers have processed, and
  the lines of those that make one line, are, as multisets, those of the specification, which
  knows nothing of workers, shards, buffers, the pool or the queue.
\<close>

theorem client_refines_spec:
  assumes "mutex_client k" and "fresh_client ms me n mx k" and "list_all (spec_op n k) ops"
    and "int (length ops) < 2 ^ 63"
  shows "\<exists>c errs. client_run g ops (Some k) = Done (Some c, errs)
    \<and> mset (map snd (processed c)) = sp_processed (spec_run g ms me mx k ops)
    \<and> mset (concat (map (accepted g ms me) (processed c))) = sp_lines (spec_run g ms me mx k ops)"
  using run_refines [OF assms, of g] by (auto simp: refines_def owes_def)

theorem client_refines_spec_witness:
  "(\<exists>c errs. client_run no_globals (ext_ops @ [Flush demo_flush]) (Some ext_client) = Done (Some c, errs)
     \<and> mset (map snd (processed c)) =
        {# zero_metric\<lparr>m_type := distributionAggregatedT, m_name := ''d'', m_stags := [], m_rate := f64_one,
             m_fvalues := [f64_one, f64_one], m_cardinality := CardinalityNotSet\<rparr>,
           zero_metric\<lparr>m_type := countT, m_name := ''n'', m_ivalue := 1, m_rate := f64_one,
             m_cardinality := CardinalityNotSet\<rparr> #})
   \<and> mset (concat (map (accepted no_globals 16 2147483647) (processed (snd demo_end))))
       = {# ''t:2|c|T5'', ''hit:2|c|#a'' #}"
proof
  show "\<exists>c errs. client_run no_globals (ext_ops @ [Flush demo_flush]) (Some ext_client) = Done (Some c, errs)
     \<and> mset (map snd (processed c)) =
        {# zero_metric\<lparr>m_type := distributionAggregatedT, m_name := ''d'', m_stags := [], m_rate := f64_one,
             m_fvalues := [f64_one, f64_one], m_cardinality := CardinalityNotSet\<rparr>,
           zero_metric\<lparr>m_type := countT, m_name := ''n'', m_ivalue := 1, m_rate := f64_one,
             m_cardinality := CardinalityNotSet\<rparr> #}"
    using client_refines_spec [OF ext_start ext_ok, of no_globals] ext_spec_run
    by (auto simp: ext_ops_def)
  show "mset (concat (map (accepted no_globals 16 2147483647) (processed (snd demo_end))))
       = {# ''t:2|c|T5'', ''hit:2|c|#a'' #}"
    using client_refines_spec [OF demo_start(3,1) demo_ok, of no_globals]
    by (simp add: demo_run_all demo_spec_run(1)) (simp add: demo_ops_def)
qed

text \<open>The lines of a run: those of the simple metrics, and for each aggregated one lines that carry its values.\<close>

definition carries :: "globals \<Rightarrow> int \<Rightarrow> int \<Rightarrow> metric \<Rightarrow> bytes list \<Rightarrow> bool" where
  "carries g ms me m ls \<longleftrightarrow> emits g ms me (0, m) ls"

lemma emits_split:
  assumes "list_all2 (emits g ms me) dms lss" and "list_all (\<lambda>(d, m). serializable g m) dms"
  shows "\<exists>css. list_all2 (carries g ms me) (filter (\<lambda>m. is_aggregated (m_type m)) (map snd dms)) css
    \<and> mset (concat lss) = mset (concat (map (accepted g ms me) dms)) + mset (concat css)"
  using assms
proof (induction rule: list_all2_induct)
  case (Cons dm dms ls lss)
  obtain d m where dm: "dm = (d, m)" by (cases dm)
  from Cons obtain css where css: "list_all2 (carries g ms me) (filter (\<lambda>m. is_aggregated (m_type m)) (map snd dms)) css"
    "mset (concat lss) = mset (concat (map (accepted g ms me) dms)) + mset (concat css)" by auto
  show ?case
  proof (cases "aggregated_symbol (m_type m)")
    case None
    then have "ls = accepted g ms me (d, m)" "\<not> is_aggregated (m_type m)"
      using Cons(1) dm by (auto simp: emits_def aggregated_symbol_def is_aggregated_def)
    with css dm show ?thesis by (intro exI [of _ css]) simp
  next
    case (Some r)
    then have "is_aggregated (m_type m)" "accepted g ms me (d, m) = []" "carries g ms me m ls"
      using Cons(1) dm aggregated_symbol_type [OF Some] element_text_not_aggregated [of g m]
      by (auto simp: carries_def emits_def accepted_def split: option.splits)
    with css dm show ?thesis by (intro exI [of _ "ls # css"]) simp
  qed
qed simp

lemma flush_lines:
  assumes "mutex_client k" and "fresh_client ms me n mx k" and "list_all (spec_op n k) ops"
    and "spec_op n k (Flush e)" and "int (length ops) < 2 ^ 63 - 1"
    and ok: "\<forall>m \<in># sp_processed (spec_run g ms me mx k (ops @ [Flush e])). serializable g m \<and> clean_metric g m"
  shows "\<exists>c errs. client_run g (ops @ [Flush e]) (Some k) = Done (Some c, errs)
    \<and> (nothing_dropped c \<and> length (c_sent c) < 2 ^ 64 \<longrightarrow>
       (\<exists>ams css. list_all2 (carries g ms me) ams css
         \<and> mset ams = filter_mset (\<lambda>m. is_aggregated (m_type m))
             (sp_processed (spec_run g ms me mx k (ops @ [Flush e])))
         \<and> mset (lines_of (wire (sh_sender (c_shared c))))
           = sp_lines (spec_run g ms me mx k (ops @ [Flush e])) + mset (concat css)))"
proof -
  let ?s = "spec_run g ms me mx k (ops @ [Flush e])"
  have new: "new_client ms me k"
    using assms(2) by (simp add: fresh_client_def)
  obtain c errs where run: "client_run g (ops @ [Flush e]) (Some k) = Done (Some c, errs)"
    and R: "refines g ms me n mx k c ?s"
    using run_refines [OF assms(1,2), of "ops @ [Flush e]" g] assms(3-5) by auto
  obtain c1 err errs1 where r1: "client_run g ops (Some k) = Done (Some c1, errs1)"
    and f: "client_Flush g e (Some c1) = Done (Some c, err)"
    using run client_run_activities [of g ops k] new
    by (fastforce simp: client_run_append new_client_def elim!: obind_DoneE)
  have lines: "mset (map snd (processed c)) = sp_processed ?s"
    "mset (concat (map (accepted g ms me) (processed c))) = sp_lines ?s"
    using R by (simp_all add: refines_def owes_def)
  have good: "serializable g m \<and> clean_metric g m" if "(d, m) \<in> set (processed c)" for d m
  proof -
    have "m \<in># mset (map snd (processed c))" using that by force
    with ok show ?thesis unfolding lines(1) by blast
  qed
  then have ser: "list_all (\<lambda>(d, m). serializable g m) (processed c)"
    and clean: "list_all (\<lambda>(d, m). clean_metric g m) (processed c)"
    by (auto simp: list_all_iff)
  have all: "all_serializable g c"
    using ser by (auto simp: all_serializable_processed list_all_iff)
  have "\<exists>ams css. list_all2 (carries g ms me) ams css
      \<and> mset ams = filter_mset (\<lambda>m. is_aggregated (m_type m)) (sp_processed ?s)
      \<and> mset (lines_of (wire (sh_sender (c_shared c)))) = sp_lines ?s + mset (concat css)"
    if "nothing_dropped c" "length (c_sent c) < 2 ^ 64"
  proof -
    from flush_delivered [OF new r1 f all clean that] obtain lss where
      lss: "list_all2 (emits g ms me) (processed c) lss"
      "mset (lines_of (wire (sh_sender (c_shared c)))) = mset (concat lss)" by blast
    from emits_split [OF lss(1) ser] obtain css where
      "list_all2 (carries g ms me) (filter (\<lambda>m. is_aggregated (m_type m)) (map snd (processed c))) css"
      "mset (concat lss) = sp_lines ?s + mset (concat css)"
      unfolding lines(2) by blast
    with lss(2) show ?thesis
      using mset_filter [of "\<lambda>m. is_aggregated (m_type m)" "map snd (processed c)"] unfolding lines(1) by metis
  qed
  with run show ?thesis by blast
qed

text \<open>
  C2. End to end: after calls and goroutine turns in any order followed by \<open>Flush\<close>, if the sender
  counted no drop, the lines that reached the transport are exactly those the specification owes
  for these calls: one for each call that is not aggregated and survives sampling, one for each
  count, gauge and value of a set per context and flush, and for each context of a buffered kind
  lines that carry its samples; none lost, none twice.
\<close>

theorem flush_end_to_end:
  assumes "mutex_client k" and "fresh_client ms me n mx k" and "list_all (spec_op n k) ops"
    and "spec_op n k (Flush e)" and "int (length ops) < 2 ^ 63 - 1"
    and "\<forall>m \<in># sp_processed (spec_run g ms me mx k (ops @ [Flush e])). serializable g m \<and> clean_metric g m"
  shows "\<exists>c errs. client_run g (ops @ [Flush e]) (Some k) = Done (Some c, errs)
    \<and> (nothing_dropped c \<and> length (c_sent c) < 2 ^ 64 \<longrightarrow>
       (\<exists>ams css. list_all2 (carries g ms me) ams css
         \<and> mset ams = filter_mset (\<lambda>m. is_aggregated (m_type m))
             (sp_processed (spec_run g ms me mx k (ops @ [Flush e])))
         \<and> mset (lines_of (wire (sh_sender (c_shared c))))
           = sp_lines (spec_run g ms me mx k (ops @ [Flush e])) + mset (concat css)))"
  by (rule flush_lines [OF assms])

lemma one_line_plain:
  assumes "one_line g m"
  shows "serializable g m \<and> clean_metric g m \<and> \<not> is_aggregated (m_type m)"
  using assms element_text_not_aggregated [of g m]
  by (auto simp: one_line_def serializable_def clean_metric_def split: option.splits)

lemma one_line_not_aggregated:
  assumes "\<forall>m \<in># M. one_line g m"
  shows "filter_mset (\<lambda>m. is_aggregated (m_type m)) M = {#}"
proof -
  have "filter_mset (\<lambda>m. is_aggregated (m_type m)) M = filter_mset (\<lambda>m. False) M"
    using assms one_line_plain by (intro filter_mset_cong) auto
  then show ?thesis by simp
qed

text \<open>With metrics of one line only, the lines are those of the specification.\<close>

lemma flush_end_to_end_simple:
  assumes "mutex_client k" and "fresh_client ms me n mx k" and "list_all (spec_op n k) ops"
    and "spec_op n k (Flush e)" and "int (length ops) < 2 ^ 63 - 1"
    and one: "\<forall>m \<in># sp_processed (spec_run g ms me mx k (ops @ [Flush e])). one_line g m"
  shows "\<exists>c errs. client_run g (ops @ [Flush e]) (Some k) = Done (Some c, errs)
    \<and> (nothing_dropped c \<and> length (c_sent c) < 2 ^ 64 \<longrightarrow>
       mset (lines_of (wire (sh_sender (c_shared c))))
         = sp_lines (spec_run g ms me mx k (ops @ [Flush e])))"
proof -
  let ?s = "spec_run g ms me mx k (ops @ [Flush e])"
  have "\<forall>m \<in># sp_processed ?s. serializable g m \<and> clean_metric g m"
    using one one_line_plain by blast
  from flush_lines [OF assms(1-5) this] one_line_not_aggregated [OF one] show ?thesis
    by auto
qed

theorem flush_end_to_end_witness:
  "mset (lines_of (wire (sh_sender (c_shared (snd demo_end))))) = {# ''t:2|c|T5'', ''hit:2|c|#a'' #}"
proof -
  let ?s = "spec_run no_globals 16 2147483647 (- 1) demo_client (demo_ops @ [Flush demo_flush])"
  have ok: "\<forall>m \<in># sp_processed ?s. serializable no_globals m \<and> clean_metric no_globals m"
    using demo_spec_run(2) one_line_plain by blast
  have none: "filter_mset (\<lambda>m. is_aggregated (m_type m)) (sp_processed ?s) = {#}"
    using demo_spec_run(2) by (rule one_line_not_aggregated)
  have "int (length demo_ops) < 2 ^ 63 - 1"
    by (simp add: demo_ops_def)
  with flush_end_to_end [OF demo_start(3,1) demo_ok_parts _ ok] demo_run_flush(3,4) none demo_spec_run(1)
  show ?thesis
    by (simp add: demo_run_all)
qed

end
