(* ===== verification/Client_Channels.thy ===== *)
theory Client_Channels
  imports Client_Spec
begin

text \<open>
  A client whose workers or whose aggregator are in channel mode: where each metric is at any time,
  how full the channels are, and that a closed client does not flush.
\<close>

section \<open>Where a metric goes\<close>

definition queued :: "ClientEx \<Rightarrow> nat" where
  "queued c = sum_list (map length (c_inputs c))"

text \<open>
  The calls whose metric the client hands to a worker, to the channel of a worker, or to that of
  the aggregator; the other calls that make a metric put it in the aggregator themselves.
\<close>

definition direct :: "receivingMode \<Rightarrow> agg_op \<Rightarrow> bool" where
  "direct mode call =
     (case call of OpHistogram _ _ \<Rightarrow> mode = mutexMode | OpDistribution _ _ \<Rightarrow> mode = mutexMode
      | OpTiming _ _ \<Rightarrow> mode = mutexMode | _ \<Rightarrow> True)"

definition handed :: "ClientEx \<Rightarrow> client_op \<Rightarrow> bool" where
  "handed k op \<longleftrightarrow> metric_of k op \<noteq> None
     \<and> (c_agg k = None
        \<or> (case aggregated_call k op of None \<Rightarrow> True | Some call \<Rightarrow> \<not> direct (c_aggregatorMode k) call))"

text \<open>The metrics a flush of the aggregator makes, and those a turn takes from its channel.\<close>

definition flushed_count :: "visits \<Rightarrow> ClientEx \<Rightarrow> nat" where
  "flushed_count v c = (case c_agg c of None \<Rightarrow> 0 | Some a \<Rightarrow> length (snd (flushMetrics v a)))"

definition made :: "ClientEx \<Rightarrow> client_op \<Rightarrow> nat" where
  "made c op =
     (if c_isClosed c then 0
      else case op of Flush e \<Rightarrow> flushed_count (fe_visits e) c
        | Close e outs \<Rightarrow> flushed_count (fe_visits e) c
        | AggregatorTick v draws \<Rightarrow> flushed_count v c
        | _ \<Rightarrow> 0)"

definition taken :: "ClientEx \<Rightarrow> client_op \<Rightarrow> nat" where
  "taken c op =
     (if c_isClosed c \<or> c_aggInput c = [] \<or> c_agg c = None then 0
      else case op of AggregatorPull r \<Rightarrow> 1 | _ \<Rightarrow> 0)"

text \<open>The sum of such a number over a run.\<close>

fun along :: "(ClientEx \<Rightarrow> client_op \<Rightarrow> nat) \<Rightarrow> globals \<Rightarrow> client_op list \<Rightarrow> ClientEx \<Rightarrow> nat" where
  "along f g [] c = 0"
| "along f g (op # ops) c =
     f c op + (case client_step g op (Some c) of Done (Some c', _) \<Rightarrow> along f g ops c' | _ \<Rightarrow> 0)"

section \<open>Accounting\<close>

definition channel_client :: "ClientEx \<Rightarrow> bool" where
  "channel_client c \<longleftrightarrow> (c_workersMode c = channelMode \<longrightarrow> length (c_inputs c) = length (c_workers c))
     \<and> list_all (\<lambda>q. length q \<le> c_inputCap c) (c_inputs c) \<and> length (c_aggInput c) \<le> c_inputCap c"

lemma sum_lengths_update:
  "i < length qs \<Longrightarrow> length (qs ! i) + sum_list (map length (qs[i := q])) = length q + sum_list (map length qs)"
proof (induction qs arbitrary: i)
  case (Cons x qs)
  then show ?case
    by (cases i) (auto simp: add.assoc add.left_commute)
qed simp

definition at_client :: "ClientEx \<Rightarrow> nat" where
  "at_client c = length (c_done c) + queued c + length (c_aggInput c)"

text \<open>
  \<open>n\<close> metrics more were handed over and \<open>k\<close> made by flushes, \<open>j\<close> taken from the aggregator's channel;
  some of the \<open>n\<close> may have been dropped.
\<close>

definition moves :: "nat \<Rightarrow> nat \<Rightarrow> nat \<Rightarrow> ClientEx \<Rightarrow> ClientEx \<Rightarrow> bool" where
  "moves n k j c c' \<longleftrightarrow> channel_client c' \<and> config c' = config c \<and> (c_agg c' = None \<longleftrightarrow> c_agg c = None)
     \<and> (\<exists>d \<le> n. totalDroppedOnReceive (c_telemetry c') = totalDroppedOnReceive (c_telemetry c) + of_nat d
          \<and> at_client c' + j + d = at_client c + n + k)"

lemma moves_same:
  "channel_client c \<Longrightarrow> c_inputs c' = c_inputs c \<Longrightarrow> c_aggInput c' = c_aggInput c \<Longrightarrow>
   (c_agg c' = None \<longleftrightarrow> c_agg c = None) \<Longrightarrow> config c' = config c \<Longrightarrow> c_done c' = c_done c \<Longrightarrow>
   totalDroppedOnReceive (c_telemetry c') = totalDroppedOnReceive (c_telemetry c) \<Longrightarrow> moves 0 0 0 c c'"
  by (auto simp: moves_def channel_client_def at_client_def queued_def config_def)

lemma moves_refl: "channel_client c \<Longrightarrow> moves 0 0 0 c c"
  by (rule moves_same) simp_all

lemma moves_trans:
  assumes "moves n k j c c1" and "moves n' k' j' c1 c2"
  shows "moves (n + n') (k + k') (j + j') c c2"
proof -
  obtain d where d: "d \<le> n" "at_client c1 + j + d = at_client c + n + k"
    "totalDroppedOnReceive (c_telemetry c1) = totalDroppedOnReceive (c_telemetry c) + of_nat d"
    using assms(1) by (auto simp: moves_def)
  obtain d' where d': "d' \<le> n'" "at_client c2 + j' + d' = at_client c1 + n' + k'"
    "totalDroppedOnReceive (c_telemetry c2) = totalDroppedOnReceive (c_telemetry c1) + of_nat d'"
    using assms(2) by (auto simp: moves_def)
  have "d + d' \<le> n + n'" "at_client c2 + (j + j') + (d + d') = at_client c + (n + n') + (k + k')"
    "totalDroppedOnReceive (c_telemetry c2) = totalDroppedOnReceive (c_telemetry c) + of_nat (d + d')"
    using d d' by simp_all
  with assms show ?thesis
    unfolding moves_def by metis
qed

lemma process_moves:
  assumes "channel_client c" and "worker_processMetric g draw i m c = Done (c', err)"
  shows "moves 0 1 0 c c'"
proof -
  have "outer c' = outer c" "length (c_done c') = Suc (length (c_done c))" "c_telemetry c' = c_telemetry c"
    using worker_processMetric_outer [OF assms(2)] assms(2)
    by (auto simp: worker_processMetric_def on_worker_def split: prod.splits if_splits)
  with assms(1) show ?thesis
    by (auto simp: moves_def channel_client_def at_client_def queued_def config_def outer_def)
qed

lemma drop_moves:
  assumes "channel_client c" and "totalDroppedOnReceive t = totalDroppedOnReceive (c_telemetry c)"
  shows "moves 1 0 0 c (fst (dropOnReceive m n msg (c\<lparr>c_telemetry := t\<rparr>)))"
  using assms
  by (auto simp: dropOnReceive_def Let_def moves_def channel_client_def at_client_def queued_def
      config_def intro!: exI [of _ "1 :: nat"])

lemma send_moves:
  assumes "channel_client c" and "client_send g draw m (c\<lparr>c_telemetry := t\<rparr>) = Done (c', err)"
    and "totalDroppedOnReceive t = totalDroppedOnReceive (c_telemetry c)"
  shows "moves 1 0 0 c c'"
proof -
  let ?c = "c\<lparr>c_telemetry := t\<rparr>"
  obtain i where i: "workerIndex ?c (m_name m) = Some i"
    using assms(2) by (cases "workerIndex ?c (m_name m)") (auto simp: client_send_def)
  show ?thesis
  proof (cases "c_workersMode c = channelMode")
    case chan: True
    have less: "i < length (c_inputs c)"
      using workerIndex_less [OF i] assms(1) chan by (simp add: channel_client_def)
    show ?thesis
    proof (cases "length (c_inputs c ! i) < c_inputCap c")
      case True
      then have c': "c' = ?c\<lparr>c_inputs := (c_inputs c)[i := c_inputs c ! i @ [m]]\<rparr>"
        using assms i chan by (auto simp: client_send_def)
      have "queued c' = Suc (queued c)"
        using sum_lengths_update [OF less, of "c_inputs c ! i @ [m]"] by (simp add: queued_def c')
      moreover have "list_all (\<lambda>q. length q \<le> c_inputCap c) ((c_inputs c)[i := c_inputs c ! i @ [m]])"
        using assms(1) True by (intro list_all_update) (auto simp: channel_client_def)
      ultimately show ?thesis
        using assms(1,3) by (auto simp: moves_def channel_client_def at_client_def config_def c')
    next
      case False
      with assms(2) i chan have "c' = fst (dropOnReceive m (length (c_inputs c ! i)) ''Worker input channel full'' ?c)"
        by (auto simp: client_send_def split: if_splits)
      with drop_moves [OF assms(1,3)] show ?thesis by simp
    qed
  next
    case False
    then have "c_workersMode c = mutexMode" by (cases "c_workersMode c") simp_all
    with assms(2) i obtain e where p: "worker_processMetric g draw i m ?c = Done (c', e)"
      by (auto simp: client_send_def elim!: obind_DoneE)
    have q: "moves 0 0 0 c ?c"
      using assms(1,3) by (intro moves_same) (simp_all add: config_def)
    then have "channel_client ?c" by (simp add: moves_def)
    from moves_trans [OF q process_moves [OF this p]] show ?thesis
      by (auto simp: moves_def)
  qed
qed

lemma pull_moves:
  assumes "channel_client c" and "worker_pull g draw i c = Done c'"
  shows "moves 0 0 0 c c'"
proof (cases "i < length (c_inputs c) \<and> c_inputs c ! i \<noteq> []")
  case True
  then obtain m ms where q: "c_inputs c ! i = m # ms" by (cases "c_inputs c ! i") auto
  let ?c = "c\<lparr>c_inputs := (c_inputs c)[i := ms]\<rparr>"
  obtain err where p: "worker_processMetric g draw i m ?c = Done (c', err)"
    using assms(2) True q by (auto simp: worker_pull_def elim!: obind_DoneE)
  have "list_all (\<lambda>q. length q \<le> c_inputCap c) ((c_inputs c)[i := ms])"
    using assms(1) True q by (intro list_all_update) (auto simp: channel_client_def list_all_length dest: spec [of _ i])
  with assms(1) have cc: "channel_client ?c"
    by (simp add: channel_client_def)
  have "Suc (length ms) + queued ?c = length ms + queued c"
    using sum_lengths_update [of i "c_inputs c" ms] True q by (simp add: queued_def)
  then have "at_client c = Suc (at_client ?c)"
    by (simp add: at_client_def)
  moreover have "config ?c = config c" by (simp add: config_def)
  ultimately show ?thesis
    using process_moves [OF cc p] by (auto simp: moves_def)
next
  case False
  with assms show ?thesis
    by (auto simp: worker_pull_def intro: moves_refl split: list.splits)
qed

lemma aggregator_pull_moves:
  assumes "channel_client c" and "aggregator_pull r c = Done c'"
  shows "moves 0 0 (if c_aggInput c = [] \<or> c_agg c = None then 0 else 1) c c'"
  using assms
  by (auto simp: aggregator_pull_def moves_def channel_client_def at_client_def queued_def config_def
      elim!: obind_DoneE split: list.splits option.splits)

lemma toAggregator_moves:
  assumes "channel_client c" and "totalDroppedOnReceive t = totalDroppedOnReceive (c_telemetry c)"
    and "sendToAggregator ty name v ts rt f crd a (c\<lparr>c_telemetry := t\<rparr>) = Done (c', err)" and "c_agg c \<noteq> None"
  shows "moves (if c_aggregatorMode c = mutexMode then 0 else 1) 0 0 c c'"
proof (cases "c_aggregatorMode c = channelMode \<and> length (c_aggInput c) \<ge> c_inputCap c")
  case True
  then obtain m where "c' = fst (dropOnReceive m (length (c_aggInput c)) ''Aggregator input channel full''
      (c\<lparr>c_telemetry := t\<rparr>))"
    using assms(3) by (auto simp: sendToAggregator_def Let_def) (metis fst_conv)
  with True drop_moves [OF assms(1,2)] show ?thesis by simp
next
  case False
  with assms show ?thesis
    by (cases "c_aggregatorMode c") (auto simp: sendToAggregator_def Let_def moves_def channel_client_def at_client_def queued_def
        config_def elim!: obind_DoneE split: if_splits)
qed

section \<open>Flushes\<close>

lemma foldl_flush_telemetry:
  "c_telemetry (foldl (\<lambda>c i. worker_flush i c) c is) = c_telemetry c"
  by (induction "is" arbitrary: c) (simp_all add: worker_flush_def on_worker_def case_prod_unfold)

lemma flush_workers_fields:
  "outer (flush_workers c) = outer c" "c_done (flush_workers c) = c_done c"
  "c_telemetry (flush_workers c) = c_telemetry c"
  by (simp_all add: flush_workers_def foldl_flush_outer foldl_flush_telemetry)

lemma sender_drain_fields:
  "outer (sender_drain outs c) = outer c" "c_telemetry (sender_drain outs c) = c_telemetry c"
  by (simp_all add: sender_drain_def outer_def config_def case_prod_unfold)

lemma sender_turn_fields:
  "outer (sender_turn out c) = outer c" "c_done (sender_turn out c) = c_done c"
  "c_telemetry (sender_turn out c) = c_telemetry c"
  by (auto simp: sender_turn_def outer_def config_def Let_def split: list.splits prod.splits)

lemma moves_outer:
  "channel_client c \<Longrightarrow> outer c' = outer c \<Longrightarrow> c_done c' = c_done c \<Longrightarrow> c_telemetry c' = c_telemetry c \<Longrightarrow>
   moves 0 0 0 c c'"
  by (rule moves_same) (simp_all add: outer_def)

lemma sendAll_moves:
  "channel_client c \<Longrightarrow> sendAll g draws ms c = Done c' \<Longrightarrow> moves 0 (length ms) 0 c c'"
proof (induction ms arbitrary: draws c)
  case Nil
  then show ?case by (simp add: moves_refl)
next
  case (Cons m ms)
  then obtain c1 e where s: "sendBlocking g (draws 0) m c = Done (c1, e)"
    "sendAll g (\<lambda>i. draws (Suc i)) ms c1 = Done c'"
    by (auto elim!: obind_DoneE)
  then have m: "moves 0 1 0 c c1"
    using Cons.prems(1) by (auto simp: sendBlocking_def Let_def elim!: obind_DoneE
        intro: process_moves [unfolded One_nat_def] split: option.splits)
  then have "channel_client c1" by (simp add: moves_def)
  from moves_trans [OF m Cons.IH [OF this s(2)]] show ?case by simp
qed

lemma aggregator_flush_moves:
  assumes "channel_client c" and "aggregator_flush g v draws c = Done c'"
  shows "moves 0 (flushed_count v c) 0 c c'"
proof (cases "c_agg c")
  case None
  with assms show ?thesis by (simp add: aggregator_flush_def flushed_count_def moves_refl)
next
  case (Some a)
  obtain a' ms where f: "flushMetrics v a = (a', ms)" by (cases "flushMetrics v a")
  have m: "moves 0 0 0 c (c\<lparr>c_agg := Some a'\<rparr>)"
    using assms(1) Some by (intro moves_same) (simp_all add: config_def)
  then have "channel_client (c\<lparr>c_agg := Some a'\<rparr>)" by (simp add: moves_def)
  from moves_trans [OF m sendAll_moves [OF this]] assms(2) Some f show ?thesis
    by (simp add: aggregator_flush_def flushed_count_def)
qed

lemma flush_moves:
  assumes "channel_client c" and "client_flush g e c = Done c'"
  shows "moves 0 (flushed_count (fe_visits e) c) 0 c c'"
proof -
  obtain c1 where a: "aggregator_flush g (fe_visits e) (fe_draws e) c = Done c1"
    and c': "c' = sender_drain (fe_outs e) (flush_workers c1)"
    using assms(2) by (auto simp: client_flush_def sender_flush_def elim!: obind_DoneE split: if_splits)
  note m = aggregator_flush_moves [OF assms(1) a]
  have "moves 0 0 0 c1 c'"
    using m by (intro moves_outer)
      (simp_all add: c' moves_def sender_drain_fields sender_drain_result flush_workers_fields)
  from moves_trans [OF m this] show ?thesis by simp
qed

lemma close_moves:
  assumes "channel_client c" and "client_flush g e c = Done c1"
  shows "moves 0 (flushed_count (fe_visits e) c) 0 c (sender_drain outs (c1\<lparr>c_isClosed := True\<rparr>))"
proof -
  note f = flush_moves [OF assms]
  have m: "moves 0 0 0 c1 (c1\<lparr>c_isClosed := True\<rparr>)"
    using f by (intro moves_same) (auto simp: moves_def config_def)
  then have "moves 0 0 0 (c1\<lparr>c_isClosed := True\<rparr>) (sender_drain outs (c1\<lparr>c_isClosed := True\<rparr>))"
    by (intro moves_outer) (simp_all add: sender_drain_fields sender_drain_result moves_def)
  from moves_trans [OF f moves_trans [OF m this]] show ?thesis
    by simp
qed

section \<open>After \<open>Close\<close>\<close>

text \<open>A closed client's goroutines are gone, and \<open>sender.flush\<close> waits for one of them for ever.\<close>

lemma sendBlocking_closed:
  "sendBlocking g draw m c = Done (c', err) \<Longrightarrow> c_isClosed c' = c_isClosed c"
  by (auto simp: sendBlocking_def Let_def outer_def dest!: worker_processMetric_outer
      elim!: obind_DoneE split: option.splits)

lemma sendAll_closed: "sendAll g draws ms c = Done c' \<Longrightarrow> c_isClosed c' = c_isClosed c"
proof (induction ms arbitrary: draws c)
  case (Cons m ms)
  then show ?case
    by (auto elim!: obind_DoneE dest: sendBlocking_closed)
qed simp

lemma aggregator_flush_closed:
  "aggregator_flush g v draws c = Done c' \<Longrightarrow> c_isClosed c' = c_isClosed c"
  by (auto simp: aggregator_flush_def dest: sendAll_closed split: option.splits prod.splits)

lemma closed_flush:
  assumes "c_isClosed c"
  shows "client_flush g e c \<noteq> Done c'"
proof
  assume "client_flush g e c = Done c'"
  then obtain c1 where a: "aggregator_flush g (fe_visits e) (fe_draws e) c = Done c1"
    and s: "sender_flush (fe_outs e) (flush_workers c1) = Done c'"
    by (auto simp: client_flush_def elim!: obind_DoneE)
  have "c_isClosed (flush_workers c1)"
    using aggregator_flush_closed [OF a] assms flush_workers_fields(1) [of c1] by (simp add: outer_def)
  with s show False by (simp add: sender_flush_def)
qed

section \<open>Runs\<close>

lemma direct_simps [simp]:
  "direct mode (OpGauge x)" "direct mode (OpCount i)" "direct mode (OpSet b)"
  "direct mode (OpHistogram r y) \<longleftrightarrow> mode = mutexMode" "direct mode (OpDistribution r y) \<longleftrightarrow> mode = mutexMode"
  "direct mode (OpTiming r y) \<longleftrightarrow> mode = mutexMode"
  by (simp_all add: direct_def)

text \<open>The two shapes of a method's body, once its call is counted.\<close>

lemma aggregate_or_send_moves:
  assumes "channel_client c" and "totalDroppedOnReceive t = totalDroppedOnReceive (c_telemetry c)"
    and "(case c_agg c of
      None \<Rightarrow> client_send g draw m (c\<lparr>c_telemetry := t\<rparr>)
    | Some a \<Rightarrow> obind (or_panic (f a)) (\<lambda>a. Done (c\<lparr>c_telemetry := t, c_agg := Some a\<rparr>, None)))
      = Done (c', err)"
  shows "moves (if c_agg c = None then 1 else 0) 0 0 c c'"
proof (cases "c_agg c")
  case None
  with assms send_moves [OF assms(1) _ assms(2)] show ?thesis by simp
next
  case (Some a)
  with assms show ?thesis
    by (auto elim!: obind_DoneE intro!: moves_same simp: config_def)
qed

lemma buffer_or_send_moves:
  assumes "channel_client c" and "totalDroppedOnReceive t = totalDroppedOnReceive (c_telemetry c)"
    and "(case aggExtended c of
      None \<Rightarrow> client_send g draw m (c\<lparr>c_telemetry := t\<rparr>)
    | Some a \<Rightarrow> sendToAggregator ty name v ts rt f crd a (c\<lparr>c_telemetry := t\<rparr>)) = Done (c', err)"
  shows "moves (if c_extended c \<and> c_agg c \<noteq> None \<and> c_aggregatorMode c = mutexMode then 0 else 1) 0 0 c c'"
proof (cases "aggExtended c")
  case None
  with assms send_moves [OF assms(1) _ assms(2)] show ?thesis
    by (auto simp: aggExtended_def split: if_splits)
next
  case (Some a)
  with assms toAggregator_moves [OF assms(1,2)] show ?thesis
    by (auto simp: aggExtended_def split: if_splits)
qed

lemma handed_simps [simp]:
  "handed k (Gauge r (n, v, ts, rt, ps)) \<longleftrightarrow> c_agg k = None"
  "handed k (Count r (n, i, ts, rt, ps)) \<longleftrightarrow> c_agg k = None"
  "handed k (SetOp r (n, b, ts, rt, ps)) \<longleftrightarrow> c_agg k = None"
  "handed k (Incr r (n, u, ts, rt, ps)) \<longleftrightarrow> c_agg k = None"
  "handed k (Decr r (n, u, ts, rt, ps)) \<longleftrightarrow> c_agg k = None"
  "handed k (Histogram r (n, v, ts, rt, ps)) \<longleftrightarrow>
     \<not> (c_extended k \<and> c_agg k \<noteq> None \<and> c_aggregatorMode k = mutexMode)"
  "handed k (Distribution r (n, v, ts, rt, ps)) \<longleftrightarrow>
     \<not> (c_extended k \<and> c_agg k \<noteq> None \<and> c_aggregatorMode k = mutexMode)"
  "handed k (TimeInMilliseconds r (n, v, ts, rt, ps)) \<longleftrightarrow>
     \<not> (c_extended k \<and> c_agg k \<noteq> None \<and> c_aggregatorMode k = mutexMode)"
  "handed k (Timing r (n, d, ts, rt, ps)) \<longleftrightarrow>
     \<not> (c_extended k \<and> c_agg k \<noteq> None \<and> c_aggregatorMode k = mutexMode)"
  "handed k (GaugeWithTimestamp r (n, v, ts, rt, ps) t) \<longleftrightarrow> 0 < sint (unix_sec t)"
  "handed k (CountWithTimestamp r (n, i, ts, rt, ps) t) \<longleftrightarrow> 0 < sint (unix_sec t)"
  "handed k (EventOp r e ps)" "handed k (SimpleEvent r s s' ps)" "handed k (ServiceCheckOp r sc ps)"
  "handed k (SimpleServiceCheck r s st ps)" "handed k (DistributionSamples r n vs ts rt)"
  "\<not> handed k (Flush fe)" "\<not> handed k (Close fe outs)" "\<not> handed k (WorkerPull draw j)"
  "\<not> handed k (AggregatorPull r)" "\<not> handed k (AggregatorTick vi draws)" "\<not> handed k (SenderTurn out)"
  "\<not> handed k WatchTick"
  by (auto simp: handed_def)

lemma quiet_turns:
  assumes "channel_client c" and "goroutine f (Some c) = Done (cp, err)"
    and "\<And>c'. \<not> c_isClosed c \<Longrightarrow> f c = Done c' \<Longrightarrow> moves 0 k j c c'"
  shows "\<exists>c'. cp = Some c' \<and> moves 0 (if c_isClosed c then 0 else k) (if c_isClosed c then 0 else j) c c'"
  using assms(2)
  by (auto simp: goroutine_def elim!: unless_nil_Done obind_DoneE split: if_splits
      intro: assms(3) moves_refl [OF assms(1)])

lemma step_moves:
  assumes "channel_client c" and "client_step g op (Some c) = Done (cp, err)"
  shows "\<exists>c'. cp = Some c' \<and> moves (if handed c op then 1 else 0) (made c op) (taken c op) c c'"
proof -
  note cc = assms(1) and s = assms(2)
  note rules = aggregate_or_send_moves [OF cc, rotated] buffer_or_send_moves [OF cc, rotated]
    send_moves [OF cc]
  show ?thesis
  proof (cases "(g, op, Some c)" rule: client_step.cases)
    case (17 g e cp)
    with s show ?thesis
      using flush_moves [OF cc] closed_flush [of c g]
      by (auto simp: client_Flush_def made_def taken_def elim!: unless_nil_Done obind_DoneE)
  next
    case (18 g e outs cp)
    with s show ?thesis
      using close_moves [OF cc] moves_refl [OF cc]
      by (auto simp: client_Close_def made_def taken_def Let_def elim!: unless_nil_Done obind_DoneE
          split: if_splits)
  next
    case (19 g draw i cp)
    with s quiet_turns [OF cc _ pull_moves [OF cc]] show ?thesis
      by (auto simp: made_def taken_def)
  next
    case (20 g r cp)
    with s quiet_turns [OF cc _ aggregator_pull_moves [OF cc]] show ?thesis
      by (auto simp: made_def taken_def split: if_splits)
  next
    case (21 g v draws cp)
    with s quiet_turns [OF cc _ aggregator_flush_moves [OF cc]] show ?thesis
      by (auto simp: made_def taken_def split: if_splits)
  next
    case (22 g out cp)
    have "Done (sender_turn out c) = Done c' \<Longrightarrow> moves 0 0 0 c c'" for c'
      using moves_outer [OF cc sender_turn_fields] by auto
    with 22 s quiet_turns [OF cc, of "\<lambda>c. Done (sender_turn out c)" _ _ 0 0] show ?thesis
      by (auto simp: made_def taken_def)
  next
    case (23 g cp)
    have "Done (watch_tick c) = Done c' \<Longrightarrow> moves 0 0 0 c c'" for c'
      using moves_outer [OF cc flush_workers_fields] by (auto simp: watch_tick_def)
    with 23 s quiet_turns [OF cc, of "\<lambda>c. Done (watch_tick c)" _ _ 0 0] show ?thesis
      by (auto simp: made_def taken_def)
  qed (use s in \<open>auto simp: method_defs made_def taken_def Let_def elim!: unless_nil_Done split: if_splits
      dest!: rules intro: moves_refl [OF cc]\<close>)
qed

lemma run_moves:
  "channel_client c \<Longrightarrow> client_run g ops (Some c) = Done (cp, errs) \<Longrightarrow>
   \<exists>c'. cp = Some c' \<and> moves (length (filter (handed c) ops)) (along made g ops c) (along taken g ops c) c c'"
proof (induction ops arbitrary: c errs)
  case Nil
  then show ?case by (auto intro: moves_refl)
next
  case (Cons op ops)
  obtain cp1 err errs1 where s: "client_step g op (Some c) = Done (cp1, err)"
    "client_run g ops cp1 = Done (cp, errs1)"
    using Cons.prems(2) by (auto elim!: obind_DoneE)
  obtain c1 where c1: "cp1 = Some c1" "moves (if handed c op then 1 else 0) (made c op) (taken c op) c c1"
    using step_moves [OF Cons.prems(1) s(1)] by blast
  then have cc: "channel_client c1" and k: "config c1 = config c" and a: "c_agg c1 = None \<longleftrightarrow> c_agg c = None"
    by (simp_all add: moves_def)
  have h: "handed c1 = handed c"
    using config_calls [OF k] k a by (simp add: handed_def fun_eq_iff config_def split: option.split)
  obtain c' where c': "cp = Some c'" "moves (length (filter (handed c) ops)) (along made g ops c1) (along taken g ops c1) c1 c'"
    using Cons.IH [OF cc s(2) [unfolded c1(1)]] unfolding h by blast
  from moves_trans [OF c1(2) c'(2)] c'(1) s(1) c1(1) show ?case
    by (cases "handed c op") simp_all
qed

end
