(* ===== verification/Telemetry_Facts.thy ===== *)
theory Telemetry_Facts
  imports Telemetry Client_Channels
begin

text \<open>
  The counters a client reports: each call is counted once under its type, and the values a
  series of telemetry flushes sends add up to the growth of the counters.
\<close>

section \<open>Counting calls\<close>

text \<open>The counter of the calls of a type.\<close>

definition call_counter :: "metricType \<Rightarrow> statsdTelemetry \<Rightarrow> u64" where
  "call_counter ty t = (case ty of
     gaugeT \<Rightarrow> totalMetricsGauge t | countT \<Rightarrow> totalMetricsCount t
   | histogramT \<Rightarrow> totalMetricsHistogram t | distributionT \<Rightarrow> totalMetricsDistribution t
   | setT \<Rightarrow> totalMetricsSet t | timingT \<Rightarrow> totalMetricsTiming t
   | eventT \<Rightarrow> totalEvents t | serviceCheckT \<Rightarrow> totalServiceChecks t | _ \<Rightarrow> 0)"

text \<open>What a call adds, and to which counter.\<close>

fun counted_as :: "client_op \<Rightarrow> (metricType \<times> u64) option" where
  "counted_as (Gauge r _) = Some (gaugeT, 1)"
| "counted_as (GaugeWithTimestamp r _ t) = (if sint (unix_sec t) \<le> 0 then None else Some (gaugeT, 1))"
| "counted_as (Count r _) = Some (countT, 1)"
| "counted_as (CountWithTimestamp r _ t) = (if sint (unix_sec t) \<le> 0 then None else Some (countT, 1))"
| "counted_as (Histogram r _) = Some (histogramT, 1)"
| "counted_as (Distribution r _) = Some (distributionT, 1)"
| "counted_as (Decr r _) = Some (countT, 1)"
| "counted_as (Incr r _) = Some (countT, 1)"
| "counted_as (SetOp r _) = Some (setT, 1)"
| "counted_as (Timing r _) = Some (timingT, 1)"
| "counted_as (TimeInMilliseconds r _) = Some (timingT, 1)"
| "counted_as (EventOp r _ _) = Some (eventT, 1)"
| "counted_as (SimpleEvent r _ _ _) = Some (eventT, 1)"
| "counted_as (ServiceCheckOp r _ _) = Some (serviceCheckT, 1)"
| "counted_as (SimpleServiceCheck r _ _ _) = Some (serviceCheckT, 1)"
| "counted_as (DistributionSamples r _ vs _ _) = Some (distributionT, of_nat (length vs))"
| "counted_as _ = None"

definition counts_as :: "metricType \<Rightarrow> client_op \<Rightarrow> u64" where
  "counts_as ty op = (case counted_as op of None \<Rightarrow> 0 | Some (ty', n) \<Rightarrow> if ty' = ty then n else 0)"

text \<open>What follows the counting leaves these counters alone.\<close>

definition same_counts :: "ClientEx \<Rightarrow> ClientEx \<Rightarrow> bool" where
  "same_counts c c' \<longleftrightarrow> (\<forall>ty. call_counter ty (c_telemetry c') = call_counter ty (c_telemetry c))"

lemma same_counts_telemetry: "c_telemetry c' = c_telemetry c \<Longrightarrow> same_counts c c'"
  by (simp add: same_counts_def)

lemma same_counts_trans: "same_counts a b \<Longrightarrow> same_counts b c \<Longrightarrow> same_counts a c"
  by (simp add: same_counts_def)

lemma process_telemetry:
  "worker_processMetric g draw i m c = Done (c', err) \<Longrightarrow> c_telemetry c' = c_telemetry c"
  by (auto simp: worker_processMetric_def on_worker_def split: prod.splits if_splits)

lemma drop_counts: "dropOnReceive m n msg c = (c', err) \<Longrightarrow> same_counts c c'"
  by (auto simp: dropOnReceive_def same_counts_def call_counter_def Let_def
      split: if_splits metricType.splits)

lemma client_send_counts: "client_send g draw m c = Done (c', err) \<Longrightarrow> same_counts c c'"
  by (auto simp: client_send_def intro: drop_counts same_counts_telemetry
      elim!: obind_DoneE dest: process_telemetry split: option.splits if_splits)

lemma sendToAggregator_counts:
  "sendToAggregator ty name v ts rt f crd a c = Done (c', err) \<Longrightarrow> same_counts c c'"
  by (auto simp: sendToAggregator_def Let_def intro: drop_counts same_counts_telemetry
      elim!: obind_DoneE split: if_splits)

lemma sendAll_telemetry: "sendAll g draws ms c = Done c' \<Longrightarrow> c_telemetry c' = c_telemetry c"
proof (induction ms arbitrary: draws c)
  case (Cons m ms)
  then show ?case
    by (auto simp: sendBlocking_def Let_def elim!: obind_DoneE dest: process_telemetry split: option.splits)
qed simp

lemma aggregator_flush_telemetry:
  "aggregator_flush g v draws c = Done c' \<Longrightarrow> c_telemetry c' = c_telemetry c"
  by (auto simp: aggregator_flush_def dest: sendAll_telemetry split: option.splits prod.splits)

lemma client_flush_telemetry: "client_flush g e c = Done c' \<Longrightarrow> c_telemetry c' = c_telemetry c"
  by (auto simp: client_flush_def sender_flush_def sender_drain_fields flush_workers_fields
      elim!: obind_DoneE dest!: aggregator_flush_telemetry split: if_splits)

lemma worker_pull_telemetry: "worker_pull g draw i c = Done c' \<Longrightarrow> c_telemetry c' = c_telemetry c"
  by (auto simp: worker_pull_def elim!: obind_DoneE dest: process_telemetry split: if_splits list.splits)

lemma aggregator_pull_telemetry: "aggregator_pull r c = Done c' \<Longrightarrow> c_telemetry c' = c_telemetry c"
  by (auto simp: aggregator_pull_def elim!: obind_DoneE split: list.splits option.splits)

lemmas telemetry_kept =
  client_flush_telemetry aggregator_flush_telemetry worker_pull_telemetry aggregator_pull_telemetry

text \<open>A method's body, after the call is counted.\<close>

lemma body_counts:
  "(case oa of
      None \<Rightarrow> client_send g draw m (c\<lparr>c_telemetry := t\<rparr>)
    | Some a \<Rightarrow> obind (or_panic (f a)) (\<lambda>a. Done (c\<lparr>c_telemetry := t, c_agg := Some a\<rparr>, None)))
      = Done (c', err) \<Longrightarrow> call_counter ty (c_telemetry c') = call_counter ty t"
  "(case oa of
      None \<Rightarrow> client_send g draw m (c\<lparr>c_telemetry := t\<rparr>)
    | Some a \<Rightarrow> sendToAggregator ty' name v ts rt h crd a (c\<lparr>c_telemetry := t\<rparr>))
      = Done (c', err) \<Longrightarrow> call_counter ty (c_telemetry c') = call_counter ty t"
  "client_send g draw m (c\<lparr>c_telemetry := t\<rparr>) = Done (c', err) \<Longrightarrow>
     call_counter ty (c_telemetry c') = call_counter ty t"
  using client_send_counts [of g draw m "c\<lparr>c_telemetry := t\<rparr>" c' err]
    sendToAggregator_counts [of ty' name v ts rt h crd _ "c\<lparr>c_telemetry := t\<rparr>" c' err]
  by (auto simp: same_counts_def elim!: obind_DoneE split: option.splits)

lemma step_counts:
  assumes "client_step g op (Some c) = Done (Some c', err)"
  shows "call_counter ty (c_telemetry c') = call_counter ty (c_telemetry c) + counts_as ty op"
proof (cases "counted_as op")
  case None
  then have "c_telemetry c' = c_telemetry c"
    using assms
    by (cases op)
      (auto simp: method_defs client_Flush_def client_Close_def watch_tick_def Let_def
        sender_drain_fields sender_turn_fields flush_workers_fields
        elim!: unless_nil_Done obind_DoneE goroutine_Done dest: telemetry_kept split: if_splits,
        metis client_flush_telemetry)
  with None show ?thesis by (simp add: counts_as_def)
next
  case (Some r)
  with assms show ?thesis
    by (cases op)
      (auto simp: method_defs Let_def counts_as_def elim!: unless_nil_Done dest!: body_counts [where ty = ty]
        split: if_splits, auto simp: call_counter_def split: metricType.splits)
qed

lemma client_step_Some: "client_step g op (Some c) = Done (cp, err) \<Longrightarrow> \<exists>c'. cp = Some c'"
  by (cases "(g, op, Some c)" rule: client_step.cases)
    (auto simp: method_defs client_Flush_def client_Close_def goroutine_def elim!: unless_nil_Done)

lemma run_counts:
  "client_run g ops (Some c) = Done (Some c', errs) \<Longrightarrow>
   call_counter ty (c_telemetry c') = call_counter ty (c_telemetry c) + sum_list (map (counts_as ty) ops)"
proof (induction ops arbitrary: c errs)
  case (Cons op ops)
  obtain cp1 err errs1 where s: "client_step g op (Some c) = Done (cp1, err)"
    "client_run g ops cp1 = Done (Some c', errs1)"
    using Cons.prems by (auto elim!: obind_DoneE)
  obtain c1 where c1: "cp1 = Some c1"
    using client_step_Some [OF s(1)] by blast
  from Cons.IH [OF s(2) [unfolded c1]] step_counts [OF s(1) [unfolded c1], of ty] show ?case
    by simp
qed simp

section \<open>Series of telemetry flushes\<close>

text \<open>Each flush sees the client and the transport's name of its time.\<close>

fun telemetry_flushes :: "(bytes \<times> ClientEx) list \<Rightarrow> telemetryClient \<Rightarrow> telemetryClient \<times> metric list list" where
  "telemetry_flushes [] t = (t, [])"
| "telemetry_flushes ((transport, c) # cs) t =
     (case telemetry_flush transport c t of
        (t, ms) \<Rightarrow> (case telemetry_flushes cs t of (t, mss) \<Rightarrow> (t, ms # mss)))"

definition full_table :: "bool \<Rightarrow> (bytes \<times> (Telemetry \<Rightarrow> u64) \<times> metricType option) list" where
  "full_table aggregation = telemetry_table @ (if aggregation then aggregation_table else [])"

lemma setTags_keeps [simp]:
  "tc_lastSample (setTags tr tags t) = tc_lastSample t" "tc_aggEnabled (setTags tr tags t) = tc_aggEnabled t"
  by (simp_all add: setTags_def Let_def)

lemma getTelemetry_enabled:
  "tc_aggEnabled t = tc_aggEnabled t' \<Longrightarrow> getTelemetry (Some t) c = getTelemetry (Some t') c"
  by (simp add: getTelemetry_def Let_def)

lemma telemetry_flush_values:
  assumes "telemetry_flush transport c t = (t', ms)"
  shows "map m_ivalue ms = map (\<lambda>(name, counter, ty).
      counter (getTelemetry (Some t) c) - counter (tc_lastSample t)) (full_table (tc_aggEnabled t))"
    and "map m_name ms = map fst (full_table (tc_aggEnabled t))"
    and "tc_lastSample t' = getTelemetry (Some t) c" and "tc_aggEnabled t' = tc_aggEnabled t"
  using assms
  by (auto simp: telemetry_flush_def telemetry_metrics_def telemetryCount_def full_table_def Let_def
      zero_metric_def split: prod.splits if_splits)

lemma telescope:
  assumes "telemetry_flushes cs t = (t', mss)" and "full_table (tc_aggEnabled t) ! i = (name, counter, ty)"
    and "i < length (full_table (tc_aggEnabled t))"
  shows "sum_list (map (\<lambda>ms. m_ivalue (ms ! i)) mss) = counter (tc_lastSample t') - counter (tc_lastSample t)
    \<and> (cs \<noteq> [] \<longrightarrow> tc_lastSample t' = getTelemetry (Some t) (snd (last cs)))
    \<and> list_all (\<lambda>ms. m_name (ms ! i) = name) mss"
  using assms
proof (induction cs arbitrary: t mss)
  case (Cons p cs)
  obtain tr c where p: "p = (tr, c)" by (cases p)
  obtain t1 ms where f: "telemetry_flush tr c t = (t1, ms)" by (cases "telemetry_flush tr c t")
  obtain mss1 where r: "telemetry_flushes cs t1 = (t', mss1)" "mss = ms # mss1"
    using Cons.prems(1) p f by (auto split: prod.splits)
  note v = telemetry_flush_values [OF f]
  have len: "length ms = length (full_table (tc_aggEnabled t))"
    using arg_cong [OF v(2), of length] by simp
  have "m_ivalue (ms ! i) = counter (getTelemetry (Some t) c) - counter (tc_lastSample t)"
    "m_name (ms ! i) = name"
    using arg_cong [OF v(1), of "\<lambda>xs. xs ! i"] arg_cong [OF v(2), of "\<lambda>xs. xs ! i"] Cons.prems(2,3) len
    by simp_all
  with Cons.IH [OF r(1)] Cons.prems(2,3) v(3,4) r getTelemetry_enabled [of t1 t] show ?case
    by (cases cs) (auto simp: p)
qed simp

end
