(* ===== verification/Client_Limits.thy ===== *)
theory Client_Limits
  imports Client_Properties Telemetry_Facts
begin

text \<open>
  More properties of the client: its construction, nil clients, timestamps, channel mode, what is
  left after \<open>Close\<close>, and what its telemetry reports.
\<close>

section \<open>Construction\<close>

text \<open>The state the theorems on runs start from, and what the options determine.\<close>

definition proper_client :: "ClientEx \<Rightarrow> bool" where
  "proper_client c \<longleftrightarrow> (\<exists>ms me n mx. fresh_client ms me n mx c \<and> 1 \<le> n) \<and> c_workers c \<noteq> []
     \<and> (c_extended c \<longrightarrow> c_agg c \<noteq> None \<and> c_workersMode c = mutexMode)
     \<and> (c_namespace c = [] \<or> last (c_namespace c) = CHR ''.'')"

text \<open>
  C16. Every client that \<open>NewEx\<close> returns is well formed: empty buffers of the configured limits, an
  empty queue and empty channels, at least one worker and one shard, an aggregator whenever
  extended aggregation is on, which then is not in channel mode, and a namespace that ends in a dot.
\<close>

theorem NewEx_proper:
  assumes "list_all library_option opts" and "snd (NewEx wd pr addr opts) = Done (Inr (c, t))"
  shows "proper_client c"
proof -
  obtain pr' o' name tr where o': "resolveOptions opts = Inr o'"
    and n: "newWithWriter wd pr o' name tr = (pr', Done (Inr (c, t)))"
    by (rule NewEx_newWithWriter [OF assms(2)])
  have v: "valid_options o'"
    using resolveOptions_valid [OF assms(1) o'] .
  note C = newWithWriter_client [OF n]
  let ?o = "adaptSizes (name = writerNameUDS) o'"
  have "1 \<le> o_aggregatorShardCount ?o"
    using v by (simp add: adaptSizes_fields valid_options_def)
  with conjunct1 [OF C] have "\<exists>ms me n mx. fresh_client ms me n mx c \<and> 1 \<le> n"
    by (intro exI conjI)
  moreover have "c_workers c \<noteq> []" "c_extended c \<longrightarrow> c_agg c \<noteq> None \<and> c_workersMode c = mutexMode"
    "c_namespace c = [] \<or> last (c_namespace c) = CHR ''.''"
    using conjunct2 [OF C] v by (auto simp: configured_def valid_options_def wantsAggregator_def)
  ultimately show ?thesis
    by (simp add: proper_client_def)
qed

lemma demo_made_udp:
  "snd (NewEx demo_world demo_process ''127.0.0.1:8125'' demo_options) = Done (Inr (demo_client, None))"
  by (simp add: NewEx_def resolveAddr_def createWriter_def HasPrefix_def prefix_defs AddressPrefixes_def
    demo_options newWithWriter_def Let_def adaptSizes_def
    startAggregator_def wantsAggregator_def defaultOptions_def newBufferPool_def size_defs metricSize_def metricOverhead_def
    millisecond_def case_prod_unfold addNewBuffer_pow newWorker_def borrowBuffer_def
    demo_client_def demo_buffer_def newAggregator_def size_defs envTags_def ddEnvTagsMapping_def demo_world_def
    chosenCardinality_def envTagCardinality_def isOriginDetectionEnabled_def demo_cardinality replicate_2)

lemma demo_library: "list_all library_option demo_options"
  by (simp add: demo_options_def library_option.intros)

theorem NewEx_proper_witness: "proper_client demo_client"
  by (rule NewEx_proper [OF demo_library demo_made_udp])

text \<open>
  C39. With sizes that \<open>make\<close> accepts, a payload limit for which adding \<open>metricOverhead\<close> stays within
  them, and intervals that are positive, \<open>NewEx\<close> never panics, whatever the address, the environment
  and the other options.
\<close>

theorem NewEx_returns:
  assumes "list_all library_option opts" and "resolveOptions opts = Inr o'" and "sizes_in_range o'"
  shows "\<exists>r. snd (NewEx wd pr addr opts) = Done r"
proof -
  have v: "valid_options o'"
    using resolveOptions_valid [OF assms(1,2)] .
  from newWithWriter_returns [OF v assms(3), of wd pr] assms(2) show ?thesis
    by (auto simp: NewEx_def createWriter_def Let_def split: option.split)
qed

theorem NewEx_returns_witness:
  "\<exists>r. snd (NewEx demo_world demo_process ''127.0.0.1:8125'' demo_options) = Done r"
  by (rule NewEx_returns [OF demo_library demo_options])
    (simp add: sizes_in_range_def size_defs metricSize_def metricOverhead_def defaultOptions_def millisecond_def)

text \<open>
  Outside these ranges it can panic: a flush interval of 0 ends in \<open>time.NewTicker\<close>, and
  \<open>math.MaxInt64\<close> bytes per payload in a size that wraps around to a negative one.
\<close>

lemma zero_interval_panics:
  "snd (NewEx demo_world demo_process ''127.0.0.1:8125'' [WithBufferFlushInterval 0]) = Panicked"
  by (simp add: NewEx_def resolveOptions_def option_defs resolveAddr_def createWriter_def HasPrefix_def
    prefix_defs AddressPrefixes_def newWithWriter_def Let_def adaptSizes_def startAggregator_def
    wantsAggregator_def defaultOptions_def newBufferPool_def size_defs metricSize_def metricOverhead_def millisecond_def
    case_prod_unfold newAggregator_def size_defs demo_world_def DefaultUDPBufferPoolSize_def DefaultUDSBufferPoolSize_def
    writer_names OptimalUDPPayloadSize_def)

lemma huge_payload_panics:
  "snd (NewEx demo_world demo_process ''127.0.0.1:8125'' [WithMaxBytesPerPayload (2 ^ 63 - 1)]) = Panicked"
  by (simp add: NewEx_def resolveOptions_def option_defs resolveAddr_def createWriter_def HasPrefix_def
    prefix_defs AddressPrefixes_def newWithWriter_def Let_def adaptSizes_def defaultOptions_def newBufferPool_def
    size_defs metricOverhead_def case_prod_unfold demo_world_def DefaultUDPBufferPoolSize_def
    DefaultUDSBufferPoolSize_def writer_names)

section \<open>Errors\<close>

text \<open>On a nil client every operation returns \<open>ErrNoClient\<close> and nothing else happens.\<close>

theorem nil_client: "client_run g ops None = Done (None, replicate (length ops) (Some ErrNoClient))"
proof (induction ops)
  case (Cons op ops)
  have "client_step g op None = Done (None, Some ErrNoClient)"
    by (cases "(g, op, None :: ClientEx option)" rule: client_step.cases)
      (simp_all add: method_defs client_Flush_def client_Close_def goroutine_def)
  with Cons show ?case by simp
qed simp

text \<open>
  A timestamp that is not after the epoch is refused without any effect, not even on the
  counters; any other bypasses the aggregator, and the metric the workers get carries it.
\<close>

theorem timestamps:
  "if sint (unix_sec t) \<le> 0
   then client_step g (GaugeWithTimestamp r (n, v, ts, rt, ps) t) (Some c) = Done (Some c, Some InvalidTimestamp)
     \<and> client_step g (CountWithTimestamp r (n, i, ts, rt, ps) t) (Some c) = Done (Some c, Some InvalidTimestamp)
   else (\<exists>m. m_timestamp m = unix_sec t \<and> m_type m = gaugeT \<and> m_fvalue m = v \<and> m_name m = n
       \<and> sends g (fst r) m c (client_step g (GaugeWithTimestamp r (n, v, ts, rt, ps) t) (Some c)))
     \<and> (\<exists>m. m_timestamp m = unix_sec t \<and> m_type m = countT \<and> m_ivalue m = i \<and> m_name m = n
       \<and> sends g (fst r) m c (client_step g (CountWithTimestamp r (n, i, ts, rt, ps) t) (Some c)))"
proof (cases "sint (unix_sec t) \<le> 0")
  case True
  then show ?thesis by (simp add: method_defs unless_nil_def)
next
  case False
  let ?k = "\<lambda>ty. call_metric c ty n ts rt (parameterCardinality ps (c_defaultCardinality c))"
  have "sends g (fst r) (?k gaugeT\<lparr>m_fvalue := v, m_timestamp := unix_sec t\<rparr>) c
      (client_step g (GaugeWithTimestamp r (n, v, ts, rt, ps) t) (Some c))"
    using False by (simp add: method_defs unless_nil_def Let_def)
  moreover have "sends g (fst r) (?k countT\<lparr>m_ivalue := i, m_timestamp := unix_sec t\<rparr>) c
      (client_step g (CountWithTimestamp r (n, i, ts, rt, ps) t) (Some c))"
    using False by (simp add: method_defs unless_nil_def Let_def)
  moreover have "m_type (?k ty) = ty" "m_timestamp (?k ty\<lparr>m_fvalue := v, m_timestamp := t'\<rparr>) = t'"
    "m_name (?k ty\<lparr>m_fvalue := v, m_timestamp := t'\<rparr>) = n"
    "m_timestamp (?k ty\<lparr>m_ivalue := i, m_timestamp := t'\<rparr>) = t'"
    "m_name (?k ty\<lparr>m_ivalue := i, m_timestamp := t'\<rparr>) = n" for ty t'
    by (simp_all add: call_metric_def)
  ultimately show ?thesis
    using False
    by (simp del: client_step.simps) (intro conjI exI; (elim conjE)?; (assumption | simp))
qed

section \<open>Channel mode\<close>

text \<open>A client in channel mode whose channels hold one metric each.\<close>

definition channel_demo :: ClientEx where
  "channel_demo = demo_client\<lparr>c_agg := None, c_workersMode := channelMode, c_aggregatorMode := channelMode,
     c_inputs := [[]], c_inputCap := 1\<rparr>"

definition channel_ops :: "client_op list" where
  "channel_ops = [Incr demo_random (''m'', (), [], f64_one, []), Incr demo_random (''m'', (), [], f64_one, []),
     WorkerPull 0 0, Incr demo_random (''m'', (), [], f64_one, [])]"

definition channel_end :: ClientEx where
  "channel_end = (case client_run no_globals channel_ops (Some channel_demo) of
     Done (Some c, _) \<Rightarrow> c | _ \<Rightarrow> channel_demo)"

lemma channel_run:
  "client_run no_globals channel_ops (Some channel_demo)
     = Done (Some channel_end, [None, None, None, None])"
  "length (c_done channel_end) = 1" "c_inputs channel_end = [[(call_metric channel_demo countT ''m'' [] f64_one
     CardinalityNotSet)\<lparr>m_ivalue := 1\<rparr>]]" "totalDroppedOnReceive (c_telemetry channel_end) = 1"
  by (simp_all add: channel_end_def channel_ops_def channel_demo_def demo_eval goroutine_def worker_pull_def
      dropOnReceive_def zero_statsdTelemetry_def)

lemma channel_start: "channel_client channel_demo" "new_client 16 2147483647 channel_demo"
  by (auto simp: channel_client_def channel_demo_def new_client_def demo_client_def wf_pool_def
      fresh_buffer_def demo_buffer_def)

text \<open>
  C15. With the workers or the aggregator in channel mode, no metric gets lost without being counted,
  whatever the interleaving, the closing of the client included: the metrics that calls handed to
  the workers or to a channel and those that flushes of the aggregator made are, each in one place,
  processed by a worker, taken by the aggregator, in a channel, or counted as dropped on receive.
  No channel holds more than its capacity.
\<close>

theorem channel_accounting:
  assumes "channel_client c0" and "new_client ms me c0"
    and "client_run g ops (Some c0) = Done (Some c, errs)" and "length ops < 2 ^ 64"
  shows "length (c_done c) + along taken g ops c0 + (queued c + length (c_aggInput c))
        + unat (totalDroppedOnReceive (c_telemetry c))
      = length (filter (handed c0) ops) + along made g ops c0
    \<and> list_all (\<lambda>q. length q \<le> c_inputCap c0) (c_inputs c) \<and> length (c_aggInput c) \<le> c_inputCap c0"
proof -
  have "at_client c0 = 0"
    using assms(2) by (simp add: at_client_def queued_def new_client_def list_all_iff)
  moreover have "totalDroppedOnReceive (c_telemetry c0) = 0"
    using assms(2) by (simp add: new_client_def zero_statsdTelemetry_def)
  ultimately obtain d where d: "d \<le> length (filter (handed c0) ops)"
    "totalDroppedOnReceive (c_telemetry c) = of_nat d"
    "at_client c + along taken g ops c0 + d = length (filter (handed c0) ops) + along made g ops c0"
    and c: "channel_client c" "config c = config c0"
    using run_moves [OF assms(1,3)] by (auto simp: moves_def)
  have "d < 2 ^ 64"
    using d(1) assms(4) length_filter_le [of "handed c0" ops] by linarith
  then have "unat (totalDroppedOnReceive (c_telemetry c)) = d"
    using d(2) by (simp add: unat_of_nat)
  with d(3) c show ?thesis
    by (simp add: at_client_def channel_client_def config_def)
qed

text \<open>With an aggregator: a count that is aggregated and then flushed, and two that meet a full channel.\<close>

definition tick_ops :: "client_op list" where
  "tick_ops = [Incr demo_random (''m'', (), [], f64_one, []),
     CountWithTimestamp demo_random (''t'', 2, [], f64_one, []) \<lparr>unix_sec = 5, nsec = 0\<rparr>,
     AggregatorTick plain_visits (\<lambda>_. 0),
     CountWithTimestamp demo_random (''t'', 3, [], f64_one, []) \<lparr>unix_sec = 6, nsec = 0\<rparr>]"

lemma along_zero: "(\<And>c op. op \<in> set ops \<Longrightarrow> f c op = 0) \<Longrightarrow> along f g ops c = 0"
proof (induction ops arbitrary: c)
  case (Cons op ops)
  from Cons.prems have "f c op = 0" by simp
  moreover have "along f g ops c' = 0" for c'
    using Cons.prems by (intro Cons.IH) simp
  ultimately show ?case by (simp split: outcome.split option.split)
qed simp

theorem channel_accounting_witness:
  "\<exists>c. client_run no_globals tick_ops (Some (channel_demo\<lparr>c_agg := newAggregator (- 1) 1\<rparr>))
      = Done (Some c, [None, None, None, None])
    \<and> length (c_done c) + (queued c + length (c_aggInput c)) + unat (totalDroppedOnReceive (c_telemetry c)) = 3
    \<and> list_all (\<lambda>q. length q \<le> 1) (c_inputs c)"
proof -
  let ?c0 = "channel_demo\<lparr>c_agg := newAggregator (- 1) 1\<rparr>"
  obtain c where r: "client_run no_globals tick_ops (Some ?c0) = Done (Some c, [None, None, None, None])"
    by (simp add: tick_ops_def channel_demo_def demo_eval goroutine_def dropOnReceive_def zero_statsdTelemetry_def)
  have start: "channel_client ?c0" "new_client 16 2147483647 ?c0"
    using channel_start by (simp_all add: channel_client_def new_client_def)
  have len: "length tick_ops < 2 ^ 64" and handed: "length (filter (handed ?c0) tick_ops) = 2"
    by (simp_all add: tick_ops_def newAggregator_def size_defs)
  have taken: "along taken no_globals tick_ops ?c0 = 0"
    by (rule along_zero) (auto simp: tick_ops_def taken_def)
  have made: "along made no_globals tick_ops ?c0 = 1"
    by (simp add: tick_ops_def channel_demo_def demo_eval goroutine_def dropOnReceive_def
        zero_statsdTelemetry_def made_def flushed_count_def)
  from channel_accounting [OF start r len] show ?thesis
    unfolding taken handed made using r by (simp add: channel_demo_def)
qed

section \<open>After \<open>Close\<close>\<close>

text \<open>
  A \<open>Flush\<close> after \<open>Close\<close> does not return, in no mode and state: the send loop that would answer
  it is gone.
\<close>

theorem flush_after_close: "client_run g [Close e outs, Flush e'] (Some c) \<noteq> Done r"
proof
  assume run: "client_run g [Close e outs, Flush e'] (Some c) = Done r"
  obtain cp err r' where c: "client_Close g e outs (Some c) = Done (cp, err)"
    and f: "client_Flush g e' cp = Done r'"
    using run by (auto elim!: obind_DoneE)
  obtain c1 where c1: "cp = Some c1" "c_isClosed c1"
    using c sender_drain_fields(1) [of outs]
    by (auto simp: client_Close_def Let_def outer_def elim!: unless_nil_Done obind_DoneE split: if_splits)
  with f closed_flush [of c1 g e'] show False
    by (auto simp: client_Flush_def unless_nil_def elim!: obind_DoneE)
qed

text \<open>Without an aggregator to flush first it blocks, with all workers locked.\<close>

lemma closed_flush_blocks:
  assumes "c_isClosed c" and "c_agg c = None"
  shows "client_Flush g e' (Some c) = Blocked"
  using assms flush_workers_fields(1) [of c]
  by (simp add: client_Flush_def unless_nil_def client_flush_def aggregator_flush_def sender_flush_def outer_def)

definition channel_closed :: ClientEx where
  "channel_closed = (case client_Close no_globals demo_flush (\<lambda>_. None) (Some channel_end) of
     Done (Some c, _) \<Rightarrow> c | _ \<Rightarrow> channel_end)"

lemma channel_closed:
  "client_run no_globals [Close demo_flush (\<lambda>_. None)] (Some channel_end) = Done (Some channel_closed, [None])"
  "c_isClosed channel_closed" "c_inputs channel_closed = c_inputs channel_end"
  "totalDroppedOnReceive (c_telemetry channel_closed) = 1"
  by (simp_all add: channel_closed_def channel_end_def channel_ops_def channel_demo_def demo_eval goroutine_def
      worker_pull_def dropOnReceive_def zero_statsdTelemetry_def client_Close_def)

section \<open>Telemetry\<close>

text \<open>
  The counters report exactly the calls: after any run, in any mode, each counter has grown by
  the number of calls of its type (of values, for \<open>DistributionSamples\<close>), whether they were
  aggregated, sampled away, dropped or refused by a full channel.
\<close>

theorem calls_counted:
  assumes "new_client ms me c0" and "client_run g ops (Some c0) = Done (Some c, errs)"
    and "getTelemetry (Some t) c = tlm"
  shows "call_counter ty (tlm_client tlm) = sum_list (map (counts_as ty) ops)"
proof -
  have "call_counter ty (c_telemetry c0) = 0"
    using assms(1) by (simp add: new_client_def zero_statsdTelemetry_def call_counter_def split: metricType.split)
  moreover have "tlm_client tlm = c_telemetry c"
    using assms(3) by (auto simp: getTelemetry_def client_flushTelemetryMetrics_def
        sender_flushTelemetryMetrics_def Let_def split: if_splits)
  ultimately show ?thesis
    using run_counts [OF assms(2), of ty] by simp
qed

definition demo_telemetry :: telemetryClient where
  "demo_telemetry = newTelemetryClient ''udp'' [] False"

theorem calls_counted_witness:
  "totalMetricsCount (tlm_client (getTelemetry (Some demo_telemetry) channel_end)) = 3"
  using calls_counted [OF channel_start(2) channel_run(1) refl, of countT demo_telemetry]
  by (simp add: channel_ops_def counts_as_def call_counter_def)

text \<open>
  C17. The telemetry metrics lose and repeat nothing: over any series of flushes the values sent for
  an entry add up to the growth of its counter from the first sample to the last, modulo 2^64.
\<close>

theorem telemetry_adds_up:
  assumes "telemetry_flushes cs t = (t', mss)" and "cs \<noteq> []"
    and "i < length (full_table (tc_aggEnabled t))"
    and "full_table (tc_aggEnabled t) ! i = (name, counter, ty)"
  shows "sum_list (map (\<lambda>ms. m_ivalue (ms ! i)) mss)
      = counter (getTelemetry (Some t) (snd (last cs))) - counter (tc_lastSample t)
    \<and> list_all (\<lambda>ms. m_name (ms ! i) = name) mss"
  using telescope [OF assms(1,4,3)] assms(2) by simp

definition demo_flushes :: "telemetryClient \<times> metric list list" where
  "demo_flushes = telemetry_flushes [(''udp'', channel_demo), (''udp'', channel_end), (''udp'', channel_closed)]
     demo_telemetry"

theorem telemetry_adds_up_witness:
  "sum_list (map (\<lambda>ms. m_ivalue (ms ! 9)) (snd demo_flushes)) = 1
    \<and> list_all (\<lambda>ms. m_name (ms ! 9) = ''datadog.dogstatsd.client.metric_dropped_on_receive'') (snd demo_flushes)"
proof -
  have f: "telemetry_flushes [(''udp'', channel_demo), (''udp'', channel_end), (''udp'', channel_closed)] demo_telemetry
      = (fst demo_flushes, snd demo_flushes)"
    by (simp add: demo_flushes_def)
  have t: "tc_aggEnabled demo_telemetry = False" "tc_lastSample demo_telemetry = zero_Telemetry"
    by (simp_all add: demo_telemetry_def newTelemetryClient_def)
  have "tlm_client (getTelemetry (Some demo_telemetry) c) = c_telemetry c" for c
    by (simp add: getTelemetry_def client_flushTelemetryMetrics_def sender_flushTelemetryMetrics_def Let_def)
  with telemetry_adds_up [OF f, of 9] t channel_closed(4) show ?thesis
    by (simp add: full_table_def telemetry_table_def zero_Telemetry_def zero_statsdTelemetry_def)
qed

section \<open>Origin detection of aggregated metrics\<close>

text \<open>
  The metrics of the aggregator and of \<open>DistributionSamples\<close> reach the workers without the client's
  \<open>originDetection\<close>, so the external environment is never added to them.
\<close>

lemma origin_detection_lost:
  "m \<in> set (expected_metrics mx calls) \<Longrightarrow> \<not> m_originDetection (inject c m)"
  "metric_of c (DistributionSamples r n vs ts rt) = Some m \<Longrightarrow> \<not> m_originDetection m"
  by (auto simp: expected_metrics_def expected_counts_def expected_gauges_def expected_sets_def inject_def
      expected_buffered_def buffered_flushUnsafe_def zero_metric_def split: prod.splits)

end
