(* ===== verification/Wrappers.thy ===== *)
theory Wrappers
  imports NewClient Client_Run
begin

text \<open>
  \<open>src/statsd/statsd.go\<close>: \<open>Client\<close>, which wraps a \<open>ClientEx\<close> and passes no parameters;
  \<open>statsd_direct.go\<close>: \<open>ClientDirect\<close>, which wraps a \<open>Client\<close>; \<open>noop.go\<close>: the client that does nothing.

  A \<open>*Client\<close> is nil (\<open>None\<close>) or holds a \<open>*ClientEx\<close>, which is nil in a zero value.
\<close>

section \<open>The code: \<open>Client\<close>\<close>

datatype Client = Client (clientEx: "ClientEx option")

type_synonym client_pointer_result = "(Client option \<times> client_error option) outcome"

definition through ::
  "Client option \<Rightarrow> (ClientEx option \<Rightarrow> (ClientEx option \<times> client_error option) outcome)
     \<Rightarrow> client_pointer_result" where
  "through cp f =
     (case cp of
        None \<Rightarrow> Done (None, Some ErrNoClient)
      | Some c \<Rightarrow> obind (f (clientEx c)) (\<lambda>(ce, err). Done (Some (Client ce), err)))"

definition Client_Gauge where
  "Client_Gauge g r cp name value tags rate =
     through cp (\<lambda>ce. client_Gauge g r ce name value tags rate [])"
definition Client_GaugeWithTimestamp where
  "Client_GaugeWithTimestamp g r cp name value tags rate timestamp =
     through cp (\<lambda>ce. client_GaugeWithTimestamp g r ce name value tags rate timestamp [])"
definition Client_Count where
  "Client_Count g r cp name value tags rate =
     through cp (\<lambda>ce. client_Count g r ce name value tags rate [])"
definition Client_CountWithTimestamp where
  "Client_CountWithTimestamp g r cp name value tags rate timestamp =
     through cp (\<lambda>ce. client_CountWithTimestamp g r ce name value tags rate timestamp [])"
definition Client_Histogram where
  "Client_Histogram g r cp name value tags rate =
     through cp (\<lambda>ce. client_Histogram g r ce name value tags rate [])"
definition Client_Distribution where
  "Client_Distribution g r cp name value tags rate =
     through cp (\<lambda>ce. client_Distribution g r ce name value tags rate [])"
definition Client_Decr where
  "Client_Decr g r cp name tags rate = through cp (\<lambda>ce. client_Decr g r ce name tags rate [])"
definition Client_Incr where
  "Client_Incr g r cp name tags rate = through cp (\<lambda>ce. client_Incr g r ce name tags rate [])"
definition Client_Set where
  "Client_Set g r cp name value tags rate =
     through cp (\<lambda>ce. client_Set g r ce name value tags rate [])"
definition Client_Timing where
  "Client_Timing g r cp name value tags rate =
     through cp (\<lambda>ce. client_Timing g r ce name value tags rate [])"
definition Client_TimeInMilliseconds where
  "Client_TimeInMilliseconds g r cp name value tags rate =
     through cp (\<lambda>ce. client_TimeInMilliseconds g r ce name value tags rate [])"
definition Client_Event where
  "Client_Event g r cp e = through cp (\<lambda>ce. client_Event g r ce e [])"
definition Client_SimpleEvent where
  "Client_SimpleEvent g r cp title txt = through cp (\<lambda>ce. client_SimpleEvent g r ce title txt [])"
definition Client_ServiceCheck where
  "Client_ServiceCheck g r cp sc = through cp (\<lambda>ce. client_ServiceCheck g r ce sc [])"
definition Client_SimpleServiceCheck where
  "Client_SimpleServiceCheck g r cp name status =
     through cp (\<lambda>ce. client_SimpleServiceCheck g r ce name status [])"
definition Client_Flush where
  "Client_Flush g e cp = through cp (client_Flush g e)"
definition Client_Close where
  "Client_Close g e outs cp = through cp (client_Close g e outs)"

text \<open>\<open>IsClosed\<close> and \<open>GetTelemetry\<close> do not check for nil: a nil pointer panics.\<close>

definition Client_IsClosed :: "Client option \<Rightarrow> bool outcome" where
  "Client_IsClosed cp =
     (case cp of
        None \<Rightarrow> Panicked
      | Some c \<Rightarrow> (case clientEx c of None \<Rightarrow> Panicked | Some ce \<Rightarrow> Done (client_IsClosed ce)))"

definition ClientEx_GetTelemetry :: "telemetryClient option \<Rightarrow> ClientEx option \<Rightarrow> Telemetry outcome" where
  "ClientEx_GetTelemetry tc cp = (case cp of None \<Rightarrow> Panicked | Some c \<Rightarrow> Done (getTelemetry tc c))"

definition Client_GetTelemetry :: "telemetryClient option \<Rightarrow> Client option \<Rightarrow> Telemetry outcome" where
  "Client_GetTelemetry tc cp =
     (case cp of
        None \<Rightarrow> Panicked
      | Some c \<Rightarrow> ClientEx_GetTelemetry tc (clientEx c))"

text \<open>\<open>sendBlocking\<close> serves tests of the wrapper.\<close>

definition Client_sendBlocking ::
  "globals \<Rightarrow> f64 \<Rightarrow> metric \<Rightarrow> Client option \<Rightarrow> client_pointer_result" where
  "Client_sendBlocking g draw m cp =
     (case cp of
        None \<Rightarrow> Panicked
      | Some c \<Rightarrow> (case clientEx c of
          None \<Rightarrow> Panicked
        | Some ce \<Rightarrow> obind (sendBlocking g draw m ce)
            (\<lambda>(ce, err). Done (Some (Client (Some ce)), err))))"

text \<open>Constructors: those of \<open>ClientEx\<close>, wrapped.\<close>

type_synonym wrapped_result = "(client_failure + Client \<times> telemetryClient option) outcome"

definition wrap :: "process \<times> new_result \<Rightarrow> process \<times> wrapped_result" where
  "wrap = (\<lambda>(pr, res). (pr, obind res (\<lambda>r. Done (case r of
     Inl err \<Rightarrow> Inl err
   | Inr (ce, t) \<Rightarrow> Inr (Client (Some ce), t)))))"

definition New :: "world \<Rightarrow> process \<Rightarrow> bytes \<Rightarrow> Option list \<Rightarrow> process \<times> wrapped_result" where
  "New wd pr addr options = wrap (NewEx wd pr addr options)"

definition NewWithWriter :: "world \<Rightarrow> process \<Rightarrow> Option list \<Rightarrow> process \<times> wrapped_result" where
  "NewWithWriter wd pr options = wrap (NewWithWriterEx wd pr options)"

text \<open>\<open>c\<close> is nil, or holds the options and address of its \<open>ClientEx\<close>, if that is not nil.\<close>

definition CloneWithExtraOptions ::
  "world \<Rightarrow> process \<Rightarrow> (Option list \<times> bytes) option option \<Rightarrow> Option list
     \<Rightarrow> process \<times> wrapped_result" where
  "CloneWithExtraOptions wd pr c options =
     (case c of
        None \<Rightarrow> (pr, Done (Inl CloneNil))
      | Some ce \<Rightarrow> wrap (CloneWithExtraOptionsEx wd pr ce options))"

section \<open>The code: \<open>ClientDirect\<close>\<close>

text \<open>\<open>ClientDirect\<close> embeds a \<open>*Client\<close>; the wrapped client must not be nil.\<close>

datatype ClientDirect = ClientDirect (direct_client: "Client option")

definition wrap_direct ::
  "process \<times> wrapped_result \<Rightarrow> process \<times> (client_failure + ClientDirect \<times> telemetryClient option) outcome" where
  "wrap_direct = (\<lambda>(pr, res). (pr, obind res (\<lambda>r. Done (case r of
     Inl err \<Rightarrow> Inl err
   | Inr (c, t) \<Rightarrow> Inr (ClientDirect (Some c), t)))))"

definition NewDirect where
  "NewDirect wd pr addr options = wrap_direct (New wd pr addr options)"

definition NewDirectWithWriter where
  "NewDirectWithWriter wd pr options = wrap_direct (NewWithWriter wd pr options)"

definition ClientDirect_DistributionSamples where
  "ClientDirect_DistributionSamples g r cp name values tags rate =
     (case cp of
        None \<Rightarrow> Done (None, Some ErrNoClient)
      | Some d \<Rightarrow> (case direct_client d of
          None \<Rightarrow> Panicked
        | Some c \<Rightarrow> (case clientEx c of
            None \<Rightarrow> Panicked
          | Some ce \<Rightarrow>
              obind (client_DistributionSamples g r (Some ce) name values tags rate)
                (\<lambda>(ce, err). Done (Some (ClientDirect (Some (Client ce))), err)))))"

section \<open>The code: \<open>NoOpClient\<close>\<close>

text \<open>The methods of \<open>NoOpClient\<close> return nil, false and zero values, whatever the call.\<close>

fun NoOpClient_call :: "client_op \<Rightarrow> client_error option" where
  "NoOpClient_call (Gauge r _) = None"
| "NoOpClient_call (GaugeWithTimestamp r _ t) = None"
| "NoOpClient_call (Count r _) = None"
| "NoOpClient_call (CountWithTimestamp r _ t) = None"
| "NoOpClient_call (Histogram r _) = None"
| "NoOpClient_call (Distribution r _) = None"
| "NoOpClient_call (Decr r _) = None"
| "NoOpClient_call (Incr r _) = None"
| "NoOpClient_call (SetOp r _) = None"
| "NoOpClient_call (Timing r _) = None"
| "NoOpClient_call (TimeInMilliseconds r _) = None"
| "NoOpClient_call (EventOp r e ps) = None"
| "NoOpClient_call (SimpleEvent r title txt ps) = None"
| "NoOpClient_call (ServiceCheckOp r sc ps) = None"
| "NoOpClient_call (SimpleServiceCheck r name status ps) = None"
| "NoOpClient_call (DistributionSamples r n vs ts rt) = None"
| "NoOpClient_call (Flush e) = None"
| "NoOpClient_call (Close e outs) = None"
| "NoOpClient_call op = None"

definition NoOpClient_IsClosed :: bool where "NoOpClient_IsClosed = False"
definition NoOpClientDirect_DistributionSamples :: "bytes \<Rightarrow> f64 list \<Rightarrow> bytes list \<Rightarrow> f64 \<Rightarrow> client_error option" where
  "NoOpClientDirect_DistributionSamples name values tags rate = None"

definition NoOpClient_GetTelemetry :: Telemetry where "NoOpClient_GetTelemetry = zero_Telemetry"

section \<open>Operations of a wrapped client\<close>

text \<open>The same operations as \<open>client_step\<close>, called on a \<open>*Client\<close>; the goroutines are the inner client's.\<close>

fun wrapped_step :: "globals \<Rightarrow> client_op \<Rightarrow> Client option \<Rightarrow> client_pointer_result" where
  "wrapped_step g (Gauge r (n, v, ts, rt, ps)) cp = Client_Gauge g r cp n v ts rt"
| "wrapped_step g (GaugeWithTimestamp r (n, v, ts, rt, ps) t) cp =
     Client_GaugeWithTimestamp g r cp n v ts rt t"
| "wrapped_step g (Count r (n, v, ts, rt, ps)) cp = Client_Count g r cp n v ts rt"
| "wrapped_step g (CountWithTimestamp r (n, v, ts, rt, ps) t) cp =
     Client_CountWithTimestamp g r cp n v ts rt t"
| "wrapped_step g (Histogram r (n, v, ts, rt, ps)) cp = Client_Histogram g r cp n v ts rt"
| "wrapped_step g (Distribution r (n, v, ts, rt, ps)) cp = Client_Distribution g r cp n v ts rt"
| "wrapped_step g (Decr r (n, _, ts, rt, ps)) cp = Client_Decr g r cp n ts rt"
| "wrapped_step g (Incr r (n, _, ts, rt, ps)) cp = Client_Incr g r cp n ts rt"
| "wrapped_step g (SetOp r (n, v, ts, rt, ps)) cp = Client_Set g r cp n v ts rt"
| "wrapped_step g (Timing r (n, v, ts, rt, ps)) cp = Client_Timing g r cp n v ts rt"
| "wrapped_step g (TimeInMilliseconds r (n, v, ts, rt, ps)) cp = Client_TimeInMilliseconds g r cp n v ts rt"
| "wrapped_step g (EventOp r e ps) cp = Client_Event g r cp e"
| "wrapped_step g (SimpleEvent r title txt ps) cp = Client_SimpleEvent g r cp title txt"
| "wrapped_step g (ServiceCheckOp r sc ps) cp = Client_ServiceCheck g r cp sc"
| "wrapped_step g (SimpleServiceCheck r name status ps) cp = Client_SimpleServiceCheck g r cp name status"
| "wrapped_step g (Flush e) cp = Client_Flush g e cp"
| "wrapped_step g (Close e outs) cp = Client_Close g e outs cp"
| "wrapped_step g op cp = through cp (client_step g op)"

fun no_parameters :: "client_op \<Rightarrow> client_op" where
  "no_parameters (Gauge r (n, v, ts, rt, ps)) = Gauge r (n, v, ts, rt, [])"
| "no_parameters (GaugeWithTimestamp r (n, v, ts, rt, ps) t) = GaugeWithTimestamp r (n, v, ts, rt, []) t"
| "no_parameters (Count r (n, v, ts, rt, ps)) = Count r (n, v, ts, rt, [])"
| "no_parameters (CountWithTimestamp r (n, v, ts, rt, ps) t) = CountWithTimestamp r (n, v, ts, rt, []) t"
| "no_parameters (Histogram r (n, v, ts, rt, ps)) = Histogram r (n, v, ts, rt, [])"
| "no_parameters (Distribution r (n, v, ts, rt, ps)) = Distribution r (n, v, ts, rt, [])"
| "no_parameters (Decr r (n, v, ts, rt, ps)) = Decr r (n, v, ts, rt, [])"
| "no_parameters (Incr r (n, v, ts, rt, ps)) = Incr r (n, v, ts, rt, [])"
| "no_parameters (SetOp r (n, v, ts, rt, ps)) = SetOp r (n, v, ts, rt, [])"
| "no_parameters (Timing r (n, v, ts, rt, ps)) = Timing r (n, v, ts, rt, [])"
| "no_parameters (TimeInMilliseconds r (n, v, ts, rt, ps)) = TimeInMilliseconds r (n, v, ts, rt, [])"
| "no_parameters (EventOp r e ps) = EventOp r e []"
| "no_parameters (SimpleEvent r title txt ps) = SimpleEvent r title txt []"
| "no_parameters (ServiceCheckOp r sc ps) = ServiceCheckOp r sc []"
| "no_parameters (SimpleServiceCheck r name status ps) = SimpleServiceCheck r name status []"
| "no_parameters op = op"

fun wrapped_run ::
  "globals \<Rightarrow> client_op list \<Rightarrow> Client option \<Rightarrow> (Client option \<times> client_error option list) outcome" where
  "wrapped_run g [] cp = Done (cp, [])"
| "wrapped_run g (op # ops) cp =
     obind (wrapped_step g op cp) (\<lambda>(cp, err).
       obind (wrapped_run g ops cp) (\<lambda>(cp, errs). Done (cp, err # errs)))"

lemmas wrapper_defs =
  Client_Gauge_def Client_GaugeWithTimestamp_def Client_Count_def Client_CountWithTimestamp_def
  Client_Histogram_def Client_Distribution_def Client_Decr_def Client_Incr_def Client_Set_def
  Client_Timing_def Client_TimeInMilliseconds_def Client_Event_def Client_SimpleEvent_def
  Client_ServiceCheck_def Client_SimpleServiceCheck_def Client_Flush_def Client_Close_def

lemma wrapped_step_through: "wrapped_step g op cp = through cp (client_step g (no_parameters op))"
  by (cases "(g, op, cp)" rule: wrapped_step.cases) (auto simp: wrapper_defs through_def split: option.split)

text \<open>
  A \<open>Client\<close> is its \<open>ClientEx\<close> called without parameters: every sequence of calls has the same
  outcome, the same errors, and leaves the same state.
\<close>

theorem wrapper_equivalent:
  "wrapped_run g ops (Some (Client ce)) =
     obind (client_run g (map no_parameters ops) ce) (\<lambda>(ce, errs). Done (Some (Client ce), errs))"
proof (induction ops arbitrary: ce)
  case (Cons op ops)
  show ?case
    by (cases "client_step g (no_parameters op) ce")
      (auto simp: wrapped_step_through through_def Cons.IH obind_assoc case_prod_unfold)
qed simp

end
