(* ===== verification/Datagram.thy ===== *)
theory Datagram
  imports Format_Facts
begin

text \<open>
  Reading elements back, as the Agent would: decimal numbers, the header of an event with
  its two lengths, and the bar-separated fields of a metric.  The round trips say that what
  the client writes determines what it was given.
\<close>

section \<open>Decimal numbers\<close>

definition is_digit :: "char \<Rightarrow> bool" where
  "is_digit c \<longleftrightarrow> 48 \<le> byte_val c \<and> byte_val c \<le> (57 :: nat)"

fun read_nat :: "nat \<Rightarrow> bytes \<Rightarrow> nat \<times> bytes" where
  "read_nat acc [] = (acc, [])"
| "read_nat acc (c # s) =
     (if is_digit c then read_nat (acc * 10 + (byte_val c - 48)) s else (acc, c # s))"

definition read_int :: "bytes \<Rightarrow> int \<times> bytes" where
  "read_int s =
     (if s \<noteq> [] \<and> hd s = CHR ''-'' then (let (n, s) = read_nat 0 (tl s) in (- int n, s))
      else let (n, s) = read_nat 0 s in (int n, s))"

lemma digit_char_value: "d < 10 \<Longrightarrow> is_digit (digit_char d) \<and> byte_val (digit_char d) = 48 + d"
proof -
  assume "d < 10"
  then have "d \<in> {0, 1, 2, 3, 4, 5, 6, 7, 8, 9}" by auto
  then show ?thesis by (auto simp: digit_char_numerals is_digit_def)
qed

lemma read_nat_digits:
  "read_nat acc (nat_digits n @ s) = read_nat (acc * 10 ^ length (nat_digits n) + n) s"
proof (induction n arbitrary: acc s rule: nat_digits.induct)
  case (1 n)
  show ?case
  proof (cases "n < 10")
    case True
    then show ?thesis
      using digit_char_value [of n] by (simp add: nat_digits.simps [of n])
  next
    case False
    with 1 digit_char_value [of "n mod 10"] show ?thesis
      by (simp add: nat_digits.simps [of n] algebra_simps)
  qed
qed

definition stops_number :: "bytes \<Rightarrow> bool" where
  "stops_number s \<longleftrightarrow> s = [] \<or> \<not> is_digit (hd s)"

lemma read_nat_stop: "stops_number s \<Longrightarrow> read_nat acc s = (acc, s)"
  by (cases s) (auto simp: stops_number_def)

lemma read_nat_fmt: "stops_number s \<Longrightarrow> read_nat 0 (nat_digits n @ s) = (n, s)"
  by (simp add: read_nat_digits read_nat_stop)

lemma nat_digits_hd: "is_digit (hd (nat_digits n @ s))"
proof (induction n arbitrary: s rule: nat_digits.induct)
  case (1 n)
  show ?case
  proof (cases "n < 10")
    case True
    then show ?thesis
      using digit_char_value [of n] by (simp add: nat_digits.simps [of n])
  next
    case False
    with 1 show ?thesis by (simp add: nat_digits.simps [of n])
  qed
qed

lemma read_int_fmt: "stops_number s \<Longrightarrow> read_int (fmt_int i @ s) = (i, s)"
proof (cases "i < 0")
  case False
  moreover have "hd (nat_digits (nat i) @ s) \<noteq> CHR ''-''"
    using nat_digits_hd [of "nat i" s] by (auto simp: is_digit_def)
  ultimately show "stops_number s \<Longrightarrow> ?thesis"
    by (simp add: read_int_def fmt_int_def read_nat_fmt)
qed (simp add: read_int_def fmt_int_def read_nat_fmt)

lemma appendInt_roundtrip:
  "stops_number s \<Longrightarrow> read_int (appendInt [] w @ s) = (sint w, s)"
  by (simp add: appendInt_def read_int_fmt)

section \<open>Events\<close>

definition expect :: "bytes \<Rightarrow> bytes \<Rightarrow> bytes option" where
  "expect p s = (if take (length p) s = p then Some (drop (length p) s) else None)"

lemma expect_append [simp]: "expect p (p @ s) = Some s"
  by (simp add: expect_def)

text \<open>The title, the text as written, and what follows.\<close>

definition read_event :: "bytes \<Rightarrow> (bytes \<times> bytes \<times> bytes) option" where
  "read_event s =
     Option.bind (expect ''_e{'' s) (\<lambda>s.
       case read_nat 0 s of (n, s) \<Rightarrow>
     Option.bind (expect '','' s) (\<lambda>s.
       case read_nat 0 s of (k, s) \<Rightarrow>
     Option.bind (expect ''}:'' s) (\<lambda>s.
     Option.bind (expect ''|'' (drop n s)) (\<lambda>r.
       if k \<le> length r then Some (take n s, take k r, drop k r) else None))))"

fun unescape_event :: "bytes \<Rightarrow> bytes" where
  "unescape_event [] = []"
| "unescape_event (c # s) =
     (if c = CHR 0x5C \<and> s \<noteq> [] \<and> hd s = CHR ''n'' then nl # unescape_event (tl s)
      else c # unescape_event s)"

lemma unescape_escape_event: "CHR 0x5C \<notin> set s \<Longrightarrow> unescape_event (escape_event s) = s"
  by (induction s) (auto simp: escape_event_def escaped_nl_def)

definition event_rest :: "globals \<Rightarrow> Event \<Rightarrow> bytes list \<Rightarrow> bool \<Rightarrow> bytes" where
  "event_rest g e gts od =
     event_fields_text e @ tags_text (gts @ ev_Tags e) @ container_text g @ env_text g od"

lemma read_event_text:
  "read_event (event_text g e gts od) = Some (ev_Title e, escape_event (ev_Text e), event_rest g e gts od)"
proof -
  let ?t = "ev_Title e" and ?x = "escape_event (ev_Text e)" and ?r = "event_rest g e gts od"
  have "event_text g e gts od = ''_e{'' @ nat_digits (length ?t) @ '','' @ nat_digits (length ?x)
      @ ''}:'' @ ?t @ ''|'' @ ?x @ ?r"
    by (simp add: event_text_def event_rest_def fmt_int_def)
  moreover have "stops_number ('','' @ s)" "stops_number (''}:'' @ s)" for s
    by (simp_all add: stops_number_def is_digit_def)
  ultimately show ?thesis
    by (simp only: read_event_def expect_append Option.bind.simps read_nat_fmt prod.case)
      (simp add: expect_def)
qed

section \<open>Fields of a metric\<close>

fun split_on :: "char \<Rightarrow> bytes \<Rightarrow> bytes \<Rightarrow> bytes list" where
  "split_on d acc [] = [acc]"
| "split_on d acc (c # s) = (if c = d then acc # split_on d [] s else split_on d (acc @ [c]) s)"

lemma split_on_run: "d \<notin> set u \<Longrightarrow> split_on d acc (u @ s) = split_on d (acc @ u) s"
  by (induction u arbitrary: acc) auto

lemma split_on_fields:
  "list_all (\<lambda>u. d \<notin> set u) us \<Longrightarrow> split_on d acc (concat (map (\<lambda>u. d # u) us)) = acc # us"
  by (induction us arbitrary: acc) (auto simp: split_on_run)

definition bar_free :: "bytes \<Rightarrow> bool" where
  "bar_free s \<longleftrightarrow> CHR ''|'' \<notin> set s"

text \<open>The fields after the type, in the order of the protocol; an absent one is left out.\<close>

definition opt_field :: "bool \<Rightarrow> bytes \<Rightarrow> bytes list" where
  "opt_field present s = (if present then [s] else [])"

definition metric_fields ::
  "globals \<Rightarrow> bytes \<Rightarrow> bytes list \<Rightarrow> f64 \<Rightarrow> bool \<Rightarrow> i64 \<Rightarrow> cardinality \<Rightarrow> bytes list" where
  "metric_fields g sy ts rate od t c =
     sy # opt_field (f64_lt rate f64_one) (''@'' @ fmt_float (- 1) rate)
       @ opt_field (ts \<noteq> []) (''#'' @ tags_body ts)
       @ opt_field (containerID g \<noteq> []) (''c:'' @ containerID g)
       @ opt_field (od \<and> externalEnv g \<noteq> []) (''e:'' @ externalEnv g)
       @ opt_field (sint t > 0) (''T'' @ fmt_int (sint t))
       @ opt_field (card_String c \<noteq> []) (''card:'' @ card_String c)"

lemma metric_text_fields:
  "metric_text g sy ns gts name v ts rate od @ timestamp_text t @ card_text c
     = header_text ns name @ v
       @ concat (map (\<lambda>u. CHR ''|'' # u) (metric_fields g sy (gts @ ts) rate od t c))"
  by (simp add: metric_text_def metric_fields_def opt_field_def rate_text_def tags_text_def
      container_text_def env_text_def timestamp_text_def card_text_def)

lemma bar_not_number: "set s \<subseteq> number_chars \<Longrightarrow> bar_free s"
  by (auto simp: bar_free_def number_chars_def)

lemma bar_free_simps [simp]:
  "bar_free []" "bar_free (s @ u) \<longleftrightarrow> bar_free s \<and> bar_free u"
  "bar_free (x # s) \<longleftrightarrow> x \<noteq> CHR ''|'' \<and> bar_free s"
  by (auto simp: bar_free_def)

lemma bar_free_numbers [simp]: "bar_free (fmt_float p w)" "bar_free (fmt_int i)"
  by (simp_all add: bar_not_number)

lemma bar_free_tags_body: "list_all bar_free ts \<Longrightarrow> bar_free (tags_body ts)"
  by (induction ts rule: tags_body.induct) (auto simp: bar_free_def)

lemma bar_free_card_String [simp]: "bar_free (card_String c)"
  using card_String_range [of c] by auto

lemma bar_free_fields:
  assumes "bar_free (containerID g)" and "bar_free (externalEnv g)" and "bar_free sy"
    and "list_all bar_free ts"
  shows "list_all bar_free (metric_fields g sy ts rate od t c)"
  using assms by (simp add: metric_fields_def opt_field_def bar_free_tags_body)

section \<open>Properties\<close>

text \<open>
  C35. The header of an event gives the exact lengths: for every title and text, with bars,
  braces or line feeds in them, a reader that trusts the two lengths recovers the title and
  the escaped text, and is left with the optional fields.
\<close>

theorem appendEvent_roundtrip:
  "read_event (appendEvent g [] e gts od)
     = Some (ev_Title e, escape_event (ev_Text e), event_rest g e gts od)"
  using read_event_text by (simp add: append_eq)

text \<open>
  An event's text without backslashes survives the escaping of its line feeds, and the
  length announced in the header is the length of the escaped text.
\<close>

theorem event_text_unescape:
  assumes "CHR 0x5C \<notin> set s"
  shows "unescape_event (appendEscapedEventText [] s) = s
    \<and> length (appendEscapedEventText [] s) = escapedEventTextLen s"
  using unescape_escape_event [OF assms] length_escape_event [of s] by (simp add: append_eq)

theorem event_text_unescape_witness:
  "unescape_event (appendEscapedEventText [] [CHR ''a'', nl, CHR ''b'']) = [CHR ''a'', nl, CHR ''b'']
   \<and> length (appendEscapedEventText [] [CHR ''a'', nl, CHR ''b''])
       = escapedEventTextLen [CHR ''a'', nl, CHR ''b'']"
  using event_text_unescape [of "[CHR ''a'', nl, CHR ''b'']"] by simp

definition count_element ::
  "globals \<Rightarrow> bytes \<Rightarrow> bytes list \<Rightarrow> bytes \<Rightarrow> i64 \<Rightarrow> bytes list \<Rightarrow> f64 \<Rightarrow> i64 \<Rightarrow> bool \<Rightarrow> cardinality
     \<Rightarrow> bytes" where
  "count_element g ns gts name v ts rate t od c =
     appendTagCardinality (appendTimestamp (appendCount g [] ns gts name v ts rate od) t) c"

text \<open>
  C36. A count, split at its bars, is its name and value followed by the fields of the protocol
  in order: type, sample rate, tags, container, external data, timestamp and cardinality, each
  exactly when it is set; the value reads back as the number given.
\<close>

theorem count_fields:
  assumes "bar_free (containerID g)" and "bar_free (externalEnv g)"
    and "bar_free ns" and "bar_free name" and "list_all bar_free (gts @ ts)"
  shows "split_on (CHR ''|'') [] (count_element g ns gts name v ts rate t od c)
    = (ns @ name @ '':'' @ appendInt [] v) # metric_fields g countSymbol (gts @ ts) rate od t c"
proof -
  let ?fs = "metric_fields g countSymbol (gts @ ts) rate od t c"
  have "count_element g ns gts name v ts rate t od c
      = (header_text ns name @ fmt_int (sint v)) @ concat (map (\<lambda>u. CHR ''|'' # u) ?fs)"
    using metric_text_fields [of g countSymbol ns gts name "fmt_int (sint v)" ts rate od t c]
    by (simp add: count_element_def append_metric_defs append_eq)
  moreover have "list_all bar_free ?fs"
    using assms by (intro bar_free_fields) (simp_all add: symbol_defs)
  moreover have "bar_free (header_text ns name @ fmt_int (sint v))"
    using assms by (simp add: header_text_def)
  ultimately show ?thesis
    by (simp add: split_on_run split_on_fields bar_free_def header_text_def appendInt_def
        list_all_iff)
qed

theorem count_fields_witness:
  "split_on (CHR ''|'') [] (count_element \<lparr>containerID = ''ci-1'', externalEnv = ''''\<rparr> ''ns.''
       [''env:a''] ''m'' 5 [''t:b''] f64_one 0 True CardinalityLow)
     = (''ns.'' @ ''m'' @ '':'' @ appendInt [] 5)
       # metric_fields \<lparr>containerID = ''ci-1'', externalEnv = ''''\<rparr> countSymbol
           ([''env:a''] @ [''t:b'']) f64_one True 0 CardinalityLow"
  by (rule count_fields) simp_all

fun has_m_colon :: "bytes \<Rightarrow> bool" where
  "has_m_colon (c # d # s) \<longleftrightarrow> c = CHR ''m'' \<and> d = CHR '':'' \<or> has_m_colon (d # s)"
| "has_m_colon s \<longleftrightarrow> False"

lemma has_m_colon_append:
  "c \<noteq> CHR ''m'' \<Longrightarrow> has_m_colon (c # s) = has_m_colon s"
  by (cases s) auto

lemma hd_escape_check: "s \<noteq> [] \<Longrightarrow> hd (escape_check s) = CHR '':'' \<Longrightarrow> hd s = CHR '':''"
  by (cases s) (auto simp: escaped_nl_def escaped_m_def split: if_splits)

lemma no_m_colon_escape_check: "\<not> has_m_colon (escape_check s)"
proof (induction s rule: escape_check.induct)
  case (2 c s)
  show ?case
  proof (cases "c = CHR ''m'' \<and> s \<noteq> [] \<and> hd s = CHR '':''")
    case True
    with 2 show ?thesis by (simp add: escaped_m_def has_m_colon_append)
  next
    case False
    with 2 hd_escape_check [of s] escape_check_Nil_iff [of s] show ?thesis
      by (cases "escape_check s"; cases "s = []") (auto simp: escaped_nl_def has_m_colon_append)
  qed
qed simp

text \<open>
  The message of a service check cannot forge the end of the message field: the escaped
  text has no line feed and no \<open>m:\<close>, and it is empty only for an empty message.
\<close>

theorem service_check_message_safe:
  "no_newline (appendEscapedServiceCheckText [] s)
   \<and> \<not> has_m_colon (appendEscapedServiceCheckText [] s)
   \<and> (appendEscapedServiceCheckText [] s = [] \<longleftrightarrow> s = [])"
  using no_m_colon_escape_check [of s] by (simp add: append_eq)

end
