(* ===== verification/Phases.thy ===== *)
theory Phases
  imports Aggregator_Facts
begin

text \<open>
  Concurrent calls of \<open>count\<close>, \<open>gauge\<close> and \<open>set\<close> in \<open>src/statsd/aggregator.go\<close>.  A call is two critical
  sections of its shard: under \<open>RLock\<close> it samples the metric of its context if there is one; if
  not, it comes back under \<open>Lock\<close>, looks again, and samples or inserts.  A flush takes the map of one
  shard after the other, each under \<open>Lock\<close>.  Between the sections anything can happen.

  A schedule is a list of moves of any number of goroutines.  The state keeps the calls that are
  between their sections and the position of each flush; \<open>ph_taken\<close> are the maps that flushes have
  taken, \<open>ph_log\<close> is a ghost, the order in which calls and takings took effect.
\<close>

section \<open>The code\<close>

datatype 'c event = Sampled 'c | Taken nat

record ('c, 'm) phases =
  ph_shards :: "'m gomap list"
  ph_waiting :: "'c list"
  ph_flushing :: "nat list"
  ph_taken :: "(nat \<times> 'm gomap) list"
  ph_log :: "'c event list"

definition remove_at :: "nat \<Rightarrow> 'a list \<Rightarrow> 'a list" where
  "remove_at j xs = take j xs @ drop (Suc j) xs"

text \<open>The section under \<open>RLock\<close>, and the one under \<open>Lock\<close>; \<open>None\<close> is the panic of a shard out of range.\<close>

definition phase_begin ::
  "('c \<Rightarrow> 'm \<Rightarrow> 'm) \<Rightarrow> ('c \<Rightarrow> bytes) \<Rightarrow> ('c \<Rightarrow> nat) \<Rightarrow> 'c \<Rightarrow> ('c, 'm) phases
     \<Rightarrow> ('c, 'm) phases option" where
  "phase_begin sample key index c s =
     (if index c < length (ph_shards s)
      then case sampleFound (sample c) (key c) (ph_shards s ! index c) of
        Some shard \<Rightarrow> Some (s\<lparr>ph_shards := (ph_shards s)[index c := shard],
                               ph_log := ph_log s @ [Sampled c]\<rparr>)
      | None \<Rightarrow> Some (s\<lparr>ph_waiting := ph_waiting s @ [c]\<rparr>)
      else None)"

definition phase_finish ::
  "('c \<Rightarrow> 'm) \<Rightarrow> ('c \<Rightarrow> 'm \<Rightarrow> 'm) \<Rightarrow> ('c \<Rightarrow> bytes) \<Rightarrow> ('c \<Rightarrow> nat) \<Rightarrow> nat \<Rightarrow> ('c, 'm) phases
     \<Rightarrow> ('c, 'm) phases option" where
  "phase_finish new sample key index j s =
     (if j < length (ph_waiting s)
      then let c = ph_waiting s ! j; i = index c in
        if i < length (ph_shards s)
        then Some (s\<lparr>ph_shards := (ph_shards s)
               [i := sampleOrInsert (new c) (sample c) (key c) (ph_shards s ! i)],
             ph_waiting := remove_at j (ph_waiting s), ph_log := ph_log s @ [Sampled c]\<rparr>)
        else None
      else Some s)"

text \<open>One turn of the loop of \<open>flushMetrics\<close> in flush \<open>f\<close>.\<close>

definition phase_take :: "nat \<Rightarrow> ('c, 'm) phases \<Rightarrow> ('c, 'm) phases" where
  "phase_take f s =
     (if f < length (ph_flushing s) \<and> ph_flushing s ! f < length (ph_shards s)
      then let i = ph_flushing s ! f in
        s\<lparr>ph_shards := (ph_shards s)[i := []], ph_flushing := (ph_flushing s)[f := Suc i],
          ph_taken := ph_taken s @ [(i, ph_shards s ! i)], ph_log := ph_log s @ [Taken i]\<rparr>
      else s)"

datatype 'c move = Begin 'c | Finish nat | StartFlush | Take nat

fun phase_move ::
  "('c \<Rightarrow> 'm) \<Rightarrow> ('c \<Rightarrow> 'm \<Rightarrow> 'm) \<Rightarrow> ('c \<Rightarrow> bytes) \<Rightarrow> ('c \<Rightarrow> nat) \<Rightarrow> 'c move \<Rightarrow> ('c, 'm) phases
     \<Rightarrow> ('c, 'm) phases option" where
  "phase_move new sample key index (Begin c) s = phase_begin sample key index c s"
| "phase_move new sample key index (Finish j) s = phase_finish new sample key index j s"
| "phase_move new sample key index StartFlush s = Some (s\<lparr>ph_flushing := ph_flushing s @ [0]\<rparr>)"
| "phase_move new sample key index (Take f) s = Some (phase_take f s)"

fun phase_moves ::
  "('c \<Rightarrow> 'm) \<Rightarrow> ('c \<Rightarrow> 'm \<Rightarrow> 'm) \<Rightarrow> ('c \<Rightarrow> bytes) \<Rightarrow> ('c \<Rightarrow> nat) \<Rightarrow> 'c move list \<Rightarrow> ('c, 'm) phases
     \<Rightarrow> ('c, 'm) phases option" where
  "phase_moves new sample key index [] s = Some s"
| "phase_moves new sample key index (mv # mvs) s =
     Option.bind (phase_move new sample key index mv s) (phase_moves new sample key index mvs)"

definition phase_start :: "nat \<Rightarrow> ('c, 'm) phases" where
  "phase_start n = \<lparr>ph_shards = replicate n [], ph_waiting = [], ph_flushing = [], ph_taken = [],
     ph_log = []\<rparr>"

text \<open>The calls that a schedule begins, and those that took effect.\<close>

fun begun :: "'c move list \<Rightarrow> 'c list" where
  "begun [] = []"
| "begun (Begin c # mvs) = c # begun mvs"
| "begun (_ # mvs) = begun mvs"

fun sampled :: "'c event list \<Rightarrow> 'c list" where
  "sampled [] = []"
| "sampled (Sampled c # es) = c # sampled es"
| "sampled (Taken i # es) = sampled es"

lemma sampled_append [simp]: "sampled (es @ fs) = sampled es @ sampled fs"
  by (induction es rule: sampled.induct) simp_all

lemma begun_append [simp]: "begun (ms @ ns) = begun ms @ begun ns"
  by (induction ms rule: begun.induct) simp_all

lemma phase_moves_append:
  "phase_moves new sample key index (ms @ ns) s =
     Option.bind (phase_moves new sample key index ms s) (phase_moves new sample key index ns)"
proof (induction ms arbitrary: s)
  case (Cons mv ms)
  then show ?case by (cases "phase_move new sample key index mv s") simp_all
qed simp

lemma mset_remove_at: "j < length xs \<Longrightarrow> add_mset (xs ! j) (mset (remove_at j xs)) = mset xs"
  by (metis id_take_nth_drop mset.simps(2) mset_append remove_at_def union_mset_add_mset_right)

lemma set_remove_at: "set (remove_at j xs) \<subseteq> set xs"
  using set_take_subset [of j xs] set_drop_subset [of "Suc j" xs] by (auto simp: remove_at_def)

section \<open>What a context got\<close>

text \<open>The calls for one context, cut where its shard was taken: the closed segments and the open one.\<close>

fun segments ::
  "('c \<Rightarrow> bytes) \<Rightarrow> (bytes \<Rightarrow> nat) \<Rightarrow> bytes \<Rightarrow> 'c event list \<Rightarrow> 'c list list \<times> 'c list
     \<Rightarrow> 'c list list \<times> 'c list" where
  "segments key place k [] r = r"
| "segments key place k (Sampled c # es) (cl, op) =
     segments key place k es (cl, if key c = k then op @ [c] else op)"
| "segments key place k (Taken i # es) (cl, op) =
     segments key place k es (if i = place k \<and> op \<noteq> [] then (cl @ [op], []) else (cl, op))"

text \<open>The metrics of a context in the maps that were taken, in the order of the takings.\<close>

definition reported :: "bytes \<Rightarrow> (nat \<times> 'm gomap) list \<Rightarrow> 'm list" where
  "reported k taken = concat (map (\<lambda>(i, shard). case map_of shard k of None \<Rightarrow> [] | Some m \<Rightarrow> [m]) taken)"

lemma segments_snoc:
  "segments key place k (es @ [e]) r = segments key place k [e] (segments key place k es r)"
  by (induction key place k es r rule: segments.induct) auto

lemma reported_snoc:
  "reported k (taken @ [(i, shard)]) =
     reported k taken @ (case map_of shard k of None \<Rightarrow> [] | Some m \<Rightarrow> [m])"
  by (simp add: reported_def)

lemma segments_calls:
  "\<exists>cl op. segments key place k es r = (cl, op)
     \<and> concat cl @ op = concat (fst r) @ snd r @ filter (\<lambda>c. key c = k) (sampled es)"
proof (induction key place k es r rule: segments.induct)
  case (3 key place k i es cl op)
  then show ?case by (cases "i = place k \<and> op \<noteq> []") auto
qed auto

section \<open>Every interleaving is a sequence of whole calls\<close>

lemma sampleFound_put:
  "sampleFound sample k shard = Some shard' \<Longrightarrow> shard' = put_call new sample k shard"
  by (auto simp: sampleFound_def put_call_def split: option.splits)

lemma sampleOrInsert_put: "sampleOrInsert new sample k shard = put_call new sample k shard"
  by (auto simp: sampleOrInsert_def put_call_def split: option.splits)

context sharded_store
begin

text \<open>The metric some calls for one context make.\<close>

definition made :: "'c list \<Rightarrow> 'm option" where
  "made cs = (case cs of [] \<Rightarrow> None | c # cs \<Rightarrow> Some (foldl (\<lambda>m c. sample c m) (new c) cs))"

lemma made_snoc: "made (cs @ [c]) = Some (case made cs of None \<Rightarrow> new c | Some m \<Rightarrow> sample c m)"
  by (cases cs) (simp_all add: made_def)

lemma made_Nil [simp]: "made [] = None"
  by (simp add: made_def)

lemma made_None [simp]: "made cs = None \<longleftrightarrow> cs = []"
  by (cases cs) (simp_all add: made_def)

lemma made_sum:
  fixes val :: "'m \<Rightarrow> 'v :: comm_monoid_add"
  assumes "\<And>c. val (new c) = f c" and "\<And>c m. val (sample c m) = val m + f c"
  shows "(case made cs of None \<Rightarrow> 0 | Some m \<Rightarrow> val m) = sum_list (map f cs)"
  by (induction cs rule: rev_induct) (auto simp: made_snoc assms split: option.splits)

lemma made_sums:
  fixes val :: "'m \<Rightarrow> 'v :: comm_monoid_add"
  assumes "\<And>c. val (new c) = f c" and "\<And>c m. val (sample c m) = val m + f c"
    and "list_all (\<lambda>cs. cs \<noteq> []) css"
  shows "sum_list (map (\<lambda>cs. val (the (made cs))) css) = sum_list (map f (concat css))"
  using assms(3)
proof (induction css)
  case (Cons cs css)
  moreover obtain m where "made cs = Some m"
    using Cons.prems by (cases "made cs") simp_all
  ultimately show ?case using made_sum [OF assms(1,2), of cs] by simp
qed simp

text \<open>The events of the log as whole operations on the shards.\<close>

fun replay :: "'c event list \<Rightarrow> 'm gomap list \<Rightarrow> 'm gomap list option" where
  "replay [] shards = Some shards"
| "replay (Sampled c # es) shards = Option.bind (call c shards) (replay es)"
| "replay (Taken i # es) shards = replay es (shards[i := []])"

lemma replay_append: "replay (es @ fs) shards = Option.bind (replay es shards) (replay fs)"
proof (induction es shards rule: replay.induct)
  case (2 c es shards)
  then show ?case by (cases "call c shards") simp_all
qed simp_all

definition accounts :: "bytes \<Rightarrow> ('c, 'm) phases \<Rightarrow> bool" where
  "accounts k s \<longleftrightarrow> (case segments key place k (ph_log s) ([], []) of (cl, op) \<Rightarrow>
     reported k (ph_taken s) = map (\<lambda>cs. the (made cs)) cl
     \<and> map_of (ph_shards s ! place k) k = made op)"

definition phase_inv :: "('c, 'm) phases \<Rightarrow> bool" where
  "phase_inv s \<longleftrightarrow> length (ph_shards s) = n \<and> sharded_from place 0 (ph_shards s)
     \<and> list_all valid (ph_waiting s) \<and> (\<forall>k. place k < n \<longrightarrow> accounts k s)
     \<and> replay (ph_log s) (replicate n []) = Some (ph_shards s)"

lemma phase_inv_start: "phase_inv (phase_start n)"
  by (simp add: phase_inv_def phase_start_def accounts_def reported_def)

text \<open>A section that takes effect is the whole call.\<close>

lemma sampled_inv:
  assumes "phase_inv s" and "valid c"
    and "ph_shards s' = (ph_shards s)[index c := put_call (new c) (sample c) (key c) (ph_shards s ! index c)]"
    and "ph_log s' = ph_log s @ [Sampled c]" and "ph_taken s' = ph_taken s" and "list_all valid (ph_waiting s')"
  shows "phase_inv s'"
proof -
  note i = index_place [OF assms(2)]
  have p: "place (key c) < n" "index c < length (ph_shards s)"
    using index_less [OF assms(2)] i assms(1) by (simp_all add: phase_inv_def)
  have "accounts k s'" if "place k < n" for k
  proof -
    obtain cl op where seg: "segments key place k (ph_log s) ([], []) = (cl, op)"
      by (cases "segments key place k (ph_log s) ([], [])")
    have "accounts k s"
      using assms(1) that by (simp add: phase_inv_def)
    with seg show ?thesis
      using assms(3-5) i p that
      by (auto simp: accounts_def segments_snoc made_snoc put_call_def nth_list_update assms(1)
          split: option.split)
  qed
  moreover have "sharded_from place 0 (ph_shards s')"
    using sharded_put [of place "ph_shards s" "key c"] assms(1,3) p i
    by (simp add: phase_inv_def put_call_def)
  moreover have "replay (ph_log s') (replicate n []) = Some (ph_shards s')"
    using assms(1,3,4) p(2) by (simp add: phase_inv_def replay_append call_def sampleShard_eq)
  ultimately show ?thesis
    using assms(1,3,6) by (simp add: phase_inv_def)
qed

lemma taken_inv:
  assumes "phase_inv s" and "i < n"
    and "ph_shards s' = (ph_shards s)[i := []]" and "ph_taken s' = ph_taken s @ [(i, ph_shards s ! i)]"
    and "ph_log s' = ph_log s @ [Taken i]" and "ph_waiting s' = ph_waiting s"
  shows "phase_inv s'"
proof -
  have len: "length (ph_shards s) = n" and sh: "sharded_from place 0 (ph_shards s)"
    using assms(1) by (simp_all add: phase_inv_def)
  have "accounts k s'" if "place k < n" for k
  proof -
    obtain cl op where seg: "segments key place k (ph_log s) ([], []) = (cl, op)"
      by (cases "segments key place k (ph_log s) ([], [])")
    have "accounts k s"
      using assms(1) that by (simp add: phase_inv_def)
    moreover have "map_of (ph_shards s ! i) k = None" if "i \<noteq> place k"
      using sh that assms(2) len by (fastforce simp: sharded_from_nth map_of_eq_None_iff)
    ultimately show ?thesis
      using seg assms(2-5) that len
      by (auto simp: accounts_def segments_snoc reported_snoc nth_list_update split: option.split)
  qed
  moreover have "sharded_from place 0 (ph_shards s')"
    using sh assms(2,3) len by (auto simp: sharded_from_nth nth_list_update split: if_splits)
  ultimately show ?thesis
    using assms by (simp add: phase_inv_def replay_append)
qed

lemma move_inv:
  assumes "phase_inv s" and "list_all valid (begun [mv])"
  shows "\<exists>s'. phase_move new sample key index mv s = Some s' \<and> phase_inv s'
    \<and> mset (sampled (ph_log s')) + mset (ph_waiting s')
      = mset (sampled (ph_log s)) + mset (ph_waiting s) + mset (begun [mv])"
proof (cases mv)
  case (Begin c)
  with assms index_less [of c] have i: "index c < length (ph_shards s)" and c: "valid c"
    and w: "list_all valid (ph_waiting s)"
    by (simp_all add: phase_inv_def)
  show ?thesis
  proof (cases "sampleFound (sample c) (key c) (ph_shards s ! index c)")
    case None
    with Begin i c assms(1) show ?thesis
      by (simp add: phase_begin_def phase_inv_def accounts_def)
  next
    case (Some shard)
    let ?s = "s\<lparr>ph_shards := (ph_shards s)[index c := shard], ph_log := ph_log s @ [Sampled c]\<rparr>"
    have "phase_inv ?s"
      by (rule sampled_inv [OF assms(1) c]) (use sampleFound_put [OF Some, of "new c"] w in simp_all)
    with Begin Some i show ?thesis
      by (auto simp: phase_begin_def)
  qed
next
  case (Finish j)
  show ?thesis
  proof (cases "j < length (ph_waiting s)")
    case True
    let ?c = "ph_waiting s ! j"
    have c: "valid ?c" "list_all valid (remove_at j (ph_waiting s))"
      using True assms(1) set_remove_at [of j "ph_waiting s"] by (auto simp: phase_inv_def list_all_iff)
    with index_less [of ?c] assms(1) have i: "index ?c < length (ph_shards s)"
      by (simp add: phase_inv_def)
    let ?s = "s\<lparr>ph_shards := (ph_shards s)[index ?c := sampleOrInsert (new ?c) (sample ?c) (key ?c)
        (ph_shards s ! index ?c)], ph_waiting := remove_at j (ph_waiting s), ph_log := ph_log s @ [Sampled ?c]\<rparr>"
    have "phase_inv ?s"
      by (rule sampled_inv [OF assms(1) c(1)]) (simp_all add: sampleOrInsert_put c(2))
    with Finish True i mset_remove_at [OF True] show ?thesis
      by (auto simp: phase_finish_def Let_def)
  next
    case False
    with Finish assms(1) show ?thesis by (simp add: phase_finish_def)
  qed
next
  case StartFlush
  with assms(1) show ?thesis by (simp add: phase_inv_def accounts_def)
next
  case (Take f)
  show ?thesis
  proof (cases "f < length (ph_flushing s) \<and> ph_flushing s ! f < length (ph_shards s)")
    case True
    let ?i = "ph_flushing s ! f"
    let ?s = "s\<lparr>ph_shards := (ph_shards s)[?i := []], ph_flushing := (ph_flushing s)[f := Suc ?i],
        ph_taken := ph_taken s @ [(?i, ph_shards s ! ?i)], ph_log := ph_log s @ [Taken ?i]\<rparr>"
    have "phase_inv ?s"
      by (rule taken_inv [OF assms(1), of ?i]) (use True assms(1) in \<open>simp_all add: phase_inv_def\<close>)
    with Take True show ?thesis
      by (simp add: phase_take_def Let_def)
  next
    case False
    have "phase_take f s = s"
      using False by (auto simp: phase_take_def)
    with Take assms(1) show ?thesis by simp
  qed
qed

lemma moves_inv:
  assumes "list_all valid (begun mvs)"
  shows "\<exists>s. phase_moves new sample key index mvs (phase_start n) = Some s \<and> phase_inv s
    \<and> mset (sampled (ph_log s)) + mset (ph_waiting s) = mset (begun mvs)"
  using assms
proof (induction mvs rule: rev_induct)
  case Nil
  then show ?case using phase_inv_start by (simp add: phase_start_def)
next
  case (snoc mv mvs)
  then obtain s where s: "phase_moves new sample key index mvs (phase_start n) = Some s" "phase_inv s"
    "mset (sampled (ph_log s)) + mset (ph_waiting s) = mset (begun mvs)"
    by auto
  with move_inv [OF s(2), of mv] snoc.prems show ?case
    by (auto simp: phase_moves_append Option.bind_eq_Some_conv split: option.splits)
qed

end

lemma segments_nonempty:
  "list_all (\<lambda>cs. cs \<noteq> []) (fst r) \<Longrightarrow> list_all (\<lambda>cs. cs \<noteq> []) (fst (segments key place k es r))"
  by (induction key place k es r rule: segments.induct) auto

section \<open>Counts, gauges and sets\<close>

definition run_counts :: "int \<Rightarrow> i64 call move list \<Rightarrow> (i64 call, countMetric) phases option" where
  "run_counts n mvs = phase_moves (\<lambda>(name, v, tags, c). newCountMetric name v tags c)
     (\<lambda>(name, v, tags, c) m. count_sample m v) call_key (shard_index n) mvs (phase_start (nat n))"

definition run_gauges :: "int \<Rightarrow> f64 call move list \<Rightarrow> (f64 call, gaugeMetric) phases option" where
  "run_gauges n mvs = phase_moves (\<lambda>(name, v, tags, c). newGaugeMetric name v tags c)
     (\<lambda>(name, v, tags, c) m. gauge_sample m v) call_key (shard_index n) mvs (phase_start (nat n))"

definition run_sets :: "int \<Rightarrow> bytes call move list \<Rightarrow> (bytes call, setMetric) phases option" where
  "run_sets n mvs = phase_moves (\<lambda>(name, v, tags, c). newSetMetric name v tags c)
     (\<lambda>(name, v, tags, c) m. set_sample m v) call_key (shard_index n) mvs (phase_start (nat n))"

text \<open>The events as whole calls of the aggregator; \<open>take\<close> empties a shard.\<close>

fun replay_calls ::
  "('c \<Rightarrow> aggregator \<Rightarrow> aggregator option) \<Rightarrow> (nat \<Rightarrow> aggregator \<Rightarrow> aggregator) \<Rightarrow> 'c event list
     \<Rightarrow> aggregator \<Rightarrow> aggregator option" where
  "replay_calls op tk [] a = Some a"
| "replay_calls op tk (Sampled c # es) a = Option.bind (op c a) (replay_calls op tk es)"
| "replay_calls op tk (Taken i # es) a = replay_calls op tk es (tk i a)"

definition replay_counts :: "i64 call event list \<Rightarrow> aggregator \<Rightarrow> aggregator option" where
  "replay_counts = replay_calls (\<lambda>(name, v, tags, c) a. agg_count a name v tags c)
     (\<lambda>i a. a\<lparr>countShards := (countShards a)[i := []]\<rparr>)"

definition replay_gauges :: "f64 call event list \<Rightarrow> aggregator \<Rightarrow> aggregator option" where
  "replay_gauges = replay_calls (\<lambda>(name, v, tags, c) a. agg_gauge a name v tags c)
     (\<lambda>i a. a\<lparr>gaugeShards := (gaugeShards a)[i := []]\<rparr>)"

definition replay_sets :: "bytes call event list \<Rightarrow> aggregator \<Rightarrow> aggregator option" where
  "replay_sets = replay_calls (\<lambda>(name, v, tags, c) a. agg_set a name v tags c)
     (\<lambda>i a. a\<lparr>setShards := (setShards a)[i := []]\<rparr>)"

context sharded_store
begin

lemma replay_calls_eq:
  assumes "\<And>c a. fixed a \<Longrightarrow> op c a = map_option (put a) (call c (get a))"
    and "\<And>i a. tk i a = put a ((get a)[i := []])" and "\<And>a s. get (put a s) = s"
    and "\<And>a s t. put (put a s) t = put a t" and "\<And>a. put a (get a) = a" and "\<And>a s. fixed a \<Longrightarrow> fixed (put a s)"
    and "fixed a"
  shows "replay_calls op tk es a = map_option (put a) (replay es (get a))"
  using assms(7)
proof (induction es arbitrary: a)
  case (Cons e es)
  show ?case
  proof (cases e)
    case (Sampled c)
    with Cons assms(1,3,4,6) show ?thesis
      by (cases "call c (get a)") (simp_all add: option.map_comp comp_def)
  qed (use Cons assms(2-4,6) in \<open>simp add: option.map_comp comp_def\<close>)
qed (simp add: assms(5))

end

lemma replay_counts_eq:
  "shardsCount a = n \<Longrightarrow> replay_counts es a = map_option (\<lambda>s. a\<lparr>countShards := s\<rparr>) (cs.replay n es (countShards a))"
  unfolding replay_counts_def
  by (rule cs.replay_calls_eq [where fixed = "\<lambda>a. shardsCount a = n"]) (auto simp: agg_count_call)

lemma replay_gauges_eq:
  "shardsCount a = n \<Longrightarrow> replay_gauges es a = map_option (\<lambda>s. a\<lparr>gaugeShards := s\<rparr>) (gs.replay n es (gaugeShards a))"
  unfolding replay_gauges_def
  by (rule gs.replay_calls_eq [where fixed = "\<lambda>a. shardsCount a = n"]) (auto simp: agg_gauge_call)

lemma replay_sets_eq:
  "shardsCount a = n \<Longrightarrow> replay_sets es a = map_option (\<lambda>s. a\<lparr>setShards := s\<rparr>) (ss.replay n es (setShards a))"
  unfolding replay_sets_def
  by (rule ss.replay_calls_eq [where fixed = "\<lambda>a. shardsCount a = n"]) (auto simp: agg_set_call)

section \<open>Properties\<close>

text \<open>
  C11. However the critical sections of concurrent calls and flushes interleave, no call panics, and
  there is an order of the calls and of the takings of shards, with each call between its start
  and its return, in which the aggregator that executes them as whole operations reaches the same
  shards; each call takes effect at most once.
\<close>

theorem calls_linearizable:
  assumes "newAggregator mx n = Some a" and "list_all (ascii_call n) (begun cmvs)"
    and "list_all (ascii_call n) (begun gmvs)" and "list_all (ascii_call n) (begun smvs)"
  shows "\<exists>s t u. run_counts n cmvs = Some s \<and> run_gauges n gmvs = Some t \<and> run_sets n smvs = Some u
    \<and> replay_counts (ph_log s) a = Some (a\<lparr>countShards := ph_shards s\<rparr>)
    \<and> replay_gauges (ph_log t) a = Some (a\<lparr>gaugeShards := ph_shards t\<rparr>)
    \<and> replay_sets (ph_log u) a = Some (a\<lparr>setShards := ph_shards u\<rparr>)
    \<and> mset (sampled (ph_log s)) + mset (ph_waiting s) = mset (begun cmvs)
    \<and> mset (sampled (ph_log t)) + mset (ph_waiting t) = mset (begun gmvs)
    \<and> mset (sampled (ph_log u)) + mset (ph_waiting u) = mset (begun smvs)"
proof -
  have a: "shardsCount a = n" "countShards a = replicate (nat n) []" "gaugeShards a = replicate (nat n) []"
    "setShards a = replicate (nat n) []"
    using assms(1) by (auto simp: newAggregator_def size_defs split: if_splits)
  note eqs = replay_counts_eq [OF a(1)] replay_gauges_eq [OF a(1)] replay_sets_eq [OF a(1)]
  from cs.moves_inv [OF assms(2)] gs.moves_inv [OF assms(3)] ss.moves_inv [OF assms(4)]
  show ?thesis
    unfolding eqs run_counts_def run_gauges_def run_sets_def a
    by (auto simp: cs.phase_inv_def gs.phase_inv_def ss.phase_inv_def)
qed

text \<open>Two calls race to create a context while a flush passes by.\<close>

definition race :: "'a \<Rightarrow> 'a \<Rightarrow> 'a call move list" where
  "race v w = [Begin (''n'', v, [], CardinalityNotSet), Begin (''n'', w, [], CardinalityNotSet), Finish 0,
     StartFlush, Finish 0, Take 0, Begin (''n'', v, [], CardinalityNotSet)]"

lemma race_begun:
  "begun (race v w) = [(''n'', v, [], CardinalityNotSet), (''n'', w, [], CardinalityNotSet), (''n'', v, [], CardinalityNotSet)]"
  "list_all (ascii_call 1) (begun (race v w))"
  by (simp_all add: race_def ascii_call_def ascii_def)

theorem calls_linearizable_witness:
  "\<exists>a s. newAggregator 0 1 = Some a \<and> run_counts 1 (race 5 7) = Some s
    \<and> replay_counts (ph_log s) a = Some (a\<lparr>countShards := ph_shards s\<rparr>)"
proof -
  obtain a where a: "newAggregator 0 1 = Some a"
    by (simp add: newAggregator_def size_defs)
  from calls_linearizable [OF a race_begun(2) race_begun(2) race_begun(2), of 5 7] a show ?thesis
    by blast
qed

text \<open>The value a shard holds for a context.\<close>

definition live_count :: "int \<Rightarrow> bytes \<Rightarrow> (i64 call, countMetric) phases \<Rightarrow> i64" where
  "live_count n k s =
     (case map_of (ph_shards s ! shard_place n k) k of None \<Rightarrow> 0 | Some m \<Rightarrow> c_value m)"

lemma count_calls:
  "(case cs.made cs of None \<Rightarrow> 0 | Some m \<Rightarrow> c_value m) = sum_list (map call_val cs)"
  "list_all (\<lambda>cs. cs \<noteq> []) css \<Longrightarrow>
   sum_list (map (\<lambda>cs. c_value (the (cs.made cs))) css) = sum_list (map call_val (concat css))"
  by (rule cs.made_sum cs.made_sums; auto simp: newCountMetric_def count_sample_def call_val_def)+

lemma sum_filter_mset:
  "sum_list (map f (filter P xs)) = (\<Sum>x \<in># filter_mset P (mset xs). (f x :: 'a :: comm_monoid_add))"
  by (metis mset_filter mset_map sum_mset_sum_list)

text \<open>
  C12. Under any interleaving no increment of a count is lost or counted twice: for each context what
  the flushes took, what the shard holds, and the calls still under way add up to the values of all
  the calls, modulo 2^64.
\<close>

theorem concurrent_counts:
  assumes "1 \<le> n" and "n < 2 ^ 32" and "list_all (ascii_call n) (begun mvs)"
  shows "\<exists>s. run_counts n mvs = Some s
    \<and> sum_list (map c_value (reported k (ph_taken s))) + live_count n k s
        + sum_list (map call_val (filter (\<lambda>c. call_key c = k) (ph_waiting s)))
      = sum_list (map call_val (filter (\<lambda>c. call_key c = k) (begun mvs)))"
proof -
  obtain s where s: "run_counts n mvs = Some s" "cs.phase_inv n s"
    "mset (sampled (ph_log s)) + mset (ph_waiting s) = mset (begun mvs)"
    using cs.moves_inv [OF assms(3)] unfolding run_counts_def by blast
  obtain cl op where seg: "segments call_key (shard_place n) k (ph_log s) ([], []) = (cl, op)"
    by (cases "segments call_key (shard_place n) k (ph_log s) ([], [])")
  have "shard_place n k < nat n"
    using getShardIndexFromHash_less [of n] assms(1,2) by (simp add: shard_place_def zless_nat_eq_int_zless)
  then have "cs.accounts n k s"
    using s(2) by (simp add: cs.phase_inv_def)
  then have acc: "reported k (ph_taken s) = map (\<lambda>cs. the (cs.made cs)) cl"
    "live_count n k s = sum_list (map call_val op)"
    using seg count_calls(1) [of op] by (simp_all add: cs.accounts_def live_count_def)
  have "list_all (\<lambda>cs. cs \<noteq> []) cl"
    using segments_nonempty [of "([], [])" call_key "shard_place n" k "ph_log s"] seg by simp
  moreover have "concat cl @ op = filter (\<lambda>c. call_key c = k) (sampled (ph_log s))"
    using segments_calls [of call_key "shard_place n" k "ph_log s" "([], [])"] seg by simp
  then have "sum_list (map call_val (concat cl)) + sum_list (map call_val op)
      = sum_list (map call_val (filter (\<lambda>c. call_key c = k) (sampled (ph_log s))))"
    unfolding sum_list_append [symmetric] map_append [symmetric] by simp
  ultimately have "sum_list (map c_value (reported k (ph_taken s))) + live_count n k s
      = sum_list (map call_val (filter (\<lambda>c. call_key c = k) (sampled (ph_log s))))"
    unfolding acc by (simp only: map_map comp_def count_calls(2))
  moreover have "sum_list (map call_val (filter (\<lambda>c. call_key c = k) (begun mvs)))
      = sum_list (map call_val (filter (\<lambda>c. call_key c = k) (sampled (ph_log s))))
        + sum_list (map call_val (filter (\<lambda>c. call_key c = k) (ph_waiting s)))"
    unfolding sum_filter_mset s(3) [symmetric] by simp
  ultimately show ?thesis
    using s(1) by simp
qed

theorem concurrent_counts_witness:
  "\<exists>s. run_counts 1 (race 5 7) = Some s
    \<and> sum_list (map c_value (reported ''n'' (ph_taken s))) + live_count 1 ''n'' s
        + sum_list (map call_val (filter (\<lambda>c. call_key c = ''n'') (ph_waiting s))) = 17"
  using concurrent_counts [OF _ _ race_begun(2), of 5 7 "''n''"]
  by (simp add: race_begun call_key_def call_val_def context_text_def context_prefix_def separator_defs
      card_String_def cardinality_defs)

end
