(* ===== verification/Late_Samples.thy ===== *)
theory Late_Samples
  imports Phases
begin

text \<open>
  Concurrent calls of \<open>bufferedMetricContexts.sample\<close> (\<open>src/statsd/buffered_metric_context.go\<close>).  Unlike a count, a
  buffered metric is sampled after the lock of the map has been released: the call holds a pointer
  to the metric, and a flush may take and read the metric before the sample arrives.

  Metrics are objects of a heap, maps and calls hold their addresses.  The slice of values that
  \<open>flushUnsafe\<close> puts in a metric shares its array with the object, so that what a worker serializes
  is read from the heap.  Three fields are ghosts: \<open>bs_contexts\<close> has the context of each object,
  \<open>bs_flushed\<close> logs each object with its state when it was flushed, \<open>bs_late\<close> the samples that arrived
  in an object that had been flushed.  The counter of contexts is left to \<open>bc_flush\<close>.
\<close>

section \<open>The code\<close>

text \<open>A call that survived sampling: context, the metric it would create, value, random source.\<close>

record sample_call =
  sc_context :: bytes
  sc_fresh :: bufferedMetric
  sc_value :: f64
  sc_int63n :: "i64 \<Rightarrow> i64"

record buffered_state =
  bs_heap :: "bufferedMetric list"
  bs_values :: "nat gomap"
  bs_contexts :: "bytes list"
  bs_waiting :: "sample_call list"
  bs_holding :: "(nat \<times> sample_call) list"
  bs_flushing :: "nat list"
  bs_flushed :: "(nat \<times> bufferedMetric) list"
  bs_late :: "(nat \<times> sample_call) list"

text \<open>The lookup under \<open>RLock\<close>.\<close>

definition bs_lookup :: "sample_call \<Rightarrow> buffered_state \<Rightarrow> buffered_state" where
  "bs_lookup c s =
     (case map_of (bs_values s) (sc_context c) of
        Some v \<Rightarrow> s\<lparr>bs_holding := bs_holding s @ [(v, c)]\<rparr>
      | None \<Rightarrow> s\<lparr>bs_waiting := bs_waiting s @ [c]\<rparr>)"

text \<open>The section under \<open>Lock\<close> of the call that found nothing: look again, or create the metric.\<close>

definition bs_create :: "nat \<Rightarrow> buffered_state \<Rightarrow> buffered_state" where
  "bs_create j s =
     (if j < length (bs_waiting s)
      then let c = bs_waiting s ! j; s = s\<lparr>bs_waiting := remove_at j (bs_waiting s)\<rparr> in
        (case map_of (bs_values s) (sc_context c) of
           None \<Rightarrow> s\<lparr>bs_heap := bs_heap s @ [sc_fresh c], bs_contexts := bs_contexts s @ [sc_context c],
                     bs_values := map_put (sc_context c) (length (bs_heap s)) (bs_values s)\<rparr>
         | Some v \<Rightarrow> s\<lparr>bs_holding := bs_holding s @ [(v, c)]\<rparr>)
      else s)"

text \<open>The sample arrives, under the lock of the metric; \<open>None\<close> is a panic.\<close>

definition bs_keep :: "nat \<Rightarrow> buffered_state \<Rightarrow> buffered_state option" where
  "bs_keep j s =
     (if j < length (bs_holding s)
      then let (v, c) = bs_holding s ! j in
        map_option (\<lambda>m. s\<lparr>bs_heap := (bs_heap s)[v := m], bs_holding := remove_at j (bs_holding s),
            bs_late := bs_late s @ (if v \<in> fst ` set (bs_flushed s) then [(v, c)] else [])\<rparr>)
          (maybeKeepSample (sc_int63n c) (bs_heap s ! v) (sc_value c))
      else Some s)"

text \<open>A flush: it takes the map under \<open>Lock\<close>, then reads one metric after the other.\<close>

definition bs_swap :: "(nat gomap \<Rightarrow> nat gomap) \<Rightarrow> buffered_state \<Rightarrow> buffered_state" where
  "bs_swap visit s =
     s\<lparr>bs_values := [], bs_flushing := bs_flushing s @ map snd (visit (bs_values s))\<rparr>"

definition bs_read :: "nat \<Rightarrow> buffered_state \<Rightarrow> buffered_state" where
  "bs_read j s =
     (if j < length (bs_flushing s)
      then let v = bs_flushing s ! j in
        s\<lparr>bs_flushing := remove_at j (bs_flushing s), bs_flushed := bs_flushed s @ [(v, bs_heap s ! v)]\<rparr>
      else s)"

datatype buffered_move = Lookup sample_call | Create nat | Keep nat | Swap "nat gomap \<Rightarrow> nat gomap" | Read nat

fun bs_move :: "buffered_move \<Rightarrow> buffered_state \<Rightarrow> buffered_state option" where
  "bs_move (Lookup c) s = Some (bs_lookup c s)"
| "bs_move (Create j) s = Some (bs_create j s)"
| "bs_move (Keep j) s = bs_keep j s"
| "bs_move (Swap visit) s = Some (bs_swap visit s)"
| "bs_move (Read j) s = Some (bs_read j s)"

fun bs_moves :: "buffered_move list \<Rightarrow> buffered_state \<Rightarrow> buffered_state option" where
  "bs_moves [] s = Some s"
| "bs_moves (mv # mvs) s = Option.bind (bs_move mv s) (bs_moves mvs)"

definition bs_start :: buffered_state where
  "bs_start = \<lparr>bs_heap = [], bs_values = [], bs_contexts = [], bs_waiting = [], bs_holding = [],
     bs_flushing = [], bs_flushed = [], bs_late = []\<rparr>"

text \<open>The metric of a flushed object, with the values a worker reads when it serializes it.\<close>

definition serialized :: "buffered_state \<Rightarrow> nat \<times> bufferedMetric \<Rightarrow> metric" where
  "serialized s = (\<lambda>(v, m). (buffered_flushUnsafe m)
     \<lparr>m_fvalues := take (nat (sint (b_storedSamples m))) (b_data (bs_heap s ! v))\<rparr>)"

fun looked_up :: "buffered_move list \<Rightarrow> sample_call list" where
  "looked_up [] = []"
| "looked_up (Lookup c # mvs) = c # looked_up mvs"
| "looked_up (_ # mvs) = looked_up mvs"

lemma looked_up_append [simp]: "looked_up (ms @ ns) = looked_up ms @ looked_up ns"
  by (induction ms rule: looked_up.induct) simp_all

lemma bs_moves_append: "bs_moves (ms @ ns) s = Option.bind (bs_moves ms s) (bs_moves ns)"
proof (induction ms arbitrary: s)
  case (Cons mv ms)
  then show ?case by (cases "bs_move mv s") simp_all
qed simp

text \<open>What the definitions ask of a call: \<open>newMetric\<close> made its metric, with the bound \<open>mx\<close>.\<close>

definition sample_ok :: "i64 \<Rightarrow> sample_call \<Rightarrow> bool" where
  "sample_ok mx c \<longleftrightarrow> wf_buffered (sc_fresh c) \<and> b_totalSamples (sc_fresh c) = 1
     \<and> b_maxSamples (sc_fresh c) = mx \<and> kept (sc_fresh c) = [sc_value c] \<and> good_int63n (sc_int63n c)"

definition sample_of ::
  "metricType \<Rightarrow> i64 \<Rightarrow> (i64 \<Rightarrow> i64) \<Rightarrow> buffered_call \<Rightarrow> sample_call" where
  "sample_of ty mx int63n = (\<lambda>(name, value, tags, rate, c).
     \<lparr>sc_context = context_text name tags (card_String c),
      sc_fresh = newBufferedMetric ty name value (join_tags tags) mx rate c,
      sc_value = value, sc_int63n = int63n\<rparr>)"

lemma sample_of_ok [simp]: "good_int63n f \<Longrightarrow> sample_ok mx (sample_of ty mx f call)"
  by (cases call) (simp add: sample_ok_def sample_of_def)

section \<open>Where the samples are\<close>

text \<open>
  Each object is in the map, taken by a flush, or flushed.  \<open>n\<close> bounds the totals.
\<close>

definition bs_ok :: "i64 \<Rightarrow> int \<Rightarrow> buffered_state \<Rightarrow> bool" where
  "bs_ok mx n s \<longleftrightarrow> wf_map (bs_values s)
     \<and> mset (map snd (bs_values s)) + mset (bs_flushing s) + mset (map fst (bs_flushed s))
         = mset [0..<length (bs_heap s)]
     \<and> length (bs_contexts s) = length (bs_heap s)
     \<and> (\<forall>(k, v) \<in> set (bs_values s). bs_contexts s ! v = k)
     \<and> (\<forall>m \<in> set (bs_heap s). wf_buffered m \<and> b_maxSamples m = mx \<and> sint (b_totalSamples m) \<le> n)
     \<and> (\<forall>(v, c) \<in> set (bs_holding s). v < length (bs_heap s) \<and> bs_contexts s ! v = sc_context c
          \<and> sample_ok mx c)
     \<and> list_all (sample_ok mx) (bs_waiting s)
     \<and> (\<forall>(v, c) \<in> set (bs_late s). v < length (bs_heap s) \<and> bs_contexts s ! v = sc_context c)"

lemma bs_ok_places:
  assumes "bs_ok mx n s"
  shows "set (map snd (bs_values s)) \<union> set (bs_flushing s) \<union> set (map fst (bs_flushed s)) = {..<length (bs_heap s)}"
    and "distinct (map snd (bs_values s) @ bs_flushing s @ map fst (bs_flushed s))"
proof -
  have m: "mset (map snd (bs_values s) @ bs_flushing s @ map fst (bs_flushed s)) = mset [0..<length (bs_heap s)]"
    using assms by (simp add: bs_ok_def add.assoc)
  from mset_eq_setD [OF m]
  show "set (map snd (bs_values s)) \<union> set (bs_flushing s) \<union> set (map fst (bs_flushed s)) = {..<length (bs_heap s)}"
    by (auto simp: lessThan_atLeast0)
  show "distinct (map snd (bs_values s) @ bs_flushing s @ map fst (bs_flushed s))"
    using mset_eq_imp_distinct_iff [OF m] by simp
qed

lemma bs_ok_value:
  assumes "bs_ok mx n s" and "map_of (bs_values s) k = Some v"
  shows "v < length (bs_heap s)" and "bs_contexts s ! v = k" and "v \<notin> fst ` set (bs_flushed s)"
proof -
  have kv: "(k, v) \<in> set (bs_values s)"
    using assms(2) by (rule map_of_SomeD)
  then have v: "v \<in> set (map snd (bs_values s))" by force
  with bs_ok_places(1) [OF assms(1)] have "v \<in> {..<length (bs_heap s)}" by blast
  then show "v < length (bs_heap s)" by simp
  show "v \<notin> fst ` set (bs_flushed s)"
    using v bs_ok_places(2) [OF assms(1)] unfolding distinct_append set_append set_map by blast
  show "bs_contexts s ! v = k"
    using assms(1) kv by (auto simp: bs_ok_def)
qed

lemma bs_start_ok [simp]: "bs_ok mx n bs_start"
  by (simp add: bs_ok_def bs_start_def)

lemma bs_ok_mono: "bs_ok mx n s \<Longrightarrow> n \<le> n' \<Longrightarrow> bs_ok mx n' s"
  by (fastforce simp: bs_ok_def)

lemma bs_lookup_ok:
  assumes "bs_ok mx n s" and "sample_ok mx c"
  shows "bs_ok mx n (bs_lookup c s)"
  using assms bs_ok_value [OF assms(1), of "sc_context c"]
  by (auto simp: bs_lookup_def bs_ok_def split: option.splits)

lemma bs_create_ok:
  assumes "bs_ok mx n s" and "1 \<le> n"
  shows "bs_ok mx n (bs_create j s)"
proof (cases "j < length (bs_waiting s)")
  case True
  let ?c = "bs_waiting s ! j"
  have c: "sample_ok mx ?c" and w: "list_all (sample_ok mx) (remove_at j (bs_waiting s))"
    using assms(1) True set_remove_at [of j "bs_waiting s"] by (auto simp: bs_ok_def list_all_iff)
  show ?thesis
  proof (cases "map_of (bs_values s) (sc_context ?c)")
    case None
    have v: "v < length (bs_heap s)" if "(k, v) \<in> set (bs_values s)" for k v
      using that bs_ok_value(1) [OF assms(1)] assms(1) by (auto simp: bs_ok_def wf_map_def)
    have "bs_ok mx n (s\<lparr>bs_waiting := remove_at j (bs_waiting s), bs_heap := bs_heap s @ [sc_fresh ?c],
        bs_contexts := bs_contexts s @ [sc_context ?c],
        bs_values := bs_values s @ [(sc_context ?c, length (bs_heap s))]\<rparr>)"
      using assms c w v None
      by (auto simp: bs_ok_def sample_ok_def nth_append wf_map_def map_of_eq_None_iff)
    with True None show ?thesis
      by (simp add: bs_create_def Let_def map_put_fresh)
  next
    case (Some v)
    with assms c w bs_ok_value [OF assms(1) Some] True show ?thesis
      by (auto simp: bs_create_def Let_def bs_ok_def)
  qed
qed (simp add: bs_create_def assms)

lemma bs_keep_ok:
  assumes "bs_ok mx n s" and "n < 2 ^ 63 - 1"
  shows "\<exists>s'. bs_keep j s = Some s' \<and> bs_ok mx (n + 1) s'"
proof (cases "j < length (bs_holding s)")
  case True
  obtain v c where h: "bs_holding s ! j = (v, c)" by (cases "bs_holding s ! j")
  then have vc: "(v, c) \<in> set (bs_holding s)"
    using True nth_mem by metis
  then have v: "v < length (bs_heap s)" "sample_ok mx c"
    using assms(1) by (auto simp: bs_ok_def)
  then have m: "wf_buffered (bs_heap s ! v)" "b_maxSamples (bs_heap s ! v) = mx"
    "sint (b_totalSamples (bs_heap s ! v)) \<le> n"
    using assms(1) by (auto simp: bs_ok_def)
  from maybeKeepSample_step [OF m(1), of "sc_int63n c" "sc_value c"] m(3) assms(2) v(2)
  obtain m' where m': "maybeKeepSample (sc_int63n c) (bs_heap s ! v) (sc_value c) = Some m'" "wf_buffered m'"
    "b_totalSamples m' = b_totalSamples (bs_heap s ! v) + 1"
    "buffered_identity m' = buffered_identity (bs_heap s ! v)"
    by (auto simp: sample_ok_def)
  have "bs_contexts s ! v = sc_context c"
    using assms(1) vc by (auto simp: bs_ok_def)
  moreover have "sint (b_totalSamples m') \<le> n + 1" "b_maxSamples m' = mx"
    using m m' assms(2) by (simp_all add: sint_Suc buffered_identity_def)
  moreover have "set ((bs_heap s)[v := m']) \<subseteq> insert m' (set (bs_heap s))"
    by (rule set_update_subset_insert)
  moreover have "set (remove_at j (bs_holding s)) \<subseteq> set (bs_holding s)"
    by (rule set_remove_at)
  ultimately have "bs_ok mx (n + 1) (s\<lparr>bs_heap := (bs_heap s)[v := m'], bs_holding := remove_at j (bs_holding s),
      bs_late := bs_late s @ (if v \<in> fst ` set (bs_flushed s) then [(v, c)] else [])\<rparr>)"
    using assms(1) m'(2) v(1) by (fastforce simp: bs_ok_def)
  with True h m'(1) show ?thesis
    by (simp add: bs_keep_def)
next
  case False
  with assms bs_ok_mono [OF assms(1), of "n + 1"] show ?thesis by (simp add: bs_keep_def)
qed

lemma bs_swap_ok:
  assumes "bs_ok mx n s" and "mset (visit (bs_values s)) = mset (bs_values s)"
  shows "bs_ok mx n (bs_swap visit s)"
proof -
  have "mset (map snd (visit (bs_values s))) = mset (map snd (bs_values s))"
    using assms(2) by (metis mset_map)
  with assms(1) show ?thesis
    by (simp add: bs_swap_def bs_ok_def add_ac)
qed

lemma bs_read_ok:
  assumes "bs_ok mx n s"
  shows "bs_ok mx n (bs_read j s)"
proof (cases "j < length (bs_flushing s)")
  case True
  then have "mset (bs_flushing s) = add_mset (bs_flushing s ! j) (mset (remove_at j (bs_flushing s)))"
    by (simp add: mset_remove_at)
  with assms True show ?thesis
    by (simp add: bs_read_def bs_ok_def Let_def)
qed (simp add: bs_read_def assms)

section \<open>Accounting\<close>

text \<open>
  A measure of metrics to which each sample adds its share: the total of a metric, and, without a
  bound, the samples it holds.
\<close>

locale sample_measure =
  fixes measure_of :: "bufferedMetric \<Rightarrow> 'v :: cancel_comm_monoid_add"
    and share :: "sample_call \<Rightarrow> 'v"
    and mx :: i64
  assumes measure_fresh: "sample_ok mx c \<Longrightarrow> measure_of (sc_fresh c) = share c"
    and measure_keep: "sample_ok mx c \<Longrightarrow> wf_buffered m \<Longrightarrow> b_maxSamples m = mx \<Longrightarrow>
      sint (b_totalSamples m) < 2 ^ 63 - 1 \<Longrightarrow> maybeKeepSample (sc_int63n c) m (sc_value c) = Some m' \<Longrightarrow>
      measure_of m' = measure_of m + share c"
begin

text \<open>What the objects of a context hold, what its calls in flight carry, what came late to an object.\<close>

definition weigh :: "bytes \<Rightarrow> bytes list \<Rightarrow> bufferedMetric list \<Rightarrow> 'v" where
  "weigh k contexts heap = (\<Sum>v<length heap. if contexts ! v = k then measure_of (heap ! v) else 0)"

definition shares :: "bytes \<Rightarrow> sample_call list \<Rightarrow> 'v" where
  "shares k cs = sum_list (map (\<lambda>c. if sc_context c = k then share c else 0) cs)"

definition late_for :: "nat \<Rightarrow> buffered_state \<Rightarrow> 'v" where
  "late_for v s = sum_list (map (\<lambda>(u, c). if u = v then share c else 0) (bs_late s))"

definition accounted :: "bytes \<Rightarrow> buffered_state \<Rightarrow> 'v" where
  "accounted k s = weigh k (bs_contexts s) (bs_heap s) + shares k (bs_waiting s) + shares k (map snd (bs_holding s))"

definition snapshots :: "buffered_state \<Rightarrow> bool" where
  "snapshots s \<longleftrightarrow> (\<forall>(v, m) \<in> set (bs_flushed s). measure_of (bs_heap s ! v) = measure_of m + late_for v s)
     \<and> (\<forall>(v, c) \<in> set (bs_late s). v \<in> fst ` set (bs_flushed s))"

lemma shares_simps [simp]:
  "shares k [] = 0" "shares k (c # cs) = (if sc_context c = k then share c else 0) + shares k cs"
  "shares k (cs @ ds) = shares k cs + shares k ds"
  by (simp_all add: shares_def)

lemma sum_list_zero: "(\<And>x. x \<in> set xs \<Longrightarrow> f x = 0) \<Longrightarrow> sum_list (map f xs) = (0 :: 'v)"
  by (induction xs) simp_all

lemma weigh_update:
  assumes "v < length heap"
  shows "weigh k contexts (heap[v := m]) + (if contexts ! v = k then measure_of (heap ! v) else 0)
    = weigh k contexts heap + (if contexts ! v = k then measure_of m else 0)"
proof -
  let ?h = "\<lambda>xs u. if contexts ! u = k then measure_of (xs ! u) else 0"
  have "(\<Sum>u \<in> {..<length heap} - {v}. ?h (heap[v := m]) u) = (\<Sum>u \<in> {..<length heap} - {v}. ?h heap u)"
    by (rule sum.cong) simp_all
  with assms show ?thesis
    by (simp add: weigh_def sum.remove [of "{..<length heap}" v] add_ac)
qed

lemma weigh_snoc:
  assumes "length contexts = length heap"
  shows "weigh k (contexts @ [k']) (heap @ [m]) = weigh k contexts heap + (if k' = k then measure_of m else 0)"
proof -
  have "(\<Sum>u<length heap. if (contexts @ [k']) ! u = k then measure_of ((heap @ [m]) ! u) else 0) = weigh k contexts heap"
    unfolding weigh_def using assms by (intro sum.cong) (simp_all add: nth_append)
  moreover have "(contexts @ [k']) ! length heap = k'"
    using assms nth_append_length [of contexts k' "[]"] by simp
  ultimately show ?thesis by (simp add: weigh_def)
qed

lemma shares_remove_at:
  assumes "j < length cs"
  shows "(if sc_context (cs ! j) = k then share (cs ! j) else 0) + shares k (remove_at j cs) = shares k cs"
proof -
  have "cs = take j cs @ cs ! j # drop (Suc j) cs"
    by (rule id_take_nth_drop [OF assms])
  then have "shares k cs = shares k (take j cs @ cs ! j # drop (Suc j) cs)" by simp
  then show ?thesis by (simp add: remove_at_def add_ac)
qed

lemma bs_lookup_accounted:
  "accounted k (bs_lookup c s) = accounted k s + (if sc_context c = k then share c else 0)"
  by (simp add: bs_lookup_def accounted_def add_ac split: option.split)

lemma bs_create_accounted:
  assumes "bs_ok mx n s"
  shows "accounted k (bs_create j s) = accounted k s"
proof (cases "j < length (bs_waiting s)")
  case True
  let ?c = "bs_waiting s ! j"
  have c: "sample_ok mx ?c" and len: "length (bs_contexts s) = length (bs_heap s)"
    using assms True by (simp_all add: bs_ok_def list_all_length)
  have w: "shares k (bs_waiting s) = shares k (remove_at j (bs_waiting s)) + (if sc_context ?c = k then share ?c else 0)"
    using shares_remove_at [OF True, of k] by (simp add: add_ac)
  show ?thesis
    unfolding accounted_def w using True measure_fresh [OF c]
    by (cases "map_of (bs_values s) (sc_context ?c)")
      (simp_all add: bs_create_def Let_def weigh_snoc [OF len] add_ac)
qed (simp add: bs_create_def)

lemma bs_read_swap_accounted [simp]:
  "accounted k (bs_read j s) = accounted k s" "accounted k (bs_swap visit s) = accounted k s"
  by (simp_all add: bs_read_def bs_swap_def accounted_def Let_def)

lemma bs_keep_accounted:
  assumes "bs_ok mx n s" and "n < 2 ^ 63 - 1" and "bs_keep j s = Some s'"
  shows "accounted k s' = accounted k s" and "snapshots s \<Longrightarrow> snapshots s'"
proof -
  have "accounted k s' = accounted k s \<and> (snapshots s \<longrightarrow> snapshots s')"
  proof (cases "j < length (bs_holding s)")
    case True
    obtain v c where h: "bs_holding s ! j = (v, c)" by (cases "bs_holding s ! j")
    then have "(v, c) \<in> set (bs_holding s)"
      using True nth_mem by metis
    then have v: "v < length (bs_heap s)" "bs_contexts s ! v = sc_context c" "sample_ok mx c"
      using assms(1) by (auto simp: bs_ok_def)
    have m: "wf_buffered (bs_heap s ! v)" "b_maxSamples (bs_heap s ! v) = mx"
      "sint (b_totalSamples (bs_heap s ! v)) < 2 ^ 63 - 1"
      using assms(1,2) nth_mem [OF v(1)] by (auto simp: bs_ok_def)
    obtain m' where m': "maybeKeepSample (sc_int63n c) (bs_heap s ! v) (sc_value c) = Some m'"
      and s': "s' = s\<lparr>bs_heap := (bs_heap s)[v := m'], bs_holding := remove_at j (bs_holding s),
        bs_late := bs_late s @ (if v \<in> fst ` set (bs_flushed s) then [(v, c)] else [])\<rparr>"
      using assms(3) True h by (auto simp: bs_keep_def)
    note k = measure_keep [OF v(3) m m']
    have w: "shares k (map snd (bs_holding s)) = shares k (map snd (remove_at j (bs_holding s)))
        + (if sc_context c = k then share c else 0)"
    proof -
      have e: "map snd (bs_holding s) ! j = c"
        using True h by simp
      have "map snd (remove_at j (bs_holding s)) = remove_at j (map snd (bs_holding s))"
        by (simp add: remove_at_def take_map drop_map)
      with shares_remove_at [of j "map snd (bs_holding s)" k] True show ?thesis
        unfolding e by (simp add: add_ac)
    qed
    have "weigh k (bs_contexts s) ((bs_heap s)[v := m']) + (if sc_context c = k then measure_of (bs_heap s ! v) else 0)
        = weigh k (bs_contexts s) (bs_heap s) + (if sc_context c = k then share c else 0)
          + (if sc_context c = k then measure_of (bs_heap s ! v) else 0)"
      using weigh_update [OF v(1), of k "bs_contexts s" m'] v(2) k by (simp add: add_ac)
    then have u: "weigh k (bs_contexts s) ((bs_heap s)[v := m'])
        = weigh k (bs_contexts s) (bs_heap s) + (if sc_context c = k then share c else 0)"
      by (simp only: add_right_cancel)
    have "accounted k s' = accounted k s"
      unfolding accounted_def w by (simp add: s' u add_ac)
    moreover have "snapshots s'" if "snapshots s"
      unfolding snapshots_def
    proof (intro conjI ballI, clarify)
      fix u m
      assume "(u, m) \<in> set (bs_flushed s')"
      then have um: "(u, m) \<in> set (bs_flushed s)" "measure_of (bs_heap s ! u) = measure_of m + late_for u s"
        using that by (auto simp: s' snapshots_def)
      have "u \<in> fst ` set (bs_flushed s)"
        using um(1) by force
      then have "late_for u s' = late_for u s + (if u = v then share c else 0)"
        by (auto simp add: late_for_def s')
      with um(2) k v(1) show "measure_of (bs_heap s' ! u) = measure_of m + late_for u s'"
        by (cases "u = v") (simp_all add: s' add_ac)
    next
      fix x
      assume "x \<in> set (bs_late s')"
      with that show "case x of (u, c) \<Rightarrow> u \<in> fst ` set (bs_flushed s')"
        by (auto simp: s' snapshots_def split: if_splits)
    qed
    ultimately show ?thesis by blast
  qed (use assms(3) in \<open>simp add: bs_keep_def\<close>)
  then show "accounted k s' = accounted k s" and "snapshots s \<Longrightarrow> snapshots s'" by simp_all
qed

lemma bs_read_snapshots:
  assumes "bs_ok mx n s" and "snapshots s"
  shows "snapshots (bs_read j s)"
proof (cases "j < length (bs_flushing s)")
  case True
  let ?v = "bs_flushing s ! j"
  have "?v \<in> set (bs_flushing s)"
    using True by simp
  with bs_ok_places(2) [OF assms(1)] have "?v \<notin> fst ` set (bs_flushed s)"
    unfolding distinct_append set_append set_map by blast
  with assms(2) have "(?v, c) \<notin> set (bs_late s)" for c
    by (auto simp: snapshots_def)
  then have "late_for ?v s = 0"
    unfolding late_for_def by (intro sum_list_zero) auto
  with assms(2) True show ?thesis
    by (auto simp: bs_read_def snapshots_def late_for_def Let_def)
qed (simp add: bs_read_def assms)

lemma other_snapshots [simp]:
  "snapshots (bs_lookup c s) = snapshots s" "snapshots (bs_swap visit s) = snapshots s"
  by (simp_all add: bs_lookup_def bs_swap_def snapshots_def late_for_def split: option.split)

lemma bs_create_snapshots:
  assumes "bs_ok mx n s" and "snapshots s"
  shows "snapshots (bs_create j s)"
proof -
  have "v < length (bs_heap s)" if "(v, m) \<in> set (bs_flushed s)" for v m
  proof -
    have "v \<in> set (map fst (bs_flushed s))" using that by force
    with bs_ok_places(1) [OF assms(1)] have "v \<in> {..<length (bs_heap s)}" by blast
    then show ?thesis by simp
  qed
  with assms(2) show ?thesis
    by (auto simp: bs_create_def snapshots_def late_for_def Let_def nth_append split: option.split)
qed

end

text \<open>The schedules in question: calls are valid, and \<open>range\<close> visits each entry of a map once.\<close>

fun good_move :: "i64 \<Rightarrow> buffered_move \<Rightarrow> bool" where
  "good_move mx (Lookup c) \<longleftrightarrow> sample_ok mx c"
| "good_move mx (Swap visit) \<longleftrightarrow> (\<forall>m. mset (visit m) = mset m)"
| "good_move mx _ \<longleftrightarrow> True"

lemma bs_move_ok:
  assumes "bs_ok mx n s" and "good_move mx mv" and "1 \<le> n" and "n < 2 ^ 63 - 1"
  shows "\<exists>s'. bs_move mv s = Some s' \<and> bs_ok mx (n + 1) s'"
proof (cases mv)
  case (Keep j)
  with bs_keep_ok [OF assms(1,4)] show ?thesis by simp
next
  case (Lookup c)
  with bs_ok_mono [OF bs_lookup_ok [OF assms(1)]] assms(2) show ?thesis by simp
next
  case (Create j)
  with bs_ok_mono [OF bs_create_ok [OF assms(1,3)]] show ?thesis by simp
next
  case (Swap visit)
  with bs_ok_mono [OF bs_swap_ok [OF assms(1)]] assms(2) show ?thesis by simp
next
  case (Read j)
  with bs_ok_mono [OF bs_read_ok [OF assms(1)]] show ?thesis by simp
qed

lemma bs_moves_ok:
  assumes "list_all (good_move mx) mvs" and "int (length mvs) < 2 ^ 63 - 1"
  shows "\<exists>s. bs_moves mvs bs_start = Some s \<and> bs_ok mx (int (length mvs) + 1) s"
  using assms
proof (induction mvs rule: rev_induct)
  case (snoc mv mvs)
  then obtain s where "bs_moves mvs bs_start = Some s" "bs_ok mx (int (length mvs) + 1) s" by auto
  with snoc.prems bs_move_ok [of mx "int (length mvs) + 1" s mv] show ?case
    by (auto simp: bs_moves_append add_ac)
qed simp

context sample_measure
begin

lemma bs_moves_accounted:
  assumes "list_all (good_move mx) mvs" and "int (length mvs) < 2 ^ 63 - 1"
    and "bs_moves mvs bs_start = Some s"
  shows "accounted k s = shares k (looked_up mvs) \<and> snapshots s"
  using assms
proof (induction mvs arbitrary: s rule: rev_induct)
  case Nil
  then have "s = bs_start" by simp
  then show ?case
    by (simp add: bs_start_def accounted_def weigh_def snapshots_def)
next
  case (snoc mv mvs)
  then obtain s1 where s1: "bs_moves mvs bs_start = Some s1" "bs_move mv s1 = Some s"
    by (auto simp: bs_moves_append Option.bind_eq_Some_conv)
  with snoc have IH: "accounted k s1 = shares k (looked_up mvs)" "snapshots s1" by auto
  have ok: "bs_ok mx (int (length mvs) + 1) s1"
    using bs_moves_ok [of mx mvs] snoc.prems s1(1) by auto
  have n: "int (length mvs) + 1 < 2 ^ 63 - 1"
    using snoc.prems(2) by simp
  show ?case
  proof (cases mv)
    case (Lookup c)
    with s1(2) IH show ?thesis by (auto simp: bs_lookup_accounted)
  next
    case (Create j)
    with s1(2) IH bs_create_accounted [OF ok] bs_create_snapshots [OF ok] show ?thesis by auto
  next
    case (Keep j)
    with s1(2) IH bs_keep_accounted [OF ok n] show ?thesis by auto
  next
    case (Swap visit)
    with s1(2) IH show ?thesis by auto
  next
    case (Read j)
    with s1(2) IH bs_read_snapshots [OF ok] show ?thesis by auto
  qed
qed

end

lemma keep_step:
  assumes "sample_ok mx c" and "wf_buffered m" and "b_maxSamples m = mx"
    and "sint (b_totalSamples m) < 2 ^ 63 - 1"
    and "maybeKeepSample (sc_int63n c) m (sc_value c) = Some m'"
  shows "sint (b_totalSamples m') = sint (b_totalSamples m) + 1"
    and "reservoir_step mx (b_totalSamples m) (kept m) (sc_value c) (kept m')"
proof -
  have "good_int63n (sc_int63n c)"
    using assms(1) by (simp add: sample_ok_def)
  from maybeKeepSample_step [OF assms(2,4) this, of "sc_value c"] obtain
    "b_totalSamples m' = b_totalSamples m + 1"
    "reservoir_step (b_maxSamples m) (b_totalSamples m) (kept m) (sc_value c) (kept m')"
    using assms(5) by (metis option.inject)
  with assms(3,4) show "sint (b_totalSamples m') = sint (b_totalSamples m) + 1"
    and "reservoir_step mx (b_totalSamples m) (kept m) (sc_value c) (kept m')"
    by (simp_all add: sint_Suc)
qed

interpretation totals: sample_measure "\<lambda>m. sint (b_totalSamples m)" "\<lambda>_. 1" mx for mx
  by unfold_locales (simp_all add: keep_step sample_ok_def)

text \<open>Without a bound: the samples themselves.\<close>

interpretation samples: sample_measure "\<lambda>m. if sint mx \<le> 0 then mset (kept m) else {#}"
  "\<lambda>c. if sint mx \<le> 0 then {#sc_value c#} else {#}" mx for mx
proof
  show "sample_ok mx c \<Longrightarrow> (if sint mx \<le> 0 then mset (kept (sc_fresh c)) else {#})
      = (if sint mx \<le> 0 then {#sc_value c#} else {#})" for c
    by (simp add: sample_ok_def)
next
  fix c m m'
  assume "sample_ok mx c" "wf_buffered m" "b_maxSamples m = mx" "sint (b_totalSamples m) < 2 ^ 63 - 1"
    "maybeKeepSample (sc_int63n c) m (sc_value c) = Some m'"
  from keep_step(2) [OF this]
  show "(if sint mx \<le> 0 then mset (kept m') else {#})
      = (if sint mx \<le> 0 then mset (kept m) else {#}) + (if sint mx \<le> 0 then {#sc_value c#} else {#})"
    by (simp add: reservoir_step_def)
qed

end
