(* ===== verification/Sample_Ledger.thy ===== *)
theory Sample_Ledger
  imports Late_Samples
begin

text \<open>
  What becomes of each sample of a concurrent run of \<open>bufferedMetricContexts\<close> (\<open>Late_Samples\<close>): reported
  by a flush, held by a metric, on its way, or late and lost.
\<close>

section \<open>The ledger of a context\<close>

context sample_measure
begin

definition reported_sum :: "bytes \<Rightarrow> buffered_state \<Rightarrow> 'v" where
  "reported_sum k s =
     sum_list (map (\<lambda>(v, m). if bs_contexts s ! v = k then measure_of m else 0) (bs_flushed s))"

definition held_sum :: "bytes \<Rightarrow> buffered_state \<Rightarrow> 'v" where
  "held_sum k s =
     (\<Sum>v \<in> {..<length (bs_heap s)} - fst ` set (bs_flushed s).
       if bs_contexts s ! v = k then measure_of (bs_heap s ! v) else 0)"

lemma late_shares:
  assumes "finite F" and "\<forall>(u, c) \<in> set ls. u \<in> F \<and> contexts ! u = sc_context c"
  shows "(\<Sum>v \<in> F. if contexts ! v = k then sum_list (map (\<lambda>(u, c). if u = v then share c else 0) ls) else 0)
    = shares k (map snd ls)"
  using assms(2)
proof (induction ls)
  case (Cons p ls)
  obtain u c where p: "p = (u, c)" by (cases p)
  let ?r = "\<lambda>v. sum_list (map (\<lambda>(u, c). if u = v then share c else 0) ls)"
  have "(\<Sum>v \<in> F. if contexts ! v = k then sum_list (map (\<lambda>(u, c). if u = v then share c else 0) (p # ls)) else 0)
      = (\<Sum>v \<in> F. (if v = u then (if contexts ! v = k then share c else 0) else 0) + (if contexts ! v = k then ?r v else 0))"
    by (rule sum.cong) (auto simp: p)
  also have "\<dots> = (\<Sum>v \<in> F. if v = u then (if contexts ! v = k then share c else 0) else 0)
      + (\<Sum>v \<in> F. if contexts ! v = k then ?r v else 0)"
    by (rule sum.distrib)
  also have "(\<Sum>v \<in> F. if v = u then (if contexts ! v = k then share c else 0) else 0) = (if sc_context c = k then share c else 0)"
    using Cons.prems assms(1) by (simp add: sum.delta p)
  finally show ?case
    using Cons by (simp add: p)
qed (simp cong: if_cong)

lemma weigh_split:
  assumes "bs_ok mx n s" and "snapshots s"
  shows "weigh k (bs_contexts s) (bs_heap s) = reported_sum k s + held_sum k s + shares k (map snd (bs_late s))"
proof -
  let ?h = "\<lambda>v. if bs_contexts s ! v = k then measure_of (bs_heap s ! v) else 0"
  let ?F = "set (map fst (bs_flushed s))"
  have F: "?F \<subseteq> {..<length (bs_heap s)}" "distinct (map fst (bs_flushed s))"
    using bs_ok_places [OF assms(1)] unfolding distinct_append by blast+
  have "(\<Sum>v \<in> ?F. ?h v) = sum_list (map ?h (map fst (bs_flushed s)))"
    by (rule sum_list_distinct_conv_sum_set [OF F(2), symmetric])
  also have "\<dots> = sum_list (map (\<lambda>(v, m). (if bs_contexts s ! v = k then measure_of m else 0)
      + (if bs_contexts s ! v = k then late_for v s else 0)) (bs_flushed s))"
    unfolding map_map using assms(2)
    by (intro arg_cong [where f = sum_list] map_cong refl) (auto simp: snapshots_def)
  also have "\<dots> = reported_sum k s
      + sum_list (map (\<lambda>v. if bs_contexts s ! v = k then late_for v s else 0) (map fst (bs_flushed s)))"
    by (simp add: reported_sum_def case_prod_unfold sum_list_addf comp_def)
  also have "sum_list (map (\<lambda>v. if bs_contexts s ! v = k then late_for v s else 0) (map fst (bs_flushed s)))
      = (\<Sum>v \<in> ?F. if bs_contexts s ! v = k then late_for v s else 0)"
    by (rule sum_list_distinct_conv_sum_set [OF F(2)])
  also have "\<dots> = shares k (map snd (bs_late s))"
    unfolding late_for_def
    by (rule late_shares) (use assms in \<open>auto simp: bs_ok_def snapshots_def\<close>)
  finally have flushed: "(\<Sum>v \<in> ?F. ?h v) = reported_sum k s + shares k (map snd (bs_late s))" .
  have "weigh k (bs_contexts s) (bs_heap s) = (\<Sum>v \<in> {..<length (bs_heap s)} - ?F. ?h v) + (\<Sum>v \<in> ?F. ?h v)"
    unfolding weigh_def by (rule sum.subset_diff [OF F(1)]) simp
  then show ?thesis
    unfolding flushed by (simp add: held_sum_def add_ac)
qed

lemma ledger:
  assumes "list_all (good_move mx) mvs" and "int (length mvs) < 2 ^ 63 - 1"
  shows "\<exists>s. bs_moves mvs bs_start = Some s
    \<and> reported_sum k s + held_sum k s + shares k (map snd (bs_late s)) + shares k (bs_waiting s)
        + shares k (map snd (bs_holding s)) = shares k (looked_up mvs)"
proof -
  obtain s where s: "bs_moves mvs bs_start = Some s" "bs_ok mx (int (length mvs) + 1) s"
    using bs_moves_ok [OF assms] by blast
  from bs_moves_accounted [OF assms s(1), of k] weigh_split [OF s(2), of k] s(1) show ?thesis
    by (auto simp: accounted_def)
qed

end

section \<open>Each sample, once\<close>

text \<open>The samples of a context: of the calls, in what the flushes made, in the other metrics, late, on their way.\<close>

definition call_samples :: "bytes \<Rightarrow> sample_call list \<Rightarrow> f64 list" where
  "call_samples k cs = map sc_value (filter (\<lambda>c. sc_context c = k) cs)"

definition reported_samples :: "bytes \<Rightarrow> buffered_state \<Rightarrow> f64 list" where
  "reported_samples k s =
     concat (map (\<lambda>(_, m). m_fvalues (buffered_flushUnsafe m)) (filter (\<lambda>(v, _). bs_contexts s ! v = k) (bs_flushed s)))"

definition unflushed :: "bytes \<Rightarrow> buffered_state \<Rightarrow> bufferedMetric list" where
  "unflushed k s = map ((!) (bs_heap s)) (filter (\<lambda>v. bs_contexts s ! v = k \<and> v \<notin> fst ` set (bs_flushed s)) [0..<length (bs_heap s)])"

definition late_samples :: "bytes \<Rightarrow> buffered_state \<Rightarrow> f64 list" where
  "late_samples k s = call_samples k (map snd (bs_late s))"

definition pending_samples :: "bytes \<Rightarrow> buffered_state \<Rightarrow> f64 list" where
  "pending_samples k s = call_samples k (bs_waiting s @ map snd (bs_holding s))"

lemma fvalues_flushUnsafe [simp]: "m_fvalues (buffered_flushUnsafe m) = kept m"
  by (simp add: buffered_flushUnsafe_def kept_def Let_def)

lemma sum_upt_filter:
  "(\<Sum>v \<in> {..<n} - F. if P v then f v else 0) = sum_list (map f (filter (\<lambda>v. P v \<and> v \<notin> F) [0..<n]))"
  for f :: "nat \<Rightarrow> 'a :: comm_monoid_add"
proof -
  have "set (filter (\<lambda>v. P v \<and> v \<notin> F) [0..<n]) = {v \<in> {..<n} - F. P v}" by auto
  then show ?thesis
    by (simp add: sum.inter_filter [symmetric] sum_list_distinct_conv_sum_set)
qed

lemma mset_concat_mapped: "mset (concat (map f xs)) = sum_list (map (\<lambda>x. mset (f x)) xs)"
  by (induction xs) simp_all

text \<open>The ledger over these lists: sums of the totals, and the samples themselves.\<close>

lemma length_call_samples: "totals.shares k cs = int (length (call_samples k cs))"
  unfolding totals.shares_def by (induction cs) (simp_all add: call_samples_def)

lemma totals_sums:
  "totals.reported_sum k s =
     sum_list (map (\<lambda>(_, m). sint (b_totalSamples m)) (filter (\<lambda>(v, _). bs_contexts s ! v = k) (bs_flushed s)))"
  "totals.held_sum k s = sum_list (map (\<lambda>m. sint (b_totalSamples m)) (unflushed k s))"
  unfolding totals.reported_sum_def totals.held_sum_def unflushed_def sum_upt_filter
  by (simp_all add: sum_list_map_filter' case_prod_unfold comp_def)

lemma samples_sums:
  assumes "sint mx \<le> 0"
  shows "samples.shares mx k cs = mset (call_samples k cs)"
    and "samples.reported_sum mx k s = mset (reported_samples k s)"
    and "samples.held_sum mx k s = mset (concat (map kept (unflushed k s)))"
proof -
  note [simp] = assms
  show "samples.shares mx k cs = mset (call_samples k cs)"
    unfolding samples.shares_def by (induction cs) (simp_all add: call_samples_def)
  show "samples.reported_sum mx k s = mset (reported_samples k s)"
    unfolding samples.reported_sum_def reported_samples_def mset_concat_mapped
    by (simp add: sum_list_map_filter' case_prod_unfold cong: if_cong)
  show "samples.held_sum mx k s = mset (concat (map kept (unflushed k s)))"
    unfolding samples.held_sum_def unflushed_def sum_upt_filter mset_concat_mapped by (simp add: comp_def)
qed

text \<open>The ledger of the samples themselves, without a bound.\<close>

lemma samples_ledger:
  assumes "list_all (good_move mx) mvs" and "int (length mvs) < 2 ^ 63 - 1" and "sint mx \<le> 0"
    and "bs_moves mvs bs_start = Some s"
  shows "mset (reported_samples k s) + mset (concat (map kept (unflushed k s))) + mset (late_samples k s)
      + mset (pending_samples k s) = mset (call_samples k (looked_up mvs))"
proof -
  have "samples.reported_sum mx k s + samples.held_sum mx k s + samples.shares mx k (map snd (bs_late s))
      + samples.shares mx k (bs_waiting s) + samples.shares mx k (map snd (bs_holding s))
      = samples.shares mx k (looked_up mvs)"
    using samples.ledger [OF assms(1,2), of k] assms(4) by auto
  then show ?thesis
    unfolding samples_sums [OF assms(3)]
    by (simp add: pending_samples_def call_samples_def late_samples_def add_ac)
qed

text \<open>Calls that sample a float under the context of a name.\<close>

definition timed :: "i64 \<Rightarrow> f64 \<Rightarrow> sample_call" where
  "timed mx v = sample_of timingAggregatedT mx (\<lambda>_. 0) (''n'', v, [], f64_one, CardinalityNotSet)"

lemma timed_fields [simp]: "sample_ok mx (timed mx v)" "sc_context (timed mx v) = ''n''" "sc_value (timed mx v) = v"
  by (simp_all add: timed_def good_int63n_def)
    (simp_all add: sample_of_def context_text_def context_prefix_def separator_defs card_String_def cardinality_defs)

text \<open>
  Two calls find no metric; the second creates after the first, and so holds the metric of the
  first, which a flush then takes.
\<close>

definition sample_race :: "i64 \<Rightarrow> buffered_move list" where
  "sample_race mx = [Lookup (timed mx f64_one), Lookup (timed mx 0), Create 0, Create 0, Keep 0, Swap (\<lambda>m. m), Read 0]"

lemma sample_race_facts [simp]:
  "list_all (good_move mx) (sample_race mx)" "int (length (sample_race mx)) < 2 ^ 63 - 1"
  "looked_up (sample_race mx) = [timed mx f64_one, timed mx 0]"
  by (simp_all add: sample_race_def)

text \<open>
  C25. Under any interleaving of calls and flushes no sample of a histogram, distribution or timing
  is counted twice: for each context the totals of the metrics that were flushed, those of the other
  metrics, the samples that came late to a flushed metric and those on their way add up to the
  number of calls; without a bound on the samples of a metric the same holds of the samples
  themselves.  The run never panics.
\<close>

theorem buffered_ledger:
  assumes "list_all (good_move mx) mvs" and "int (length mvs) < 2 ^ 63 - 1"
  shows "\<exists>s. bs_moves mvs bs_start = Some s
    \<and> sum_list (map (\<lambda>(_, m). sint (b_totalSamples m)) (filter (\<lambda>(v, _). bs_contexts s ! v = k) (bs_flushed s)))
        + sum_list (map (\<lambda>m. sint (b_totalSamples m)) (unflushed k s))
        + int (length (late_samples k s)) + int (length (pending_samples k s))
      = int (length (call_samples k (looked_up mvs)))
    \<and> (if sint mx \<le> 0
       then mset (reported_samples k s) + mset (concat (map kept (unflushed k s))) + mset (late_samples k s)
           + mset (pending_samples k s) = mset (call_samples k (looked_up mvs))
       else True)"
proof -
  obtain s where s: "bs_moves mvs bs_start = Some s"
    using bs_moves_ok [OF assms] by blast
  have pending: "pending_samples k s = call_samples k (bs_waiting s) @ call_samples k (map snd (bs_holding s))"
    by (simp add: pending_samples_def call_samples_def)
  have "totals.reported_sum k s + totals.held_sum k s + totals.shares k (map snd (bs_late s))
      + totals.shares k (bs_waiting s) + totals.shares k (map snd (bs_holding s)) = totals.shares k (looked_up mvs)"
    using totals.ledger [OF assms, of k] s by auto
  moreover note samples_ledger [OF assms _ s, of k]
  ultimately show ?thesis
    unfolding totals_sums length_call_samples using s by (simp add: pending late_samples_def)
qed

theorem buffered_ledger_witness:
  "\<exists>s. bs_moves (sample_race 0) bs_start = Some s
    \<and> mset (reported_samples ''n'' s) + mset (concat (map kept (unflushed ''n'' s))) + mset (late_samples ''n'' s)
      + mset (pending_samples ''n'' s) = {#f64_one, 0#}"
proof -
  obtain s where "bs_moves (sample_race 0) bs_start = Some s" and
    "if sint (0 :: i64) \<le> 0
     then mset (reported_samples ''n'' s) + mset (concat (map kept (unflushed ''n'' s))) + mset (late_samples ''n'' s)
         + mset (pending_samples ''n'' s) = mset (call_samples ''n'' (looked_up (sample_race 0)))
     else True"
    using buffered_ledger [OF sample_race_facts(1,2), of 0 "''n''"] by blast
  moreover have "mset (call_samples ''n'' (looked_up (sample_race 0))) = {#f64_one, 0#}"
    by (simp add: call_samples_def)
  ultimately show ?thesis by auto
qed

section \<open>Late samples\<close>

text \<open>Schedules in which no call holds a metric when a flush takes the map.\<close>

fun quiet_swaps :: "buffered_move list \<Rightarrow> buffered_state \<Rightarrow> bool" where
  "quiet_swaps [] s \<longleftrightarrow> True"
| "quiet_swaps (mv # mvs) s \<longleftrightarrow>
     (case mv of Swap visit \<Rightarrow> bs_holding s = [] | _ \<Rightarrow> True)
     \<and> (case bs_move mv s of None \<Rightarrow> True | Some s \<Rightarrow> quiet_swaps mvs s)"

lemma quiet_swaps_append:
  "quiet_swaps (ms @ ns) s \<longleftrightarrow> quiet_swaps ms s \<and> (case bs_moves ms s of None \<Rightarrow> True | Some s \<Rightarrow> quiet_swaps ns s)"
  by (induction ms arbitrary: s) (auto split: option.split)

text \<open>Then the metrics held by calls are those of the map.\<close>

definition holds_mapped :: "buffered_state \<Rightarrow> bool" where
  "holds_mapped s \<longleftrightarrow> fst ` set (bs_holding s) \<subseteq> snd ` set (bs_values s) \<and> bs_late s = []"

lemma quiet_move:
  assumes "bs_ok mx n s" and "holds_mapped s" and "quiet_swaps [mv] s" and "bs_move mv s = Some s'"
  shows "holds_mapped s'"
proof (cases mv)
  case (Lookup c)
  with assms(2,4) show ?thesis
    by (auto simp: bs_lookup_def holds_mapped_def dest!: map_of_SomeD split: option.splits; force)
next
  case (Create j)
  with assms(2,4) show ?thesis
    by (auto simp: bs_create_def holds_mapped_def Let_def map_put_fresh dest!: map_of_SomeD
        split: option.splits if_splits; force)
next
  case (Keep j)
  show ?thesis
  proof (cases "j < length (bs_holding s)")
    case True
    obtain v c where h: "bs_holding s ! j = (v, c)" by (cases "bs_holding s ! j")
    then have "(v, c) \<in> set (bs_holding s)"
      using True nth_mem by metis
    then have "v \<in> set (map snd (bs_values s))"
      using assms(2) by (force simp: holds_mapped_def)
    then have "v \<notin> fst ` set (bs_flushed s)"
      using bs_ok_places(2) [OF assms(1)] unfolding distinct_append set_append set_map by blast
    then have "bs_holding s' = remove_at j (bs_holding s)" "bs_values s' = bs_values s" "bs_late s' = bs_late s"
      using assms(4) Keep True h by (auto simp: bs_keep_def)
    moreover have "fst ` set (remove_at j (bs_holding s)) \<subseteq> snd ` set (bs_values s)"
      using image_mono [OF set_remove_at [of j "bs_holding s"], of fst] assms(2)
      unfolding holds_mapped_def by blast
    ultimately show ?thesis
      using assms(2) by (simp add: holds_mapped_def)
  qed (use assms Keep in \<open>simp add: bs_keep_def\<close>)
next
  case (Swap visit)
  with assms(2-4) show ?thesis by (auto simp: bs_swap_def holds_mapped_def)
next
  case (Read j)
  with assms(4) have "bs_holding s' = bs_holding s" "bs_values s' = bs_values s" "bs_late s' = bs_late s"
    by (auto simp: bs_read_def Let_def)
  with assms(2) show ?thesis by (simp add: holds_mapped_def)
qed


text \<open>
  C26. A sample is late only if its call held a metric when a flush took the map: if no call does, no
  sample is lost, and once no call is under way what was reported and what the metrics hold are the
  samples of the calls, without a bound on them exactly.
\<close>

theorem quiet_flushes_lose_nothing:
  assumes "list_all (good_move mx) mvs" and "int (length mvs) < 2 ^ 63 - 1" and "quiet_swaps mvs bs_start"
  shows "\<exists>s. bs_moves mvs bs_start = Some s \<and> bs_late s = []
    \<and> (if sint mx \<le> 0 \<and> bs_waiting s = [] \<and> bs_holding s = []
       then mset (reported_samples k s) + mset (concat (map kept (unflushed k s)))
          = mset (call_samples k (looked_up mvs))
       else True)"
proof -
  have "\<exists>s. bs_moves mvs bs_start = Some s \<and> bs_ok mx (int (length mvs) + 1) s \<and> holds_mapped s"
    using assms
  proof (induction mvs rule: rev_induct)
    case Nil
    show ?case by (simp add: holds_mapped_def bs_start_def bs_start_ok [unfolded bs_start_def])
  next
    case (snoc mv mvs)
    then obtain s where s: "bs_moves mvs bs_start = Some s" "bs_ok mx (int (length mvs) + 1) s" "holds_mapped s"
      by (auto simp: quiet_swaps_append)
    with snoc.prems obtain s' where "bs_move mv s = Some s'" "bs_ok mx (int (length mvs) + 1 + 1) s'"
      using bs_move_ok [of mx "int (length mvs) + 1" s mv] by auto
    moreover have "quiet_swaps [mv] s"
      using snoc.prems(3) s(1) by (simp add: quiet_swaps_append)
    ultimately show ?case
      using quiet_move [OF s(2,3)] s(1) by (auto simp: bs_moves_append add_ac)
  qed
  then obtain s where s: "bs_moves mvs bs_start = Some s" "bs_late s = []"
    by (auto simp: holds_mapped_def)
  with samples.ledger [OF assms(1,2), of k] samples_sums [of mx] show ?thesis
    by (auto simp: call_samples_def)
qed


theorem quiet_flushes_lose_nothing_witness:
  "\<exists>s. bs_moves (sample_race 0) bs_start = Some s \<and> bs_late s = []"
proof -
  have "quiet_swaps (sample_race 0) bs_start"
    by (simp add: sample_race_def bs_start_def bs_lookup_def bs_create_def bs_keep_def remove_at_def Let_def
        bs_swap_def bs_read_def split: option.split)
  from quiet_flushes_lose_nothing [OF sample_race_facts(1,2) this] show ?thesis by blast
qed

text \<open>
  A metric is flushed once: after its flush no other flush takes it, and the late samples stay
  late.
\<close>

lemma flushed_move:
  assumes "bs_ok mx n s" and "bs_move mv s = Some s'" and "v \<in> fst ` set (bs_flushed s)"
  shows "v \<in> fst ` set (bs_flushed s')
    \<and> filter (\<lambda>(u, _). u = v) (bs_flushed s') = filter (\<lambda>(u, _). u = v) (bs_flushed s)
    \<and> set (bs_late s) \<subseteq> set (bs_late s')"
proof (cases mv)
  case (Lookup c)
  with assms(2,3) show ?thesis by (auto simp: bs_lookup_def split: option.splits)
next
  case (Create j)
  with assms(2,3) show ?thesis by (auto simp: bs_create_def Let_def split: option.splits if_splits)
next
  case (Keep j)
  with assms(2,3) show ?thesis by (auto simp: bs_keep_def case_prod_unfold Let_def split: if_splits)
next
  case (Swap visit)
  with assms(2,3) show ?thesis by (auto simp: bs_swap_def)
next
  case (Read j)
  show ?thesis
  proof (cases "j < length (bs_flushing s)")
    case True
    then have "bs_flushing s ! j \<in> set (bs_flushing s)" by simp
    with bs_ok_places(2) [OF assms(1)] assms(3) have "bs_flushing s ! j \<noteq> v"
      unfolding distinct_append set_append set_map by blast
    with Read True assms(2,3) show ?thesis by (auto simp: bs_read_def Let_def)
  qed (use assms(2,3) Read in \<open>simp add: bs_read_def\<close>)
qed

lemma flushed_moves:
  assumes "list_all (good_move mx) mvs" and "bs_ok mx n s" and "1 \<le> n"
    and "n + int (length mvs) < 2 ^ 63" and "v \<in> fst ` set (bs_flushed s)"
    and "bs_moves mvs s = Some s'"
  shows "filter (\<lambda>(u, _). u = v) (bs_flushed s') = filter (\<lambda>(u, _). u = v) (bs_flushed s)
    \<and> set (bs_late s) \<subseteq> set (bs_late s')"
  using assms
proof (induction mvs arbitrary: n s)
  case (Cons mv mvs)
  then obtain s1 where s1: "bs_move mv s = Some s1" "bs_ok mx (n + 1) s1" "bs_moves mvs s1 = Some s'"
    using bs_move_ok [OF Cons.prems(2), of mv] by auto
  note m = flushed_move [OF Cons.prems(2) s1(1) Cons.prems(5)]
  show ?case
    using Cons.IH [OF _ s1(2) _ _ _ s1(3)] Cons.prems m by auto
qed simp

text \<open>
  Without a bound a late sample is written behind the values that the flush took, so a worker
  still reads those.
\<close>

definition values_stay :: "buffered_state \<Rightarrow> bool" where
  "values_stay s \<longleftrightarrow> (\<forall>(v, m) \<in> set (bs_flushed s). v < length (bs_heap s)
     \<and> nat (sint (b_storedSamples m)) \<le> length (b_data (bs_heap s ! v))
     \<and> take (nat (sint (b_storedSamples m))) (b_data (bs_heap s ! v)) = kept m)"

lemma values_stay_move:
  assumes "bs_ok mx n s" and "sint mx \<le> 0" and "bs_move mv s = Some s'" and "values_stay s"
  shows "values_stay s'"
proof (cases mv)
  case (Lookup c)
  with assms(3,4) show ?thesis by (auto simp: bs_lookup_def values_stay_def split: option.splits)
next
  case (Create j)
  with assms(3,4) show ?thesis
    by (fastforce simp: bs_create_def values_stay_def nth_append Let_def split: option.splits if_splits)
next
  case (Keep j)
  show ?thesis
  proof (cases "j < length (bs_holding s)")
    case True
    obtain v c where h: "bs_holding s ! j = (v, c)" by (cases "bs_holding s ! j")
    then have "(v, c) \<in> set (bs_holding s)" using True nth_mem by metis
    then have "v < length (bs_heap s)" using assms(1) by (auto simp: bs_ok_def)
    with assms(1) have "b_maxSamples (bs_heap s ! v) = mx" by (auto simp: bs_ok_def)
    with assms(2) have "maybeKeepSample (sc_int63n c) (bs_heap s ! v) (sc_value c)
        = Some (sampleUnsafe (bs_heap s ! v) (sc_value c))"
      by (simp add: maybeKeepSample_def)
    with assms(3) Keep True h have "bs_flushed s' = bs_flushed s"
      "bs_heap s' = (bs_heap s)[v := sampleUnsafe (bs_heap s ! v) (sc_value c)]"
      by (auto simp: bs_keep_def)
    then have "b_data (bs_heap s' ! u) = b_data (bs_heap s ! u) @ (if u = v then [sc_value c] else [])"
      if "u < length (bs_heap s)" for u
      using that by (simp add: sampleUnsafe_def nth_list_update)
    with assms(4) \<open>bs_flushed s' = bs_flushed s\<close> \<open>bs_heap s' = _\<close> show ?thesis
      by (auto simp: values_stay_def)
  qed (use assms Keep in \<open>simp add: bs_keep_def\<close>)
next
  case (Swap visit)
  with assms(3,4) show ?thesis by (auto simp: bs_swap_def values_stay_def)
next
  case (Read j)
  show ?thesis
  proof (cases "j < length (bs_flushing s)")
    case True
    let ?v = "bs_flushing s ! j"
    have "?v \<in> set (bs_flushing s)" using True by simp
    then have v: "?v < length (bs_heap s)" using bs_ok_places(1) [OF assms(1)] by blast
    then have "wf_buffered (bs_heap s ! ?v)" "b_maxSamples (bs_heap s ! ?v) = mx"
      using assms(1) by (auto simp: bs_ok_def)
    with assms(2) have "nat (sint (b_storedSamples (bs_heap s ! ?v))) \<le> length (b_data (bs_heap s ! ?v))"
      by (simp add: wf_buffered_def nat_le_iff)
    then show ?thesis
      using Read True v assms(3,4) by (auto simp: bs_read_def values_stay_def kept_def Let_def)
  qed (use assms(3,4) Read in \<open>simp add: bs_read_def\<close>)
qed

lemma values_stay_serialized:
  assumes "list_all (good_move mx) mvs" and "int (length mvs) < 2 ^ 63 - 1" and "sint mx \<le> 0"
    and "bs_moves mvs bs_start = Some s"
  shows "map (\<lambda>p. m_fvalues (serialized s p)) (bs_flushed s) = map (\<lambda>(_, m). kept m) (bs_flushed s)"
proof -
  have "values_stay s"
    using assms(1,2,4)
  proof (induction mvs arbitrary: s rule: rev_induct)
    case Nil
    then show ?case by (auto simp: bs_start_def values_stay_def)
  next
    case (snoc mv mvs)
    then obtain s1 where s1: "bs_moves mvs bs_start = Some s1" "bs_move mv s1 = Some s"
      by (auto simp: bs_moves_append Option.bind_eq_Some_conv)
    have "bs_ok mx (int (length mvs) + 1) s1"
      using bs_moves_ok [of mx mvs] snoc.prems s1(1) by auto
    from values_stay_move [OF this assms(3) s1(2)] snoc s1(1) show ?case by simp
  qed
  then show ?thesis
    by (auto simp: values_stay_def serialized_def)
qed

text \<open>
  C27. The window in \<open>bufferedMetricContexts.sample\<close> between the unlock of the map and the sample,
  without a bound on the samples: whenever, in any schedule of calls and flushes, a call keeps its
  sample in a metric that a flush has already read, the sample is lost. However the schedule goes
  on, the metric is not flushed again and a worker reads from it the values of its flush; and what
  the flushes reported, what the other metrics hold and what is on its way, with this sample
  added, is no more than the samples of the calls.
\<close>

theorem late_sample_lost:
  assumes "list_all (good_move mx) (mvs @ Keep j # nvs)" and "int (length (mvs @ Keep j # nvs)) < 2 ^ 63 - 1"
    and "sint mx \<le> 0" and "bs_moves mvs bs_start = Some s"
    and "j < length (bs_holding s)" and "bs_holding s ! j = (v, c)" and "v \<in> fst ` set (bs_flushed s)"
  shows "\<exists>s'. bs_moves (mvs @ Keep j # nvs) bs_start = Some s'
    \<and> filter (\<lambda>(u, _). u = v) (bs_flushed s') = filter (\<lambda>(u, _). u = v) (bs_flushed s)
    \<and> map (\<lambda>p. m_fvalues (serialized s' p)) (bs_flushed s')
        = map (\<lambda>(_, m). m_fvalues (buffered_flushUnsafe m)) (bs_flushed s')
    \<and> add_mset (sc_value c) (mset (reported_samples (sc_context c) s')
          + mset (concat (map kept (unflushed (sc_context c) s')))
          + mset (pending_samples (sc_context c) s'))
        \<subseteq># mset (call_samples (sc_context c) (looked_up (mvs @ Keep j # nvs)))"
proof -
  let ?all = "mvs @ Keep j # nvs" and ?k = "sc_context c"
  obtain s' where s': "bs_moves ?all bs_start = Some s'"
    using bs_moves_ok [OF assms(1,2)] by blast
  then obtain s1 where s1: "bs_keep j s = Some s1" "bs_moves nvs s1 = Some s'"
    using assms(4) by (auto simp: bs_moves_append Option.bind_eq_Some_conv)
  let ?n = "int (length mvs) + 1"
  have ok: "bs_ok mx ?n s"
    using bs_moves_ok [of mx mvs] assms(1,2,4) by auto
  then have ok1: "bs_ok mx (?n + 1) s1"
    using bs_keep_ok [OF ok, of j] assms(2) s1(1) by auto
  have late: "(v, c) \<in> set (bs_late s1)" and fl: "bs_flushed s1 = bs_flushed s"
    using s1(1) assms(5-7) by (auto simp: bs_keep_def)
  have after: "filter (\<lambda>(u, _). u = v) (bs_flushed s') = filter (\<lambda>(u, _). u = v) (bs_flushed s)"
    "(v, c) \<in> set (bs_late s')"
    using flushed_moves [OF _ ok1 _ _ _ s1(2), of v] assms(1,2,7) late by (auto simp: fl)
  then have "sc_value c \<in># mset (late_samples ?k s')"
    by (force simp: late_samples_def call_samples_def)
  then obtain L where L: "mset (late_samples ?k s') = add_mset (sc_value c) L"
    by (metis mset_add)
  have "mset (reported_samples ?k s') + mset (concat (map kept (unflushed ?k s'))) + mset (late_samples ?k s')
      + mset (pending_samples ?k s') = mset (call_samples ?k (looked_up ?all))"
    by (rule samples_ledger [OF assms(1,2,3) s'])
  then have "add_mset (sc_value c) (mset (reported_samples ?k s')
          + mset (concat (map kept (unflushed ?k s'))) + mset (pending_samples ?k s')) + L
      = mset (call_samples ?k (looked_up ?all))"
    unfolding L by (simp add: add_ac)
  then have "add_mset (sc_value c) (mset (reported_samples ?k s')
          + mset (concat (map kept (unflushed ?k s'))) + mset (pending_samples ?k s'))
      \<subseteq># mset (call_samples ?k (looked_up ?all))"
    by (metis mset_subset_eq_add_left)
  with s' after(1) values_stay_serialized [OF assms(1,2,3) s'] show ?thesis
    by (simp only: fvalues_flushUnsafe) blast
qed

text \<open>Two calls of one context: the second holds the metric of the first when the flush takes it.\<close>

definition overtaken :: "sample_call \<Rightarrow> sample_call \<Rightarrow> buffered_move list" where
  "overtaken c d = [Lookup c, Create 0, Lookup d, Swap (\<lambda>m. m), Read 0, Keep 0]"

theorem late_sample_lost_witness:
  "\<exists>s'. bs_moves (overtaken (timed 0 f64_one) (timed 0 0)) bs_start = Some s'
    \<and> add_mset 0 (mset (reported_samples ''n'' s')) \<subseteq># {#f64_one, 0#}"
proof -
  let ?c = "timed 0 f64_one" and ?d = "timed 0 0"
  let ?mvs = "[Lookup ?c, Create 0, Lookup ?d, Swap (\<lambda>m. m), Read 0]"
  have run: "overtaken ?c ?d = ?mvs @ Keep 0 # []" by (simp add: overtaken_def)
  have good: "list_all (good_move 0) (?mvs @ Keep 0 # [])"
    and len: "int (length (?mvs @ Keep 0 # [])) < 2 ^ 63 - 1"
    and calls: "mset (call_samples ''n'' (looked_up (?mvs @ Keep 0 # []))) = {#f64_one, 0#}"
    by (simp_all add: call_samples_def)
  obtain s where s: "bs_moves ?mvs bs_start = Some s" "bs_holding s = [(0, ?d)]"
    "fst ` set (bs_flushed s) = {0}"
    by (simp add: bs_start_def bs_lookup_def bs_create_def bs_swap_def bs_read_def remove_at_def Let_def)
  from late_sample_lost [OF good len _ s(1), of 0 ?d] s(2,3) obtain s' where
    s': "bs_moves (?mvs @ Keep 0 # []) bs_start = Some s'"
    "add_mset 0 (mset (reported_samples ''n'' s') + mset (concat (map kept (unflushed ''n'' s')))
      + mset (pending_samples ''n'' s')) \<subseteq># {#f64_one, 0#}"
    unfolding timed_fields calls by auto
  have "add_mset 0 (mset (reported_samples ''n'' s')) \<subseteq># {#f64_one, 0#}"
    by (rule subset_mset.order_trans [OF _ s'(2)]) simp
  with s'(1) show ?thesis unfolding run by blast
qed

text \<open>
  With a bound on the samples the late sample is not only lost: it is written over a sample of
  the metric that was flushed, whose values share their array with the metric, and it is what the
  worker then sends.
\<close>

theorem late_sample_rewrites:
  assumes "sample_ok 1 c" and "sample_ok 1 d" and "sc_context d = sc_context c"
  shows "\<exists>s. bs_moves (overtaken c d) bs_start = Some s
    \<and> reported_samples (sc_context c) s = [sc_value c]
    \<and> map (\<lambda>p. m_fvalues (serialized s p)) (bs_flushed s) = [[sc_value d]]"
proof -
  have "\<forall>n. 0 < sint n \<longrightarrow> 0 \<le> sint (sc_int63n d n) \<and> sint (sc_int63n d n) < sint n"
    using assms(2) unfolding sample_ok_def good_int63n_def by blast
  from this [rule_format, of 1] have "sint (sc_int63n d 1) = sint (0 :: i64)" by simp
  then have i: "sc_int63n d 1 = 0"
    by (rule signed_word_eqI)
  have "sint (b_storedSamples (sc_fresh c)) = sint (1 :: i64)" "b_data (sc_fresh c) = [sc_value c]"
    using assms(1) by (auto simp: sample_ok_def wf_buffered_def kept_def)
  then have "b_storedSamples (sc_fresh c) = 1" "b_data (sc_fresh c) = [sc_value c]"
    by (simp_all only: signed_word_eqI)
  then show ?thesis
    using assms i
    by (simp add: overtaken_def bs_start_def bs_lookup_def bs_create_def bs_swap_def bs_read_def bs_keep_def
        remove_at_def Let_def reported_samples_def serialized_def sample_ok_def maybeKeepSample_def set_index_def)
qed


theorem late_sample_rewrites_witness:
  "\<exists>s. bs_moves (overtaken (timed 1 f64_one) (timed 1 0)) bs_start = Some s
    \<and> reported_samples ''n'' s = [f64_one] \<and> map (\<lambda>p. m_fvalues (serialized s p)) (bs_flushed s) = [[0]]"
  using late_sample_rewrites [of "timed 1 f64_one" "timed 1 0"] by simp

section \<open>Alone\<close>

text \<open>Without interleaving the sections of a call and of a flush are \<open>bc_sampleContext\<close> and \<open>bc_flush\<close>.\<close>

definition mapped :: "buffered_state \<Rightarrow> bufferedMetric gomap" where
  "mapped s = map (\<lambda>(k, v). (k, bs_heap s ! v)) (bs_values s)"

lemma map_of_mapped: "map_of (mapped s) k = map_option ((!) (bs_heap s)) (map_of (bs_values s) k)"
  by (simp add: mapped_def map_of_map)

lemma map_put_mapped:
  assumes "distinct (map snd vs)" and "map_of vs k = Some v" and "v < length heap" and "wf_map vs"
  shows "map (\<lambda>(k, u). (k, heap[v := m] ! u)) vs = map_put k m (map (\<lambda>(k, u). (k, heap ! u)) vs)"
  using assms
proof (induction vs)
  case (Cons p vs)
  obtain k' u where p: "p = (k', u)" by (cases p)
  show ?case
  proof (cases "k' = k")
    case True
    with Cons.prems p have "u = v" "v \<notin> set (map snd vs)" by auto
    then have "map (\<lambda>(k, u). (k, heap[v := m] ! u)) vs = map (\<lambda>(k, u). (k, heap ! u)) vs"
      by (auto simp: image_iff)
    with True p \<open>u = v\<close> Cons.prems(3) show ?thesis by simp
  next
    case False
    with Cons.prems p have "map_of vs k = Some v" by simp
    then have "v \<in> set (map snd vs)" by (force dest: map_of_SomeD)
    with Cons.prems(1) p have "u \<noteq> v" by auto
    with Cons False p \<open>map_of vs k = Some v\<close> show ?thesis by (simp add: wf_map_def)
  qed
qed simp

text \<open>
  Sequentially the three critical sections of a call are the call as \<open>bc_sampleContext\<close> has it:
  from a state in which nobody is sampling, looking up, creating and keeping in a row leaves the
  metrics that \<open>bc_sampleContext\<close> computes.
\<close>

lemma sample_sections:
  assumes "bs_ok mx n s" and "n < 2 ^ 63 - 1" and "sample_ok mx c" and "bs_waiting s = []" and "bs_holding s = []"
  shows "\<exists>s'. bs_moves [Lookup c, Create 0, Keep 0] s = Some s' \<and> bs_waiting s' = [] \<and> bs_holding s' = []
    \<and> bc_sampleContext (sc_int63n c) (sc_context c) (sc_fresh c) (sc_value c) (bc\<lparr>bc_values := mapped s\<rparr>)
      = Some (bc\<lparr>bc_values := mapped s'\<rparr>)"
proof (cases "map_of (bs_values s) (sc_context c)")
  case None
  have "v < length (bs_heap s)" if "(k, v) \<in> set (bs_values s)" for k v
    using that bs_ok_value(1) [OF assms(1)] assms(1) by (auto simp: bs_ok_def wf_map_def)
  then have "map (\<lambda>(k, v). (k, (bs_heap s @ [sc_fresh c]) ! v)) (bs_values s) = mapped s"
    unfolding mapped_def by (intro map_cong) (auto simp: nth_append)
  with None assms(4,5) show ?thesis
    by (simp add: bs_lookup_def bs_create_def bs_keep_def remove_at_def Let_def bc_sampleContext_eq map_of_mapped
        map_put_fresh) (simp add: mapped_def)
next
  case (Some v)
  note v = bs_ok_value [OF assms(1) Some]
  have "\<forall>m \<in> set (bs_heap s). wf_buffered m \<and> b_maxSamples m = mx \<and> sint (b_totalSamples m) \<le> n"
    using assms(1) by (simp add: bs_ok_def)
  from bspec [OF this nth_mem [OF v(1)]]
  have m: "wf_buffered (bs_heap s ! v)" "sint (b_totalSamples (bs_heap s ! v)) < 2 ^ 63 - 1"
    using assms(2) by simp_all
  have "good_int63n (sc_int63n c)"
    using assms(3) by (simp add: sample_ok_def)
  from maybeKeepSample_step [OF m this] obtain m'
    where m': "maybeKeepSample (sc_int63n c) (bs_heap s ! v) (sc_value c) = Some m'" by blast
  have "map (\<lambda>(k, u). (k, (bs_heap s)[v := m'] ! u)) (bs_values s) = map_put (sc_context c) m' (mapped s)"
    unfolding mapped_def
    using map_put_mapped [OF _ Some v(1)] bs_ok_places(2) [OF assms(1)] assms(1) by (simp add: bs_ok_def)
  with Some assms(4,5) m' v(3) show ?thesis
    by (simp add: bs_lookup_def bs_create_def bs_keep_def remove_at_def bc_sampleContext_eq bc_keep_def map_of_mapped)
      (simp add: mapped_def)
qed

lemma reads_all:
  "bs_moves (replicate (length (bs_flushing s)) (Read 0)) s =
     Some (s\<lparr>bs_flushing := [], bs_flushed := bs_flushed s @ map (\<lambda>v. (v, bs_heap s ! v)) (bs_flushing s)\<rparr>)"
proof (induction "bs_flushing s" arbitrary: s)
  case (Cons v vs)
  let ?s = "s\<lparr>bs_flushing := vs, bs_flushed := bs_flushed s @ [(v, bs_heap s ! v)]\<rparr>"
  have "bs_read 0 s = ?s"
    using Cons.hyps(2) [symmetric] by (simp add: bs_read_def remove_at_def)
  moreover have "bs_moves (replicate (length vs) (Read 0)) ?s
      = Some (?s\<lparr>bs_flushing := [], bs_flushed := bs_flushed ?s @ map (\<lambda>v. (v, bs_heap s ! v)) vs\<rparr>)"
    using Cons.hyps(1) [of ?s] by simp
  ultimately show ?case
    using Cons.hyps(2) [symmetric] by simp
qed simp

text \<open>A flush alone makes the metrics of \<open>bc_flush\<close>.\<close>

lemma flush_sections:
  assumes "bs_flushing s = []"
  shows "\<exists>s'. bs_moves (Swap (\<lambda>m. m) # replicate (length (bs_values s)) (Read 0)) s = Some s'
    \<and> bs_values s' = [] \<and> bs_flushing s' = []
    \<and> map (\<lambda>(_, m). buffered_flushUnsafe m) (drop (length (bs_flushed s)) (bs_flushed s'))
      = snd (bc_flush (\<lambda>m. m) (bc\<lparr>bc_values := mapped s\<rparr>) [])"
  using assms reads_all [of "bs_swap (\<lambda>m. m) s"]
  by (simp add: bs_swap_def bc_flush_def mapped_def case_prod_unfold comp_def)


end
