(* ===== verification/Uds.thy ===== *)
theory Uds
  imports Address
begin

text \<open>
  \<open>src/statsd/uds.go\<close>: the writer for Unix domain sockets.  It connects at the first write, tries
  again while the Agent restarts, guesses the kind of the socket, puts the length before each
  packet of a stream, and drops a connection it cannot trust.

  The operating system is the record \<open>uds_env\<close> of one \<open>Write\<close>: the outcomes of resolving the address,
  of each attempt to dial within its timeout, and of each write on the connection (bytes accepted,
  error); \<open>ue_clock\<close> is the time since \<open>tryToDial\<close> began, in nanoseconds, when an attempt starts.  A connection logs
  the bytes it has accepted; \<open>u_closed\<close> is a ghost that keeps the connections \<open>unsetConnection\<close> closed.
\<close>

section \<open>The code\<close>

record net_error =
  ne_text :: bytes
  ne_network :: bool
  ne_timeout :: bool

record connection =
  cn_local :: bytes
  cn_remote :: bytes
  cn_bytes :: bytes

record udsWriter =
  u_addr :: bytes
  u_transport :: bytes
  u_conn :: "connection option"
  u_writeTimeout :: i64
  u_connectTimeout :: i64
  u_closed :: "connection list"

type_synonym dial_result = "net_error + bytes \<times> bytes"

record uds_env =
  ue_resolve :: "bytes \<Rightarrow> net_error option"
  ue_dial :: "bytes \<Rightarrow> nat \<Rightarrow> int \<Rightarrow> dial_result"
  ue_clock :: "bytes \<Rightarrow> nat \<Rightarrow> int"
  ue_write :: "nat \<Rightarrow> nat \<times> net_error option"

definition newUDSWriter :: "bytes \<Rightarrow> i64 \<Rightarrow> i64 \<Rightarrow> bytes \<Rightarrow> udsWriter" where
  "newUDSWriter addr writeTimeout connectTimeout transport =
     \<lparr>u_addr = addr, u_transport = transport, u_conn = None, u_writeTimeout = writeTimeout,
      u_connectTimeout = connectTimeout, u_closed = []\<rparr>"

definition uds_GetTransportName :: "udsWriter \<Rightarrow> bytes" where
  "uds_GetTransportName w =
     (if u_transport w = ''unix'' then writerNameUDSStream else writerNameUDS)"

definition shouldCloseConnection :: "net_error option \<Rightarrow> bool \<Rightarrow> bool" where
  "shouldCloseConnection err partialWrite =
     (if err \<noteq> None \<and> partialWrite then True
      else case err of
        None \<Rightarrow> False
      | Some e \<Rightarrow> \<not> ne_network e \<or> \<not> ne_timeout e)"

definition HasSuffix :: "bytes \<Rightarrow> bytes \<Rightarrow> bool" where
  "HasSuffix s t \<longleftrightarrow> length t \<le> length s \<and> drop (length s - length t) s = t"

definition Contains :: "bytes \<Rightarrow> bytes \<Rightarrow> bool" where
  "Contains s t \<longleftrightarrow> list_ex (\<lambda>i. HasPrefix (drop i s) t) [0..<Suc (length s)]"

text \<open>The pause between attempts to connect, at most a second.\<close>

definition connRefusedBackoff :: "i64 \<Rightarrow> i64" where
  "connRefusedBackoff connectTimeout =
     (let b = word_of_int (trunc_div (sint connectTimeout) (3 + 1)) in
      if sint b > 1000000000 then 1000000000 else b)"

text \<open>
  The loop of \<open>tryToDial\<close>, with the pauses it makes; \<open>i\<close> attempts have been made, \<open>left\<close> are left.  An
  attempt gets what is left until \<open>deadline\<close>; \<open>dial\<close> is its outcome, \<open>clock\<close> the time at its start.
\<close>

fun dial_loop ::
  "(nat \<Rightarrow> int \<Rightarrow> dial_result) \<Rightarrow> (nat \<Rightarrow> int) \<Rightarrow> int \<Rightarrow> i64 \<Rightarrow> nat \<Rightarrow> nat \<Rightarrow> i64 list \<times> dial_result" where
  "dial_loop dial clock deadline backoff i 0 = ([], dial i (deadline - clock i))"
| "dial_loop dial clock deadline backoff i (Suc left) =
     (let perCallTimeout = deadline - clock i in
      case dial i perCallTimeout of
        Inl err \<Rightarrow>
          if HasSuffix (ne_text err) ''connection refused'' \<and> left > 0
          then (case dial_loop dial clock deadline backoff (Suc i) left of
              (pauses, r) \<Rightarrow> (backoff # pauses, r))
          else ([], Inl err)
      | Inr c \<Rightarrow> ([], Inr c))"

definition tryToDial :: "uds_env \<Rightarrow> i64 \<Rightarrow> bytes \<Rightarrow> i64 list \<times> dial_result" where
  "tryToDial e connectTimeout network =
     (case ue_resolve e network of
        Some err \<Rightarrow> ([], Inl err)
      | None \<Rightarrow> dial_loop (ue_dial e network) (ue_clock e network) (sint connectTimeout)
                  (connRefusedBackoff connectTimeout) 0 3)"

definition ensureConnection :: "uds_env \<Rightarrow> udsWriter \<Rightarrow> udsWriter \<times> (net_error + connection)" where
  "ensureConnection e w =
     (case u_conn w of
        Some currentConn \<Rightarrow> (w, Inr currentConn)
      | None \<Rightarrow>
          let dial = (\<lambda>network. snd (tryToDial e (u_connectTimeout w) network));
              r = (if u_transport w = '''' then
                     (case dial ''unixgram'' of
                        Inl err \<Rightarrow> if Contains (ne_text err) ''protocol wrong type for socket''
                                   then dial ''unix'' else Inl err
                      | Inr c \<Rightarrow> Inr c)
                   else dial (u_transport w))
          in case r of
               Inl err \<Rightarrow> (w, Inl err)
             | Inr (lcl, remote) \<Rightarrow>
                 let newConn = \<lparr>cn_local = lcl, cn_remote = remote, cn_bytes = []\<rparr> in
                 (w\<lparr>u_conn := Some newConn, u_transport := remote\<rparr>, Inr newConn))"

definition unsetConnection :: "udsWriter \<Rightarrow> udsWriter" where
  "unsetConnection w =
     w\<lparr>u_conn := None, u_closed := u_closed w @ (case u_conn w of None \<Rightarrow> [] | Some c \<Rightarrow> [c])\<rparr>"

text \<open>\<open>conn.Write\<close>: the connection accepts a prefix of the data.\<close>

definition conn_Write ::
  "nat \<times> net_error option \<Rightarrow> bytes \<Rightarrow> connection \<Rightarrow> connection \<times> nat \<times> net_error option" where
  "conn_Write out data c =
     (c\<lparr>cn_bytes := cn_bytes c @ take (fst out) data\<rparr>, min (fst out) (length data), snd out)"

text \<open>\<open>binary.LittleEndian.PutUint32\<close>.\<close>

definition PutUint32 :: "u32 \<Rightarrow> bytes" where
  "PutUint32 x = map char_of [unat x mod 256, unat x div 256 mod 256, unat x div 65536 mod 256,
     unat x div 16777216 mod 256]"

definition uds_Write :: "uds_env \<Rightarrow> bytes \<Rightarrow> udsWriter \<Rightarrow> udsWriter \<times> nat \<times> net_error option" where
  "uds_Write e data w =
     (case ensureConnection e w of
        (w, Inl err) \<Rightarrow> (w, 0, Some err)
      | (w, Inr conn) \<Rightarrow>
          let stream = (cn_local conn = ''unix'');
              (conn, n, err, partialWrite) =
                (if stream then
                   let (conn, _, err) = conn_Write (ue_write e 0) (PutUint32 (of_nat (length data))) conn in
                   if err = None then
                     let (conn, n, err) = conn_Write (ue_write e 1) data conn in
                     (conn, n, err, err \<noteq> None)
                   else (conn, 0, err, True)
                 else let (conn, n, err) = conn_Write (ue_write e 0) data conn in (conn, n, err, False));
              w = w\<lparr>u_conn := Some conn\<rparr>
          in (if shouldCloseConnection err partialWrite then unsetConnection w else w, n, err))"

text \<open>A series of writes, with the error of each.\<close>

fun uds_Writes :: "(uds_env \<times> bytes) list \<Rightarrow> udsWriter \<Rightarrow> udsWriter \<times> net_error option list" where
  "uds_Writes [] w = (w, [])"
| "uds_Writes ((e, data) # rest) w =
     (case uds_Write e data w of
        (w, _, err) \<Rightarrow> (case uds_Writes rest w of (w, errs) \<Rightarrow> (w, err # errs)))"

section \<open>Dialling\<close>

definition refused :: "dial_result \<Rightarrow> bool" where
  "refused r \<longleftrightarrow> (case r of Inl err \<Rightarrow> HasSuffix (ne_text err) ''connection refused'' | Inr c \<Rightarrow> False)"

lemma dial_loop_three:
  "dial_loop dial clock deadline backoff i 3 =
     (let attempt = (\<lambda>j. dial j (deadline - clock j)) in
      if refused (attempt i) then
        if refused (attempt (Suc i)) then ([backoff, backoff], attempt (Suc (Suc i)))
        else ([backoff], attempt (Suc i))
      else ([], attempt i))"
  by (auto simp: eval_nat_numeral refused_def Let_def split: sum.splits)

lemma backoff_bound:
  assumes "0 \<le> sint t"
  shows "0 \<le> sint (connRefusedBackoff t) \<and> 2 * sint (connRefusedBackoff t) \<le> sint t
    \<and> sint (connRefusedBackoff t) \<le> 1000000000"
proof -
  have "sint t < 2 ^ 63"
    using sint_less [of t] by simp
  moreover have "trunc_div (sint t) 4 = sint t div 4"
    using assms by (cases "sint t = 0") (simp_all add: trunc_div_def)
  ultimately have "sint (word_of_int (trunc_div (sint t) 4) :: i64) = sint t div 4"
    using assms by (simp add: signed_of_int signed_take_bit_int_eq_self)
  then show ?thesis
    using assms by (auto simp: connRefusedBackoff_def Let_def)
qed

text \<open>
  C40. Connecting ends: once the address is resolved, \<open>tryToDial\<close> returns the outcome of its first,
  second or third attempt, the first that is not a refused connection, or else the last one, each
  made with the time left until the connect deadline. Before each attempt but the first it pauses,
  a second at most, and all its pauses together take no more than the connect timeout.
\<close>

theorem tryToDial_ends:
  assumes "ue_resolve e network = None" and "0 \<le> sint t"
    and "\<And>j. attempt j = ue_dial e network j (sint t - ue_clock e network j)"
    and "tryToDial e t network = (pauses, r)"
  shows "\<exists>i < 3. r = attempt i \<and> list_all (\<lambda>j. refused (attempt j)) [0..<i]
    \<and> (i = 2 \<or> \<not> refused (attempt i))
    \<and> length pauses = i \<and> list_all (\<lambda>d. sint d \<le> 1000000000) pauses
    \<and> sum_list (map sint pauses) \<le> sint t"
proof -
  let ?b = "connRefusedBackoff t"
  have d: "(pauses, r) = (if refused (attempt 0) then
      if refused (attempt 1) then ([?b, ?b], attempt 2) else ([?b], attempt 1) else ([], attempt 0))"
    using assms(1,4) by (simp add: tryToDial_def dial_loop_three assms(3) numeral_2_eq_2 Let_def split: if_splits)
  have b: "0 \<le> sint ?b" "2 * sint ?b \<le> sint t" "sint ?b \<le> 1000000000"
    using backoff_bound [OF assms(2)] by simp_all
  consider (first) "\<not> refused (attempt 0)" | (second) "refused (attempt 0)" "\<not> refused (attempt 1)"
    | (third) "refused (attempt 0)" "refused (attempt 1)" by blast
  then show ?thesis
  proof cases
    case first
    with d assms(2) show ?thesis by (intro exI [of _ 0]) simp
  next
    case second
    with d b show ?thesis by (intro exI [of _ 1]) simp
  next
    case third
    with d b show ?thesis by (intro exI [of _ 2]) (simp add: upt_rec numeral_2_eq_2)
  qed
qed

definition busy_env :: uds_env where
  "busy_env = \<lparr>ue_resolve = (\<lambda>_. None),
     ue_dial = (\<lambda>_ i _. if i = 0 then Inl \<lparr>ne_text = ''connection refused'', ne_network = True, ne_timeout = False\<rparr>
       else Inr (''unix'', ''unix'')),
     ue_clock = (\<lambda>_ i. 1000 * int i),
     ue_write = (\<lambda>_. (0, None))\<rparr>"

theorem tryToDial_ends_witness:
  "snd (tryToDial busy_env 4000000000 ''unix'') = Inr (''unix'', ''unix'')
    \<and> sum_list (map sint (fst (tryToDial busy_env 4000000000 ''unix''))) \<le> 4000000000"
proof -
  have "ue_resolve busy_env ''unix'' = None" "0 \<le> sint (4000000000 :: i64)"
    "tryToDial busy_env 4000000000 ''unix''
      = (fst (tryToDial busy_env 4000000000 ''unix''), snd (tryToDial busy_env 4000000000 ''unix''))"
    by (simp_all add: busy_env_def)
  from tryToDial_ends [OF this(1,2) refl this(3)]
  obtain i where "snd (tryToDial busy_env 4000000000 ''unix'')
      = ue_dial busy_env ''unix'' i (sint (4000000000 :: i64) - ue_clock busy_env ''unix'' i)"
    "i = 2 \<or> \<not> refused (ue_dial busy_env ''unix'' i (sint (4000000000 :: i64) - ue_clock busy_env ''unix'' i))"
    "sum_list (map sint (fst (tryToDial busy_env 4000000000 ''unix''))) \<le> 4000000000"
    by auto
  then show ?thesis
    by (cases "i = 0") (simp_all add: busy_env_def refused_def HasSuffix_def)
qed

section \<open>Frames\<close>

definition frame_packet :: "bytes \<Rightarrow> bytes" where
  "frame_packet data = PutUint32 (of_nat (length data)) @ data"

abbreviation frames :: "bytes list \<Rightarrow> bytes" where
  "frames ps \<equiv> concat (map frame_packet ps)"

text \<open>What the other side does: read a length, then that many bytes.\<close>

definition Uint32 :: "bytes \<Rightarrow> nat" where
  "Uint32 s = foldr (\<lambda>c n. byte_val c + 256 * n) s 0"

function read_packets :: "bytes \<Rightarrow> bytes list option" where
  "read_packets s =
     (if s = [] then Some []
      else if length s < 4 then None
      else let n = Uint32 (take 4 s) in
        if length s < 4 + n then None
        else map_option (\<lambda>ps. take n (drop 4 s) # ps) (read_packets (drop (4 + n) s)))"
  by pat_completeness auto
termination
  by (relation "measure length") auto

declare read_packets.simps [simp del]

lemma unat_u32: "unat (x :: u32) < 4294967296"
  using unsigned_less [of x] by simp

lemma Uint32_PutUint32: "Uint32 (PutUint32 x) = unat x"
proof -
  have "unat x < 4294967296"
    by (rule unat_u32)
  then have "unat x div 16777216 < 256"
    by (simp add: less_mult_imp_div_less)
  moreover have "unat x = unat x mod 256 + 256 * (unat x div 256)"
    "unat x div 256 = unat x div 256 mod 256 + 256 * (unat x div 65536)"
    "unat x div 65536 = unat x div 65536 mod 256 + 256 * (unat x div 16777216)"
    using div_mult2_eq [of "unat x" 256 256] div_mult2_eq [of "unat x" 65536 256] by auto
  ultimately show ?thesis
    by (simp add: Uint32_def PutUint32_def)
qed

lemma length_PutUint32 [simp]: "length (PutUint32 x) = 4"
  by (simp add: PutUint32_def)

lemma read_frame:
  assumes "length p < 2 ^ 32"
  shows "read_packets (frame_packet p @ s) = map_option ((#) p) (read_packets s)"
proof -
  let ?h = "PutUint32 (of_nat (length p))"
  have "?h \<noteq> []"
    using length_PutUint32 [of "of_nat (length p)"] by (metis list.size(3) zero_neq_numeral)
  moreover have "drop (4 + length p) (?h @ p @ s) = s"
    by simp
  moreover have "Uint32 ?h = length p"
    using assms by (simp add: Uint32_PutUint32 unat_of_nat)
  ultimately show ?thesis
    by (simp add: frame_packet_def read_packets.simps [of "?h @ p @ s"] Let_def)
qed

lemma read_frames:
  "list_all (\<lambda>p. length p < 2 ^ 32) ps \<Longrightarrow> read_packets (frames ps) = Some ps"
  by (induction ps) (simp_all add: read_frame, simp add: read_packets.simps)

section \<open>Streams\<close>

text \<open>
  The connections are streams, and a write that returns no error has taken all bytes, as
  \<open>io.Writer\<close> demands.
\<close>

definition stream_env :: "uds_env \<Rightarrow> bool" where
  "stream_env e \<longleftrightarrow> (\<forall>network i timeout lcl remote. ue_dial e network i timeout = Inr (lcl, remote) \<longrightarrow> lcl = ''unix'')"

definition obeys_writer :: "uds_env \<Rightarrow> bytes \<Rightarrow> bool" where
  "obeys_writer e data \<longleftrightarrow> (snd (ue_write e 0) = None \<longrightarrow> 4 \<le> fst (ue_write e 0))
     \<and> (snd (ue_write e 1) = None \<longrightarrow> length data \<le> fst (ue_write e 1))"

text \<open>
  \<open>pss\<close> are the packets on the connections closed so far, \<open>cur\<close> those on the current one.  A closed
  connection may end in the beginning of one more packet.
\<close>

definition closed_after :: "connection \<Rightarrow> bytes list \<Rightarrow> bool" where
  "closed_after c ps \<longleftrightarrow> (\<exists>p u. cn_bytes c = frames ps @ u \<and> (\<exists>v. u @ v = frame_packet p))"

definition on_wire :: "bytes list list \<Rightarrow> bytes list \<Rightarrow> udsWriter \<Rightarrow> bool" where
  "on_wire pss cur w \<longleftrightarrow> list_all2 closed_after (u_closed w) pss
     \<and> (case u_conn w of None \<Rightarrow> cur = [] | Some c \<Rightarrow> cn_local c = ''unix'' \<and> cn_bytes c = frames cur)"

lemma dial_loop_stream:
  "(\<And>j timeout. dial j timeout = Inr c \<Longrightarrow> P) \<Longrightarrow> snd (dial_loop dial clock deadline backoff i n) = Inr c \<Longrightarrow> P"
  by (induction dial clock deadline backoff i n rule: dial_loop.induct)
    (auto simp: Let_def split: sum.splits if_splits prod.splits)

lemma tryToDial_stream:
  assumes "stream_env e" and "snd (tryToDial e t network) = Inr (lcl, remote)"
  shows "lcl = ''unix''"
proof (rule dial_loop_stream)
  show "snd (dial_loop (ue_dial e network) (ue_clock e network) (sint t) (connRefusedBackoff t) 0 3) = Inr (lcl, remote)"
    using assms(2) by (auto simp: tryToDial_def split: option.splits)
  show "lcl = ''unix''" if "ue_dial e network j timeout = Inr (lcl, remote)" for j timeout
    using assms(1) that unfolding stream_env_def by blast
qed

lemma ensureConnection_wire:
  assumes "on_wire pss cur w" and "stream_env e" and "ensureConnection e w = (w1, r)"
  shows "case r of
     Inl err \<Rightarrow> w1 = w
   | Inr c \<Rightarrow> u_conn w1 = Some c \<and> u_closed w1 = u_closed w \<and> cn_local c = ''unix'' \<and> cn_bytes c = frames cur"
proof (cases "u_conn w")
  case (Some c)
  with assms show ?thesis
    by (auto simp: ensureConnection_def on_wire_def)
next
  case None
  with assms tryToDial_stream [OF assms(2)] show ?thesis
    by (auto simp: ensureConnection_def on_wire_def Let_def split: sum.splits prod.splits if_splits)
qed

lemma closed_afterI:
  assumes "cn_bytes c = frames ps @ take n (frame_packet p)"
  shows "closed_after c ps"
  unfolding closed_after_def
  using assms append_take_drop_id [of n "frame_packet p"] by blast

lemma take_header: "take n (PutUint32 x) = take (min n 4) (PutUint32 x)"
  by (cases "n \<le> 4") (simp_all add: min_def)

lemma closed_after_prefix:
  "cn_bytes c = frames ps @ take n (PutUint32 (of_nat (length p))) \<Longrightarrow> closed_after c ps"
  "cn_bytes c = frames ps @ PutUint32 (of_nat (length p)) @ take n p \<Longrightarrow> closed_after c ps"
  using closed_afterI [of c ps "min n 4" p] closed_afterI [of c ps "4 + n" p]
  by (simp_all add: frame_packet_def take_header [of n])

lemma uds_Write_wire:
  assumes "on_wire pss cur w" and "stream_env e" and "obeys_writer e data"
    and "uds_Write e data w = (w', n, err)"
  shows "\<exists>pss' cur'. on_wire pss' cur' w' \<and> concat pss' @ cur' = concat pss @ cur @ (if err = None then [data] else [])"
proof -
  obtain w1 r where r: "ensureConnection e w = (w1, r)" by (cases "ensureConnection e w")
  note E = ensureConnection_wire [OF assms(1,2) r]
  show ?thesis
  proof (cases r)
    case (Inl e')
    with assms(1,4) r E show ?thesis
      by (intro exI [of _ pss] exI [of _ cur]) (auto simp: uds_Write_def)
  next
    case (Inr c)
    let ?h = "PutUint32 (of_nat (length data))"
    have c: "u_conn w1 = Some c" "u_closed w1 = u_closed w" "cn_local c = ''unix''" "cn_bytes c = frames cur"
      using E Inr by simp_all
    have cl: "list_all2 closed_after (u_closed w) pss"
      using assms(1) by (simp add: on_wire_def)
    consider (ok) "snd (ue_write e 0) = None" "snd (ue_write e 1) = None"
      | (data) e1 where "snd (ue_write e 0) = None" "snd (ue_write e 1) = Some e1"
      | (header) e0 where "snd (ue_write e 0) = Some e0"
      by (cases "snd (ue_write e 0)"; cases "snd (ue_write e 1)") auto
    then show ?thesis
    proof cases
      case ok
      then have "u_closed w' = u_closed w" "u_conn w' = Some (c\<lparr>cn_bytes := frames (cur @ [data])\<rparr>)"
        "err = None"
        using assms(3,4) r Inr c
        by (auto simp: uds_Write_def conn_Write_def Let_def obeys_writer_def shouldCloseConnection_def
            frame_packet_def)
      with cl c(3) show ?thesis
        by (intro exI [of _ pss] exI [of _ "cur @ [data]"]) (simp add: on_wire_def)
    next
      case data
      then obtain c' where "u_closed w' = u_closed w @ [c']" "u_conn w' = None" "err = Some e1"
        "cn_bytes c' = frames cur @ ?h @ take (fst (ue_write e 1)) data"
        using assms(3,4) r Inr c
        by (auto simp: uds_Write_def conn_Write_def Let_def obeys_writer_def shouldCloseConnection_def
            unsetConnection_def)
      with cl closed_after_prefix(2) show ?thesis
        by (intro exI [of _ "pss @ [cur]"] exI [of _ "[]"]) (auto simp: on_wire_def intro!: list_all2_appendI)
    next
      case header
      then obtain c' where "u_closed w' = u_closed w @ [c']" "u_conn w' = None" "err = Some e0"
        "cn_bytes c' = frames cur @ take (fst (ue_write e 0)) ?h"
        using assms(3,4) r Inr c
        by (auto simp: uds_Write_def conn_Write_def Let_def shouldCloseConnection_def unsetConnection_def)
      with cl closed_after_prefix(1) show ?thesis
        by (intro exI [of _ "pss @ [cur]"] exI [of _ "[]"]) (auto simp: on_wire_def intro!: list_all2_appendI)
    qed
  qed
qed

text \<open>The packets whose \<open>Write\<close> returned no error.\<close>

definition written :: "(uds_env \<times> bytes) list \<Rightarrow> net_error option list \<Rightarrow> bytes list" where
  "written es errs = map (snd \<circ> fst) (filter (\<lambda>(p, err). err = None) (zip es errs))"

lemma uds_Writes_wire:
  assumes "list_all (\<lambda>(e, data). stream_env e \<and> obeys_writer e data) es"
    and "uds_Writes es w = (w', errs)" and "on_wire pss cur w"
  shows "\<exists>pss' cur'. on_wire pss' cur' w' \<and> concat pss' @ cur' = concat pss @ cur @ written es errs"
  using assms
proof (induction es arbitrary: w errs pss cur)
  case Nil
  then show ?case by (auto simp: written_def)
next
  case (Cons p es)
  obtain e data where p: "p = (e, data)" by (cases p)
  obtain w1 n err where 1: "uds_Write e data w = (w1, n, err)" by (metis prod_cases3)
  obtain errs1 where r: "uds_Writes es w1 = (w', errs1)" "errs = err # errs1"
    using Cons.prems(2) p 1 by (auto split: prod.splits)
  obtain pss1 cur1 where s: "on_wire pss1 cur1 w1"
    "concat pss1 @ cur1 = concat pss @ cur @ (if err = None then [data] else [])"
    using uds_Write_wire [OF Cons.prems(3) _ _ 1] Cons.prems(1) p by auto
  obtain pss2 cur2 where "on_wire pss2 cur2 w'" "concat pss2 @ cur2 = concat pss1 @ cur1 @ written es errs1"
    using Cons.IH [OF _ r(1) s(1)] Cons.prems(1) by auto
  moreover have "concat pss1 @ cur1 @ written es errs1 = concat pss @ cur @ written (p # es) errs"
    using arg_cong [OF s(2), of "\<lambda>x. x @ written es errs1"] by (simp add: written_def p r(2))
  ultimately show ?case by metis
qed

section \<open>Properties\<close>

definition calm_env :: uds_env where
  "calm_env = \<lparr>ue_resolve = (\<lambda>_. None), ue_dial = (\<lambda>_ _ _. Inr (''unix'', ''unix'')), ue_clock = (\<lambda>_ _. 0),
     ue_write = (\<lambda>_. (100, None))\<rparr>"

text \<open>The peer takes the length and one byte, then nothing until the deadline.\<close>

definition stuck_env :: uds_env where
  "stuck_env = calm_env\<lparr>ue_write := (\<lambda>i. if i = 0 then (4, None)
     else (1, Some \<lparr>ne_text = ''i/o timeout'', ne_network = True, ne_timeout = True\<rparr>))\<rparr>"

definition three_writes :: "(uds_env \<times> bytes) list" where
  "three_writes = [(calm_env, ''ab''), (stuck_env, ''cdef''), (calm_env, ''gh'')]"

definition three_result :: "udsWriter \<times> net_error option list" where
  "three_result = uds_Writes three_writes (newUDSWriter ''/s'' 100 1000 ''unix'')"

text \<open>
  C18. On a stream socket every payload whose \<open>Write\<close> returned no error is on exactly one connection,
  whole, once and in order, whatever fails in between: the current connection holds complete
  packets only, so the Agent reads them back, and a closed one at most the beginning of one more
  packet after its complete ones.
\<close>

theorem uds_stream_framing:
  assumes "list_all (\<lambda>(e, data). stream_env e \<and> obeys_writer e data \<and> length data < 2 ^ 32) es"
    and "uds_Writes es (newUDSWriter addr wt ct transport) = (w, errs)"
  shows "\<exists>pss cur. on_wire pss cur w \<and> concat pss @ cur = written es errs
    \<and> (case u_conn w of None \<Rightarrow> True | Some c \<Rightarrow> read_packets (cn_bytes c) = Some cur)"
proof -
  have "on_wire [] [] (newUDSWriter addr wt ct transport)"
    by (simp add: on_wire_def newUDSWriter_def)
  with uds_Writes_wire [OF _ assms(2)] assms(1) obtain pss cur where
    w: "on_wire pss cur w" "concat pss @ cur = written es errs"
    by (fastforce simp: list_all_iff)
  have "set (written es errs) \<subseteq> snd ` set es"
    by (force simp: written_def dest: set_zip_leftD)
  then have "set cur \<subseteq> snd ` set es"
    unfolding w(2) [symmetric] by simp
  then have "list_all (\<lambda>p. length p < 2 ^ 32) cur"
    using assms(1) by (fastforce simp: list_all_iff)
  from read_frames [OF this] w show ?thesis
    by (intro exI [of _ pss] exI [of _ cur]) (auto simp: on_wire_def split: option.splits)
qed

theorem uds_stream_framing_witness:
  "\<exists>pss cur. on_wire pss cur (fst three_result) \<and> concat pss @ cur = [''ab'', ''gh'']
    \<and> read_packets (PutUint32 2 @ ''gh'') = Some cur"
proof -
  have run: "uds_Writes three_writes (newUDSWriter ''/s'' 100 1000 ''unix'') = (fst three_result, snd three_result)"
    by (simp add: three_result_def)
  note eval = three_result_def three_writes_def calm_env_def stuck_env_def newUDSWriter_def uds_Write_def
    ensureConnection_def tryToDial_def dial_loop_three refused_def conn_Write_def Let_def
    shouldCloseConnection_def unsetConnection_def
  have "written three_writes (snd three_result) = [''ab'', ''gh'']"
    "u_conn (fst three_result) = Some \<lparr>cn_local = ''unix'', cn_remote = ''unix'', cn_bytes = PutUint32 2 @ ''gh''\<rparr>"
    by (simp_all add: eval written_def)
  moreover have "list_all (\<lambda>(e, data). stream_env e \<and> obeys_writer e data \<and> length data < 2 ^ 32) three_writes"
    by (simp add: three_writes_def calm_env_def stuck_env_def stream_env_def obeys_writer_def)
  ultimately show ?thesis
    using uds_stream_framing [OF _ run] by simp
qed

end
