(* ===== verification/Transports.thy ===== *)
theory Transports
  imports Uds NewClient
begin

text \<open>
  The transports behind the sender: \<open>udp.go\<close>, \<open>pipe_windows.go\<close>, \<open>pipe.go\<close>, \<open>uds_windows.go\<close>, the rest of
  \<open>uds.go\<close>, the custom writer of \<open>statsdex.go\<close>, and the interface \<open>Transport\<close> of \<open>sender.go\<close> they share.
  Which of two files is built is the argument \<open>windows\<close>.

  As in \<open>Uds\<close> the operating system is a record of outcomes, one for each \<open>Write\<close>; a connection is the
  data it has accepted.
\<close>

section \<open>The code: UDP\<close>

text \<open>The datagrams a connected UDP socket has sent.\<close>

record udpWriter =
  udp_sent :: "bytes list"

definition newUDPWriter ::
  "(bytes \<Rightarrow> net_error + 'a) \<Rightarrow> ('a \<Rightarrow> net_error option) \<Rightarrow> bytes \<Rightarrow> net_error + udpWriter" where
  "newUDPWriter resolveUDPAddr dialUDP addr =
     (case resolveUDPAddr addr of
        Inl err \<Rightarrow> Inl err
      | Inr udpAddr \<Rightarrow>
          (case dialUDP udpAddr of
             Some err \<Rightarrow> Inl err
           | None \<Rightarrow> Inr \<lparr>udp_sent = []\<rparr>))"

text \<open>A datagram is sent whole or not at all.\<close>

definition udp_Write :: "nat \<times> net_error option \<Rightarrow> bytes \<Rightarrow> udpWriter \<Rightarrow> udpWriter \<times> nat \<times> net_error option" where
  "udp_Write out data w =
     (w\<lparr>udp_sent := udp_sent w @ (if snd out = None then [data] else [])\<rparr>, fst out, snd out)"

definition udp_GetTransportName :: "udpWriter \<Rightarrow> bytes" where
  "udp_GetTransportName w = writerNameUDP"

section \<open>The code: named pipes\<close>

text \<open>An error of a pipe, and whether it is a \<open>net.Error\<close> that calls itself temporary.\<close>

record pipe_error =
  pe_error :: net_error
  pe_temporary :: bool

text \<open>\<open>p_left\<close> is a ghost: the connections the writer has forgotten, which nobody closes.\<close>

record pipeWriter =
  p_conn :: "bytes option"
  p_timeout :: i64
  p_pipepath :: bytes
  p_left :: "bytes list"

record pipe_env =
  pv_dial :: "net_error option"
  pv_write :: "nat \<times> pipe_error option"

definition newPipeWriter :: "bytes \<Rightarrow> i64 \<Rightarrow> pipeWriter" where
  "newPipeWriter pipepath writeTimeout =
     \<lparr>p_conn = None, p_timeout = writeTimeout, p_pipepath = pipepath, p_left = []\<rparr>"

definition pipe_ensureConnection :: "pipe_env \<Rightarrow> pipeWriter \<Rightarrow> pipeWriter \<times> (net_error + bytes)" where
  "pipe_ensureConnection e p =
     (case p_conn p of
        Some conn \<Rightarrow> (p, Inr conn)
      | None \<Rightarrow>
          (case pv_dial e of
             Some err \<Rightarrow> (p, Inl err)
           | None \<Rightarrow> (p\<lparr>p_conn := Some []\<rparr>, Inr [])))"

definition pipe_Write :: "pipe_env \<Rightarrow> bytes \<Rightarrow> pipeWriter \<Rightarrow> pipeWriter \<times> nat \<times> net_error option" where
  "pipe_Write e data p =
     (case pipe_ensureConnection e p of
        (p, Inl err) \<Rightarrow> (p, 0, Some err)
      | (p, Inr conn) \<Rightarrow>
          let (n, err) = pv_write e;
              conn = conn @ take n data;
              p = p\<lparr>p_conn := Some conn\<rparr>;
              p = (case err of
                     None \<Rightarrow> p
                   | Some x \<Rightarrow> if \<not> pe_temporary x then p\<lparr>p_conn := None, p_left := p_left p @ [conn]\<rparr> else p)
          in (p, n, map_option pe_error err))"

text \<open>\<open>Close\<close> with the outcome of closing the connection; \<open>None\<close> is a panic, there is no check for nil.\<close>

definition pipe_Close :: "net_error option \<Rightarrow> pipeWriter \<Rightarrow> (net_error option) option" where
  "pipe_Close out p = (case p_conn p of None \<Rightarrow> None | Some conn \<Rightarrow> Some out)"

definition pipe_GetTransportName :: "pipeWriter \<Rightarrow> bytes" where
  "pipe_GetTransportName p = writerWindowsPipe"

definition uds_Close :: "net_error option \<Rightarrow> udsWriter \<Rightarrow> (net_error option) option" where
  "uds_Close out w = (case u_conn w of Some conn \<Rightarrow> Some out | None \<Rightarrow> Some None)"

section \<open>The code: the interface\<close>

text \<open>A custom writer passes everything to the \<open>io.WriteCloser\<close> of the user, here the data it took whole.\<close>

datatype writer = UDPw udpWriter | UDSw udsWriter | Pipew pipeWriter | Customw "bytes list"

record transport_env =
  te_net :: "nat \<times> net_error option"
  te_uds :: uds_env
  te_pipe :: pipe_env

fun transport_Write :: "transport_env \<Rightarrow> bytes \<Rightarrow> writer \<Rightarrow> writer \<times> nat \<times> net_error option" where
  "transport_Write e data (UDPw w) = map_prod UDPw id (udp_Write (te_net e) data w)"
| "transport_Write e data (UDSw w) = map_prod UDSw id (uds_Write (te_uds e) data w)"
| "transport_Write e data (Pipew w) = map_prod Pipew id (pipe_Write (te_pipe e) data w)"
| "transport_Write e data (Customw ds) =
     (Customw (ds @ (if snd (te_net e) = None then [data] else [])), fst (te_net e), snd (te_net e))"

fun transport_Close :: "net_error option \<Rightarrow> writer \<Rightarrow> (net_error option) option" where
  "transport_Close out (UDPw w) = Some out"
| "transport_Close out (UDSw w) = uds_Close out w"
| "transport_Close out (Pipew w) = pipe_Close out w"
| "transport_Close out (Customw ds) = Some out"

fun GetTransportName :: "writer \<Rightarrow> bytes" where
  "GetTransportName (UDPw w) = udp_GetTransportName w"
| "GetTransportName (UDSw w) = uds_GetTransportName w"
| "GetTransportName (Pipew w) = pipe_GetTransportName w"
| "GetTransportName (Customw ds) = writerNameCustom"

text \<open>The constructors, as \<open>createWriter\<close> calls them.\<close>

record os =
  os_windows :: bool
  os_resolveUDPAddr :: "bytes \<Rightarrow> net_error + bytes"
  os_dialUDP :: "bytes \<Rightarrow> net_error option"

definition newUDSWriter_for :: "os \<Rightarrow> bytes \<Rightarrow> i64 \<Rightarrow> i64 \<Rightarrow> bytes \<Rightarrow> net_error + writer" where
  "newUDSWriter_for o' addr writeTimeout connectTimeout network =
     (if os_windows o'
      then Inl \<lparr>ne_text = ''Unix socket is not available on Windows'', ne_network = False, ne_timeout = False\<rparr>
      else Inr (UDSw (newUDSWriter addr writeTimeout connectTimeout network)))"

definition newWindowsPipeWriter :: "os \<Rightarrow> bytes \<Rightarrow> i64 \<Rightarrow> net_error + writer" where
  "newWindowsPipeWriter o' pipepath writeTimeout =
     (if os_windows o' then Inr (Pipew (newPipeWriter pipepath writeTimeout))
      else Inl \<lparr>ne_text = ''Windows Named Pipes are only supported on Windows'', ne_network = False,
             ne_timeout = False\<rparr>)"

definition open_writer :: "os \<Rightarrow> i64 \<Rightarrow> i64 \<Rightarrow> bytes list \<Rightarrow> transport \<Rightarrow> net_error + writer" where
  "open_writer o' writeTimeout connectTimeout taken t =
     (case t of
        UDP addr \<Rightarrow> map_sum id UDPw (newUDPWriter (os_resolveUDPAddr o') (os_dialUDP o') addr)
      | UDS addr network \<Rightarrow> newUDSWriter_for o' addr writeTimeout connectTimeout network
      | WindowsPipe addr \<Rightarrow> newWindowsPipeWriter o' addr writeTimeout
      | CustomWriter \<Rightarrow> Inr (Customw taken))"

definition opener_of :: "os \<Rightarrow> i64 \<Rightarrow> i64 \<Rightarrow> opener" where
  "opener_of o' writeTimeout connectTimeout t =
     (case open_writer o' writeTimeout connectTimeout [] t of Inl err \<Rightarrow> Some (ne_text err) | Inr w \<Rightarrow> None)"

text \<open>\<open>GetTransport\<close>: a nil client, or one without a sender.\<close>

definition getTransportName :: "writer \<Rightarrow> bytes" where
  "getTransportName w = GetTransportName w"

definition client_GetTransport :: "writer option option \<Rightarrow> bytes outcome" where
  "client_GetTransport c =
     (case c of
        None \<Rightarrow> Panicked
      | Some None \<Rightarrow> Done ''''
      | Some (Some w) \<Rightarrow> Done (getTransportName w))"

definition Client_GetTransport :: "writer option option option \<Rightarrow> bytes outcome" where
  "Client_GetTransport c = (case c of None \<Rightarrow> Panicked | Some ce \<Rightarrow> client_GetTransport ce)"

text \<open>The names the model of construction uses are those of the opened transports.\<close>

lemma transportName_opened:
  "open_writer o' wt ct [] t = Inr w \<Longrightarrow> GetTransportName w = transportName t"
  by (auto simp: open_writer_def transportName_def newUDPWriter_def udp_GetTransportName_def
      newUDSWriter_for_def newUDSWriter_def uds_GetTransportName_def newWindowsPipeWriter_def
      pipe_GetTransportName_def newPipeWriter_def map_sum_def split: transport.splits if_splits sum.splits option.splits)

end
