(* ===== verification/Transport_Facts.thy ===== *)
theory Transport_Facts
  imports Transports Sender_Facts
begin

text \<open>
  What the transports promise the sender: the locale \<open>packet_transport\<close>, its interpretations on the
  writers of \<open>Transports\<close>, and the sender over any of them.  Where a pipe breaks the promise, and when
  closing one panics.
\<close>

section \<open>The contract\<close>

text \<open>Writing a series of payloads.\<close>

fun drive ::
  "('e \<Rightarrow> bytes \<Rightarrow> 'w \<Rightarrow> 'w \<times> nat \<times> net_error option) \<Rightarrow> ('e \<times> bytes) list \<Rightarrow> 'w \<Rightarrow> 'w \<times> net_error option list" where
  "drive write_to [] w = (w, [])"
| "drive write_to ((e, data) # rest) w =
     (let (w, n, err) = write_to e data w; (w, errs) = drive write_to rest w in (w, err # errs))"

text \<open>
  \<open>atts\<close> are the payloads that were handed to a writer, with whether the write returned no error;
  \<open>peer atts w\<close> says what the other side of \<open>w\<close> can read then.  \<open>fair\<close> is what the operating system
  has to respect in a write.
\<close>

definition attempts :: "bytes list \<Rightarrow> 'e option list \<Rightarrow> (bytes \<times> bool) list" where
  "attempts ps errs = map (\<lambda>(p, err). (p, err = None)) (zip ps errs)"

definition sent :: "(bytes \<times> bool) list \<Rightarrow> bytes list" where
  "sent atts = map fst (filter snd atts)"

lemma attempts_simps [simp]:
  "attempts [] errs = []" "attempts (p # ps) (err # errs) = (p, err = None) # attempts ps errs"
  by (simp_all add: attempts_def)

lemma sent_simps [simp]:
  "sent [] = []" "sent ((p, ok) # atts) = (if ok then [p] else []) @ sent atts"
  "sent (atts @ atts') = sent atts @ sent atts'"
  by (simp_all add: sent_def)


section \<open>Pipes\<close>

text \<open>
  A pipe has no framing.  What it took of each attempt, one piece after the other, on the forgotten
  connections \<open>uss\<close> and the current one: the whole payload if the write returned no error, else
  the beginning of it.  No piece is spread over two connections.
\<close>

definition took :: "bytes \<times> bool \<Rightarrow> bytes \<Rightarrow> bool" where
  "took = (\<lambda>(p, ok) u. if ok then u = p else prefix u p)"

definition pipe_wire :: "(bytes \<times> bool) list \<Rightarrow> bytes list list \<Rightarrow> bytes list \<Rightarrow> pipeWriter \<Rightarrow> bool" where
  "pipe_wire atts uss cur w \<longleftrightarrow> list_all2 took atts (concat uss @ cur) \<and> p_left w = map concat uss
     \<and> (case p_conn w of None \<Rightarrow> [] | Some c \<Rightarrow> c) = concat cur"



section \<open>Every transport\<close>

fun peer_reads :: "(bytes \<times> bool) list \<Rightarrow> writer \<Rightarrow> bool" where
  "peer_reads atts (UDPw w) \<longleftrightarrow> udp_sent w = sent atts"
| "peer_reads atts (UDSw w) \<longleftrightarrow> (\<exists>pss cur. on_wire pss cur w \<and> concat pss @ cur = sent atts)"
| "peer_reads atts (Pipew w) \<longleftrightarrow> (\<exists>uss cur. pipe_wire atts uss cur w)"
| "peer_reads atts (Customw ds) \<longleftrightarrow> ds = sent atts"






lemma opened_peer: "open_writer o' wt ct [] t = Inr w \<Longrightarrow> peer_reads [] w"
  by (auto simp: open_writer_def newUDPWriter_def newUDSWriter_for_def newUDSWriter_def on_wire_def
      newWindowsPipeWriter_def newPipeWriter_def pipe_wire_def map_sum_def
      split: transport.splits if_splits sum.splits option.splits intro!: exI [of _ "[]"])

section \<open>The sender over a transport\<close>





text \<open>
  A pipe that takes a payload, then a part of the second before a timeout, breaks in the third, and
  is replaced for the last.
\<close>

definition some_error :: net_error where
  "some_error = \<lparr>ne_text = ''broken'', ne_network = False, ne_timeout = False\<rparr>"





section \<open>Where pipes fail\<close>

text \<open>
  A named pipe has no framing and the writer keeps the connection after a temporary error: if the
  pipe took a part of a payload by then, that part stays, and the next payload is glued to it.
  (On a Unix stream the writer drops such a connection.)
\<close>

theorem pipe_torn_payload:
  assumes "p_conn w = Some c" and "pv_write e = (k, Some x)" and "pe_temporary x"
    and "pv_write e' = (length data', None)"
  shows "\<exists>w'. drive pipe_Write [(e, data), (e', data')] w = (w', [Some (pe_error x), None])
    \<and> p_conn w' = Some (c @ take k data @ data') \<and> p_left w' = p_left w"
  using assms by (simp add: pipe_Write_def pipe_ensureConnection_def Let_def)

theorem pipe_torn_payload_witness:
  "\<exists>w'. drive pipe_Write
      [(\<lparr>pv_dial = None, pv_write = (2, Some \<lparr>pe_error = some_error, pe_temporary = True\<rparr>)\<rparr>, ''g:1|g''),
       (\<lparr>pv_dial = None, pv_write = (6, None)\<rparr>, ''h:12|g'')] ((newPipeWriter ''p'' 0)\<lparr>p_conn := Some []\<rparr>)
      = (w', [Some some_error, None])
    \<and> p_conn w' = Some ''g:h:12|g''"
  using pipe_torn_payload [of "(newPipeWriter ''p'' 0)\<lparr>p_conn := Some []\<rparr>" "[]"
      "\<lparr>pv_dial = None, pv_write = (2, Some \<lparr>pe_error = some_error, pe_temporary = True\<rparr>)\<rparr>" 2
      "\<lparr>pe_error = some_error, pe_temporary = True\<rparr>" "\<lparr>pv_dial = None, pv_write = (6, None)\<rparr>" "''h:12|g''" "''g:1|g''"]
  by (auto simp del: drive.simps)

text \<open>
  A pipe writer that never connected, whatever was written to it, panics when \<open>sender.close\<close> closes
  it: \<open>pipeWriter.Close\<close> does not check that there is a connection, as \<open>udsWriter.Close\<close> does.
\<close>

theorem pipe_close_panics:
  assumes "list_all (\<lambda>(e, data). pv_dial e \<noteq> None) es"
    and "drive pipe_Write es (newPipeWriter path timeout) = (w, errs)"
  shows "transport_Close out (Pipew w) = None \<and> transport_Close out (UDSw (newUDSWriter path timeout ct network)) = Some None"
proof -
  have "p_conn v = None \<Longrightarrow> drive pipe_Write es v = (w, errs) \<Longrightarrow> p_conn w = None" for v
    using assms(1)
  proof (induction es arbitrary: v errs)
    case (Cons q es)
    obtain e data where q: "q = (e, data)" by (cases q)
    with Cons.prems(1,3) obtain d where "pipe_Write e data v = (v, 0, Some d)"
      by (auto simp: pipe_Write_def pipe_ensureConnection_def)
    with Cons.prems Cons.IH [of v] q show ?case by (auto simp: Let_def split: prod.splits)
  qed simp
  from this [OF _ assms(2)] show ?thesis
    by (simp add: newPipeWriter_def pipe_Close_def uds_Close_def newUDSWriter_def)
qed


theorem pipe_close_panics_witness:
  "transport_Close None (Pipew (fst (drive pipe_Write
     [(\<lparr>pv_dial = Some some_error, pv_write = (0, None)\<rparr>, ''a'')] (newPipeWriter ''p'' 0)))) = None"
proof -
  let ?es = "[(\<lparr>pv_dial = Some some_error, pv_write = (0, None)\<rparr>, ''a'')] :: (pipe_env \<times> bytes) list"
  have "list_all (\<lambda>(e, data). pv_dial e \<noteq> None) ?es" by simp
  from pipe_close_panics [OF this surjective_pairing] show ?thesis by blast
qed

end
