(* ===== verification/ErrorHandler.thy ===== *)
theory ErrorHandler
  imports Client
begin

text \<open>
  \<open>src/statsd/error_handler.go\<close>: the error handler that logs.  A handler is called with an \<open>error\<close>, of
  which it tells three kinds apart; the result is the line it logs.
\<close>

section \<open>The code\<close>

datatype go_error =
    InputChannelFull metric nat bytes
  | SenderChannelFull int nat bytes
  | OtherError bytes

text \<open>\<open>%s\<close> of a slice of strings.\<close>

fun join_spaces :: "bytes list \<Rightarrow> bytes" where
  "join_spaces [] = ''''"
| "join_spaces [s] = s"
| "join_spaces (s # ss) = s @ '' '' @ join_spaces ss"

definition fmt_strings :: "bytes list \<Rightarrow> bytes" where
  "fmt_strings ss = ''['' @ join_spaces ss @ '']''"

definition LoggingErrorHandler :: "go_error \<Rightarrow> bytes" where
  "LoggingErrorHandler err =
     (case err of
        InputChannelFull m channelSize msg \<Rightarrow>
          ''Input Queue is full ('' @ fmt_int (int channelSize) @ '' elements): '' @ m_name m @ '' ''
          @ fmt_strings (m_tags m) @ '' dropped - '' @ msg
          @ '' - increase channel buffer size with `WithChannelModeBufferSize()`''
      | SenderChannelFull lostElements channelSize msg \<Rightarrow>
          ''Sender Queue is full ('' @ fmt_int (int channelSize) @ '' elements): '' @ fmt_int lostElements
          @ '' metrics dropped - '' @ msg @ '' - increase sender queue size with `WithSenderQueueSize()`''
      | OtherError txt \<Rightarrow> ''Error: '' @ txt)"

text \<open>The errors the sender hands to its handler, and those of a client.\<close>

definition sender_go_error :: "sender_error \<Rightarrow> go_error" where
  "sender_go_error err =
     (case err of
        ErrorSenderChannelFull lost channelSize \<Rightarrow> SenderChannelFull lost channelSize ''Sender queue is full''
      | TransportError txt \<Rightarrow> OtherError txt)"

text \<open>The methods \<open>Error\<close>; a nil dereference is a panic and has no text.\<close>

definition write_error_text :: "write_error \<Rightarrow> bytes option" where
  "write_error_text err =
     (case err of
        errBufferFull \<Rightarrow> Some ''message too long. See 'WithMaxBytesPerPayload' documentation.''
      | errPartialWrite \<Rightarrow> Some ''value partially written''
      | nilDereference \<Rightarrow> None)"

definition client_error_text :: "client_error \<Rightarrow> bytes option" where
  "client_error_text err =
     (case err of
        ErrNoClient \<Rightarrow> Some ''statsd client is nil''
      | InvalidTimestamp \<Rightarrow> Some ''invalid timestamp''
      | ErrorInputChannelFull m channelSize msg \<Rightarrow> Some msg
      | WorkerError err \<Rightarrow> write_error_text err)"

definition client_go_error :: "client_error \<Rightarrow> go_error option" where
  "client_go_error err =
     (case err of
        ErrorInputChannelFull m channelSize msg \<Rightarrow> Some (InputChannelFull m channelSize msg)
      | _ \<Rightarrow> map_option OtherError (client_error_text err))"

section \<open>What a log tells\<close>

text \<open>The three kinds of line cannot be confused.\<close>

lemma logged_kinds:
  "take 6 (LoggingErrorHandler (InputChannelFull m n msg)) = ''Input ''"
  "take 6 (LoggingErrorHandler (SenderChannelFull k n msg)) = ''Sender''"
  "take 6 (LoggingErrorHandler (OtherError msg)) = ''Error:''"
  by (simp_all add: LoggingErrorHandler_def)

text \<open>A dropped metric is logged with its name and tags.\<close>

lemma logged_drop:
  assumes "dropOnReceive m n msg c = (c', err)" and "c_hasErrorHandler c"
  shows "map_option LoggingErrorHandler (client_go_error (last (c_handled c')))
    = Some (''Input Queue is full ('' @ fmt_int (int n) @ '' elements): '' @ m_name m @ '' ''
        @ fmt_strings (m_tags m) @ '' dropped - '' @ msg
        @ '' - increase channel buffer size with `WithChannelModeBufferSize()`'')"
proof -
  have "client_go_error (last (c_handled c')) = Some (InputChannelFull m n msg)"
    using assms by (auto simp: dropOnReceive_def client_go_error_def Let_def)
  then show ?thesis
    by (simp add: LoggingErrorHandler_def)
qed

end
