(* ===== verification/Lifecycle.thy ===== *)
theory Lifecycle
  imports Client
begin

text \<open>
  The threads of a client and what they wait for: the goroutines that \<open>newWithWriter\<close> starts
  (\<open>watch\<close>, the ticker of the aggregator, its readers in channel mode, the readers of the workers,
  telemetry, the send loop), and the callers of \<open>Flush\<close>, \<open>Close\<close>, \<open>IsClosed\<close> and of the methods that
  need the lock of a worker.  The state holds the program counter of each, the locks and the
  signals; what the threads compute is left to the other theories.  An action is one step between
  two points where a thread can wait.
\<close>

section \<open>Program counters\<close>

datatype routine = WatchLoop | TelemetryLoop | AggLoop | AggPullLoop nat | WorkerLoop nat

text \<open>
  A goroutine selects; it is busy, with the list of the workers whose lock it has still to take;
  or it is gone.  \<open>Leaving\<close> is telemetry in \<open>t.sender.close()\<close>.
\<close>

datatype rstate = Selecting | Busy "nat list" | Leaving | Gone

text \<open>
  The send loop selects, drains the queue for a flush, or answers that flush; it has received the
  stop signal, or it has ended and closed the channel \<open>stop\<close>.
\<close>

datatype send_loop = SendSelect | SendDraining | SendAnswering | SendLeaving | SendEnded

text \<open>
  A caller.  The flag of the states of \<open>Flush\<close> tells whether \<open>Close\<close> has called it: the metrics of
  the aggregator are handed to workers, then the workers are paused in order, the send loop is
  signalled, and the deferred calls unpause the workers, the last first.
\<close>

datatype caller =
    Idle
  | Sending nat
  | AskClosed
  | FlushAgg "nat list" bool
  | Pausing nat bool
  | Signalling bool
  | Awaiting bool
  | Unpausing nat bool
  | WantClose
  | StopWorker nat
  | StopAggPull
  | WaitAggPull
  | StopAgg
  | WaitGroup
  | StopLoop
  | AwaitStop

record life =
  lf_channel :: bool
  lf_agg :: bool
  lf_aggChannel :: bool
  lf_routine :: "routine \<Rightarrow> rstate"
  lf_send :: send_loop
  lf_own :: "send_loop option"
  lf_stop :: bool
  lf_stopPull :: bool
  lf_closed :: bool
  lf_closer :: "nat option"
  lf_locks :: "nat option list"
  lf_callers :: "caller list"

definition become :: "routine \<Rightarrow> rstate \<Rightarrow> life \<Rightarrow> life" where
  "become r st s = s\<lparr>lf_routine := (lf_routine s)(r := st)\<rparr>"

section \<open>Starting the goroutines\<close>

definition agg_start :: "life \<Rightarrow> life" where
  "agg_start s = become AggLoop Selecting s"

definition agg_startReceivingMetric :: "nat \<Rightarrow> life \<Rightarrow> life" where
  "agg_startReceivingMetric nbWorkers s =
     foldl (\<lambda>s i. become (AggPullLoop i) Selecting s) s [0..<nbWorkers]"

definition worker_startReceivingMetric :: "nat \<Rightarrow> life \<Rightarrow> life" where
  "worker_startReceivingMetric i s = become (WorkerLoop i) Selecting s"

text \<open>\<open>own\<close>: telemetry has an address, hence a sender, of its own.\<close>

definition telemetry_run :: "bool \<Rightarrow> life \<Rightarrow> life" where
  "telemetry_run own s =
     become TelemetryLoop Selecting (s\<lparr>lf_own := (if own then Some SendSelect else None)\<rparr>)"

text \<open>
  What \<open>newWithWriter\<close> starts, in its order, for the client \<open>c\<close> that it makes; \<open>callers\<close> threads will
  use the client.  The send loop starts in \<open>newSender\<close>.
\<close>

definition life_start :: "ClientEx \<Rightarrow> bool \<Rightarrow> bool \<Rightarrow> nat \<Rightarrow> life" where
  "life_start c telemetry own callers =
     (let n = length (c_workers c);
          aggChannel = (c_agg c \<noteq> None \<and> c_extended c \<and> c_aggregatorMode c = channelMode);
          s = \<lparr>lf_channel = (c_workersMode c = channelMode), lf_agg = (c_agg c \<noteq> None),
               lf_aggChannel = aggChannel, lf_routine = (\<lambda>_. Gone),
               lf_send = SendSelect, lf_own = None, lf_stop = False, lf_stopPull = False,
               lf_closed = False, lf_closer = None, lf_locks = replicate n None,
               lf_callers = replicate callers Idle\<rparr>;
          s = (if c_agg c \<noteq> None then agg_start s else s);
          s = (if aggChannel then agg_startReceivingMetric n s else s);
          s = (if c_workersMode c = channelMode
               then foldl (\<lambda>s i. worker_startReceivingMetric i s) s [0..<n] else s);
          s = become WatchLoop Selecting s
      in if telemetry then telemetry_run own s else s)"

section \<open>Steps of a caller\<close>

definition lock_free :: "nat \<Rightarrow> life \<Rightarrow> bool" where
  "lock_free i s \<longleftrightarrow> i < length (lf_locks s) \<and> lf_locks s ! i = None"

definition goto :: "nat \<Rightarrow> caller \<Rightarrow> life \<Rightarrow> life" where
  "goto j pc s = s\<lparr>lf_callers := (lf_callers s)[j := pc]\<rparr>"

text \<open>The workers of the metrics that the aggregator flushes.\<close>

definition metrics_ok :: "nat list \<Rightarrow> life \<Rightarrow> bool" where
  "metrics_ok ws s \<longleftrightarrow> list_all (\<lambda>i. i < length (lf_locks s)) ws \<and> (lf_agg s \<or> ws = [])"

definition worker_pause :: "nat \<Rightarrow> nat \<Rightarrow> life \<Rightarrow> life option" where
  "worker_pause j k s = (if lock_free k s then Some (s\<lparr>lf_locks := (lf_locks s)[k := Some j]\<rparr>) else None)"

definition worker_unpause :: "nat \<Rightarrow> life \<Rightarrow> life" where
  "worker_unpause k s = s\<lparr>lf_locks := (lf_locks s)[k := None]\<rparr>"

text \<open>
  \<open>sender.flush\<close> in its two halves: the send loop takes the signal, and gives it back.
\<close>

definition signal_flush :: "life \<Rightarrow> life option" where
  "signal_flush s = (if lf_send s = SendSelect then Some (s\<lparr>lf_send := SendDraining\<rparr>) else None)"

definition take_answer :: "life \<Rightarrow> life option" where
  "take_answer s = (if lf_send s = SendAnswering then Some (s\<lparr>lf_send := SendSelect\<rparr>) else None)"

text \<open>
  \<open>Flush\<close>.  A critical section of a worker that takes and releases its lock is one step; only
  \<open>Flush\<close> keeps locks.  \<open>None\<close> means that the caller has to wait.
\<close>

definition flush_step :: "nat \<Rightarrow> life \<Rightarrow> life option" where
  "flush_step j s =
     (case lf_callers s ! j of
        FlushAgg [] b \<Rightarrow> Some (goto j (Pausing 0 b) s)
      | FlushAgg (i # ws) b \<Rightarrow> if lock_free i s then Some (goto j (FlushAgg ws b) s) else None
      | Pausing k b \<Rightarrow>
          if k < length (lf_locks s)
          then map_option (goto j (Pausing (k + 1) b)) (worker_pause j k s)
          else Some (goto j (Signalling b) s)
      | Signalling b \<Rightarrow> map_option (goto j (Awaiting b)) (signal_flush s)
      | Awaiting b \<Rightarrow> map_option (goto j (Unpausing (length (lf_locks s)) b)) (take_answer s)
      | Unpausing 0 b \<Rightarrow>
          if b then Some (goto j StopLoop (s\<lparr>lf_closed := True\<rparr>)) else Some (goto j Idle s)
      | Unpausing (Suc k) b \<Rightarrow> Some (goto j (Unpausing k b) (worker_unpause k s))
      | _ \<Rightarrow> None)"

text \<open>
  The channels \<open>w.stop\<close>, \<open>a.closed\<close> and \<open>s.stop\<close> have no buffer: a signal waits until the goroutine
  selects.  \<open>stopReceivingMetric\<close> of the aggregator closes a channel, and waits for the readers.
\<close>

definition worker_stopReceivingMetric :: "nat \<Rightarrow> life \<Rightarrow> life option" where
  "worker_stopReceivingMetric k s =
     (if lf_routine s (WorkerLoop k) = Selecting then Some (become (WorkerLoop k) Gone s) else None)"

definition agg_stopReceivingMetric :: "life \<Rightarrow> life" where
  "agg_stopReceivingMetric s = s\<lparr>lf_stopPull := True\<rparr>"

definition agg_readers_gone :: "life \<Rightarrow> bool" where
  "agg_readers_gone s \<longleftrightarrow>
     list_all (\<lambda>i. lf_routine s (AggPullLoop i) = Gone) [0..<length (lf_locks s)]"

definition agg_stop :: "life \<Rightarrow> life option" where
  "agg_stop s = (if lf_routine s AggLoop = Selecting then Some (become AggLoop Gone s) else None)"

definition signal_stop :: "life \<Rightarrow> life option" where
  "signal_stop s = (if lf_send s = SendSelect then Some (s\<lparr>lf_send := SendLeaving\<rparr>) else None)"

text \<open>
  \<open>Close\<close>; \<open>ws\<close> are the metrics of the aggregator for the flush at the end.
\<close>

definition close_step :: "nat \<Rightarrow> nat list \<Rightarrow> life \<Rightarrow> life option" where
  "close_step j ws s =
     (case lf_callers s ! j of
        WantClose \<Rightarrow>
          if lf_closer s \<noteq> None then None
          else if lf_closed s \<or> lf_stop s then Some (goto j Idle s)
          else Some (goto j (StopWorker 0) (s\<lparr>lf_closer := Some j, lf_stop := True\<rparr>))
      | StopWorker k \<Rightarrow>
          if lf_channel s \<and> k < length (lf_locks s)
          then map_option (goto j (StopWorker (k + 1))) (worker_stopReceivingMetric k s)
          else Some (goto j StopAggPull s)
      | StopAggPull \<Rightarrow>
          if lf_aggChannel s then Some (goto j WaitAggPull (agg_stopReceivingMetric s))
          else Some (goto j StopAgg s)
      | WaitAggPull \<Rightarrow> if agg_readers_gone s then Some (goto j StopAgg s) else None
      | StopAgg \<Rightarrow>
          if lf_agg s then map_option (goto j WaitGroup) (agg_stop s) else Some (goto j WaitGroup s)
      | WaitGroup \<Rightarrow>
          if lf_routine s WatchLoop = Gone \<and> lf_routine s TelemetryLoop = Gone
          then Some (goto j (FlushAgg ws True) s) else None
      | StopLoop \<Rightarrow> map_option (goto j AwaitStop) (signal_stop s)
      | AwaitStop \<Rightarrow>
          if lf_send s = SendEnded then Some (goto j Idle (s\<lparr>lf_closer := None\<rparr>)) else None
      | _ \<Rightarrow> None)"

text \<open>
  \<open>processMetric\<close> of a worker waits for its lock; the critical section is one step.  \<open>IsClosed\<close> waits
  for the lock that \<open>Close\<close> holds.
\<close>

definition send_lock_step :: "nat \<Rightarrow> life \<Rightarrow> life option" where
  "send_lock_step j s =
     (case lf_callers s ! j of
        Sending i \<Rightarrow> if lock_free i s then Some (goto j Idle s) else None
      | _ \<Rightarrow> None)"

definition isClosed_step :: "nat \<Rightarrow> life \<Rightarrow> life option" where
  "isClosed_step j s =
     (case lf_callers s ! j of
        AskClosed \<Rightarrow> if lf_closer s = None then Some (goto j Idle s) else None
      | _ \<Rightarrow> None)"

text \<open>The step of a caller is that of the method it is in.\<close>

definition caller_step :: "nat \<Rightarrow> nat list \<Rightarrow> life \<Rightarrow> life option" where
  "caller_step j ws s =
     (if \<not> (j < length (lf_callers s) \<and> metrics_ok ws s) then None
      else case lf_callers s ! j of
        Sending _ \<Rightarrow> send_lock_step j s
      | AskClosed \<Rightarrow> isClosed_step j s
      | FlushAgg _ _ \<Rightarrow> flush_step j s
      | Pausing _ _ \<Rightarrow> flush_step j s
      | Signalling _ \<Rightarrow> flush_step j s
      | Awaiting _ \<Rightarrow> flush_step j s
      | Unpausing _ _ \<Rightarrow> flush_step j s
      | _ \<Rightarrow> close_step j ws s)"

text \<open>
  Both directions of a flush use one channel without a buffer: while one caller waits for the answer,
  it can take the signal that another one sends.
\<close>

definition steal_step :: "nat \<Rightarrow> nat \<Rightarrow> life \<Rightarrow> life option" where
  "steal_step j j' s =
     (if j < length (lf_callers s) \<and> j' < length (lf_callers s)
      then case (lf_callers s ! j, lf_callers s ! j') of
          (Awaiting b, Signalling b') \<Rightarrow>
            Some (goto j' (Awaiting b') (goto j (Unpausing (length (lf_locks s)) b) s))
        | _ \<Rightarrow> None
      else None)"

section \<open>Steps of the goroutines\<close>

text \<open>
  What a turn of a goroutine does with the locks of the workers: \<open>watch\<close> flushes all of them, the
  aggregator and telemetry hand over metrics, a reader processes one metric.
\<close>

definition turn_ok :: "routine \<Rightarrow> nat list \<Rightarrow> life \<Rightarrow> bool" where
  "turn_ok r ws s =
     (case r of
        WatchLoop \<Rightarrow> ws = [0..<length (lf_locks s)]
      | TelemetryLoop \<Rightarrow> list_all (\<lambda>i. i < length (lf_locks s)) ws
          \<and> (lf_own s \<noteq> None \<or> lf_channel s \<longrightarrow> ws = [])
      | AggLoop \<Rightarrow> metrics_ok ws s
      | AggPullLoop i \<Rightarrow> ws = []
      | WorkerLoop i \<Rightarrow> ws = [i])"

text \<open>The case of \<open>select\<close> that makes a goroutine return, where it is a closed channel.\<close>

definition told_to_stop :: "routine \<Rightarrow> life \<Rightarrow> bool" where
  "told_to_stop r s =
     (case r of
        WatchLoop \<Rightarrow> lf_stop s | TelemetryLoop \<Rightarrow> lf_stop s | AggPullLoop _ \<Rightarrow> lf_stopPull s
      | _ \<Rightarrow> False)"

definition routine_step :: "routine \<Rightarrow> life \<Rightarrow> life option" where
  "routine_step r s =
     (case lf_routine s r of
        Selecting \<Rightarrow>
          if told_to_stop r s
          then Some (become r (if r = TelemetryLoop \<and> lf_own s \<noteq> None then Leaving else Gone) s)
          else None
      | Busy [] \<Rightarrow> Some (become r Selecting s)
      | Busy (i # ws) \<Rightarrow> if lock_free i s then Some (become r (Busy ws) s) else None
      | Leaving \<Rightarrow>
          (case lf_own s of
             Some SendSelect \<Rightarrow> Some (s\<lparr>lf_own := Some SendLeaving\<rparr>)
           | Some SendEnded \<Rightarrow> Some (become r Gone s)
           | _ \<Rightarrow> None)
      | Gone \<Rightarrow> None)"

definition send_step :: "life \<Rightarrow> life option" where
  "send_step s =
     (case lf_send s of
        SendDraining \<Rightarrow> Some (s\<lparr>lf_send := SendAnswering\<rparr>)
      | SendLeaving \<Rightarrow> Some (s\<lparr>lf_send := SendEnded\<rparr>)
      | _ \<Rightarrow> None)"

definition own_step :: "life \<Rightarrow> life option" where
  "own_step s = (if lf_own s = Some SendLeaving then Some (s\<lparr>lf_own := Some SendEnded\<rparr>) else None)"

section \<open>Actions\<close>

text \<open>
  The first five come from outside: a call begins, or a goroutine is woken by its ticker or its
  channel.  The others are the steps of what has begun.
\<close>

datatype life_action =
    BeginSend nat nat
  | BeginFlush nat "nat list"
  | BeginClose nat
  | BeginAsk nat
  | Wake routine "nat list"
  | CallerStep nat "nat list"
  | Steal nat nat
  | RoutineStep routine
  | SendStep
  | OwnStep

definition begin_call :: "nat \<Rightarrow> caller \<Rightarrow> life \<Rightarrow> life option" where
  "begin_call j pc s =
     (if j < length (lf_callers s) \<and> lf_callers s ! j = Idle then Some (goto j pc s) else None)"

fun life_do :: "life_action \<Rightarrow> life \<Rightarrow> life option" where
  "life_do (BeginSend j i) s =
     (if \<not> lf_channel s \<and> i < length (lf_locks s) then begin_call j (Sending i) s else None)"
| "life_do (BeginFlush j ws) s =
     (if metrics_ok ws s then begin_call j (FlushAgg ws False) s else None)"
| "life_do (BeginClose j) s = begin_call j WantClose s"
| "life_do (BeginAsk j) s = begin_call j AskClosed s"
| "life_do (Wake r ws) s =
     (if lf_routine s r = Selecting \<and> turn_ok r ws s then Some (become r (Busy ws) s) else None)"
| "life_do (CallerStep j ws) s = caller_step j ws s"
| "life_do (Steal j j') s = steal_step j j' s"
| "life_do (RoutineStep r) s = routine_step r s"
| "life_do SendStep s = send_step s"
| "life_do OwnStep s = own_step s"

fun internal :: "life_action \<Rightarrow> bool" where
  "internal (BeginSend j i) = False"
| "internal (BeginFlush j ws) = False"
| "internal (BeginClose j) = False"
| "internal (BeginAsk j) = False"
| "internal (Wake r ws) = False"
| "internal _ = True"

fun life_run :: "life_action list \<Rightarrow> life \<Rightarrow> life option" where
  "life_run [] s = Some s"
| "life_run (a # as) s = Option.bind (life_do a s) (life_run as)"

text \<open>A step of what has begun, whatever the scheduler chooses.\<close>

inductive internal_step :: "life \<Rightarrow> life \<Rightarrow> bool" where
  "internal a \<Longrightarrow> life_do a s = Some s' \<Longrightarrow> internal_step s s'"

text \<open>Every way to go on leads to a state with \<open>P\<close>.\<close>

inductive inevitable :: "(life \<Rightarrow> bool) \<Rightarrow> life \<Rightarrow> bool" for P where
  now: "P s \<Longrightarrow> inevitable P s"
| later: "\<exists>s'. internal_step s s' \<Longrightarrow> (\<And>s'. internal_step s s' \<Longrightarrow> inevitable P s') \<Longrightarrow> inevitable P s"

section \<open>States\<close>

definition routines :: "life \<Rightarrow> routine list" where
  "routines s = [WatchLoop, TelemetryLoop, AggLoop]
     @ map AggPullLoop [0..<length (lf_locks s)] @ map WorkerLoop [0..<length (lf_locks s)]"

text \<open>Nothing that has begun is left: all calls have returned, and no goroutine is in a turn.\<close>

definition settled :: "life \<Rightarrow> bool" where
  "settled s \<longleftrightarrow> list_all (\<lambda>pc. pc = Idle) (lf_callers s)
     \<and> list_all (\<lambda>r. lf_routine s r = Selecting \<or> lf_routine s r = Gone) (routines s)
     \<and> (lf_send s = SendSelect \<or> lf_send s = SendEnded)"

text \<open>All goroutines have ended.\<close>

definition all_gone :: "life \<Rightarrow> bool" where
  "all_gone s \<longleftrightarrow> list_all (\<lambda>r. lf_routine s r = Gone) (routines s) \<and> lf_send s = SendEnded
     \<and> (lf_own s = None \<or> lf_own s = Some SendEnded)"

text \<open>A caller of \<open>Flush\<close> signals a send loop that has ended.\<close>

definition flush_stuck :: "life \<Rightarrow> bool" where
  "flush_stuck s \<longleftrightarrow> lf_send s = SendEnded
     \<and> list_ex (\<lambda>pc. pc = Signalling False) (lf_callers s)"

end
