(* ===== verification/Lifecycle_Facts.thy ===== *)
theory Lifecycle_Facts
  imports Lifecycle
begin

text \<open>
  The invariant of the threads, and what follows from it: flushes exclude each other, \<open>Close\<close> ends
  every goroutine, everything that has begun comes to an end however the steps are scheduled, but
  for a \<open>Flush\<close> that \<open>Close\<close> overtakes.
\<close>

section \<open>The invariant\<close>

text \<open>The locks that a caller holds.\<close>

fun holds_lock :: "nat \<Rightarrow> caller \<Rightarrow> bool" where
  "holds_lock i (Pausing k b) = (i < k)"
| "holds_lock i (Signalling b) = True"
| "holds_lock i (Awaiting b) = True"
| "holds_lock i (Unpausing k b) = (i < k)"
| "holds_lock i _ = False"

text \<open>How far \<open>Close\<close> has come; 0 for other callers.\<close>

fun stage_of :: "caller \<Rightarrow> nat" where
  "stage_of (StopWorker k) = 1"
| "stage_of StopAggPull = 2"
| "stage_of WaitAggPull = 3"
| "stage_of StopAgg = 4"
| "stage_of WaitGroup = 5"
| "stage_of (FlushAgg ws b) = (if b then 6 else 0)"
| "stage_of (Pausing k b) = (if b then 6 else 0)"
| "stage_of (Signalling b) = (if b then 6 else 0)"
| "stage_of (Awaiting b) = (if b then 6 else 0)"
| "stage_of (Unpausing k b) = (if b then 6 else 0)"
| "stage_of StopLoop = 7"
| "stage_of AwaitStop = 8"
| "stage_of _ = 0"

fun in_range :: "nat \<Rightarrow> caller \<Rightarrow> bool" where
  "in_range n (Sending i) = (i < n)"
| "in_range n (FlushAgg ws b) = list_all (\<lambda>i. i < n) ws"
| "in_range n (Pausing k b) = (k \<le> n)"
| "in_range n (Unpausing k b) = (k \<le> n)"
| "in_range n (StopWorker k) = (k \<le> n)"
| "in_range n _ = True"

fun awaits :: "caller \<Rightarrow> bool" where
  "awaits (Awaiting b) = True"
| "awaits _ = False"

text \<open>9 once \<open>Close\<close> has returned.\<close>

definition stage :: "life \<Rightarrow> nat" where
  "stage s = (case lf_closer s of
     Some j \<Rightarrow> stage_of (lf_callers s ! j) | None \<Rightarrow> if lf_stop s then 9 else 0)"

text \<open>The workers whose readers \<open>Close\<close> has stopped.\<close>

fun stopped_at :: "nat \<Rightarrow> caller \<Rightarrow> nat" where
  "stopped_at n (StopWorker k) = k"
| "stopped_at n _ = n"

definition stopped :: "life \<Rightarrow> nat" where
  "stopped s = (case lf_closer s of
     Some j \<Rightarrow> stopped_at (length (lf_locks s)) (lf_callers s ! j)
   | None \<Rightarrow> if lf_stop s then length (lf_locks s) else 0)"

definition callers_ok :: "life \<Rightarrow> bool" where
  "callers_ok s \<longleftrightarrow> (\<forall>j < length (lf_callers s). in_range (length (lf_locks s)) (lf_callers s ! j))
     \<and> (\<forall>j. (lf_closer s = Some j) = (j < length (lf_callers s) \<and> 0 < stage_of (lf_callers s ! j)))
     \<and> (\<forall>i < length (lf_locks s). \<forall>j. (lf_locks s ! i = Some j) =
          (j < length (lf_callers s) \<and> holds_lock i (lf_callers s ! j)))"

definition send_ok :: "life \<Rightarrow> bool" where
  "send_ok s \<longleftrightarrow>
     (lf_send s = SendDraining \<or> lf_send s = SendAnswering) = (\<exists>pc \<in> set (lf_callers s). awaits pc)
     \<and> (lf_send s = SendLeaving \<longrightarrow> stage s = 8)
     \<and> (lf_send s = SendEnded \<longrightarrow> 8 \<le> stage s)
     \<and> (stage s = 8 \<longrightarrow> lf_send s = SendLeaving \<or> lf_send s = SendEnded)
     \<and> (stage s = 9 \<longrightarrow> lf_send s = SendEnded)"

definition closing_ok :: "life \<Rightarrow> bool" where
  "closing_ok s \<longleftrightarrow> lf_stop s = (0 < stage s) \<and> lf_closed s = (7 \<le> stage s)
     \<and> lf_stopPull s = (3 \<le> stage s \<and> lf_aggChannel s)
     \<and> (lf_aggChannel s \<longrightarrow> lf_agg s)"

fun routine_ok :: "life \<Rightarrow> routine \<Rightarrow> rstate \<Rightarrow> bool" where
  "routine_ok s WatchLoop st = ((st = Gone \<longrightarrow> lf_stop s) \<and> (6 \<le> stage s \<longrightarrow> st = Gone) \<and> st \<noteq> Leaving)"
| "routine_ok s TelemetryLoop st = ((6 \<le> stage s \<longrightarrow> st = Gone)
     \<and> (case st of Gone \<Rightarrow> lf_own s = None \<or> lf_own s = Some SendEnded
        | Leaving \<Rightarrow> lf_stop s \<and> (lf_own s = Some SendSelect \<or> lf_own s = Some SendLeaving \<or> lf_own s = Some SendEnded)
        | _ \<Rightarrow> lf_own s = None \<or> lf_own s = Some SendSelect))"
| "routine_ok s AggLoop st = ((st = Gone) = (5 \<le> stage s \<or> \<not> lf_agg s) \<and> st \<noteq> Leaving)"
| "routine_ok s (AggPullLoop i) st = ((lf_aggChannel s \<and> i < length (lf_locks s) \<and> st = Gone \<longrightarrow> lf_stopPull s)
     \<and> (4 \<le> stage s \<or> \<not> (lf_aggChannel s \<and> i < length (lf_locks s)) \<longrightarrow> st = Gone) \<and> st \<noteq> Leaving)"
| "routine_ok s (WorkerLoop i) st =
     ((st = Gone) = (i < stopped s \<or> \<not> (lf_channel s \<and> i < length (lf_locks s))) \<and> st \<noteq> Leaving)"

definition busy_ok :: "nat \<Rightarrow> rstate \<Rightarrow> bool" where
  "busy_ok n st = (case st of Busy ws \<Rightarrow> list_all (\<lambda>i. i < n) ws | _ \<Rightarrow> True)"

definition life_ok :: "life \<Rightarrow> bool" where
  "life_ok s \<longleftrightarrow> 0 < length (lf_locks s) \<and> callers_ok s \<and> send_ok s \<and> closing_ok s
     \<and> (\<forall>r. routine_ok s r (lf_routine s r) \<and> busy_ok (length (lf_locks s)) (lf_routine s r))"

section \<open>Every action keeps it\<close>

lemma metrics_in_range: "metrics_ok ws s \<Longrightarrow> list_all (\<lambda>i. i < length (lf_locks s)) ws"
  by (simp add: metrics_ok_def)

lemma goto_simps [simp]:
  "lf_channel (goto j pc s) = lf_channel s" "lf_agg (goto j pc s) = lf_agg s"
  "lf_aggChannel (goto j pc s) = lf_aggChannel s" "lf_routine (goto j pc s) = lf_routine s"
  "lf_send (goto j pc s) = lf_send s" "lf_own (goto j pc s) = lf_own s" "lf_stop (goto j pc s) = lf_stop s"
  "lf_stopPull (goto j pc s) = lf_stopPull s" "lf_closed (goto j pc s) = lf_closed s"
  "lf_closer (goto j pc s) = lf_closer s" "lf_locks (goto j pc s) = lf_locks s"
  "lf_callers (goto j pc s) = (lf_callers s)[j := pc]"
  by (simp_all add: goto_def)

lemma become_simps [simp]:
  "lf_channel (become r st s) = lf_channel s" "lf_agg (become r st s) = lf_agg s"
  "lf_aggChannel (become r st s) = lf_aggChannel s" "lf_routine (become r st s) = (lf_routine s)(r := st)"
  "lf_send (become r st s) = lf_send s" "lf_own (become r st s) = lf_own s" "lf_stop (become r st s) = lf_stop s"
  "lf_stopPull (become r st s) = lf_stopPull s" "lf_closed (become r st s) = lf_closed s"
  "lf_closer (become r st s) = lf_closer s" "lf_locks (become r st s) = lf_locks s"
  "lf_callers (become r st s) = lf_callers s"
  by (simp_all add: become_def)

lemmas caller_step_defs = caller_step_def send_lock_step_def isClosed_step_def

lemmas flush_defs = flush_step_def worker_pause_def worker_unpause_def signal_flush_def take_answer_def

lemmas close_defs = close_step_def worker_stopReceivingMetric_def agg_stopReceivingMetric_def
  agg_readers_gone_def agg_stop_def signal_stop_def become_def

lemmas start_defs = agg_start_def agg_startReceivingMetric_def worker_startReceivingMetric_def telemetry_run_def

text \<open>The start.\<close>

lemma foldl_become:
  "foldl (\<lambda>s i. become (f i) Selecting s) s is
    = s\<lparr>lf_routine := (\<lambda>r. if r \<in> f ` set is then Selecting else lf_routine s r)\<rparr>"
  by (induction "is" arbitrary: s) (auto simp: become_def fun_eq_iff)

lemma life_start_routine:
  "lf_routine (life_start c telemetry own callers) r = (case r of
      WatchLoop \<Rightarrow> Selecting
    | TelemetryLoop \<Rightarrow> if telemetry then Selecting else Gone
    | AggLoop \<Rightarrow> if c_agg c \<noteq> None then Selecting else Gone
    | AggPullLoop i \<Rightarrow> if c_agg c \<noteq> None \<and> c_extended c \<and> c_aggregatorMode c = channelMode \<and> i < length (c_workers c)
        then Selecting else Gone
    | WorkerLoop i \<Rightarrow> if c_workersMode c = channelMode \<and> i < length (c_workers c) then Selecting else Gone)"
  by (cases r) (auto simp: life_start_def start_defs foldl_become Let_def)

lemma life_start_fields:
  "lf_channel (life_start c t own m) = (c_workersMode c = channelMode)" "lf_agg (life_start c t own m) = (c_agg c \<noteq> None)"
  "lf_aggChannel (life_start c t own m) = (c_agg c \<noteq> None \<and> c_extended c \<and> c_aggregatorMode c = channelMode)"
  "lf_send (life_start c t own m) = SendSelect" "lf_stop (life_start c t own m) = False"
  "lf_own (life_start c t own m) = (if t \<and> own then Some SendSelect else None)"
  "lf_stopPull (life_start c t own m) = False" "lf_closed (life_start c t own m) = False"
  "lf_closer (life_start c t own m) = None" "lf_locks (life_start c t own m) = replicate (length (c_workers c)) None"
  "lf_callers (life_start c t own m) = replicate m Idle"
  by (simp_all add: life_start_def start_defs foldl_become Let_def)

lemma life_start_ok:
  assumes "c_workers c \<noteq> []"
  shows "life_ok (life_start c telemetry own callers)" (is "life_ok ?s")
proof -
  have at: "stage ?s = 0" "stopped ?s = 0"
    by (simp_all add: stage_def stopped_def life_start_fields)
  have "routine_ok ?s r (lf_routine ?s r)" for r
    by (cases r) (simp_all add: life_start_routine life_start_fields at)
  moreover have "busy_ok n (lf_routine ?s r)" for n r
    by (cases r) (simp_all add: life_start_routine busy_ok_def)
  ultimately show ?thesis
    using assms by (simp add: life_ok_def callers_ok_def send_ok_def closing_ok_def at life_start_fields)
qed

text \<open>The parts of the invariant look at few fields; what does not touch them keeps them.\<close>

lemma stage_cong:
  assumes "lf_stop s' = lf_stop s" "lf_closer s' = lf_closer s" "lf_callers s' = lf_callers s"
    "lf_locks s' = lf_locks s"
  shows "stage s' = stage s" "stopped s' = stopped s" "callers_ok s' = callers_ok s"
  using assms by (simp_all add: stage_def stopped_def callers_ok_def split: option.splits)

lemma stopped_at_other: "stage_of pc \<noteq> 1 \<Longrightarrow> stopped_at n pc = n"
  by (cases pc) auto

lemma routine_ok_cong:
  assumes "lf_stop s' = lf_stop s" "lf_stopPull s' = lf_stopPull s" "lf_own s' = lf_own s"
    "stage s' = stage s" "stopped s' = stopped s" "lf_agg s' = lf_agg s" "lf_aggChannel s' = lf_aggChannel s"
    "lf_channel s' = lf_channel s" "length (lf_locks s') = length (lf_locks s)"
  shows "routine_ok s' r st = routine_ok s r st"
  using assms by (cases r) (simp_all split: rstate.split)

lemma life_okD:
  assumes "life_ok s"
  shows "callers_ok s" "send_ok s" "closing_ok s" "routine_ok s r (lf_routine s r)"
    "busy_ok (length (lf_locks s)) (lf_routine s r)"
  using assms by (simp_all add: life_ok_def)

lemma ex_update:
  assumes "P x = P (xs ! j)"
  shows "(\<exists>c \<in> set (xs[j := x]). P c) = (\<exists>c \<in> set xs. P c)"
proof -
  have "P (xs[j := x] ! i) = P (xs ! i)" if "i < length xs" for i
    using assms that by (cases "j < length xs") (simp_all add: nth_list_update list_update_beyond)
  moreover have "(\<exists>c \<in> set ys. P c) = (\<exists>i < length ys. P (ys ! i))" for ys
    by (auto simp: Bex_def in_set_conv_nth)
  ultimately show ?thesis by auto
qed

text \<open>A caller that moves within its stage, without changing who holds what.\<close>

lemma stage_goto:
  assumes "callers_ok s" and "j < length (lf_callers s)"
    and "stage_of pc = stage_of (lf_callers s ! j)"
  shows "stage (goto j pc s) = stage s"
  using assms by (auto simp: stage_def nth_list_update split: option.splits)

lemma goto_ok:
  assumes "life_ok s" and "j < length (lf_callers s)" and "lf_callers s ! j = old"
    and "stage_of pc = stage_of old" and "stage_of old \<noteq> 1" and "in_range (length (lf_locks s)) pc"
    and "\<And>i. i < length (lf_locks s) \<Longrightarrow> holds_lock i pc = holds_lock i old" and "awaits pc = awaits old"
  shows "life_ok (goto j pc s)"
proof -
  note ok = life_okD [OF assms(1)]
  have stage: "stage (goto j pc s) = stage s"
    using stage_goto [OF ok(1) assms(2)] assms(3,4) by simp
  have stopped: "stopped (goto j pc s) = stopped s"
    using assms(2-5) stopped_at_other [of pc] stopped_at_other [of old]
    by (auto simp: stopped_def nth_list_update split: option.splits)
  have "callers_ok (goto j pc s)"
    using ok(1) assms(2-4,6,7) unfolding callers_ok_def by (auto simp: nth_list_update)
  moreover have "(\<exists>c \<in> set ((lf_callers s)[j := pc]). awaits c) = (\<exists>c \<in> set (lf_callers s). awaits c)"
    using assms(3,8) by (intro ex_update) simp
  then have "send_ok (goto j pc s)"
    using ok(2) stage by (simp add: send_ok_def)
  moreover have "closing_ok (goto j pc s)"
    using ok(3) stage by (simp add: closing_ok_def)
  moreover have "routine_ok (goto j pc s) r st = routine_ok s r st" for r st
    by (rule routine_ok_cong) (simp_all add: stage stopped)
  ultimately show ?thesis
    using ok(4,5) assms(1) by (simp add: life_ok_def)
qed

lemma begin_call_ok:
  assumes "life_ok s" and "begin_call j pc s = Some s'" and "stage_of pc = 0"
    and "in_range (length (lf_locks s)) pc" and "\<And>i. \<not> holds_lock i pc" and "\<not> awaits pc"
  shows "life_ok s'"
  using assms goto_ok [OF assms(1), of j Idle pc] by (auto simp: begin_call_def split: if_splits)

lemma become_ok:
  assumes "life_ok s" and "routine_ok s r st" and "busy_ok (length (lf_locks s)) st"
  shows "life_ok (become r st s)"
proof -
  have same: "stage (become r st s) = stage s" "stopped (become r st s) = stopped s"
    "callers_ok (become r st s) = callers_ok s"
    by (rule stage_cong; simp)+
  then have "routine_ok (become r st s) r' x = routine_ok s r' x" for r' x
    by (intro routine_ok_cong) simp_all
  with life_okD [OF assms(1)] assms same show ?thesis
    by (simp add: life_ok_def send_ok_def closing_ok_def)
qed

lemma routine_ok_own:
  "r \<noteq> TelemetryLoop \<Longrightarrow> routine_ok (s\<lparr>lf_own := x\<rparr>) r st = routine_ok s r st"
  using stage_cong(1,2) [of "s\<lparr>lf_own := x\<rparr>" s] by (cases r) simp_all

lemma own_ok:
  assumes "life_ok s" and "lf_routine s TelemetryLoop = Leaving" and "x = SendLeaving \<or> x = SendEnded"
  shows "life_ok (s\<lparr>lf_own := Some x\<rparr>)"
proof -
  note same = stage_cong [of "s\<lparr>lf_own := Some x\<rparr>" s, simplified]
  have "routine_ok (s\<lparr>lf_own := Some x\<rparr>) r (lf_routine s r)" for r
    using life_okD(4) [OF assms(1), of r] assms(2,3) same(1) routine_ok_own
    by (cases "r = TelemetryLoop") auto
  with life_okD [OF assms(1)] assms(1) show ?thesis
    by (simp add: life_ok_def send_ok_def closing_ok_def same)
qed

lemma wake_ok:
  assumes "life_ok s" and "lf_routine s r = Selecting" and "turn_ok r ws s"
  shows "life_ok (become r (Busy ws) s)"
proof (rule become_ok [OF assms(1)])
  show "routine_ok s r (Busy ws)"
    using life_okD(4) [OF assms(1), of r] assms(2) by (cases r) auto
  have "r = WorkerLoop i \<Longrightarrow> i < length (lf_locks s)" for i
    using life_okD(4) [OF assms(1), of r] assms(2) by auto
  then show "busy_ok (length (lf_locks s)) (Busy ws)"
    using assms(3) by (cases r) (auto simp: turn_ok_def busy_ok_def metrics_ok_def list_all_iff)
qed

lemma routine_step_ok:
  assumes "life_ok s" and "routine_step r s = Some s'"
  shows "life_ok s'"
proof (cases "lf_routine s r")
  case Selecting
  with assms life_okD(4) [OF assms(1), of r] show ?thesis
    by (cases r) (auto simp: routine_step_def told_to_stop_def busy_ok_def split: if_splits intro!: become_ok)
next
  case (Busy ws)
  with assms life_okD(4,5) [OF assms(1), of r] show ?thesis
    by (cases r; cases ws) (auto simp: routine_step_def busy_ok_def split: if_splits intro!: become_ok)
next
  case Leaving
  have r: "r = TelemetryLoop"
    using life_okD(4) [OF assms(1), of r] Leaving by (cases r) auto
  show ?thesis
  proof (cases "lf_own s = Some SendEnded")
    case True
    with assms Leaving r life_okD(4) [OF assms(1), of r] show ?thesis
      by (auto simp: routine_step_def busy_ok_def split: if_splits intro!: become_ok)
  next
    case False
    then have s': "s' = s\<lparr>lf_own := Some SendLeaving\<rparr>"
      using assms(2) Leaving by (auto simp: routine_step_def split: option.splits send_loop.splits)
    show ?thesis
      unfolding s' by (rule own_ok [OF assms(1)]) (use Leaving r in auto)
  qed
next
  case Gone
  with assms show ?thesis by (simp add: routine_step_def)
qed

text \<open>Steps of \<open>Flush\<close>, which change locks or the send loop but not the stage.\<close>

lemma flush_move:
  assumes "life_ok s" and "j < length (lf_callers s)" and "stage_of pc = stage_of (lf_callers s ! j)"
    and "stage_of pc \<noteq> 1" and "length L = length (lf_locks s)"
    and "callers_ok (goto j pc (s\<lparr>lf_locks := L\<rparr>))"
    and "(sd = SendDraining \<or> sd = SendAnswering) = (\<exists>c \<in> set ((lf_callers s)[j := pc]). awaits c)"
    and "sd = lf_send s \<or> lf_send s \<notin> {SendLeaving, SendEnded} \<and> sd \<notin> {SendLeaving, SendEnded}"
  shows "life_ok (goto j pc (s\<lparr>lf_locks := L, lf_send := sd\<rparr>))"
proof -
  note ok = life_okD [OF assms(1)]
  let ?s = "goto j pc (s\<lparr>lf_locks := L, lf_send := sd\<rparr>)"
  have stage: "stage ?s = stage s"
    using assms(2,3) by (auto simp: stage_def nth_list_update split: option.splits)
  have stopped: "stopped ?s = stopped s"
    using assms(2-5) stopped_at_other [of pc] stopped_at_other [of "lf_callers s ! j"]
    by (auto simp: stopped_def nth_list_update split: option.splits)
  have "callers_ok ?s"
    using assms(6) by (simp add: callers_ok_def)
  moreover have "send_ok ?s"
    using ok(2) stage assms(7,8) by (auto simp: send_ok_def)
  moreover have "closing_ok ?s"
    using ok(3) stage by (simp add: closing_ok_def)
  moreover have "routine_ok ?s r st = routine_ok s r st" for r st
    by (rule routine_ok_cong) (simp_all add: stage stopped assms(5))
  ultimately show ?thesis
    using ok(4,5) assms(1,5) by (simp add: life_ok_def)
qed

lemma callers_okD:
  assumes "callers_ok s"
  shows "j < length (lf_callers s) \<Longrightarrow> in_range (length (lf_locks s)) (lf_callers s ! j)"
    "lf_closer s = Some j \<longleftrightarrow> j < length (lf_callers s) \<and> 0 < stage_of (lf_callers s ! j)"
    "i < length (lf_locks s) \<Longrightarrow> lf_locks s ! i = Some j \<longleftrightarrow>
       j < length (lf_callers s) \<and> holds_lock i (lf_callers s ! j)"
  using assms by (simp_all add: callers_ok_def)

text \<open>A lock has one holder, and whoever waits for an answer holds the first lock.\<close>

lemma holder_unique:
  assumes "callers_ok s" and "i < length (lf_locks s)"
    and "j < length (lf_callers s)" "holds_lock i (lf_callers s ! j)"
    and "j' < length (lf_callers s)" "holds_lock i (lf_callers s ! j')"
  shows "j = j'"
proof -
  have "lf_locks s ! i = Some j" "lf_locks s ! i = Some j'"
    using assms by (simp_all add: callers_ok_def)
  then show ?thesis by simp
qed

lemma awaits_holds: "awaits pc \<Longrightarrow> holds_lock i pc"
  by (cases pc) auto

lemma only_one_awaits:
  assumes "life_ok s" and "j < length (lf_callers s)" and "awaits (lf_callers s ! j)" and "\<not> awaits pc"
  shows "\<not> (\<exists>c \<in> set ((lf_callers s)[j := pc]). awaits c)"
proof
  assume "\<exists>c \<in> set ((lf_callers s)[j := pc]). awaits c"
  then obtain i where i: "i < length (lf_callers s)" "awaits ((lf_callers s)[j := pc] ! i)"
    by (auto simp: in_set_conv_nth)
  then have "i \<noteq> j" "awaits (lf_callers s ! i)"
    using assms(2,4) by (auto simp: nth_list_update split: if_splits)
  moreover have "callers_ok s" "0 < length (lf_locks s)"
    using assms(1) by (simp_all add: life_ok_def)
  ultimately show False
    using holder_unique [of s 0 i j] i(1) assms(2,3) awaits_holds by blast
qed

lemma callers_goto:
  assumes "callers_ok s" and "j < length (lf_callers s)" and "stage_of pc = stage_of (lf_callers s ! j)"
    and "in_range (length (lf_locks s)) pc" and "length L = length (lf_locks s)"
    and "\<And>i. i < length L \<Longrightarrow> holds_lock i pc = (L ! i = Some j)"
    and "\<And>i j'. i < length L \<Longrightarrow> j' \<noteq> j \<Longrightarrow> (L ! i = Some j') = (lf_locks s ! i = Some j')"
  shows "callers_ok (goto j pc (s\<lparr>lf_locks := L\<rparr>))"
  using assms by (auto simp: callers_ok_def nth_list_update)

lemma awaits_update:
  assumes "j < length xs"
  shows "awaits pc \<Longrightarrow> \<exists>c \<in> set (xs[j := pc]). awaits c"
  using assms set_update_memI by metis

lemma lock_move:
  assumes "life_ok s" and "j < length (lf_callers s)" and "stage_of pc = stage_of (lf_callers s ! j)"
    and "stage_of pc \<noteq> 1" and "in_range (length (lf_locks s)) pc" and "length L = length (lf_locks s)"
    and "\<And>i. i < length L \<Longrightarrow> holds_lock i pc = (L ! i = Some j)"
    and "\<And>i j'. i < length L \<Longrightarrow> j' \<noteq> j \<Longrightarrow> (L ! i = Some j') = (lf_locks s ! i = Some j')"
    and "awaits pc = awaits (lf_callers s ! j)"
  shows "life_ok (goto j pc (s\<lparr>lf_locks := L\<rparr>))"
proof -
  have "life_ok (goto j pc (s\<lparr>lf_locks := L, lf_send := lf_send s\<rparr>))"
    using life_okD(2) [OF assms(1)] ex_update [OF assms(9)]
    by (intro flush_move [OF assms(1-4,6) callers_goto [OF life_okD(1) [OF assms(1)] assms(2,3,5-8)]])
      (auto simp: send_ok_def)
  then show ?thesis by simp
qed

lemma flush_step_ok:
  assumes "life_ok s" and j: "j < length (lf_callers s)" and step: "flush_step j s = Some s'"
    and "0 < stage_of (lf_callers s ! j) \<longrightarrow> (\<forall>b. lf_callers s ! j \<noteq> Unpausing 0 b)"
  shows "life_ok s'"
proof -
  note ok = life_okD [OF assms(1)]
  note callers = callers_okD [OF ok(1)]
  have rng: "in_range (length (lf_locks s)) (lf_callers s ! j)"
    using callers(1) [OF j] .
  have held: "(lf_locks s ! i = Some j) = holds_lock i (lf_callers s ! j)" if "i < length (lf_locks s)" for i
    using callers(3) [OF that] j by simp
  show ?thesis
  proof (cases "lf_callers s ! j")
    case (FlushAgg ws b)
    with rng step show ?thesis
      by (cases ws) (auto simp: flush_defs split: if_splits intro!: goto_ok [OF assms(1) j])
  next
    case (Pausing k b)
    show ?thesis
    proof (cases "k < length (lf_locks s)")
      case True
      then have free: "lf_locks s ! k = None"
        and s': "s' = goto j (Pausing (k + 1) b) (s\<lparr>lf_locks := (lf_locks s)[k := Some j]\<rparr>)"
        using step Pausing by (auto simp: flush_defs lock_free_def split: if_splits)
      show ?thesis
        unfolding s' using True Pausing held free
        by (intro lock_move [OF assms(1) j]) (auto simp: nth_list_update)
    next
      case False
      then have "k = length (lf_locks s)" "s' = goto j (Signalling b) s"
        using rng step Pausing by (auto simp: flush_defs)
      with Pausing show ?thesis
        by (cases b) (auto intro!: goto_ok [OF assms(1) j])
    qed
  next
    case (Signalling b)
    then have sel: "lf_send s = SendSelect"
      and s': "s' = goto j (Awaiting b) (s\<lparr>lf_locks := lf_locks s, lf_send := SendDraining\<rparr>)"
      using step by (auto simp: flush_defs split: if_splits)
    show ?thesis
      unfolding s'
    proof (rule flush_move [OF assms(1) j])
      show "callers_ok (goto j (Awaiting b) (s\<lparr>lf_locks := lf_locks s\<rparr>))"
        using Signalling held by (intro callers_goto [OF ok(1) j]) auto
      show "(SendDraining = SendDraining \<or> SendDraining = SendAnswering) =
          (\<exists>c \<in> set ((lf_callers s)[j := Awaiting b]). awaits c)"
        using awaits_update [OF j] by simp
    qed (use Signalling sel in auto)
  next
    case (Awaiting b)
    then have ans: "lf_send s = SendAnswering"
      and s': "s' = goto j (Unpausing (length (lf_locks s)) b) (s\<lparr>lf_locks := lf_locks s, lf_send := SendSelect\<rparr>)"
      using step by (auto simp: flush_defs split: if_splits)
    show ?thesis
      unfolding s'
    proof (rule flush_move [OF assms(1) j])
      show "callers_ok (goto j (Unpausing (length (lf_locks s)) b) (s\<lparr>lf_locks := lf_locks s\<rparr>))"
        using Awaiting held by (intro callers_goto [OF ok(1) j]) auto
      show "(SendSelect = SendDraining \<or> SendSelect = SendAnswering) =
          (\<exists>c \<in> set ((lf_callers s)[j := Unpausing (length (lf_locks s)) b]). awaits c)"
        using only_one_awaits [OF assms(1) j, of "Unpausing (length (lf_locks s)) b"] Awaiting by simp
    qed (use Awaiting ans in auto)
  next
    case (Unpausing k b)
    show ?thesis
    proof (cases k)
      case 0
      with Unpausing assms(4) step show ?thesis
        by (cases b) (auto simp: flush_defs intro!: goto_ok [OF assms(1) j])
    next
      case (Suc i)
      then have s': "s' = goto j (Unpausing i b) (s\<lparr>lf_locks := (lf_locks s)[i := None]\<rparr>)"
        using step Unpausing by (simp add: flush_defs)
      have "i < length (lf_locks s)" "lf_locks s ! i = Some j"
        using held [of i] Unpausing Suc rng by auto
      then have "i < length (lf_locks s)" "j' \<noteq> j \<Longrightarrow> lf_locks s ! i \<noteq> Some j'" for j'
        by auto
      then show ?thesis
        unfolding s' using Unpausing held rng Suc
        by (intro lock_move [OF assms(1) j]) (auto simp: nth_list_update)
    qed
  qed (use step in \<open>simp_all add: flush_defs\<close>)
qed

lemma send_step_ok:
  assumes "life_ok s" and "send_step s = Some s'"
  shows "life_ok s'"
proof -
  obtain x where x: "s' = s\<lparr>lf_send := x\<rparr>"
    "lf_send s = SendDraining \<and> x = SendAnswering \<or> lf_send s = SendLeaving \<and> x = SendEnded"
    using assms(2) by (auto simp: send_step_def split: send_loop.splits)
  note same = stage_cong [of "s\<lparr>lf_send := y\<rparr>" s for y, simplified]
  have "routine_ok (s\<lparr>lf_send := x\<rparr>) r st = routine_ok s r st" for r st
    by (rule routine_ok_cong) (simp_all add: same)
  moreover have "send_ok (s\<lparr>lf_send := x\<rparr>)"
    using life_okD(2) [OF assms(1)] x(2) by (auto simp: send_ok_def same)
  ultimately show ?thesis
    using assms(1) unfolding x(1) by (simp add: life_ok_def closing_ok_def same)
qed

lemma stage_le: "stage_of pc \<le> 8"
  by (cases pc) auto

lemma callers_ok_cong:
  assumes "lf_closer s' = lf_closer s" "lf_callers s' = lf_callers s" "lf_locks s' = lf_locks s"
  shows "callers_ok s' = callers_ok s"
  using assms by (simp add: callers_ok_def)

lemma callers_closer:
  assumes "callers_ok s" and "j < length (lf_callers s)" and "in_range (length (lf_locks s)) pc"
    and "\<And>i. holds_lock i pc = holds_lock i (lf_callers s ! j)"
    and "\<And>j'. j' \<noteq> j \<Longrightarrow> (x = Some j') = (lf_closer s = Some j')" and "(x = Some j) = (0 < stage_of pc)"
    and "lf_closer s' = x" "lf_callers s' = (lf_callers s)[j := pc]" "lf_locks s' = lf_locks s"
  shows "callers_ok s'"
  using assms by (auto simp: callers_ok_def nth_list_update)

lemma start_close_ok:
  assumes "life_ok s" and j: "j < length (lf_callers s)" "lf_callers s ! j = WantClose"
    and "lf_closer s = None" and "\<not> lf_stop s"
  shows "life_ok (goto j (StopWorker 0) (s\<lparr>lf_closer := Some j, lf_stop := True\<rparr>))" (is "life_ok ?s")
proof -
  note ok = life_okD [OF assms(1)]
  have at: "stage s = 0" "stopped s = 0" "stage ?s = 1" "stopped ?s = 0"
    using assms(4,5) j by (simp_all add: stage_def stopped_def)
  have "callers_ok ?s"
    using j assms(4) by (intro callers_closer [OF ok(1) j(1), of "StopWorker 0" "Some j"]) auto
  moreover have "send_ok ?s"
    using ok(2) ex_update [of awaits "StopWorker 0" "lf_callers s" j] j by (auto simp: send_ok_def at)
  moreover have "closing_ok ?s"
    using ok(3) by (auto simp: closing_ok_def at)
  moreover have "routine_ok ?s r (lf_routine s r)" for r
    using ok(4) [of r] by (cases r) (auto simp: at split: rstate.splits)
  ultimately show ?thesis
    using ok(5) assms(1) by (simp add: life_ok_def)
qed

lemma end_close_ok:
  assumes "life_ok s" and j: "j < length (lf_callers s)" "lf_callers s ! j = AwaitStop"
    and "lf_send s = SendEnded"
  shows "life_ok (goto j Idle (s\<lparr>lf_closer := None\<rparr>))" (is "life_ok ?s")
proof -
  note ok = life_okD [OF assms(1)]
  have closer: "lf_closer s = Some j"
    using callers_okD(2) [OF ok(1)] j by simp
  then have at: "stage s = 8" "stopped s = length (lf_locks s)"
    using j by (simp_all add: stage_def stopped_def)
  with ok(3) have stop: "lf_stop s"
    by (simp add: closing_ok_def)
  then have new: "stage ?s = 9" "stopped ?s = length (lf_locks s)"
    by (simp_all add: stage_def stopped_def)
  have "callers_ok ?s"
    using j closer by (intro callers_closer [OF ok(1) j(1), of Idle None]) auto
  moreover have "send_ok ?s"
    using ok(2) ex_update [of awaits Idle "lf_callers s" j] j assms(4) by (auto simp: send_ok_def at new)
  moreover have "closing_ok ?s"
    using ok(3) by (auto simp: closing_ok_def at new)
  moreover have "routine_ok ?s r (lf_routine s r)" for r
    using ok(4) [of r] by (cases r) (auto simp: at new split: rstate.splits)
  ultimately show ?thesis
    using ok(5) assms(1) by (simp add: life_ok_def)
qed

text \<open>
  A step of \<open>Close\<close> outside its flush: what remains to show is that every goroutine is in a state
  that the new stage allows.
\<close>

definition same_setup :: "life \<Rightarrow> life \<Rightarrow> bool" where
  "same_setup s s' \<longleftrightarrow> lf_stop s' = lf_stop s \<and> lf_own s' = lf_own s \<and> lf_agg s' = lf_agg s
     \<and> lf_aggChannel s' = lf_aggChannel s \<and> lf_channel s' = lf_channel s \<and> lf_locks s' = lf_locks s"

lemma closer_move:
  assumes "life_ok s" and "lf_closer s = Some j" and "0 < stage_of pc" and "in_range (length (lf_locks s)) pc"
    and "\<And>i. holds_lock i pc = holds_lock i (lf_callers s ! j)" and "awaits pc = awaits (lf_callers s ! j)"
    and "c = (7 \<le> stage_of pc)" and "sp = (3 \<le> stage_of pc \<and> lf_aggChannel s)"
    and "sd = lf_send s \<and> stage_of pc \<noteq> 8 \<and> lf_send s \<notin> {SendLeaving, SendEnded}
       \<or> lf_send s = SendSelect \<and> sd = SendLeaving \<and> stage_of pc = 8"
    and s': "s' = goto j pc (s\<lparr>lf_routine := R, lf_stopPull := sp, lf_closed := c, lf_send := sd\<rparr>)"
    and routines: "\<And>s' r. stage s' = stage_of pc \<Longrightarrow> stopped s' = stopped_at (length (lf_locks s)) pc
       \<Longrightarrow> same_setup s s' \<Longrightarrow> lf_stopPull s' = sp \<Longrightarrow> routine_ok s' r (R r)"
    and busy: "\<And>r. busy_ok (length (lf_locks s)) (R r)"
  shows "life_ok s'"
proof -
  note ok = life_okD [OF assms(1)]
  note callers = callers_okD [OF ok(1)]
  have j: "j < length (lf_callers s)" "0 < stage_of (lf_callers s ! j)"
    using callers(2) assms(2) by auto
  have fields: "lf_stop s' = lf_stop s" "lf_closer s' = lf_closer s" "lf_callers s' = (lf_callers s)[j := pc]"
    "lf_locks s' = lf_locks s" "lf_aggChannel s' = lf_aggChannel s" "lf_agg s' = lf_agg s"
    "lf_stopPull s' = sp" "lf_closed s' = c" "lf_send s' = sd" "lf_routine s' = R"
    using s' by simp_all
  have at: "stage s' = stage_of pc" "stopped s' = stopped_at (length (lf_locks s)) pc" "0 < stage s"
    using assms(2) j by (simp_all add: stage_def stopped_def fields)
  then have closing: "lf_stop s" "lf_aggChannel s \<Longrightarrow> lf_agg s"
    using ok(3) by (auto simp: closing_ok_def)
  have "callers_ok s'"
    by (rule callers_closer [OF ok(1) j(1) assms(4,5), of "Some j"]) (simp_all add: assms(2,3) fields)
  moreover have "(sd = SendDraining \<or> sd = SendAnswering) = (lf_send s = SendDraining \<or> lf_send s = SendAnswering)"
    using assms(9) by auto
  then have "send_ok s'"
    using ok(2) assms(9) ex_update [OF assms(6)] stage_le [of pc] by (auto simp: send_ok_def at fields)
  moreover have "closing_ok s'"
    using closing assms(3,7,8) by (simp add: closing_ok_def at fields)
  moreover have "same_setup s s'"
    using s' by (simp add: same_setup_def)
  then have "routine_ok s' r (R r)" for r
    using routines [OF at(1,2)] fields by simp
  ultimately show ?thesis
    using ok(1) assms(1) busy unfolding life_ok_def fields by simp
qed

text \<open>What the invariant says of a caller in \<open>Close\<close>.\<close>

lemma closerD:
  assumes "life_ok s" and "j < length (lf_callers s)" and "0 < stage_of (lf_callers s ! j)"
  shows "lf_closer s = Some j" "stage s = stage_of (lf_callers s ! j)"
    "stopped s = stopped_at (length (lf_locks s)) (lf_callers s ! j)" "lf_stop s"
    "lf_closed s = (7 \<le> stage_of (lf_callers s ! j))"
    "lf_stopPull s = (3 \<le> stage_of (lf_callers s ! j) \<and> lf_aggChannel s)"
    "stage_of (lf_callers s ! j) < 8 \<Longrightarrow> lf_send s \<noteq> SendLeaving \<and> lf_send s \<noteq> SendEnded"
proof -
  note ok = life_okD [OF assms(1)]
  show c: "lf_closer s = Some j"
    using callers_okD(2) [OF ok(1)] assms(2,3) by simp
  then show st: "stage s = stage_of (lf_callers s ! j)"
    "stopped s = stopped_at (length (lf_locks s)) (lf_callers s ! j)"
    by (simp_all add: stage_def stopped_def)
  show "lf_stop s" "lf_closed s = (7 \<le> stage_of (lf_callers s ! j))"
    "lf_stopPull s = (3 \<le> stage_of (lf_callers s ! j) \<and> lf_aggChannel s)"
    using ok(3) assms(3) by (simp_all add: closing_ok_def st)
  show "lf_send s \<noteq> SendLeaving \<and> lf_send s \<noteq> SendEnded" if "stage_of (lf_callers s ! j) < 8"
    using ok(2) that by (auto simp: send_ok_def st)
qed

lemma stop_worker_ok:
  assumes "life_ok s" and j: "j < length (lf_callers s)" and "close_step j ws s = Some s'"
    and pc: "lf_callers s ! j = StopWorker k"
  shows "life_ok s'"
proof (cases "lf_channel s \<and> k < length (lf_locks s)")
  note at = closerD [OF assms(1) j, unfolded pc, simplified]
  case True
  with assms(3) pc have s': "s' = goto j (StopWorker (k + 1)) (s\<lparr>lf_routine := (lf_routine s)(WorkerLoop k := Gone),
      lf_stopPull := lf_stopPull s, lf_closed := lf_closed s, lf_send := lf_send s\<rparr>)"
    by (auto simp: close_defs split: if_splits)
  have "routine_ok s' r (((lf_routine s)(WorkerLoop k := Gone)) r)"
    if "stage s' = 1" "stopped s' = k + 1" "same_setup s s'" "lf_stopPull s' = lf_stopPull s" for s' r
    using life_okD(4) [OF assms(1), of r] True that
    by (cases r) (auto simp: at same_setup_def split: rstate.splits)
  then show ?thesis
    using at pc True life_okD(5) [OF assms(1)]
    by (intro closer_move [OF assms(1) _ _ _ _ _ _ _ _ s']) (auto simp: busy_ok_def)
next
  note at = closerD [OF assms(1) j, unfolded pc, simplified]
  case False
  with assms(3) pc have s': "s' = goto j StopAggPull (s\<lparr>lf_routine := lf_routine s,
      lf_stopPull := lf_stopPull s, lf_closed := lf_closed s, lf_send := lf_send s\<rparr>)"
    by (auto simp: close_defs split: if_splits)
  have "k \<le> length (lf_locks s)"
    using callers_okD(1) [OF life_okD(1) [OF assms(1)] j] pc by simp
  then have "routine_ok s' r (lf_routine s r)"
    if "stage s' = 2" "stopped s' = length (lf_locks s)" "same_setup s s'" "lf_stopPull s' = lf_stopPull s" for s' r
    using life_okD(4) [OF assms(1), of r] False that
    by (cases r) (auto simp: at same_setup_def split: rstate.splits)
  then show ?thesis
    using at pc life_okD(5) [OF assms(1)] by (intro closer_move [OF assms(1) _ _ _ _ _ _ _ _ s']) auto
qed

text \<open>The later stages; \<open>dead\<close> is what \<open>Close\<close> has waited for, \<open>x\<close> the goroutine it has just ended.\<close>

lemma later_stage_ok:
  assumes "life_ok s" and j: "j < length (lf_callers s)"
    and old: "1 < stage_of (lf_callers s ! j)" "\<And>i. \<not> holds_lock i (lf_callers s ! j)" "\<not> awaits (lf_callers s ! j)"
    and new: "stage_of pc = stage_of (lf_callers s ! j) + 1 \<or> stage_of (lf_callers s ! j) = 2 \<and> stage_of pc = 4"
      "\<And>i. \<not> holds_lock i pc" "\<not> awaits pc" "in_range (length (lf_locks s)) pc" "stage_of pc < 7"
    and pull: "stage_of pc = 3 \<longrightarrow> lf_aggChannel s"
      "stage_of pc = 4 \<longrightarrow> (\<forall>i < length (lf_locks s). lf_aggChannel s \<longrightarrow> lf_routine s (AggPullLoop i) = Gone)"
      "stage_of (lf_callers s ! j) = 2 \<and> stage_of pc = 4 \<longrightarrow> \<not> lf_aggChannel s"
    and group: "stage_of pc = 6 \<longrightarrow> lf_routine s WatchLoop = Gone \<and> lf_routine s TelemetryLoop = Gone"
    and s': "s' = goto j pc (s\<lparr>lf_routine := (if stage_of pc = 5 then (lf_routine s)(AggLoop := Gone) else lf_routine s),
      lf_stopPull := (3 \<le> stage_of pc \<and> lf_aggChannel s), lf_closed := False, lf_send := lf_send s\<rparr>)"
  shows "life_ok s'"
proof -
  have "0 < stage_of (lf_callers s ! j)" using old(1) by simp
  note at = closerD [OF assms(1) j this]
  have stopped: "stopped_at (length (lf_locks s)) pc = length (lf_locks s)" "stopped s = length (lf_locks s)"
    using new(1) old(1) at(3) stopped_at_other [of pc] stopped_at_other [of "lf_callers s ! j"] by auto
  have order: "stage_of (lf_callers s ! j) < stage_of pc" "5 = stage_of pc \<Longrightarrow> stage_of (lf_callers s ! j) = 4"
    "6 = stage_of pc \<Longrightarrow> stage_of (lf_callers s ! j) = 5"
    using new(1) by auto
  have "routine_ok s' r ((if stage_of pc = 5 then (lf_routine s)(AggLoop := Gone) else lf_routine s) r)"
    if s': "stage s' = stage_of pc" "stopped s' = length (lf_locks s)" "same_setup s s'"
      "lf_stopPull s' = (3 \<le> stage_of pc \<and> lf_aggChannel s)" for s' r
  proof -
    note rt = life_okD(4) [OF assms(1), of r]
    show ?thesis
    proof (cases r)
      case WatchLoop
      then show ?thesis
        using rt new(5) group s' by (auto simp: at(4) same_setup_def)
    next
      case TelemetryLoop
      then show ?thesis
        using rt new(5) group s' by (auto simp: same_setup_def split: rstate.splits)
    next
      case AggLoop
      have "5 \<le> stage_of pc \<longleftrightarrow> 5 = stage_of pc \<or> 5 \<le> stage_of (lf_callers s ! j)"
        using order new(5) by linarith
      with AggLoop show ?thesis
        using rt s' by (auto simp: at(2) same_setup_def)
    next
      case (AggPullLoop i)
      have "4 \<le> stage_of pc \<longleftrightarrow> stage_of pc = 4 \<or> 4 \<le> stage_of (lf_callers s ! j)"
        using order new(5) by linarith
      then show ?thesis
        using AggPullLoop rt s' pull(2) order(1) by (auto simp: at(2,6) same_setup_def)
    next
      case (WorkerLoop i)
      then show ?thesis
        using rt s' by (auto simp: stopped same_setup_def)
    qed
  qed
  then show ?thesis
    using at new old life_okD(5) [OF assms(1)]
    by (intro closer_move [OF assms(1) at(1) _ _ _ _ _ _ _ s']) (auto simp: stopped busy_ok_def)
qed

lemma close_step_ok:
  assumes "life_ok s" and j: "j < length (lf_callers s)" and step: "close_step j ws s = Some s'"
    and ws: "metrics_ok ws s"
  shows "life_ok s'"
proof (cases "lf_callers s ! j")
  case WantClose
  show ?thesis
  proof (cases "lf_closed s \<or> lf_stop s")
    case True
    with WantClose step show ?thesis
      by (auto simp: close_defs split: if_splits intro!: goto_ok [OF assms(1) j])
  next
    case False
    with WantClose step have "lf_closer s = None" "\<not> lf_stop s"
      "s' = goto j (StopWorker 0) (s\<lparr>lf_closer := Some j, lf_stop := True\<rparr>)"
      by (auto simp: close_defs split: if_splits)
    with start_close_ok [OF assms(1) j WantClose] show ?thesis by simp
  qed
next
  case (StopWorker k)
  with stop_worker_ok [OF assms(1) j step] show ?thesis by simp
next
  case StopAggPull
  with closerD [OF assms(1) j] step show ?thesis
    by (intro later_stage_ok [OF assms(1) j, of "if lf_aggChannel s then WaitAggPull else StopAgg"])
      (auto simp: close_defs split: if_splits)
next
  case WaitAggPull
  with closerD [OF assms(1) j] step show ?thesis
    by (intro later_stage_ok [OF assms(1) j, of StopAgg])
      (auto simp: close_defs list_all_iff split: if_splits)
next
  case StopAgg
  have "\<not> lf_agg s \<Longrightarrow> (lf_routine s)(AggLoop := Gone) = lf_routine s"
    using life_okD(4) [OF assms(1), of AggLoop] by (auto simp: fun_eq_iff)
  with StopAgg closerD [OF assms(1) j] step show ?thesis
    by (intro later_stage_ok [OF assms(1) j, of WaitGroup]) (auto simp: close_defs split: if_splits)
next
  case WaitGroup
  with closerD [OF assms(1) j] step metrics_in_range [OF ws] show ?thesis
    by (intro later_stage_ok [OF assms(1) j, of "FlushAgg ws True"]) (auto simp: close_defs split: if_splits)
next
  case StopLoop
  note at = closerD [OF assms(1) j, unfolded StopLoop, simplified]
  from StopLoop step have sel: "lf_send s = SendSelect"
    and s': "s' = goto j AwaitStop (s\<lparr>lf_routine := lf_routine s,
      lf_stopPull := lf_stopPull s, lf_closed := lf_closed s, lf_send := SendLeaving\<rparr>)"
    by (auto simp: close_defs split: if_splits)
  have "routine_ok s' r (lf_routine s r)"
    if "stage s' = 8" "stopped s' = length (lf_locks s)" "same_setup s s'" "lf_stopPull s' = lf_stopPull s" for s' r
    using life_okD(4) [OF assms(1), of r] that by (cases r) (auto simp: at same_setup_def split: rstate.splits)
  then show ?thesis
    using at sel StopLoop life_okD(5) [OF assms(1)]
    by (intro closer_move [OF assms(1) _ _ _ _ _ _ _ _ s']) auto
next
  case AwaitStop
  with step have "lf_send s = SendEnded" "s' = goto j Idle (s\<lparr>lf_closer := None\<rparr>)"
    by (auto simp: close_defs split: if_splits)
  with end_close_ok [OF assms(1) j AwaitStop] show ?thesis by simp
qed (use step in \<open>simp_all add: close_defs\<close>)

lemma no_steal:
  assumes "life_ok s"
  shows "steal_step j j' s = None"
proof (rule ccontr)
  assume "steal_step j j' s \<noteq> None"
  then obtain b b' where "j < length (lf_callers s)" "j' < length (lf_callers s)"
    "lf_callers s ! j = Awaiting b" "lf_callers s ! j' = Signalling b'"
    by (auto simp: steal_step_def split: if_splits caller.splits)
  moreover have "callers_ok s" "0 < length (lf_locks s)"
    using assms by (simp_all add: life_ok_def)
  ultimately show False
    using holder_unique [of s 0 j j'] by auto
qed

text \<open>The end of the flush in \<open>Close\<close>.\<close>

lemma flush_done_ok:
  assumes "life_ok s" and j: "j < length (lf_callers s)" and pc: "lf_callers s ! j = Unpausing 0 True"
  shows "life_ok (goto j StopLoop (s\<lparr>lf_closed := True\<rparr>))"
proof -
  note at = closerD [OF assms(1) j, unfolded pc, simplified]
  have s': "goto j StopLoop (s\<lparr>lf_closed := True\<rparr>) = goto j StopLoop (s\<lparr>lf_routine := lf_routine s,
      lf_stopPull := lf_stopPull s, lf_closed := True, lf_send := lf_send s\<rparr>)"
    by simp
  have "routine_ok s' r (lf_routine s r)"
    if "stage s' = 7" "stopped s' = length (lf_locks s)" "same_setup s s'" "lf_stopPull s' = lf_stopPull s" for s' r
    using life_okD(4) [OF assms(1), of r] that by (cases r) (auto simp: at same_setup_def split: rstate.splits)
  then show ?thesis
    using at pc life_okD(5) [OF assms(1)] by (intro closer_move [OF assms(1) _ _ _ _ _ _ _ _ s']) auto
qed

lemma caller_step_ok:
  assumes "life_ok s" and "caller_step j ws s = Some s'"
  shows "life_ok s'"
proof -
  have j: "j < length (lf_callers s)" and ws: "metrics_ok ws s"
    using assms(2) by (auto simp: caller_step_defs split: if_splits)
  show ?thesis
  proof (cases "lf_callers s ! j = Unpausing 0 True")
    case True
    with assms j ws flush_done_ok [OF assms(1) j] show ?thesis
      by (simp add: caller_step_defs flush_defs)
  next
    case False
    then have "0 < stage_of (lf_callers s ! j) \<longrightarrow> (\<forall>b. lf_callers s ! j \<noteq> Unpausing 0 b)"
      by auto
    then show ?thesis
      using assms j ws flush_step_ok [OF assms(1) j] close_step_ok [OF assms(1) j _ ws]
      by (cases "lf_callers s ! j")
        (auto simp: caller_step_defs split: if_splits intro!: goto_ok [OF assms(1) j])
  qed
qed

lemma life_do_ok:
  assumes "life_ok s" and "life_do a s = Some s'"
  shows "life_ok s'"
proof (cases a)
  case (BeginFlush j ws)
  with assms show ?thesis
    by (auto split: if_splits dest: metrics_in_range intro!: begin_call_ok [OF assms(1)])
next
  case (OwnStep)
  with assms have own: "lf_own s = Some SendLeaving" "s' = s\<lparr>lf_own := Some SendEnded\<rparr>"
    by (auto simp: own_step_def split: if_splits)
  then have "lf_routine s TelemetryLoop = Leaving"
    using life_okD(4) [OF assms(1), of TelemetryLoop] by (auto split: rstate.splits)
  with own assms(1) show ?thesis
    by (simp add: own_ok)
next
  case (Steal j j')
  with assms no_steal show ?thesis by simp
qed (use assms in \<open>auto split: if_splits intro: begin_call_ok wake_ok caller_step_ok routine_step_ok
      send_step_ok\<close>)

lemma life_run_ok: "life_ok s \<Longrightarrow> life_run as s = Some s' \<Longrightarrow> life_ok s'"
proof (induction "as" arbitrary: s)
  case (Cons a as)
  then obtain t where "life_do a s = Some t" "life_run as t = Some s'"
    by (auto simp: bind_eq_Some_conv)
  with Cons life_do_ok show ?case by blast
qed simp

end
