(* ===== verification/Lifecycle_Progress.thy ===== *)
theory Lifecycle_Progress
  imports Lifecycle_Facts
begin

text \<open>
  What has begun comes to an end: as long as something is left to do, some thread can step, unless
  \<open>Close\<close> has overtaken a \<open>Flush\<close>; and every step makes a measure smaller.
\<close>

section \<open>Progress\<close>

lemma metrics_ok_Nil [simp]: "metrics_ok [] s"
  by (simp add: metrics_ok_def)

definition blocked :: "life \<Rightarrow> bool" where
  "blocked s \<longleftrightarrow> (\<forall>a. internal a \<longrightarrow> life_do a s = None)"

lemma blockedD:
  assumes "blocked s"
  shows "caller_step j [] s = None" "routine_step r s = None" "send_step s = None" "own_step s = None"
  using assms internal.simps(6-10) life_do.simps(6-10) unfolding blocked_def by metis+

lemma callerI: "pc \<in> set (lf_callers s) \<Longrightarrow> \<exists>j < length (lf_callers s). lf_callers s ! j = pc"
  by (auto simp: in_set_conv_nth)

text \<open>A blocked state, from the send loop outwards.\<close>

lemma blocked_send:
  assumes "life_ok s" and "blocked s"
  shows "lf_send s = SendSelect \<or> lf_send s = SendEnded" "pc \<in> set (lf_callers s) \<Longrightarrow> \<not> awaits pc"
proof -
  have sel: "lf_send s \<noteq> SendDraining" "lf_send s \<noteq> SendLeaving"
    using blockedD(3) [OF assms(2)] by (auto simp: send_step_def)
  show none: "\<not> awaits pc" if "pc \<in> set (lf_callers s)" for pc
  proof
    assume "awaits pc"
    then obtain b where b: "pc = Awaiting b" by (cases pc) auto
    with that obtain j where j: "j < length (lf_callers s)" "lf_callers s ! j = Awaiting b"
      using callerI by blast
    have "lf_send s = SendAnswering"
      using life_okD(2) [OF assms(1)] that \<open>awaits pc\<close> sel by (auto simp: send_ok_def)
    with j blockedD(1) [OF assms(2), of j] show False
      by (simp add: caller_step_defs flush_defs)
  qed
  then have "lf_send s \<noteq> SendAnswering"
    using life_okD(2) [OF assms(1)] by (auto simp: send_ok_def)
  with sel show "lf_send s = SendSelect \<or> lf_send s = SendEnded"
    by (cases "lf_send s") auto
qed

lemma blocked_flush:
  assumes "life_ok s" and "blocked s" and "\<not> flush_stuck s" and j: "j < length (lf_callers s)"
  shows "lf_callers s ! j \<noteq> Unpausing k b" "lf_callers s ! j \<noteq> Signalling b"
proof -
  note step = blockedD(1) [OF assms(2), of j]
  show "lf_callers s ! j \<noteq> Unpausing k b"
    using step j by (cases k) (auto simp: caller_step_defs flush_defs split: if_splits)
  show "lf_callers s ! j \<noteq> Signalling b"
  proof
    assume sig: "lf_callers s ! j = Signalling b"
    with step j have "lf_send s \<noteq> SendSelect"
      by (auto simp: caller_step_defs flush_defs)
    with blocked_send(1) [OF assms(1,2)] have ended: "lf_send s = SendEnded" by blast
    show False
    proof (cases b)
      case True
      with closerD(7) [OF assms(1) j] sig ended show False by simp
    next
      case False
      have "list_ex (\<lambda>pc. pc = Signalling False) (lf_callers s)"
        using sig j False by (auto simp: list_ex_iff in_set_conv_nth)
      with ended assms(3) show False by (simp add: flush_stuck_def)
    qed
  qed
qed

text \<open>The workers are taken in order, so the caller that holds the first one gets the next.\<close>

lemma blocked_pausing:
  assumes "life_ok s" and "blocked s" and "\<not> flush_stuck s"
    and j: "j < length (lf_callers s)" "lf_callers s ! j = Pausing k b"
  shows False
proof -
  note callers = callers_okD [OF life_okD(1) [OF assms(1)]]
  have n: "0 < length (lf_locks s)"
    using assms(1) by (simp add: life_ok_def)
  have next_held: "k < length (lf_locks s) \<and> (\<exists>j' k' b'. j' < length (lf_callers s)
      \<and> lf_callers s ! j' = Pausing k' b' \<and> k < k' \<and> (0 < k \<longrightarrow> j' = j))"
    if j: "j < length (lf_callers s)" "lf_callers s ! j = Pausing k b" for j k b
  proof -
    have k: "k < length (lf_locks s)" "lf_locks s ! k \<noteq> None"
      using blockedD(1) [OF assms(2), of j] j
      by (auto simp: caller_step_defs flush_defs lock_free_def split: if_splits)
    then obtain j' where "lf_locks s ! k = Some j'" by auto
    with callers(3) [OF k(1)] have j': "j' < length (lf_callers s)" "holds_lock k (lf_callers s ! j')" by auto
    then obtain k' b' where pc: "lf_callers s ! j' = Pausing k' b'" "k < k'"
      using blocked_send(2) [OF assms(1,2) nth_mem [OF j'(1)]] blocked_flush [OF assms(1-3) j'(1)]
      by (cases "lf_callers s ! j'") auto
    have "j' = j" if "0 < k"
      using holder_unique [OF life_okD(1) [OF assms(1)] n, of j' j] that j j'(1) pc by simp
    with k(1) j'(1) pc show ?thesis by blast
  qed
  have no_later: "\<not> (0 < k)" if "j < length (lf_callers s)" "lf_callers s ! j = Pausing k b" for j k b
    using next_held [OF that] that(2) by auto
  from next_held [OF j] no_later show False by fastforce
qed

lemma blocked_locks:
  assumes "life_ok s" and "blocked s" and "\<not> flush_stuck s" and "i < length (lf_locks s)"
  shows "lock_free i s"
proof (rule ccontr)
  assume "\<not> lock_free i s"
  then obtain j where "lf_locks s ! i = Some j"
    using assms(4) by (auto simp: lock_free_def)
  with callers_okD(3) [OF life_okD(1) [OF assms(1)] assms(4)]
  have j: "j < length (lf_callers s)" "holds_lock i (lf_callers s ! j)" by auto
  with blocked_send(2) [OF assms(1,2) nth_mem [OF j(1)]] blocked_flush [OF assms(1-3) j(1)]
    blocked_pausing [OF assms(1-3) j(1)]
  show False by (cases "lf_callers s ! j") auto
qed

lemma blocked_routines:
  assumes "life_ok s" and "blocked s" and "\<not> flush_stuck s"
  shows "lf_routine s r = Selecting \<or> lf_routine s r = Gone" "told_to_stop r s \<Longrightarrow> lf_routine s r = Gone"
proof -
  note step = blockedD(2) [OF assms(2), of r]
  have "lf_routine s r \<noteq> Busy ws" for ws
    using step life_okD(5) [OF assms(1), of r] blocked_locks [OF assms]
    by (cases ws) (auto simp: routine_step_def busy_ok_def)
  moreover have "lf_routine s r \<noteq> Leaving"
  proof
    assume l: "lf_routine s r = Leaving"
    then have "r = TelemetryLoop"
      using life_okD(4) [OF assms(1), of r] by (cases r) auto
    with l life_okD(4) [OF assms(1), of r] step blockedD(4) [OF assms(2)] show False
      by (auto simp: routine_step_def own_step_def)
  qed
  ultimately show "lf_routine s r = Selecting \<or> lf_routine s r = Gone"
    by (cases "lf_routine s r") auto
  then show "lf_routine s r = Gone" if "told_to_stop r s"
    using step that by (auto simp: routine_step_def)
qed

lemma blocked_closer:
  assumes "life_ok s" and "blocked s" and "\<not> flush_stuck s" and j: "j < length (lf_callers s)"
  shows "stage_of (lf_callers s ! j) = 0"
proof (rule ccontr)
  assume pos: "stage_of (lf_callers s ! j) \<noteq> 0"
  note at = closerD [OF assms(1) j]
  note step = blockedD(1) [OF assms(2), of j]
  note rt = blocked_routines [OF assms(1-3)] life_okD(4) [OF assms(1)]
  show False
  proof (cases "lf_callers s ! j")
    case (FlushAgg ws b)
    then have "list_all (\<lambda>i. i < length (lf_locks s)) ws"
      using callers_okD(1) [OF life_okD(1) [OF assms(1)] j] by simp
    with FlushAgg j step blocked_locks [OF assms(1-3)] show ?thesis
      by (cases ws) (auto simp: caller_step_defs flush_defs)
  next
    case (Awaiting b)
    with blocked_send(2) [OF assms(1,2) nth_mem [OF j]] show ?thesis by simp
  next
    case (StopWorker k)
    with at rt(1) [of "WorkerLoop k"] rt(3) [of "WorkerLoop k"] j step show ?thesis
      by (auto simp: caller_step_defs close_defs split: if_splits)
  next
    case WaitAggPull
    have "lf_routine s (AggPullLoop i) = Gone" if "i < length (lf_locks s)" for i
      using at WaitAggPull rt(2,3) [of "AggPullLoop i"] by (cases "lf_aggChannel s") (auto simp: told_to_stop_def)
    with WaitAggPull j step show ?thesis
      by (auto simp: caller_step_defs close_defs list_all_iff split: if_splits)
  next
    case StopAgg
    with at rt(1) [of AggLoop] rt(3) [of AggLoop] j step show ?thesis
      by (auto simp: caller_step_defs close_defs split: if_splits)
  next
    case WaitGroup
    with at rt(2) [of WatchLoop] rt(2) [of TelemetryLoop] j step show ?thesis
      by (auto simp: caller_step_defs close_defs told_to_stop_def split: if_splits)
  next
    case StopLoop
    with at blocked_send(1) [OF assms(1,2)] j step show ?thesis
      by (auto simp: caller_step_defs close_defs)
  next
    case AwaitStop
    with at(2) life_okD(2) [OF assms(1)] blocked_send(1) [OF assms(1,2)] j step show ?thesis
      by (auto simp: caller_step_defs close_defs send_ok_def)
  qed (use pos j step blocked_flush [OF assms] blocked_pausing [OF assms] in
      \<open>auto simp: caller_step_defs close_defs split: if_splits\<close>)
qed

lemma blocked_settled:
  assumes "life_ok s" and "blocked s" and "\<not> flush_stuck s"
  shows "settled s"
proof -
  note callers = callers_okD [OF life_okD(1) [OF assms(1)]]
  have "lf_closer s = None"
  proof (cases "lf_closer s")
    case (Some j)
    with callers(2) [of j] blocked_closer [OF assms, of j] show ?thesis by simp
  qed
  have "lf_callers s ! j = Idle" if j: "j < length (lf_callers s)" for j
  proof (cases "lf_callers s ! j")
    case (FlushAgg ws b)
    then have "list_all (\<lambda>i. i < length (lf_locks s)) ws"
      using callers(1) [OF j] by simp
    with FlushAgg j blockedD(1) [OF assms(2), of j] blocked_locks [OF assms] show ?thesis
      by (cases ws) (auto simp: caller_step_defs flush_defs)
  next
    case (Sending i)
    with j callers(1) [OF j] blockedD(1) [OF assms(2), of j] blocked_locks [OF assms] show ?thesis
      by (auto simp: caller_step_defs)
  next
    case (Awaiting b)
    with blocked_send(2) [OF assms(1,2) nth_mem [OF j]] show ?thesis by simp
  qed (use j blockedD(1) [OF assms(2), of j] blocked_flush [OF assms j] blocked_pausing [OF assms j]
      blocked_closer [OF assms j] \<open>lf_closer s = None\<close> in
      \<open>auto simp: caller_step_defs close_defs split: if_splits\<close>)
  then show ?thesis
    using blocked_routines(1) [OF assms] blocked_send(1) [OF assms(1,2)]
    by (auto simp: settled_def list_all_iff in_set_conv_nth)
qed

lemma progress:
  assumes "life_ok s" and "\<not> settled s" and "\<not> flush_stuck s"
  shows "\<exists>s'. internal_step s s'"
proof -
  have "\<not> blocked s"
    using blocked_settled assms by blast
  then obtain a s' where "internal a" "life_do a s = Some s'"
    by (auto simp: blocked_def)
  then show ?thesis
    by (blast intro: internal_step.intros)
qed

section \<open>A measure\<close>

text \<open>
  The steps that are left to each thread.  The metrics that the flush of \<open>Close\<close> finds are not known
  before it begins, so the callers in front of it are counted first.
\<close>

fun before_flush :: "caller \<Rightarrow> bool" where
  "before_flush WantClose = True"
| "before_flush (StopWorker k) = True"
| "before_flush StopAggPull = True"
| "before_flush WaitAggPull = True"
| "before_flush StopAgg = True"
| "before_flush WaitGroup = True"
| "before_flush _ = False"

fun caller_weight :: "nat \<Rightarrow> caller \<Rightarrow> nat" where
  "caller_weight n Idle = 0"
| "caller_weight n (Sending i) = 1"
| "caller_weight n AskClosed = 1"
| "caller_weight n AwaitStop = 1"
| "caller_weight n StopLoop = 3"
| "caller_weight n (Unpausing k b) = k + 4"
| "caller_weight n (Awaiting b) = n + 5"
| "caller_weight n (Signalling b) = n + 8"
| "caller_weight n (Pausing k b) = n + 9 + (n - k)"
| "caller_weight n (FlushAgg ws b) = 2 * n + 10 + length ws"
| "caller_weight n WaitGroup = 1"
| "caller_weight n StopAgg = 2"
| "caller_weight n WaitAggPull = 3"
| "caller_weight n StopAggPull = 4"
| "caller_weight n (StopWorker k) = 5 + (n - k)"
| "caller_weight n WantClose = n + 6"

fun loop_weight :: "send_loop \<Rightarrow> nat" where
  "loop_weight SendSelect = 0"
| "loop_weight SendDraining = 2"
| "loop_weight SendAnswering = 1"
| "loop_weight SendLeaving = 1"
| "loop_weight SendEnded = 0"

fun own_weight :: "send_loop option \<Rightarrow> nat" where
  "own_weight (Some SendSelect) = 2"
| "own_weight (Some SendLeaving) = 1"
| "own_weight _ = 0"

fun routine_weight :: "rstate \<Rightarrow> nat" where
  "routine_weight (Busy ws) = 4 + length ws"
| "routine_weight Selecting = 3"
| "routine_weight Leaving = 1"
| "routine_weight Gone = 0"

definition closes_left :: "life \<Rightarrow> nat" where
  "closes_left s = length (filter before_flush (lf_callers s))"

definition steps_left :: "life \<Rightarrow> nat" where
  "steps_left s = sum_list (map (caller_weight (length (lf_locks s))) (lf_callers s)) + loop_weight (lf_send s)
     + own_weight (lf_own s) + sum_list (map (routine_weight \<circ> lf_routine s) (routines s))"

lemma sum_list_update_nat:
  fixes f :: "'a \<Rightarrow> nat"
  assumes "j < length xs"
  shows "sum_list (map f (xs[j := x])) + f (xs ! j) = sum_list (map f xs) + f x"
  using assms by (induction xs arbitrary: j) (auto split: nat.splits)

lemma filter_update_length:
  assumes "j < length xs"
  shows "length (filter P (xs[j := x])) + (if P (xs ! j) then 1 else 0) = length (filter P xs) + (if P x then 1 else 0)"
proof -
  have "length (filter P ys) = sum_list (map (\<lambda>y. if P y then 1 else 0) ys)" for ys
    by (induction ys) auto
  with sum_list_update_nat [OF assms, of "\<lambda>y. if P y then 1 else 0" x] show ?thesis by simp
qed

lemma sum_routines:
  fixes f :: "rstate \<Rightarrow> nat"
  assumes "distinct rs" and "r \<in> set rs"
  shows "sum_list (map (f \<circ> (R(r := st))) rs) + f (R r) = sum_list (map (f \<circ> R) rs) + f st"
  using assms
proof (induction rs)
  case (Cons x rs)
  show ?case
  proof (cases "x = r")
    case True
    with Cons.prems have "sum_list (map (f \<circ> (R(r := st))) rs) = sum_list (map (f \<circ> R) rs)"
      by (intro arg_cong [of _ _ sum_list] map_cong) auto
    with True show ?thesis by (simp add: comp_def)
  next
    case False
    with Cons show ?thesis by auto
  qed
qed simp

lemma routines_distinct: "distinct (routines s)"
  by (auto simp: routines_def distinct_map inj_on_def)

lemma routines_cong: "length (lf_locks s') = length (lf_locks s) \<Longrightarrow> routines s' = routines s"
  by (simp add: routines_def)

lemma live_routine:
  assumes "life_ok s" and "lf_routine s r \<noteq> Gone"
  shows "r \<in> set (routines s)"
  using life_okD(4) [OF assms(1), of r] assms(2) by (cases r) (auto simp: routines_def)

text \<open>How a step of one thread changes the measure.\<close>

definition smaller :: "life \<Rightarrow> life \<Rightarrow> bool" where
  "smaller s' s \<longleftrightarrow> closes_left s' < closes_left s \<or> closes_left s' = closes_left s \<and> steps_left s' < steps_left s"

lemma smaller_caller:
  assumes "j < length (lf_callers s)" and s': "lf_callers s' = (lf_callers s)[j := pc]"
    "length (lf_locks s') = length (lf_locks s)" "lf_own s' = lf_own s"
    and "before_flush pc \<Longrightarrow> before_flush (lf_callers s ! j)"
    and "\<not> before_flush (lf_callers s ! j) \<or> before_flush pc \<Longrightarrow>
      caller_weight (length (lf_locks s)) pc + loop_weight (lf_send s')
        + sum_list (map (routine_weight \<circ> lf_routine s') (routines s))
      < caller_weight (length (lf_locks s)) (lf_callers s ! j) + loop_weight (lf_send s)
        + sum_list (map (routine_weight \<circ> lf_routine s) (routines s))"
  shows "smaller s' s"
proof -
  note upd = filter_update_length [OF assms(1), of before_flush pc]
    sum_list_update_nat [OF assms(1), of "caller_weight (length (lf_locks s))" pc]
  have "routines s' = routines s"
    using s'(2) by (rule routines_cong)
  with upd assms(2-6) show ?thesis
    by (cases "before_flush pc"; cases "before_flush (lf_callers s ! j)")
      (auto simp: smaller_def closes_left_def steps_left_def)
qed

lemma smaller_become:
  assumes "life_ok s" and "lf_routine s r \<noteq> Gone" and "routine_weight st < routine_weight (lf_routine s r)"
  shows "smaller (become r st s) s"
  using sum_routines [OF routines_distinct live_routine [OF assms(1,2)], of routine_weight "lf_routine s" st]
    assms(3) routines_cong [of "become r st s" s]
  by (auto simp: smaller_def closes_left_def steps_left_def)

lemma smaller_routine_step:
  assumes "life_ok s" and "routine_step r s = Some s'"
  shows "smaller s' s"
proof -
  have live: "lf_routine s r \<noteq> Gone"
    using assms(2) by (auto simp: routine_step_def)
  consider st where "s' = become r st s" "routine_weight st < routine_weight (lf_routine s r)"
    | "lf_own s = Some SendSelect" "s' = s\<lparr>lf_own := Some SendLeaving\<rparr>"
    using assms(2) by (auto simp: routine_step_def split: rstate.splits if_splits list.splits option.splits
        send_loop.splits)
  then show ?thesis
  proof cases
    case 1
    with smaller_become [OF assms(1) live] show ?thesis by simp
  next
    case 2
    then show ?thesis
      using routines_cong [of s' s] by (simp add: smaller_def closes_left_def steps_left_def)
  qed
qed

lemma smaller_flush_step:
  assumes "life_ok s" and "j < length (lf_callers s)" and "flush_step j s = Some s'"
  shows "smaller s' s"
  using assms(3)
  by (auto simp: flush_defs split: caller.splits list.splits nat.splits if_splits
      intro!: smaller_caller [OF assms(2)])

lemma smaller_close_step:
  assumes "life_ok s" and "j < length (lf_callers s)" and "close_step j ws s = Some s'"
  shows "smaller s' s"
proof -
  have gone: "sum_list (map (routine_weight \<circ> ((lf_routine s)(r := Gone))) (routines s)) + 3
      = sum_list (map (routine_weight \<circ> lf_routine s) (routines s))" if "lf_routine s r = Selecting" for r
    using sum_routines [OF routines_distinct live_routine [OF assms(1)], of r routine_weight "lf_routine s" Gone] that
    by simp
  from assms(3) show ?thesis
    by (auto simp: close_defs dest: gone split: caller.splits if_splits intro!: smaller_caller [OF assms(2)])
qed

lemma internal_smaller:
  assumes "life_ok s" and "internal_step s s'"
  shows "smaller s' s"
  using assms(2)
proof cases
  case (1 a)
  show ?thesis
  proof (cases a)
    case (CallerStep j ws)
    with 1 have step: "caller_step j ws s = Some s'" by simp
    then have j: "j < length (lf_callers s)"
      by (auto simp: caller_step_defs split: if_splits)
    from step smaller_flush_step [OF assms(1) j] smaller_close_step [OF assms(1) j] show ?thesis
      by (auto simp: caller_step_defs split: if_splits caller.splits intro!: smaller_caller [OF j])
  next
    case (Steal j j')
    with 1 have "steal_step j j' s = Some s'" by simp
    then show ?thesis
      using no_steal [OF assms(1)] by simp
  next
    case (RoutineStep r)
    with 1 smaller_routine_step [OF assms(1)] show ?thesis by simp
  next
    case SendStep
    with 1 routines_cong [of s' s] show ?thesis
      by (auto simp: send_step_def smaller_def closes_left_def steps_left_def split: send_loop.splits)
  next
    case OwnStep
    with 1 routines_cong [of s' s] show ?thesis
      by (auto simp: own_step_def smaller_def closes_left_def steps_left_def split: if_splits)
  qed (use 1 in auto)
qed

lemma internal_ok: "internal_step s s' \<Longrightarrow> life_ok s \<Longrightarrow> life_ok s'"
  by (auto elim!: internal_step.cases intro: life_do_ok)

lemma wf_smaller: "wf {(s', s). smaller s' s}"
proof -
  have "{(s', s). smaller s' s} = measures [closes_left, steps_left]"
    by (auto simp: smaller_def)
  then show ?thesis by simp
qed

section \<open>Everything comes to an end\<close>

lemma ends:
  assumes "life_ok s" and "I s"
    and I: "\<And>s s'. life_ok s \<Longrightarrow> I s \<Longrightarrow> internal_step s s' \<Longrightarrow> I s'"
    and Q: "\<And>s. life_ok s \<Longrightarrow> I s \<Longrightarrow> settled s \<or> flush_stuck s \<Longrightarrow> Q s"
  shows "inevitable Q s"
  using assms(1,2)
proof (induction s rule: wf_induct_rule [OF wf_smaller])
  case (1 s)
  show ?case
  proof (cases "settled s \<or> flush_stuck s")
    case True
    with Q 1 show ?thesis by (auto intro: inevitable.now)
  next
    case False
    then have "\<exists>s'. internal_step s s'"
      using progress 1 by blast
    moreover have "inevitable Q s'" if "internal_step s s'" for s'
      using 1 that internal_smaller internal_ok I by blast
    ultimately show ?thesis
      by (rule inevitable.later)
  qed
qed

text \<open>Once \<open>Close\<close> has returned, no goroutine is left.\<close>

lemma closed_all_gone:
  assumes "life_ok s" and "lf_closer s = None" and "lf_stop s"
  shows "all_gone s"
proof -
  note ok = life_okD [OF assms(1)]
  have at: "stage s = 9" "stopped s = length (lf_locks s)"
    using assms(2,3) by (simp_all add: stage_def stopped_def)
  have "lf_routine s r = Gone" for r
    using ok(4) [of r] by (cases r) (auto simp: at split: rstate.splits)
  moreover have "lf_own s = None \<or> lf_own s = Some SendEnded"
    using ok(4) [of TelemetryLoop] by (auto simp: at)
  moreover have "lf_send s = SendEnded"
    using ok(2) at by (simp add: send_ok_def)
  ultimately show ?thesis
    by (simp add: all_gone_def list_all_iff)
qed

lemma settled_after_close:
  assumes "life_ok s" and "settled s" and "lf_stop s"
  shows "all_gone s"
proof -
  have "lf_closer s = None"
  proof (cases "lf_closer s")
    case (Some j)
    with callers_okD(2) [OF life_okD(1) [OF assms(1)], of j] assms(2) show ?thesis
      by (auto simp: settled_def list_all_iff dest!: nth_mem)
  qed
  with assms show ?thesis by (intro closed_all_gone)
qed

text \<open>A \<open>Flush\<close> of a user of the client, and a \<open>Close\<close> that is asked for or done.\<close>

fun user_flush :: "caller \<Rightarrow> bool" where
  "user_flush (FlushAgg ws b) = (\<not> b)"
| "user_flush (Pausing k b) = (\<not> b)"
| "user_flush (Signalling b) = (\<not> b)"
| "user_flush (Awaiting b) = (\<not> b)"
| "user_flush (Unpausing k b) = (\<not> b)"
| "user_flush _ = False"

definition flushes_now :: "life \<Rightarrow> bool" where
  "flushes_now s \<longleftrightarrow> list_ex user_flush (lf_callers s)"

definition closes_now :: "life \<Rightarrow> bool" where
  "closes_now s \<longleftrightarrow> lf_stop s \<or> list_ex (\<lambda>pc. pc = WantClose) (lf_callers s)"

lemma list_ex_update:
  "j < length xs \<Longrightarrow> list_ex P (xs[j := x]) \<Longrightarrow> (P x \<Longrightarrow> P (xs ! j)) \<Longrightarrow> list_ex P xs"
  by (auto simp: list_ex_iff dest!: set_update_subset_insert [THEN subsetD])

lemma goto_flushes:
  assumes "j < length (lf_callers s)" and "lf_callers s' = (lf_callers s)[j := pc]"
    and "user_flush pc \<Longrightarrow> user_flush (lf_callers s ! j)" and "flushes_now s'"
  shows "flushes_now s"
  using list_ex_update [OF assms(1), of user_flush pc] assms(2-4) by (simp add: flushes_now_def)

lemma goto_closes:
  assumes "j < length (lf_callers s)" and "lf_callers s' = (lf_callers s)[j := pc]"
    and "pc \<noteq> WantClose" and "lf_stop s' \<Longrightarrow> lf_stop s \<or> lf_callers s ! j = WantClose" and "closes_now s'"
  shows "closes_now s"
proof -
  have "list_ex (\<lambda>pc. pc = WantClose) (lf_callers s)" if "lf_callers s ! j = WantClose"
    using assms(1) that by (auto simp: list_ex_iff in_set_conv_nth)
  with list_ex_update [OF assms(1), of "\<lambda>pc. pc = WantClose" pc] assms(2-5) show ?thesis
    by (auto simp: closes_now_def)
qed

lemma caller_step_keeps:
  assumes "caller_step j ws s = Some s'"
  shows "flushes_now s' \<Longrightarrow> flushes_now s" "closes_now s' \<Longrightarrow> closes_now s"
proof -
  have j: "j < length (lf_callers s)"
    using assms by (auto simp: caller_step_defs split: if_splits)
  note defs = caller_step_defs flush_defs close_defs
  show "flushes_now s' \<Longrightarrow> flushes_now s"
    using assms j by (auto simp: defs split: if_splits caller.splits list.splits nat.splits
        elim!: goto_flushes [OF j, rotated 2])
  show "closes_now s' \<Longrightarrow> closes_now s"
    using assms j by (auto simp: defs split: if_splits caller.splits list.splits nat.splits
        elim!: goto_closes [OF j, rotated 3])
qed

lemma internal_keeps:
  assumes "life_ok s" and "internal_step s s'"
  shows "flushes_now s' \<Longrightarrow> flushes_now s" "closes_now s' \<Longrightarrow> closes_now s"
proof -
  obtain a where a: "internal a" "life_do a s = Some s'"
    using assms(2) by (auto elim: internal_step.cases)
  have "(flushes_now s' \<longrightarrow> flushes_now s) \<and> (closes_now s' \<longrightarrow> closes_now s)"
  proof (cases a)
    case (CallerStep j ws)
    with a caller_step_keeps show ?thesis by auto
  next
    case (Steal j j')
    with a no_steal [OF assms(1)] show ?thesis by simp
  qed (use a in \<open>auto simp: flushes_now_def closes_now_def routine_step_def send_step_def own_step_def
      split: rstate.splits send_loop.splits option.splits list.splits if_splits\<close>)
  then show "flushes_now s' \<Longrightarrow> flushes_now s" "closes_now s' \<Longrightarrow> closes_now s" by auto
qed

lemma internal_stop:
  assumes "internal_step s s'" and "lf_stop s"
  shows "lf_stop s'"
  using assms
  by (auto elim!: internal_step.cases internal.elims simp: caller_step_defs flush_defs close_defs
      steal_step_def routine_step_def send_step_def own_step_def
      split: caller.splits if_splits list.splits nat.splits rstate.splits option.splits send_loop.splits)

section \<open>A flush that close has overtaken\<close>

lemma stuck_overlap:
  assumes "life_ok s" and "flush_stuck s"
  shows "flushes_now s \<and> closes_now s"
proof -
  have "8 \<le> stage s"
    using life_okD(2) [OF assms(1)] assms(2) by (simp add: send_ok_def flush_stuck_def)
  then have "lf_stop s"
    using life_okD(3) [OF assms(1)] by (simp add: closing_ok_def)
  moreover have "flushes_now s"
    using assms(2) by (auto simp: flush_stuck_def flushes_now_def list_ex_iff intro!: bexI [of _ "Signalling False"])
  ultimately show ?thesis
    by (simp add: closes_now_def)
qed

lemma stuck_action:
  assumes "life_ok s" and "lf_send s = SendEnded" and j: "j < length (lf_callers s)" "lf_callers s ! j = Signalling False"
    and "life_do a s = Some s'"
  shows "lf_send s' = SendEnded \<and> length (lf_callers s') = length (lf_callers s) \<and> lf_callers s' ! j = Signalling False"
proof (cases a)
  case (CallerStep j' ws)
  with assms show ?thesis
    by (cases "j' = j")
      (auto simp: caller_step_defs flush_defs close_defs
        split: caller.splits if_splits list.splits nat.splits)
next
  case (Steal j' j'')
  with assms no_steal [OF assms(1)] show ?thesis by simp
qed (use assms in \<open>auto simp: begin_call_def routine_step_def send_step_def own_step_def nth_list_update
    split: if_splits rstate.splits list.splits option.splits send_loop.splits\<close>)

lemma holder_has_locks:
  assumes "callers_ok s" and "j < length (lf_callers s)" and "\<And>i. holds_lock i (lf_callers s ! j)"
  shows "list_all (\<lambda>l. l = Some j) (lf_locks s)"
  using assms by (auto simp: callers_ok_def list_all_length)

text \<open>A caller that waits for a worker goes on waiting.\<close>

lemma stuck_sender:
  assumes "life_ok s" and "lf_send s = SendEnded" and "j < length (lf_callers s)" "lf_callers s ! j = Signalling False"
    and "j' < length (lf_callers s)" "lf_callers s ! j' = Sending i" and "life_do a s = Some s'"
  shows "lf_callers s' ! j' = Sending i"
proof -
  have held: "\<not> lock_free k s" for k
    using holder_has_locks [OF life_okD(1) [OF assms(1)] assms(3)] assms(4)
    by (auto simp: lock_free_def list_all_length)
  show ?thesis
  proof (cases a)
    case (CallerStep j'' ws)
    with assms held show ?thesis
      by (cases "j'' = j'")
        (auto simp: caller_step_defs flush_defs close_defs
          split: caller.splits if_splits list.splits nat.splits)
  next
    case (Steal j1 j2)
    with assms no_steal [OF assms(1)] show ?thesis by simp
  qed (use assms in \<open>auto simp: begin_call_def routine_step_def send_step_def own_step_def nth_list_update
      split: if_splits rstate.splits list.splits option.splits send_loop.splits\<close>)
qed

lemma stuck_run:
  assumes "life_ok s" and "lf_send s = SendEnded" and "j < length (lf_callers s)" "lf_callers s ! j = Signalling False"
    and "life_run as s = Some s'"
  shows "lf_send s' = SendEnded \<and> length (lf_callers s') = length (lf_callers s)
    \<and> lf_callers s' ! j = Signalling False
    \<and> (\<forall>j' < length (lf_callers s). \<forall>i. lf_callers s ! j' = Sending i \<longrightarrow> lf_callers s' ! j' = Sending i)"
  using assms
proof (induction "as" arbitrary: s)
  case (Cons a as)
  then obtain t where t: "life_do a s = Some t" "life_run as t = Some s'"
    by (auto simp: bind_eq_Some_conv)
  note now = stuck_action [OF Cons.prems(1-4) t(1)]
  have "life_ok t"
    using life_do_ok [OF Cons.prems(1) t(1)] .
  with Cons.IH [of t] now t(2) Cons.prems(3) stuck_sender [OF Cons.prems(1-4) _ _ t(1)] show ?case
    by auto
qed simp

end
