(* ===== verification/Lifecycle_Properties.thy ===== *)
theory Lifecycle_Properties
  imports Lifecycle_Progress Client_Properties
begin

text \<open>
  What holds of the threads of every client with a worker, in every state that calls, tickers and the
  scheduler can lead to.
\<close>

lemma reachable_ok:
  assumes "c_workers c \<noteq> []" and "life_run as (life_start c telemetry own n) = Some s"
  shows "life_ok s"
  using life_run_ok [OF life_start_ok [OF assms(1)] assms(2)] .

section \<open>A small client\<close>

text \<open>The client of \<open>Client_Properties\<close> with telemetry, and three threads that use it.\<close>

definition demo_life :: life where
  "demo_life = life_start demo_client True False 3"

lemmas life_eval =
  demo_life_def life_start_def demo_client_def newAggregator_def size_defs begin_call_def goto_def caller_step_defs flush_defs
  close_defs routine_step_def start_defs foldl_become send_step_def told_to_stop_def metrics_ok_def lock_free_def Let_def
  numeral_2_eq_2 numeral_3_eq_3

lemma demo_workers: "c_workers demo_client \<noteq> []"
  by (simp add: demo_client_def)

text \<open>Thread 1 closes the client, up to the drain of its flush.\<close>

definition close_actions :: "life_action list" where
  "close_actions =
     [BeginClose 1, CallerStep 1 [], CallerStep 1 [], CallerStep 1 [], CallerStep 1 [],
      RoutineStep WatchLoop, RoutineStep TelemetryLoop, CallerStep 1 [], CallerStep 1 [],
      CallerStep 1 [], CallerStep 1 [], CallerStep 1 []]"

definition draining :: life where
  "draining = the (life_run close_actions demo_life)"

lemma draining_run: "life_run close_actions demo_life = Some draining"
  by (simp add: draining_def close_actions_def life_eval)

lemma draining_sends: "lf_send draining = SendDraining"
  by (simp add: draining_def close_actions_def life_eval)

text \<open>Thread 0 begins a flush; thread 1 closes the client; then thread 0 gets its locks, and thread 2 sends.\<close>

definition overtaken_actions :: "life_action list" where
  "overtaken_actions =
     BeginFlush 0 [] # close_actions @
     [SendStep, CallerStep 1 [], CallerStep 1 [], CallerStep 1 [], CallerStep 1 [], SendStep, CallerStep 1 [],
      CallerStep 0 [], CallerStep 0 [], CallerStep 0 [], BeginSend 2 0]"

definition overtaken :: life where
  "overtaken = the (life_run overtaken_actions demo_life)"

lemma overtaken_run:
  "life_run overtaken_actions demo_life = Some overtaken"
  by (simp add: overtaken_def overtaken_actions_def close_actions_def life_eval)

lemma overtaken_at:
  "lf_callers overtaken = [Signalling False, Idle, Sending 0]" "flush_stuck overtaken"
  by (simp_all add: overtaken_def overtaken_actions_def close_actions_def life_eval flush_stuck_def)

section \<open>Properties\<close>

lemma filter_at_most_one:
  assumes "\<And>i j. i < length xs \<Longrightarrow> j < length xs \<Longrightarrow> P (xs ! i) \<Longrightarrow> P (xs ! j) \<Longrightarrow> i = j"
  shows "length (filter P xs) \<le> 1"
proof -
  have "finite {i. i < length xs \<and> P (xs ! i)}" by simp
  then show ?thesis
    using assms by (simp add: length_filter_conv_card card_le_Suc0_iff_eq)
qed

text \<open>
  C5. Flushes exclude each other from the first worker they pause to the last they release, and while
  the send loop drains the queue for one of them every worker is paused; and when \<open>Close\<close> has
  returned no goroutine of the client is left.
\<close>

theorem drains_while_paused:
  assumes "c_workers c \<noteq> []" and "life_run as (life_start c telemetry own n) = Some s"
  shows "length (filter (holds_lock 0) (lf_callers s)) \<le> 1
    \<and> (lf_send s = SendDraining \<longrightarrow> (\<exists>j. list_all (\<lambda>l. l = Some j) (lf_locks s)))
    \<and> (lf_closer s = None \<and> lf_stop s \<longrightarrow> all_gone s)"
proof (intro conjI impI)
  note ok = reachable_ok [OF assms]
  have "0 < length (lf_locks s)"
    using ok by (simp add: life_ok_def)
  with holder_unique [OF life_okD(1) [OF ok]] show "length (filter (holds_lock 0) (lf_callers s)) \<le> 1"
    by (intro filter_at_most_one)
  show "\<exists>j. list_all (\<lambda>l. l = Some j) (lf_locks s)" if "lf_send s = SendDraining"
  proof -
    from that life_okD(2) [OF ok] obtain j where "j < length (lf_callers s)" "awaits (lf_callers s ! j)"
      by (auto simp: send_ok_def in_set_conv_nth)
    with holder_has_locks [OF life_okD(1) [OF ok]] awaits_holds show ?thesis by blast
  qed
  show "all_gone s" if "lf_closer s = None \<and> lf_stop s"
    using closed_all_gone [OF ok] that by simp
qed

theorem drains_while_paused_witness:
  "length (filter (holds_lock 0) (lf_callers draining)) \<le> 1
    \<and> (\<exists>j. list_all (\<lambda>l. l = Some j) (lf_locks draining))"
  using drains_while_paused [OF demo_workers draining_run [unfolded demo_life_def]] draining_sends by simp

text \<open>
  C4. Everything that has begun comes to an end, in whatever order the threads are scheduled: unless a
  \<open>Flush\<close> and a \<open>Close\<close> of the users overlap, every way to go on leads to a state in which all calls
  have returned and no goroutine is in a turn; and if the client is being closed then all of them,
  the send loop included, are gone.
\<close>

theorem calls_return:
  assumes "c_workers c \<noteq> []" and "life_run as (life_start c telemetry own n) = Some s"
    and "\<not> (flushes_now s \<and> closes_now s)"
  shows "inevitable (\<lambda>s'. settled s' \<and> (lf_stop s \<longrightarrow> all_gone s')) s"
proof (rule ends [where I = "\<lambda>t. \<not> (flushes_now t \<and> closes_now t) \<and> (lf_stop s \<longrightarrow> lf_stop t)"])
  show "life_ok s"
    by (rule reachable_ok [OF assms(1,2)])
  show "\<not> (flushes_now s \<and> closes_now s) \<and> (lf_stop s \<longrightarrow> lf_stop s)"
    using assms(3) by simp
  show "\<not> (flushes_now t' \<and> closes_now t') \<and> (lf_stop s \<longrightarrow> lf_stop t')"
    if "life_ok t" "\<not> (flushes_now t \<and> closes_now t) \<and> (lf_stop s \<longrightarrow> lf_stop t)" "internal_step t t'" for t t'
    using that internal_keeps [OF that(1,3)] internal_stop [OF that(3)] by blast
  show "settled t \<and> (lf_stop s \<longrightarrow> all_gone t)"
    if "life_ok t" "\<not> (flushes_now t \<and> closes_now t) \<and> (lf_stop s \<longrightarrow> lf_stop t)" "settled t \<or> flush_stuck t" for t
    using that stuck_overlap [OF that(1)] settled_after_close [OF that(1)] by blast
qed

theorem calls_return_witness:
  "inevitable (\<lambda>s'. settled s' \<and> all_gone s') draining"
proof -
  have "lf_stop draining" "\<not> flushes_now draining"
    by (simp_all add: draining_def close_actions_def life_eval flushes_now_def)
  with calls_return [OF demo_workers draining_run [unfolded demo_life_def]] show ?thesis by simp
qed

text \<open>
  C29. A \<open>Flush\<close> that \<open>Close\<close> overtakes never returns: once the send loop has ended while it signals,
  whatever happens afterwards, it goes on waiting and holds the lock of every worker, and every
  call that waits for a worker goes on waiting too.
\<close>

theorem overtaken_flush_blocks:
  assumes "c_workers c \<noteq> []" and "life_run as (life_start c telemetry own n) = Some s" and "flush_stuck s"
    and "life_run bs s = Some s'"
  shows "flush_stuck s' \<and> list_all (\<lambda>l. l \<noteq> None) (lf_locks s')
    \<and> list_all2 (\<lambda>pc pc'. \<forall>i. pc = Sending i \<longrightarrow> pc' = Sending i) (lf_callers s) (lf_callers s')"
proof -
  note ok = reachable_ok [OF assms(1,2)]
  from assms(3) obtain j where j: "j < length (lf_callers s)" "lf_callers s ! j = Signalling False"
    and ended: "lf_send s = SendEnded"
    by (auto simp: flush_stuck_def list_ex_iff in_set_conv_nth)
  note after = stuck_run [OF ok ended j assms(4)]
  have "list_all (\<lambda>l. l = Some j) (lf_locks s')"
    using after j by (intro holder_has_locks [OF life_okD(1) [OF life_run_ok [OF ok assms(4)]]]) auto
  moreover have "list_ex (\<lambda>pc. pc = Signalling False) (lf_callers s')"
    using after j nth_mem [of j "lf_callers s'"] by (auto simp: list_ex_iff)
  ultimately show ?thesis
    using after by (auto simp: flush_stuck_def list_all_length list_all2_conv_all_nth)
qed

theorem overtaken_flush_blocks_witness:
  "flush_stuck overtaken \<and> list_all (\<lambda>l. l \<noteq> None) (lf_locks overtaken)
    \<and> lf_callers overtaken = [Signalling False, Idle, Sending 0]"
  using overtaken_flush_blocks [OF demo_workers overtaken_run [unfolded demo_life_def] overtaken_at(2), of "[]"]
    overtaken_at(1) by simp

end
