(* ===== verification/Client_Threads.thy ===== *)
theory Client_Threads
  imports Lifecycle_Properties
begin

text \<open>
  The threads of \<open>Lifecycle\<close> together with the state of the client they work on: each step that takes
  the lock of a worker, pauses it, or drains the queue is carried out on the buffers, the pool and
  the queue.  So what \<open>Flush\<close> promises is shown for every schedule of the threads, with calls and
  tickers that run while the workers are being paused.
\<close>

section \<open>Steps with their effects\<close>

text \<open>
  What the program counters leave open: the metric that a step hands to a worker, with its random
  draw, and the outcome of each write.
\<close>

record step_data =
  sd_draw :: f64
  sd_metric :: metric
  sd_outs :: "nat \<Rightarrow> bytes option"

text \<open>Worker \<open>i\<close> processes the metric; the hash of its name has picked that worker.\<close>

definition processes :: "globals \<Rightarrow> step_data \<Rightarrow> nat \<Rightarrow> ClientEx \<Rightarrow> ClientEx option" where
  "processes g x i c =
     (if workerIndex c (m_name (sd_metric x)) = Some i
      then case worker_processMetric g (sd_draw x) i (sd_metric x) c of
          Done (c, err) \<Rightarrow> Some c | _ \<Rightarrow> None
      else None)"

text \<open>
  The effect of an action in the state \<open>s\<close> of the threads.  \<open>None\<close> is a panic.
\<close>

fun caller_effect :: "globals \<Rightarrow> step_data \<Rightarrow> caller \<Rightarrow> ClientEx \<Rightarrow> ClientEx option" where
  "caller_effect g x (Sending i) c = processes g x i c"
| "caller_effect g x (FlushAgg (i # ws) b) c = processes g x i c"
| "caller_effect g x (Pausing k b) c =
     Some (if k < length (c_workers c) then worker_flush k c else c)"
| "caller_effect g x AwaitStop c = Some (sender_drain (sd_outs x) c)"
| "caller_effect g x _ c = Some c"

fun routine_effect :: "globals \<Rightarrow> step_data \<Rightarrow> routine \<Rightarrow> rstate \<Rightarrow> ClientEx \<Rightarrow> ClientEx option" where
  "routine_effect g x WatchLoop (Busy (i # ws)) c = Some (worker_flush i c)"
| "routine_effect g x r (Busy (i # ws)) c = processes g x i c"
| "routine_effect g x r _ c = Some c"

fun send_effect :: "step_data \<Rightarrow> send_loop \<Rightarrow> ClientEx \<Rightarrow> ClientEx" where
  "send_effect x SendDraining c = sender_drain (sd_outs x) c"
| "send_effect x _ c = c"

fun effect :: "globals \<Rightarrow> step_data \<Rightarrow> life_action \<Rightarrow> life \<Rightarrow> ClientEx \<Rightarrow> ClientEx option" where
  "effect g x (CallerStep j ws) s c = caller_effect g x (lf_callers s ! j) c"
| "effect g x (RoutineStep r) s c = routine_effect g x r (lf_routine s r) c"
| "effect g x SendStep s c = Some (send_effect x (lf_send s) c)"
| "effect g x _ s c = Some c"

text \<open>
  Beside the actions of \<open>Lifecycle\<close>, the send loop writes a payload of the queue when it selects, and
  calls count themselves, sample into the aggregator and use the channels; the fields that this
  changes can become anything, as no worker reads them.
\<close>

datatype thread_step =
    Act life_action step_data
  | Writes "bytes option"
  | Aside statsdTelemetry "aggregator option" "metric list list" "metric list" "client_error list"

fun thread_do :: "globals \<Rightarrow> thread_step \<Rightarrow> life \<times> ClientEx \<Rightarrow> (life \<times> ClientEx) option" where
  "thread_do g (Act a x) (s, c) =
     Option.bind (life_do a s) (\<lambda>s'. map_option (Pair s') (effect g x a s c))"
| "thread_do g (Writes out) (s, c) =
     (if lf_send s = SendSelect then Some (s, sender_turn out c) else None)"
| "thread_do g (Aside t a qs ms hs) (s, c) =
     (if length qs = length (c_inputs c)
      then Some (s, c\<lparr>c_telemetry := t, c_agg := a, c_inputs := qs, c_aggInput := ms, c_handled := hs\<rparr>)
      else None)"

fun threads_run :: "globals \<Rightarrow> thread_step list \<Rightarrow> life \<times> ClientEx \<Rightarrow> (life \<times> ClientEx) option" where
  "threads_run g [] sc = Some sc"
| "threads_run g (t # ts) sc = Option.bind (thread_do g t sc) (threads_run g ts)"

lemma threads_run_append:
  "threads_run g (ts @ us) sc = Option.bind (threads_run g ts sc) (threads_run g us)"
proof (induction ts arbitrary: sc)
  case (Cons t ts)
  then show ?case by (cases "thread_do g t sc") simp_all
qed simp

section \<open>What a step can do\<close>

lemma processes_Some:
  "processes g x i c = Some c' \<longleftrightarrow> workerIndex c (m_name (sd_metric x)) = Some i
     \<and> (\<exists>err. worker_processMetric g (sd_draw x) i (sd_metric x) c = Done (c', err))"
  by (auto simp: processes_def split: outcome.splits)

text \<open>The locks and the data that an action moves; the other fields of the threads are left aside.\<close>

inductive data_step :: "globals \<Rightarrow> nat option list \<Rightarrow> ClientEx \<Rightarrow> nat option list \<Rightarrow> ClientEx \<Rightarrow> bool" for g where
  work: "i < length ls \<Longrightarrow> ls ! i = None \<Longrightarrow> worker_processMetric g d i m c = Done (c', err) \<Longrightarrow>
    data_step g ls c ls c'"
| tick: "i < length ls \<Longrightarrow> ls ! i = None \<Longrightarrow> data_step g ls c ls (worker_flush i c)"
| pause: "k < length ls \<Longrightarrow> ls ! k = None \<Longrightarrow> data_step g ls c (ls[k := Some j]) (worker_flush k c)"
| drain: "data_step g ls c ls (sender_drain outs c)"
| still: "data_step g ls c ls c"
| release: "data_step g ls c (ls[k := None]) c"

lemma caller_data_step:
  assumes "caller_step j ws s = Some s'" and "caller_effect g x (lf_callers s ! j) c = Some c'"
    and "length (c_workers c) = length (lf_locks s)"
  shows "data_step g (lf_locks s) c (lf_locks s') c'"
proof (cases "lf_callers s ! j")
  case (FlushAgg ws' b)
  with assms show ?thesis
    by (cases ws') (auto simp: caller_step_defs flush_defs processes_Some lock_free_def
        intro: data_step.intros split: if_splits)
next
  case (Unpausing k b)
  with assms show ?thesis
    by (cases k) (auto simp: caller_step_defs flush_defs intro: data_step.intros split: if_splits)
qed (use assms in \<open>auto simp: caller_step_defs flush_defs close_defs processes_Some lock_free_def
      intro: data_step.intros split: if_splits\<close>)

lemma routine_data_step:
  assumes "routine_step r s = Some s'" and "routine_effect g x r (lf_routine s r) c = Some c'"
  shows "data_step g (lf_locks s) c (lf_locks s') c'"
proof (cases "lf_routine s r")
  case (Busy ws)
  with assms show ?thesis
    by (cases ws; cases r) (auto simp: routine_step_def processes_Some lock_free_def
        intro: data_step.intros split: if_splits)
next
  case Leaving
  with assms show ?thesis
    by (cases r) (auto simp: routine_step_def intro: data_step.intros split: option.splits send_loop.splits)
qed (use assms in \<open>cases r; auto simp: routine_step_def intro: data_step.intros split: if_splits\<close>)+

lemma act_data_step:
  assumes "life_do a s = Some s'" and "effect g x a s c = Some c'"
    and "length (c_workers c) = length (lf_locks s)"
  shows "data_step g (lf_locks s) c (lf_locks s') c'"
proof (cases a)
  case SendStep
  with assms show ?thesis
    by (cases "lf_send s") (auto simp: send_step_def intro: data_step.intros)
qed (use assms in \<open>auto simp: begin_call_def steal_step_def own_step_def intro: data_step.intros
      caller_data_step routine_data_step split: if_splits caller.splits\<close>)

section \<open>The invariant\<close>

lemma data_step_activity:
  assumes "data_step g ls c ls' c'" and "length ls = length (c_workers c)"
  shows "activity g c c'"
  using assms by (induction rule: data_step.induct) (auto intro: activity.intros)

lemma data_step_length: "data_step g ls c ls' c' \<Longrightarrow> length ls' = length ls"
  by (induction rule: data_step.induct) simp_all

lemma activity_workers: "activity g c c' \<Longrightarrow> length (c_workers c') = length (c_workers c)"
  using activity_config by (force simp: config_def)

lemma process_idle:
  assumes "worker_processMetric g d i m c = Done (c', err)" and "j \<noteq> i"
  shows "idle c' j = idle c j"
  using assms(1) by (rule worker_processMetric_Done) (use assms(2) in \<open>auto simp: on_worker_def idle_def split: prod.splits\<close>)

text \<open>The workers that are paused have nothing in their buffers.\<close>

definition paused_idle :: "nat option list \<Rightarrow> ClientEx \<Rightarrow> bool" where
  "paused_idle ls c \<longleftrightarrow> (\<forall>i < length ls. ls ! i \<noteq> None \<longrightarrow> idle c i)"

lemma data_step_paused:
  assumes "data_step g ls c ls' c'" and "length ls = length (c_workers c)" and "client_ok ms me c"
    and "paused_idle ls c"
  shows "paused_idle ls' c'"
  using assms
proof (induction rule: data_step.induct)
  case (work i ls d m c c' err)
  then show ?case
    using process_idle [OF work(3)] unfolding paused_idle_def by metis
next
  case (tick i ls c)
  then show ?case
    using worker_flush_keeps_idle [of ms me c i] by (auto simp: paused_idle_def)
next
  case (pause k ls c j)
  then show ?case
    using worker_flush_keeps_idle [of ms me c k] worker_flush_idle [of ms me c k]
    by (auto simp: paused_idle_def nth_list_update)
next
  case (drain ls c outs)
  then show ?case
    by (simp add: paused_idle_def idle_def sender_drain_result)
next
  case (release ls c k)
  from release(3) show ?case
    by (cases "k < length ls") (auto simp: paused_idle_def nth_list_update split: if_splits)
qed simp

abbreviation c_queue :: "ClientEx \<Rightarrow> statsdBuffer list" where
  "c_queue c \<equiv> queue (sh_sender (c_shared c))"

text \<open>While every worker is paused nothing joins the queue.\<close>

lemma data_step_quiet:
  assumes "data_step g ls c ls' c'" and "list_all (\<lambda>l. l \<noteq> None) ls" and "c_queue c = []"
  shows "c_queue c' = []"
  using assms by (induction rule: data_step.induct) (auto simp: list_all_length sender_drain_result)

text \<open>The moments at which a flush has been answered and holds all workers still.\<close>

definition answered :: "life \<Rightarrow> bool" where
  "answered s \<longleftrightarrow> lf_send s = SendAnswering
     \<or> (\<exists>j < length (lf_callers s). \<exists>b. lf_callers s ! j = Unpausing (length (lf_locks s)) b)"

lemma answered_paused:
  assumes "life_ok s" and "answered s"
  shows "list_all (\<lambda>l. l \<noteq> None) (lf_locks s)"
proof -
  note ok = life_okD [OF assms(1)]
  have "\<exists>j < length (lf_callers s). \<forall>i < length (lf_locks s). holds_lock i (lf_callers s ! j)"
    using assms(2) ok(2) awaits_holds by (fastforce simp: answered_def send_ok_def in_set_conv_nth)
  with callers_okD(3) [OF ok(1)] show ?thesis
    by (fastforce simp: list_all_length)
qed

definition threads_ok :: "globals \<Rightarrow> int \<Rightarrow> int \<Rightarrow> life \<times> ClientEx \<Rightarrow> bool" where
  "threads_ok g ms me = (\<lambda>(s, c). life_ok s \<and> client_inv g ms me c
     \<and> length (c_workers c) = length (lf_locks s) \<and> paused_idle (lf_locks s) c
     \<and> (answered s \<longrightarrow> c_queue c = []))"

text \<open>A flush is answered only once the send loop has drained the queue.\<close>

lemma caller_answered:
  assumes "life_ok s" and "caller_step j ws s = Some s'" and "answered s'"
  shows "answered s"
proof -
  have j: "j < length (lf_callers s)"
    using assms(2) by (auto simp: caller_step_defs split: if_splits)
  note range = callers_okD(1) [OF life_okD(1) [OF assms(1)] j]
  show ?thesis
  proof (cases "lf_callers s ! j")
    case (FlushAgg ws' b)
    with assms(2,3) show ?thesis
      by (cases ws') (auto simp: caller_step_defs flush_defs answered_def nth_list_update split: if_splits)
  next
    case (Unpausing k b)
    with assms(2,3) range show ?thesis
      by (cases k) (auto simp: caller_step_defs flush_defs answered_def nth_list_update split: if_splits)
  qed (use assms(2,3) in \<open>auto simp: caller_step_defs flush_defs close_defs answered_def nth_list_update
        split: if_splits\<close>)
qed

lemma routine_answered:
  assumes "routine_step r s = Some s'" and "answered s'"
  shows "answered s"
  using assms by (auto simp: routine_step_def answered_def split: rstate.splits list.splits if_splits
      option.splits send_loop.splits)

lemma act_answered:
  assumes "life_ok s" and "life_do a s = Some s'" and "effect g x a s c = Some c'" and "answered s'"
  shows "answered s \<or> c_queue c' = []"
proof (cases a)
  case SendStep
  with assms(2-4) show ?thesis
    by (cases "lf_send s") (auto simp: send_step_def answered_def sender_drain_result)
next
  case (Steal j j')
  with assms(1,2) no_steal show ?thesis by simp
next
  case (CallerStep j ws)
  with assms caller_answered show ?thesis by auto
next
  case (RoutineStep r)
  with assms routine_answered show ?thesis by auto
qed (use assms(2-4) in \<open>auto simp: begin_call_def own_step_def answered_def nth_list_update split: if_splits\<close>)

lemma thread_do_ok:
  assumes "threads_ok g ms me sc" and "thread_do g t sc = Some sc'"
  shows "threads_ok g ms me sc'" and "activities g (snd sc) (snd sc')"
proof -
  obtain s c where sc: "sc = (s, c)" by (cases sc)
  note ok = assms(1) [unfolded sc threads_ok_def, simplified]
  have "threads_ok g ms me sc' \<and> activity g (snd sc) (snd sc')"
  proof (cases t)
    case (Act a x)
    then obtain s' c' where sc': "sc' = (s', c')" and s': "life_do a s = Some s'"
      and c': "effect g x a s c = Some c'"
      using assms(2) sc by (auto simp: bind_eq_Some_conv)
    have step: "data_step g (lf_locks s) c (lf_locks s') c'"
      using act_data_step [OF s' c'] ok by simp
    then have act: "activity g c c'"
      using ok by (intro data_step_activity) auto
    have "c_queue c' = []" if "answered s'"
      using act_answered [OF _ s' c' that] answered_paused data_step_quiet [OF step] ok by blast
    moreover have "paused_idle (lf_locks s') c'"
      using data_step_paused [OF step] ok by (auto simp: client_inv_def)
    ultimately show ?thesis
      using ok act life_do_ok [OF _ s'] activity_inv [OF act] activity_workers [OF act] data_step_length [OF step]
      by (simp add: threads_ok_def sc sc')
  next
    case (Writes out)
    then have sc': "sc' = (s, sender_turn out c)"
      using assms(2) sc by (auto split: if_splits)
    have act: "activity g c (sender_turn out c)"
      by (rule turn)
    have "c_workers (sender_turn out c) = c_workers c" "c_queue c = [] \<longrightarrow> c_queue (sender_turn out c) = []"
      by (auto simp: sender_turn_def Let_def split: list.splits prod.splits)
    with ok activity_inv [OF act] act show ?thesis
      by (simp add: threads_ok_def sc sc' paused_idle_def idle_def)
  next
    case (Aside t a qs ms' hs)
    then obtain c' where sc': "sc' = (s, c')"
      and c': "c' = c\<lparr>c_telemetry := t, c_agg := a, c_inputs := qs, c_aggInput := ms', c_handled := hs\<rparr>"
      and len: "length qs = length (c_inputs c)"
      using assms(2) sc by (auto split: if_splits)
    have act: "activity g c c'"
      by (rule other) (simp_all add: c' config_def len)
    with ok activity_inv [OF act] show ?thesis
      by (simp add: threads_ok_def sc sc' c' paused_idle_def idle_def)
  qed
  then show "threads_ok g ms me sc'" "activities g (snd sc) (snd sc')"
    by (auto intro: activity_activities)
qed

lemma threads_run_ok:
  "threads_ok g ms me sc \<Longrightarrow> threads_run g ts sc = Some sc' \<Longrightarrow>
   threads_ok g ms me sc' \<and> activities g (snd sc) (snd sc')"
proof (induction ts arbitrary: sc)
  case (Cons t ts)
  then obtain sc1 where "thread_do g t sc = Some sc1" "threads_run g ts sc1 = Some sc'"
    by (auto simp: bind_eq_Some_conv)
  with Cons thread_do_ok activities_trans show ?case by metis
qed simp

text \<open>The start: the threads that \<open>newWithWriter\<close> starts, and the client it makes.\<close>

definition threads_start :: "ClientEx \<Rightarrow> bool \<Rightarrow> bool \<Rightarrow> nat \<Rightarrow> life \<times> ClientEx" where
  "threads_start c telemetry own callers = (life_start c telemetry own callers, c)"

lemma threads_start_ok:
  assumes "new_client ms me c" and "c_workers c \<noteq> []"
  shows "threads_ok g ms me (threads_start c telemetry own callers)"
  using new_client_start [OF assms(1)] life_start_ok [OF assms(2)] assms(2)
  by (auto simp: threads_ok_def threads_start_def life_start_fields paused_idle_def answered_def)

section \<open>What only grows\<close>

lemma wire_kept: "stable (\<lambda>sh w. wire (sh_sender sh) = w0)"
  by (auto simp: stable_def flushUnsafe_def sender_send_def case_prod_unfold Let_def split: if_splits)

lemma wire_grows: "prefix (wire s) (wire (snd (sender_write p s b out)))"
  by (auto simp: sender_write_def Let_def split: option.splits)

lemma flushInputQueue_wire: "prefix (wire s) (wire (snd (flushInputQueue p s outs)))"
proof (induction p s outs rule: flushInputQueue.induct)
  case (1 p s outs)
  show ?case
  proof (cases "queue s")
    case (Cons b q)
    obtain p' s' where w: "sender_write p (s\<lparr>queue := q\<rparr>) b (outs 0) = (p', s')"
      by (cases "sender_write p (s\<lparr>queue := q\<rparr>) b (outs 0)")
    with wire_grows [of "s\<lparr>queue := q\<rparr>" p b "outs 0"] have "prefix (wire s) (wire s')"
      by simp
    with 1 Cons w show ?thesis
      by (auto simp: flushInputQueue.simps [of p s] intro: prefix_order.trans)
  qed (simp add: flushInputQueue.simps)
qed

abbreviation c_wire :: "ClientEx \<Rightarrow> bytes list" where
  "c_wire c \<equiv> wire (sh_sender (c_shared c))"

definition grown :: "ClientEx \<Rightarrow> ClientEx \<Rightarrow> bool" where
  "grown c c' \<longleftrightarrow> prefix (processed c) (processed c') \<and> prefix (c_wire c) (c_wire c')"

lemma activity_grown: "activity g c c' \<Longrightarrow> grown c c'"
proof (induction rule: activity.induct)
  case (process i c draw m c' err)
  from process(2) obtain c1 where c1: "on_worker i (\<lambda>sh w. processMetric g draw sh w m) c = (c1, err)"
    "c' = c1\<lparr>c_done := c_done c1 @ [(i, draw, m, err)]\<rparr>" by (rule worker_processMetric_Done)
  obtain sh w e where r: "processMetric g draw (c_shared c) (c_workers c ! i) m = (sh, w, e)"
    by (metis prod_cases3)
  from processMetric_stable [OF wire_kept refl r] c1 r show ?case
    by (auto simp: grown_def processed_def on_worker_def)
next
  case (flush i c)
  obtain sh w where r: "flushUnsafe (c_shared c) (c_workers c ! i) = (sh, w)"
    by (cases "flushUnsafe (c_shared c) (c_workers c ! i)")
  from stableD(1) [OF wire_kept refl r] r show ?case
    by (simp add: grown_def processed_def worker_flush_def on_worker_def)
next
  case (drain c outs)
  then show ?case
    using flushInputQueue_wire [of "sh_sender (c_shared c)" "sh_pool (c_shared c)" outs]
    by (auto simp: grown_def processed_def sender_drain_def split: prod.splits)
next
  case (turn c out)
  then show ?case
    using wire_grows [of "(sh_sender (c_shared c))\<lparr>queue := tl (c_queue c)\<rparr>" "sh_pool (c_shared c)"
        "hd (c_queue c)" out]
    by (auto simp: grown_def processed_def sender_turn_def Let_def split: list.splits prod.splits)
qed (simp add: grown_def processed_def)

lemma grown_refl [simp]: "grown c c"
  by (simp add: grown_def)

lemma activities_grown: "activities g c c' \<Longrightarrow> grown c c'"
  unfolding activities_def
  by (induction rule: rtranclp_induct) (simp, meson activity_grown grown_def prefix_order.trans)

section \<open>A schedule of the small client\<close>

text \<open>
  Thread 1 sends a count.  Thread 0 flushes, and thread 1 sends once more before the worker is
  paused; thread 2 sends while the worker is paused, and so has to wait until thread 0 releases it.
\<close>

definition hit :: step_data where
  "hit = \<lparr>sd_draw = 0, sd_metric = zero_metric\<lparr>m_type := countT, m_name := ''hit'', m_ivalue := 1,
     m_rate := f64_one, m_cardinality := CardinalityNotSet\<rparr>, sd_outs = (\<lambda>_. None)\<rparr>"

definition step_of :: "nat \<Rightarrow> thread_step" where
  "step_of j = Act (CallerStep j []) hit"

definition one_sent :: "thread_step list" where
  "one_sent = [Act (BeginSend 1 0) hit, step_of 1]"

definition flush_meets_sends :: "thread_step list" where
  "flush_meets_sends = [Act (BeginFlush 0 []) hit, step_of 0, Act (BeginSend 1 0) hit, step_of 1, step_of 0,
     Act (BeginSend 2 0) hit, step_of 0, step_of 0, Act SendStep hit, step_of 0]"

definition then_released :: "thread_step list" where
  "then_released = [step_of 0, step_of 2]"

definition threads_at :: "thread_step list \<Rightarrow> life \<times> ClientEx" where
  "threads_at ts = the (threads_run no_globals ts (threads_start demo_client False False 3))"

lemmas threads_eval =
  demo_eval life_eval threads_at_def threads_start_def one_sent_def flush_meets_sends_def then_released_def
  step_of_def hit_def processes_def

lemma demo_threads:
  "threads_run no_globals one_sent (threads_start demo_client False False 3)
     = Some (threads_at one_sent)"
  "lf_callers (fst (threads_at (one_sent @ flush_meets_sends))) = [Unpausing 1 False, Idle, Sending 0]"
  "c_wire (snd (threads_at (one_sent @ flush_meets_sends))) = [''hit:1|c'' @ [nl] @ ''hit:1|c'' @ [nl]]"
  by (simp_all add: threads_eval)

lemma demo_threads_runs:
  "threads_run no_globals flush_meets_sends (threads_at one_sent) = Some (threads_at (one_sent @ flush_meets_sends))"
  "threads_run no_globals then_released (threads_at (one_sent @ flush_meets_sends))
     = Some (threads_at (one_sent @ flush_meets_sends @ then_released))"
  by (simp_all add: threads_eval)

lemma demo_threads_state:
  "processed (snd (threads_at (one_sent @ flush_meets_sends))) = [(0, sd_metric hit), (0, sd_metric hit)]"
  "processed (snd (threads_at one_sent)) = [(0, sd_metric hit)]"
  "length (c_sent (snd (threads_at (one_sent @ flush_meets_sends)))) = 1"
  "nothing_dropped (snd (threads_at (one_sent @ flush_meets_sends)))"
  "length (c_workers (snd (threads_at (one_sent @ flush_meets_sends)))) = 1"
  by (simp_all add: threads_eval processed_def nothing_dropped_def)

lemma hit_one_line: "one_line no_globals (sd_metric hit)"
  by (simp add: hit_def one_line_def element_text_def zero_metric_def text_eval fmt_eval Let_def
      noTimestamp_def cardinality_defs card_String_def)

section \<open>Properties\<close>

lemma answered_drained:
  assumes "threads_ok g ms me (s, c)" and "j < length (lf_callers s)"
    and "lf_callers s ! j = Unpausing (length (c_workers c)) b"
  shows "client_inv g ms me c" and "drained c"
proof -
  note ok = assms(1) [unfolded threads_ok_def, simplified]
  show "client_inv g ms me c" using ok by simp
  have a: "answered s"
    using assms(2,3) ok by (auto simp: answered_def)
  with answered_paused ok have "list_all (\<lambda>l. l \<noteq> None) (lf_locks s)" by blast
  with a ok show "drained c"
    by (auto simp: drained_def paused_idle_def list_all_length)
qed

text \<open>
  C3. \<open>Flush\<close> delivers under every schedule.  Threads call, tickers fire and the send loop runs in any
  interleaving, also while the workers are being paused one by one; when the flush of a thread has
  been answered, and before it releases the workers, and if no drop was counted, the lines the
  transport received are, as a multiset, exactly the elements of all the metrics processed so far.
  These begin with all that were processed before any earlier moment, as that of the call; and what
  the transport has received is never taken back.
\<close>

theorem flush_delivers_threads:
  assumes "new_client ms me c0" and "c_workers c0 \<noteq> []"
    and "threads_run g ts (threads_start c0 telemetry own n) = Some sc1"
    and "threads_run g us sc1 = Some (s, c)"
    and "j < length (lf_callers s)" and "lf_callers s ! j = Unpausing (length (c_workers c)) b"
    and "threads_run g vs (s, c) = Some sc2"
    and "all_serializable g c" and "list_all (\<lambda>(d, m). clean_metric g m) (processed c)"
    and "nothing_dropped c" and "length (c_sent c) < 2 ^ 64"
  shows "\<exists>lss. list_all2 (emits g ms me) (processed c) lss
    \<and> mset (lines_of (c_wire c)) = mset (concat lss)
    \<and> prefix (processed (snd sc1)) (processed c) \<and> prefix (c_wire c) (c_wire (snd sc2))"
proof -
  note run1 = threads_run_ok [OF threads_start_ok [OF assms(1,2)] assms(3)]
  note run2 = threads_run_ok [OF run1 [THEN conjunct1] assms(4)]
  note run3 = threads_run_ok [OF run2 [THEN conjunct1] assms(7)]
  have "prefix (processed (snd sc1)) (processed c)" "prefix (c_wire c) (c_wire (snd sc2))"
    using run2 run3 activities_grown by (fastforce simp: grown_def)+
  moreover note answered_drained [OF run2 [THEN conjunct1] assms(5,6)]
  ultimately show ?thesis
    using drained_delivered [of g ms me c] assms(8-11) by blast
qed

theorem flush_delivers_threads_witness:
  "\<exists>lss. list_all2 (emits no_globals 16 2147483647) [(0, sd_metric hit), (0, sd_metric hit)] lss
    \<and> mset (lines_of [''hit:1|c'' @ [nl] @ ''hit:1|c'' @ [nl]]) = mset (concat lss)"
proof -
  let ?sc = "threads_at (one_sent @ flush_meets_sends)"
  have "all_serializable no_globals (snd ?sc)" "list_all (\<lambda>(d, m). clean_metric no_globals m) (processed (snd ?sc))"
    using hit_one_line one_line_plain by (auto simp: all_serializable_processed demo_threads_state(1))
  with flush_delivers_threads [OF demo_start(2) demo_workers demo_threads(1), of flush_meets_sends "fst ?sc" "snd ?sc" 0
      False then_released, simplified, OF demo_threads_runs(1) _ _ demo_threads_runs(2)]
  show ?thesis
    by (auto simp: demo_threads(2,3) demo_threads_state)
qed

end
