(* ===== verification/Closed_Client.thy ===== *)
theory Closed_Client
  imports Client_Threads
begin

text \<open>
  What is left of a client once \<open>Close\<close> has returned, in every schedule of its threads: the readers of
  the channels, the tickers and the send loop have been stopped by \<open>Close\<close>, one after the other, and
  nothing starts them again.
\<close>

section \<open>A closed client stays closed\<close>

definition closed_life :: "life \<Rightarrow> bool" where
  "closed_life s \<longleftrightarrow> life_ok s \<and> lf_closer s = None \<and> lf_stop s"

lemma closed_gone:
  assumes "closed_life s"
  shows "lf_routine s r = Gone" and "lf_send s = SendEnded"
proof -
  note ok = life_okD [OF conjunct1 [OF assms [unfolded closed_life_def]]]
  have "stage s = 9" "stopped s = length (lf_locks s)"
    using assms by (simp_all add: closed_life_def stage_def stopped_def)
  with ok(4) [of r] show "lf_routine s r = Gone"
    by (cases r) (auto split: rstate.splits)
  from ok(2) \<open>stage s = 9\<close> show "lf_send s = SendEnded"
    by (simp add: send_ok_def)
qed

lemma closed_stage:
  assumes "closed_life s" and "j < length (lf_callers s)"
  shows "stage_of (lf_callers s ! j) = 0"
  using callers_okD(2) [OF life_okD(1), of s j] assms by (simp add: closed_life_def)

lemma closed_caller:
  assumes "closed_life s" and "caller_step j ws s = Some s'"
  shows "lf_closer s' = None \<and> lf_stop s'"
proof -
  have j: "j < length (lf_callers s)"
    using assms(2) by (auto simp: caller_step_defs split: if_splits)
  show ?thesis
    using assms closed_stage [OF assms(1) j] closed_gone(2) [OF assms(1)]
    by (cases "lf_callers s ! j") (auto simp: closed_life_def caller_step_defs flush_defs close_defs
      split: if_splits list.splits nat.splits)
qed

lemma closed_do:
  assumes "closed_life s" and "life_do a s = Some s'"
  shows "closed_life s'"
proof -
  have "lf_closer s' = None \<and> lf_stop s'"
  proof (cases a)
    case (CallerStep j ws)
    with assms closed_caller show ?thesis by simp
  next
    case (Steal j j')
    with assms no_steal [of s j j'] show ?thesis by (simp add: closed_life_def)
  qed (use assms closed_gone [OF assms(1)] in \<open>auto simp: closed_life_def begin_call_def routine_step_def
      send_step_def own_step_def split: if_splits\<close>)
  with assms life_do_ok show ?thesis by (auto simp: closed_life_def)
qed

section \<open>What its steps change\<close>

lemma process_wire:
  assumes "worker_processMetric g d i m c = Done (c', err)"
  shows "c_wire c' = c_wire c"
proof -
  from assms obtain c1 where c1: "on_worker i (\<lambda>sh w. processMetric g d sh w m) c = (c1, err)"
    "c' = c1\<lparr>c_done := c_done c1 @ [(i, d, m, err)]\<rparr>" by (rule worker_processMetric_Done)
  obtain sh w e where r: "processMetric g d (c_shared c) (c_workers c ! i) m = (sh, w, e)"
    by (metis prod_cases3)
  from processMetric_stable [OF wire_kept refl r] c1 r show ?thesis
    by (auto simp: on_worker_def)
qed

lemma worker_flush_wire: "c_wire (worker_flush i c) = c_wire c \<and> c_done (worker_flush i c) = c_done c"
proof -
  obtain sh w where r: "flushUnsafe (c_shared c) (c_workers c ! i) = (sh, w)"
    by (cases "flushUnsafe (c_shared c) (c_workers c ! i)")
  from stableD(1) [OF wire_kept refl r] r show ?thesis
    by (simp add: worker_flush_def on_worker_def)
qed

text \<open>Without an aggregator nobody processes metrics for a caller of a client in channel mode.\<close>

definition hands_over :: "life \<Rightarrow> caller \<Rightarrow> bool" where
  "hands_over s pc = (case pc of Sending i \<Rightarrow> \<not> lf_channel s | FlushAgg ws b \<Rightarrow> lf_agg s \<or> ws = [] | _ \<Rightarrow> True)"

lemma hands_over_simps [simp]:
  "hands_over s (Sending i) \<longleftrightarrow> \<not> lf_channel s" "hands_over s (FlushAgg ws b) \<longleftrightarrow> lf_agg s \<or> ws = []"
  "hands_over s Idle" "hands_over s AskClosed" "hands_over s (Pausing k b)" "hands_over s (Signalling b)"
  "hands_over s (Awaiting b)" "hands_over s (Unpausing k b)" "hands_over s WantClose"
  "hands_over s (StopWorker k)" "hands_over s StopAggPull" "hands_over s WaitAggPull" "hands_over s StopAgg"
  "hands_over s WaitGroup" "hands_over s StopLoop" "hands_over s AwaitStop"
  by (simp_all add: hands_over_def)

lemma caller_hands_over:
  assumes "list_all (hands_over s) (lf_callers s)" and "caller_step j ws s = Some s'"
  shows "list_all (hands_over s) (lf_callers s')"
proof -
  have upd: "list_all (hands_over s) ((lf_callers s)[j := pc])" if "hands_over s pc" for pc
    using list_all_update [OF assms(1), of "hands_over s"] that by simp
  have j: "j < length (lf_callers s)"
    using assms(2) by (auto simp: caller_step_defs split: if_splits)
  then have h: "hands_over s (lf_callers s ! j)"
    using assms(1) by (simp add: list_all_length)
  show ?thesis
  proof (cases "lf_callers s ! j")
    case (FlushAgg vs b)
    with assms h upd show ?thesis
      by (cases vs) (auto simp: caller_step_defs flush_defs split: if_splits)
  next
    case (Unpausing k b)
    with assms h upd show ?thesis
      by (cases k) (auto simp: caller_step_defs flush_defs split: if_splits)
  qed (use assms h upd in \<open>auto simp: caller_step_defs flush_defs close_defs metrics_ok_def split: if_splits\<close>)
qed

lemma steps_keep_kind:
  "caller_step j ws s = Some s' \<Longrightarrow> lf_channel s' = lf_channel s \<and> lf_agg s' = lf_agg s"
  "routine_step r s = Some s' \<Longrightarrow> lf_channel s' = lf_channel s \<and> lf_agg s' = lf_agg s \<and> lf_callers s' = lf_callers s"
  "send_step s = Some s' \<Longrightarrow> lf_channel s' = lf_channel s \<and> lf_agg s' = lf_agg s \<and> lf_callers s' = lf_callers s"
  "own_step s = Some s' \<Longrightarrow> lf_channel s' = lf_channel s \<and> lf_agg s' = lf_agg s \<and> lf_callers s' = lf_callers s"
  by (auto simp: caller_step_defs flush_defs close_defs routine_step_def send_step_def own_step_def
      split: if_splits caller.splits list.splits nat.splits rstate.splits option.splits send_loop.splits)

lemma life_do_hands_over:
  assumes "list_all (hands_over s) (lf_callers s)" and "life_ok s" and "life_do a s = Some s'"
  shows "list_all (hands_over s') (lf_callers s') \<and> lf_channel s' = lf_channel s \<and> lf_agg s' = lf_agg s"
proof -
  have upd: "list_all (hands_over s) ((lf_callers s)[j := pc])" if "hands_over s pc" for j pc
    using list_all_update [OF assms(1), of "hands_over s"] that by simp
  have "lf_channel s' = lf_channel s \<and> lf_agg s' = lf_agg s \<and> list_all (hands_over s) (lf_callers s')"
  proof (cases a)
    case (CallerStep j ws)
    with assms caller_hands_over steps_keep_kind(1) show ?thesis by simp
  next
    case (Steal j j')
    with assms no_steal show ?thesis by simp
  qed (use assms upd steps_keep_kind(2-4) in \<open>auto simp: begin_call_def metrics_ok_def split: if_splits\<close>)
  moreover from this have "hands_over s' = hands_over s"
    by (simp add: hands_over_def fun_eq_iff split: caller.split)
  ultimately show ?thesis by simp
qed

lemma closed_effect:
  assumes "closed_life s" and "life_do a s = Some s'" and "effect g x a s c = Some c'"
  shows "c_wire c' = c_wire c \<and> (list_all (hands_over s) (lf_callers s) \<and> lf_channel s \<and> \<not> lf_agg s
    \<longrightarrow> c_done c' = c_done c)"
proof (cases a)
  case (CallerStep j ws)
  then have j: "j < length (lf_callers s)" and e: "caller_effect g x (lf_callers s ! j) c = Some c'"
    using assms(2,3) by (auto simp: caller_step_defs split: if_splits)
  note st = closed_stage [OF assms(1) j]
  have h: "list_all (hands_over s) (lf_callers s) \<Longrightarrow> hands_over s (lf_callers s ! j)"
    using j by (simp add: list_all_length)
  have p: "c_wire c' = c_wire c" if "processes g x i c = Some c'" for i
    using that process_wire by (auto simp: processes_Some)
  show ?thesis
  proof (cases "lf_callers s ! j")
    case (Sending i)
    with e p h show ?thesis by auto
  next
    case (FlushAgg vs b)
    with e p h show ?thesis by (cases vs) auto
  next
    case (Pausing k b)
    with e worker_flush_wire [of k c] show ?thesis by (auto split: if_splits)
  qed (use e st in simp_all)
next
  case (RoutineStep r)
  with assms(3) closed_gone(1) [OF assms(1), of r] show ?thesis by simp
next
  case SendStep
  with assms(3) closed_gone(2) [OF assms(1)] show ?thesis by simp
qed (use assms(3) in simp_all)

text \<open>The threads of a closed client and what they leave as it is.\<close>

lemma closed_run:
  assumes "threads_run g ts (s, c) = Some (s', c')" and "closed_life s"
    and "list_all (hands_over s) (lf_callers s)"
  shows "closed_life s' \<and> c_wire c' = c_wire c \<and> (lf_channel s \<and> \<not> lf_agg s \<longrightarrow> c_done c' = c_done c)"
  using assms
proof (induction ts arbitrary: s c)
  case (Cons t ts)
  then obtain s1 c1 where t: "thread_do g t (s, c) = Some (s1, c1)" and ts: "threads_run g ts (s1, c1) = Some (s', c')"
    by (auto simp: bind_eq_Some_conv)
  have "closed_life s1 \<and> list_all (hands_over s1) (lf_callers s1) \<and> c_wire c1 = c_wire c
    \<and> lf_channel s1 = lf_channel s \<and> lf_agg s1 = lf_agg s \<and> (lf_channel s \<and> \<not> lf_agg s \<longrightarrow> c_done c1 = c_done c)"
  proof (cases t)
    case (Act a x)
    then have a: "life_do a s = Some s1" "effect g x a s c = Some c1"
      using t by (auto simp: bind_eq_Some_conv)
    from closed_do [OF Cons.prems(2) a(1)] life_do_hands_over [OF Cons.prems(3) _ a(1)]
      closed_effect [OF Cons.prems(2) a] Cons.prems(2,3) show ?thesis by (auto simp: closed_life_def)
  next
    case (Writes out)
    with t closed_gone(2) [OF Cons.prems(2)] show ?thesis by (simp split: if_splits)
  next
    case (Aside tl a qs ms hs)
    with t Cons.prems show ?thesis by (auto split: if_splits)
  qed
  with Cons.IH [OF ts] show ?case by auto
qed simp

lemma run_hands_over:
  "threads_run g ts sc = Some sc' \<Longrightarrow> threads_ok g ms me sc \<Longrightarrow> list_all (hands_over (fst sc)) (lf_callers (fst sc)) \<Longrightarrow>
   list_all (hands_over (fst sc')) (lf_callers (fst sc')) \<and> lf_channel (fst sc') = lf_channel (fst sc)
     \<and> lf_agg (fst sc') = lf_agg (fst sc)"
proof (induction ts arbitrary: sc)
  case (Cons t ts)
  then obtain sc1 where t: "thread_do g t sc = Some sc1" "threads_run g ts sc1 = Some sc'"
    by (auto simp: bind_eq_Some_conv)
  have "life_ok (fst sc)" using Cons.prems(2) by (simp add: threads_ok_def case_prod_unfold)
  then have "list_all (hands_over (fst sc1)) (lf_callers (fst sc1)) \<and> lf_channel (fst sc1) = lf_channel (fst sc)
    \<and> lf_agg (fst sc1) = lf_agg (fst sc)"
    using t(1) life_do_hands_over [OF Cons.prems(3)] Cons.prems(3)
    by (cases t; cases sc) (auto simp: bind_eq_Some_conv split: if_splits)
  with Cons.IH [OF t(2) thread_do_ok(1) [OF Cons.prems(2) t(1)]] show ?case by simp
qed simp

section \<open>A schedule\<close>

text \<open>
  A client in channel mode, with a metric in the channel of its worker when thread 0 closes it.
  Afterwards thread 1 flushes, up to the signal that nobody takes.
\<close>

definition closing_client :: ClientEx where
  "closing_client = demo_client\<lparr>c_agg := None, c_workersMode := channelMode, c_inputs := [[]], c_inputCap := 1\<rparr>"

definition closing :: "thread_step list" where
  "closing = [Aside zero_statsdTelemetry None [[sd_metric hit]] [] [], Act (BeginClose 0) hit]
     @ replicate 5 (step_of 0) @ [Act (RoutineStep WatchLoop) hit] @ replicate 5 (step_of 0)
     @ [Act SendStep hit] @ replicate 4 (step_of 0) @ [Act SendStep hit, step_of 0]"

definition flush_again :: "thread_step list" where
  "flush_again = [Act (BeginFlush 1 []) hit, step_of 1, step_of 1, step_of 1]"

definition closed_at :: "thread_step list \<Rightarrow> life \<times> ClientEx" where
  "closed_at ts = the (threads_run no_globals ts (threads_start closing_client False False 2))"

lemmas closing_eval = threads_eval closed_at_def closing_def closing_client_def flush_again_def eval_nat_numeral

lemma closing_runs:
  "threads_run no_globals closing (threads_start closing_client False False 2)
     = Some (fst (closed_at closing), snd (closed_at closing))"
  "threads_run no_globals flush_again (fst (closed_at closing), snd (closed_at closing))
     = Some (fst (closed_at (closing @ flush_again)), snd (closed_at (closing @ flush_again)))"
  "lf_closer (fst (closed_at closing)) = None" "lf_stop (fst (closed_at closing))"
  "c_done (snd (closed_at closing)) = []" "c_inputs (snd (closed_at (closing @ flush_again))) = [[sd_metric hit]]"
  by (simp_all add: closing_eval)

lemma closing_start: "new_client 16 2147483647 closing_client" "c_workers closing_client \<noteq> []"
  using demo_start(2) by (simp_all add: closing_client_def new_client_def demo_client_def)

section \<open>The property\<close>

text \<open>
  C30. Once \<open>Close\<close> has returned, whatever the threads that still use the client do, and in whatever
  order: no goroutine is there again, and the transport receives nothing more. In channel mode
  without an aggregator no metric is processed any more either, so what the channels held when
  their readers were stopped stays there; nothing counts it.
\<close>

theorem closed_client_silent:
  assumes "new_client ms me c0" and "c_workers c0 \<noteq> []"
    and "threads_run g ts (threads_start c0 telemetry own n) = Some (s, c)"
    and "lf_closer s = None" and "lf_stop s"
    and "threads_run g us (s, c) = Some (s', c')"
  shows "all_gone s' \<and> c_wire c' = c_wire c
    \<and> (if c_workersMode c0 = channelMode \<and> c_agg c0 = None then c_done c' = c_done c else True)"
proof -
  have start: "list_all (hands_over (life_start c0 telemetry own n)) (lf_callers (life_start c0 telemetry own n))"
    by (simp add: life_start_fields hands_over_def list_all_iff)
  note ok = threads_start_ok [OF assms(1,2)]
  have h: "list_all (hands_over s) (lf_callers s)" "lf_channel s \<longleftrightarrow> c_workersMode c0 = channelMode"
    "lf_agg s \<longleftrightarrow> c_agg c0 \<noteq> None"
    using run_hands_over [OF assms(3) ok] start by (simp_all add: threads_start_def life_start_fields)
  have "life_ok s"
    using threads_run_ok [OF ok assms(3)] by (simp add: threads_ok_def)
  with assms(4,5) have "closed_life s" by (simp add: closed_life_def)
  from closed_run [OF assms(6) this h(1)] closed_all_gone [of s'] h show ?thesis
    by (auto simp: closed_life_def)
qed

theorem closed_client_silent_witness:
  "all_gone (fst (closed_at (closing @ flush_again))) \<and> c_done (snd (closed_at (closing @ flush_again))) = []
    \<and> c_inputs (snd (closed_at (closing @ flush_again))) = [[sd_metric hit]]"
  using closed_client_silent [OF closing_start closing_runs(1,3,4,2)] closing_runs(5,6)
  by (simp add: closing_client_def)

end
