(* ===== verification/Telemetry_Runs.thy ===== *)
theory Telemetry_Runs
  imports Client_Limits
begin

text \<open>
  Runs of a client with its telemetry: calls, turns of goroutines, and turns of the ticker of
  telemetry, which reads the counters and sends their growth through the client's workers or
  through a worker of its own, in any order.
\<close>

section \<open>Runs\<close>

text \<open>\<open>sy_sent\<close> records the metrics of each flush of telemetry.\<close>

record system =
  sy_client :: ClientEx
  sy_telemetry :: telemetryClient
  sy_sent :: "metric list list"

text \<open>
  A turn of \<open>telemetryClient.run\<close>; the goroutine ends when the client is closed.  The name of the
  transport and the draws of sampling are arguments.
\<close>

definition telemetry_tick :: "globals \<Rightarrow> bytes \<Rightarrow> (nat \<Rightarrow> f64) \<Rightarrow> system \<Rightarrow> system outcome" where
  "telemetry_tick g transport draws s =
     (if c_isClosed (sy_client s) then Done s
      else obind (sendTelemetry g transport draws (sy_client s) (sy_telemetry s)) (\<lambda>(c, t).
        Done \<lparr>sy_client = c, sy_telemetry = t,
          sy_sent = sy_sent s @ [snd (telemetry_flush transport (sy_client s) (sy_telemetry s))]\<rparr>))"

text \<open>
  A turn of the send loop of telemetry's own sender, which has ended when the client is closed; and
  what \<open>Close\<close> does first when it closes the channel \<open>stop\<close>: it waits until telemetry has closed that
  sender.
\<close>

definition own_turn :: "bytes option \<Rightarrow> system \<Rightarrow> system" where
  "own_turn out s =
     (if c_isClosed (sy_client s) then s
      else case own_sender_turn out (sy_client s) (sy_telemetry s) of
        (c, t) \<Rightarrow> s\<lparr>sy_client := c, sy_telemetry := t\<rparr>)"

definition telemetry_stop :: "(nat \<Rightarrow> bytes option) \<Rightarrow> system \<Rightarrow> system" where
  "telemetry_stop outs s =
     (if c_isClosed (sy_client s) then s
      else case own_sender_close outs (sy_client s) (sy_telemetry s) of
        (c, t) \<Rightarrow> s\<lparr>sy_client := c, sy_telemetry := t\<rparr>)"

text \<open>\<open>Call op outs\<close>: only \<open>Close\<close> needs \<open>outs\<close>, the outcomes of the last writes of that sender.\<close>

datatype system_op =
    Call client_op "nat \<Rightarrow> bytes option"
  | Tick bytes "nat \<Rightarrow> f64"
  | OwnTurn "bytes option"

fun closes :: "client_op \<Rightarrow> bool" where
  "closes (Close _ _) = True"
| "closes _ = False"

fun system_step :: "globals \<Rightarrow> system_op \<Rightarrow> system \<Rightarrow> system outcome" where
  "system_step g (Call op outs) s =
     (let s = (if closes op then telemetry_stop outs s else s) in
      obind (client_step g op (Some (sy_client s))) (\<lambda>(cp, err). Done (s\<lparr>sy_client := the cp\<rparr>)))"
| "system_step g (Tick transport draws) s = telemetry_tick g transport draws s"
| "system_step g (OwnTurn out) s = Done (own_turn out s)"

fun system_run :: "globals \<Rightarrow> system_op list \<Rightarrow> system \<Rightarrow> system outcome" where
  "system_run g [] s = Done s"
| "system_run g (op # ops) s = obind (system_step g op s) (system_run g ops)"

fun calls_of :: "system_op list \<Rightarrow> client_op list" where
  "calls_of [] = []"
| "calls_of (Call op _ # ops) = op # calls_of ops"
| "calls_of (Tick _ _ # ops) = calls_of ops"
| "calls_of (OwnTurn _ # ops) = calls_of ops"

section \<open>The own sender of telemetry\<close>

text \<open>It takes nothing from the client but buffers of the pool, and leaves the counters of telemetry.\<close>

definition touches_pool :: "system \<Rightarrow> system \<Rightarrow> bool" where
  "touches_pool s s' \<longleftrightarrow> (\<exists>p. sy_client s' = (sy_client s)\<lparr>c_shared := (c_shared (sy_client s))\<lparr>sh_pool := p\<rparr>\<rparr>)
     \<and> (\<exists>x. sy_telemetry s' = (sy_telemetry s)\<lparr>tc_worker := x\<rparr>) \<and> sy_sent s' = sy_sent s"

lemma touches_nothing: "touches_pool s s"
  unfolding touches_pool_def
  by (intro conjI exI [of _ "sh_pool (c_shared (sy_client s))"] exI [of _ "tc_worker (sy_telemetry s)"]) simp_all

lemma own_sent_touches:
  "own_sent sh w ps (sy_client s) (sy_telemetry s) = (c, t) \<Longrightarrow> touches_pool s (s\<lparr>sy_client := c, sy_telemetry := t\<rparr>)"
  by (auto simp: own_sent_def touches_pool_def)

lemma own_turn_touches: "touches_pool s (own_turn out s)"
  by (auto simp: own_turn_def own_sender_turn_def touches_nothing intro: own_sent_touches
      split: option.split list.split prod.split)

lemma telemetry_stop_touches: "touches_pool s (telemetry_stop outs s)"
  by (auto simp: telemetry_stop_def own_sender_close_def touches_nothing intro: own_sent_touches
      split: option.split prod.split)

text \<open>What telemetry leaves in the queue of its sender \<open>Close\<close> writes.\<close>

lemma telemetry_stop_drains:
  "\<not> c_isClosed (sy_client s) \<Longrightarrow> tc_worker (sy_telemetry (telemetry_stop outs s)) = Some (sh, w)
    \<Longrightarrow> queue (sh_sender sh) = []"
  by (auto simp: telemetry_stop_def own_sender_close_def own_sent_def flushInputQueue_empties split: option.splits)

text \<open>The client as a call finds it: \<open>Close\<close> waits for telemetry.\<close>

definition before_call :: "client_op \<Rightarrow> (nat \<Rightarrow> bytes option) \<Rightarrow> system \<Rightarrow> system" where
  "before_call op outs s = (if closes op then telemetry_stop outs s else s)"

lemma before_call_touches: "touches_pool s (before_call op outs s)"
  by (simp add: before_call_def telemetry_stop_touches touches_nothing)

lemma system_step_CallE:
  assumes "system_step g (Call op outs) s = Done s'"
  obtains s0 cp err where "s0 = before_call op outs s" "touches_pool s s0"
    "client_step g op (Some (sy_client s0)) = Done (cp, err)" "s' = s0\<lparr>sy_client := the cp\<rparr>"
  using assms before_call_touches [of s op outs]
  by (auto simp: before_call_def Let_def elim!: obind_DoneE)

section \<open>A turn of telemetry\<close>

lemma client_sendAll_facts:
  assumes "client_sendAll g draws ms c = Done c'"
  shows "activities g c c'" "same_counts c c'"
proof -
  have "activities g c c' \<and> same_counts c c'"
    using assms
  proof (induction ms arbitrary: draws c)
    case (Cons m ms)
    then obtain c1 e where "client_send g (draws 0) m c = Done (c1, e)"
      "client_sendAll g (\<lambda>i. draws (Suc i)) ms c1 = Done c'"
      by (auto elim!: obind_DoneE)
    with Cons.IH [of _ c1] client_send_activities [of g "draws 0" m c c1 e]
      client_send_counts [of g "draws 0" m c c1 e] show ?case
      by (auto intro: activities_trans same_counts_trans)
  qed (simp add: same_counts_def)
  then show "activities g c c'" "same_counts c c'" by auto
qed

text \<open>The telemetry client after a turn is that after the flush, up to its own worker.\<close>

lemma sendTelemetry_result:
  assumes "sendTelemetry g tr draws c t = Done (c', t')" and "telemetry_flush tr c t = (t1, ms)"
  shows "same_counts c c'" "tc_lastSample t' = tc_lastSample t1" "tc_aggEnabled t' = tc_aggEnabled t1"
  using assms client_sendAll_facts(2)
  by (auto simp: sendTelemetry_def Let_def same_counts_def elim!: obind_DoneE split: option.splits prod.splits)

section \<open>What telemetry reports\<close>

text \<open>In any state of a run: the counts are those of the calls, and what was sent for an entry adds up.\<close>

definition reports :: "nat \<Rightarrow> metric list list \<Rightarrow> u64" where
  "reports i mss = sum_list (map (\<lambda>ms. m_ivalue (ms ! i)) mss)"

lemma system_step_client:
  assumes "system_step g op s = Done s'"
  shows "call_counter ty (c_telemetry (sy_client s'))
    = call_counter ty (c_telemetry (sy_client s)) + sum_list (map (counts_as ty) (calls_of [op]))"
proof (cases op)
  case (Call cop outs)
  with assms obtain s0 cp err where "touches_pool s s0"
    "client_step g cop (Some (sy_client s0)) = Done (cp, err)" "s' = s0\<lparr>sy_client := the cp\<rparr>"
    by (auto elim: system_step_CallE simp del: system_step.simps)
  with client_step_Some [of g cop "sy_client s0" cp err] step_counts [of g cop "sy_client s0" _ err ty] Call show ?thesis
    by (auto simp: touches_pool_def)
next
  case (OwnTurn out)
  with assms own_turn_touches [of s out] show ?thesis by (auto simp: touches_pool_def)
next
  case (Tick tr draws)
  obtain t1 ms where "telemetry_flush tr (sy_client s) (sy_telemetry s) = (t1, ms)"
    by (cases "telemetry_flush tr (sy_client s) (sy_telemetry s)")
  with assms Tick sendTelemetry_result(1) [of g tr draws "sy_client s" "sy_telemetry s" _ _ t1 ms] show ?thesis
    by (auto simp: telemetry_tick_def same_counts_def elim!: obind_DoneE split: if_splits)
qed

lemma calls_of_append: "calls_of (ops @ ops') = calls_of ops @ calls_of ops'"
  by (induction ops rule: calls_of.induct) simp_all

lemma system_counts:
  "system_run g ops s = Done s' \<Longrightarrow> call_counter ty (c_telemetry (sy_client s'))
    = call_counter ty (c_telemetry (sy_client s)) + sum_list (map (counts_as ty) (calls_of ops))"
proof (induction ops arbitrary: s)
  case (Cons op ops)
  then obtain s1 where "system_step g op s = Done s1" "system_run g ops s1 = Done s'"
    by (auto elim!: obind_DoneE)
  with Cons.IH [of s1] system_step_client [of g op s s1 ty] calls_of_append [of "[op]" ops] show ?case
    by simp
qed simp

lemma telemetry_tick_sums:
  assumes "telemetry_tick g tr draws s = Done s'" and "tc_aggEnabled (sy_telemetry s) = b"
    and "i < length (full_table b)" "full_table b ! i = (name, counter, ty)"
  shows "tc_aggEnabled (sy_telemetry s') = b"
    and "reports i (sy_sent s') = reports i (sy_sent s)
      + (counter (tc_lastSample (sy_telemetry s')) - counter (tc_lastSample (sy_telemetry s)))"
    and "\<not> c_isClosed (sy_client s) \<Longrightarrow>
      tc_lastSample (sy_telemetry s') = getTelemetry (Some (sy_telemetry s)) (sy_client s)"
proof -
  obtain t1 ms where f: "telemetry_flush tr (sy_client s) (sy_telemetry s) = (t1, ms)"
    by (cases "telemetry_flush tr (sy_client s) (sy_telemetry s)")
  note v = telemetry_flush_values [OF f, unfolded assms(2)]
  have len: "length ms = length (full_table b)"
    using arg_cong [OF v(2), of length] by simp
  have val: "m_ivalue (ms ! i) = counter (tc_lastSample t1) - counter (tc_lastSample (sy_telemetry s))"
    using arg_cong [OF v(1), of "\<lambda>xs. xs ! i"] assms(3,4) len v(3) by simp
  from assms(1) f sendTelemetry_result(2,3) [OF _ f, of g draws] v(4) val assms(2)
  show "tc_aggEnabled (sy_telemetry s') = b" "reports i (sy_sent s') = reports i (sy_sent s)
      + (counter (tc_lastSample (sy_telemetry s')) - counter (tc_lastSample (sy_telemetry s)))"
    by (auto simp: telemetry_tick_def reports_def elim!: obind_DoneE split: if_splits)
  show "tc_lastSample (sy_telemetry s') = getTelemetry (Some (sy_telemetry s)) (sy_client s)"
    if "\<not> c_isClosed (sy_client s)"
    using assms(1) f sendTelemetry_result(2) [OF _ f, of g draws] v(3) that
    by (auto simp: telemetry_tick_def elim!: obind_DoneE)
qed

lemma system_sums:
  assumes "system_run g ops s = Done s'" and "tc_aggEnabled (sy_telemetry s) = b"
    and "i < length (full_table b)" "full_table b ! i = (name, counter, ty)"
  shows "tc_aggEnabled (sy_telemetry s') = b \<and> reports i (sy_sent s') = reports i (sy_sent s)
      + (counter (tc_lastSample (sy_telemetry s')) - counter (tc_lastSample (sy_telemetry s)))"
  using assms(1,2)
proof (induction ops arbitrary: s)
  case (Cons op ops)
  then obtain s1 where s1: "system_step g op s = Done s1" "system_run g ops s1 = Done s'"
    by (auto elim!: obind_DoneE)
  have "tc_aggEnabled (sy_telemetry s1) = b \<and> reports i (sy_sent s1) = reports i (sy_sent s)
      + (counter (tc_lastSample (sy_telemetry s1)) - counter (tc_lastSample (sy_telemetry s)))"
  proof (cases op)
    case (Call cop outs)
    with s1(1) have "system_step g (Call cop outs) s = Done s1" by simp
    with Cons.prems(2) show ?thesis by (elim system_step_CallE) (auto simp: touches_pool_def)
  next
    case (OwnTurn out)
    with s1(1) Cons.prems(2) own_turn_touches [of s out] show ?thesis by (auto simp: touches_pool_def)
  next
    case (Tick tr draws)
    with s1(1) telemetry_tick_sums(1,2) [OF _ Cons.prems(2) assms(3,4)] show ?thesis by simp
  qed
  with Cons.IH [OF s1(2)] show ?case by simp
qed simp

section \<open>Telemetry keeps the invariant of the client\<close>

definition own_worker_ok :: "int \<Rightarrow> int \<Rightarrow> ClientEx \<Rightarrow> telemetryClient \<Rightarrow> bool" where
  "own_worker_ok ms me c t \<longleftrightarrow> (case tc_worker t of
     None \<Rightarrow> True
   | Some (sh, w) \<Rightarrow> whole_payloads ms me (sh\<lparr>sh_pool := sh_pool (c_shared c)\<rparr>) w)"

definition system_inv :: "globals \<Rightarrow> int \<Rightarrow> int \<Rightarrow> system \<Rightarrow> bool" where
  "system_inv g ms me s \<longleftrightarrow> client_inv g ms me (sy_client s) \<and> own_worker_ok ms me (sy_client s) (sy_telemetry s)
     \<and> length (c_inputs (sy_client s)) \<le> length (c_workers (sy_client s))"

lemma own_worker_other:
  assumes "own_worker_ok ms me c t" and "client_inv g ms me c'"
  shows "own_worker_ok ms me c' t"
  using assms client_inv_sender [OF assms(2)]
  by (auto simp: own_worker_ok_def whole_payloads_def sender_pool_ok_def split: option.splits)

lemma processAll_whole:
  "whole_payloads ms me sh w \<Longrightarrow> processAll g sh w dms = (sh', w', errs) \<Longrightarrow> whole_payloads ms me sh' w'"
proof (induction dms arbitrary: sh w errs)
  case (Cons dm dms)
  obtain d m where dm: "dm = (d, m)" by (cases dm)
  obtain sh1 w1 e where p: "processMetric g d sh w m = (sh1, w1, e)" by (metis prod_cases3)
  obtain es where "processAll g sh1 w1 dms = (sh', w', es)"
    using Cons.prems(2) p by (auto simp: dm split: prod.splits)
  with Cons.IH processMetric_stable [OF whole_stable Cons.prems(1) p] show ?case by blast
qed simp

lemma activities_lengths:
  "activities g c c' \<Longrightarrow> length (c_inputs c) \<le> length (c_workers c) \<Longrightarrow> length (c_inputs c') \<le> length (c_workers c')"
  using activities_config by (force simp: config_def)

lemma telemetry_tick_inv:
  assumes "system_inv g ms me s" and "telemetry_tick g tr draws s = Done s'"
  shows "system_inv g ms me s'"
proof (cases "c_isClosed (sy_client s)")
  case True
  with assms show ?thesis by (simp add: telemetry_tick_def)
next
  case False
  note inv = assms(1) [unfolded system_inv_def]
  obtain t1 mts where f: "telemetry_flush tr (sy_client s) (sy_telemetry s) = (t1, mts)"
    by (cases "telemetry_flush tr (sy_client s) (sy_telemetry s)")
  have own: "tc_worker t1 = tc_worker (sy_telemetry s)"
    using f by (auto simp: telemetry_flush_def setTags_def Let_def split: if_splits)
  show ?thesis
  proof (cases "tc_worker (sy_telemetry s)")
    case None
    with False assms(2) f own obtain c where c: "client_sendAll g draws mts (sy_client s) = Done c"
      "sy_client s' = c" "sy_telemetry s' = t1"
      by (auto simp: telemetry_tick_def sendTelemetry_def elim!: obind_DoneE)
    note act = client_sendAll_facts(1) [OF c(1)]
    from activities_inv [OF act] activities_lengths [OF act] inv c own None show ?thesis
      by (simp add: system_inv_def own_worker_ok_def)
  next
    case (Some p)
    obtain sh w where p: "p = (sh, w)" by (cases p)
    let ?sh = "sh\<lparr>sh_pool := sh_pool (c_shared (sy_client s))\<rparr>"
    obtain sh1 w1 errs where r: "processAll g ?sh w (zip (map draws [0..<length mts]) mts) = (sh1, w1, errs)"
      by (metis prod_cases3)
    obtain sh2 w2 where fl: "flushUnsafe sh1 w1 = (sh2, w2)" by (cases "flushUnsafe sh1 w1")
    have "whole_payloads ms me ?sh w"
      using inv Some p by (simp add: own_worker_ok_def)
    with processAll_whole [OF _ r] flushUnsafe_whole fl have whole: "whole_payloads ms me sh2 w2" by blast
    have s': "sy_client s' = (sy_client s)\<lparr>c_shared := (c_shared (sy_client s))\<lparr>sh_pool := sh_pool sh2\<rparr>\<rparr>"
      "sy_telemetry s' = t1\<lparr>tc_worker := Some (sh2, w2)\<rparr>"
      using False assms(2) f own Some p r fl by (auto simp: telemetry_tick_def sendTelemetry_def Let_def)
    have "client_inv g ms me ((sy_client s)\<lparr>c_shared := (c_shared (sy_client s))
        \<lparr>sh_pool := sh_pool sh2, sh_sender := sh_sender (c_shared (sy_client s))\<rparr>\<rparr>)"
      using whole client_inv_sender [of g ms me "sy_client s"] inv
      by (intro new_sender_inv) (auto simp: whole_payloads_def sender_pool_ok_def)
    with s' inv whole show ?thesis
      by (simp add: system_inv_def own_worker_ok_def)
  qed
qed

text \<open>The own sender of telemetry returns buffers to the pool that fit the limits of the pool.\<close>

lemma own_sent_inv:
  assumes "system_inv g ms me s" and "tc_worker (sy_telemetry s) = Some (sh, w)" and "sender_pool_ok ms me (fst ps) (snd ps)"
    and "own_sent sh w ps (sy_client s) (sy_telemetry s) = (c, t)"
  shows "system_inv g ms me (s\<lparr>sy_client := c, sy_telemetry := t\<rparr>)"
proof -
  note inv = assms(1) [unfolded system_inv_def]
  have c: "c = (sy_client s)\<lparr>c_shared := (c_shared (sy_client s))
      \<lparr>sh_pool := fst ps, sh_sender := sh_sender (c_shared (sy_client s))\<rparr>\<rparr>"
    and t: "t = (sy_telemetry s)\<lparr>tc_worker := Some (sh\<lparr>sh_pool := fst ps, sh_sender := snd ps\<rparr>, w)\<rparr>"
    using assms(4) by (simp_all add: own_sent_def)
  have "client_inv g ms me c"
    unfolding c using assms(3) client_inv_sender [of g ms me "sy_client s"] inv
    by (intro new_sender_inv) (auto simp: sender_pool_ok_def)
  with inv assms(2,3) c t show ?thesis
    by (simp add: system_inv_def own_worker_ok_def whole_payloads_def)
qed

lemma own_sender_ok:
  assumes "system_inv g ms me s" and "tc_worker (sy_telemetry s) = Some (sh, w)"
  shows "sender_pool_ok ms me (sh_pool (c_shared (sy_client s))) (sh_sender sh)"
  using assms by (simp add: system_inv_def own_worker_ok_def whole_payloads_def)

lemma own_turn_inv: "system_inv g ms me s \<Longrightarrow> system_inv g ms me (own_turn out s)"
  by (auto simp: own_turn_def own_sender_turn_def intro!: own_sent_inv sender_pool_write own_sender_ok
      split: option.split list.split prod.split)

lemma telemetry_stop_inv: "system_inv g ms me s \<Longrightarrow> system_inv g ms me (telemetry_stop outs s)"
  by (auto simp: telemetry_stop_def own_sender_close_def
      intro: own_sent_inv [OF _ _ sender_pool_flush [OF own_sender_ok]] split: option.split prod.split)

lemma system_step_inv:
  assumes "system_inv g ms me s" and "system_step g op s = Done s'"
  shows "system_inv g ms me s'"
proof (cases op)
  case (Call cop outs)
  from assms(2) Call obtain s0 cp err where s0: "s0 = before_call cop outs s"
    "client_step g cop (Some (sy_client s0)) = Done (cp, err)" and s': "s' = s0\<lparr>sy_client := the cp\<rparr>"
    by (auto elim: system_step_CallE simp del: system_step.simps)
  have "system_inv g ms me s0"
    using assms(1) telemetry_stop_inv by (simp add: s0(1) before_call_def)
  note inv = this [unfolded system_inv_def]
  from s0(2) client_step_activities inv obtain c where c: "cp = Some c" "activities g (sy_client s0) c" by blast
  from activities_inv [OF c(2)] activities_lengths [OF c(2)] inv have "client_inv g ms me c"
    "length (c_inputs c) \<le> length (c_workers c)" by auto
  with own_worker_other inv s' c(1) show ?thesis
    by (auto simp: system_inv_def)
next
  case (OwnTurn out)
  with assms own_turn_inv show ?thesis by auto
next
  case (Tick tr draws)
  with assms telemetry_tick_inv show ?thesis by simp
qed

lemma system_run_inv: "system_run g ops s = Done s' \<Longrightarrow> system_inv g ms me s \<Longrightarrow> system_inv g ms me s'"
  by (induction ops arbitrary: s) (auto elim!: obind_DoneE intro: system_step_inv)

text \<open>Telemetry always returns: its metrics are counts.\<close>

lemma client_send_returns:
  assumes "of_nat (length (c_workers c)) \<noteq> (0 :: u32)" and "not_nil m"
  shows "\<exists>c' err. client_send g draw m c = Done (c', err) \<and> length (c_workers c') = length (c_workers c)"
proof -
  obtain i where i: "workerIndex c (m_name m) = Some i"
    using assms(1) by (auto simp: workerIndex_def Let_def)
  obtain sh w err where r: "processMetric g draw (c_shared c) (c_workers c ! i) m = (sh, w, err)"
    by (metis prod_cases3)
  show ?thesis
    using i r processMetric_not_nil [OF assms(2) r]
    by (auto simp: client_send_def worker_processMetric_def on_worker_def dropOnReceive_def Let_def)
qed

lemma client_sendAll_returns:
  "of_nat (length (c_workers c)) \<noteq> (0 :: u32) \<Longrightarrow> list_all not_nil ms \<Longrightarrow> \<exists>c'. client_sendAll g draws ms c = Done c'"
proof (induction ms arbitrary: draws c)
  case (Cons m ms)
  then obtain c1 err where s: "client_send g (draws 0) m c = Done (c1, err)" "length (c_workers c1) = length (c_workers c)"
    using client_send_returns [of c m g "draws 0"] by auto
  with Cons show ?case by simp
qed simp

lemma telemetry_flush_not_nil: "telemetry_flush tr c t = (t', ms) \<Longrightarrow> list_all not_nil ms"
  by (auto simp: telemetry_flush_def telemetry_metrics_def telemetryCount_def list_all_iff not_nil_def Let_def
      zero_metric_def split: if_splits)

lemma telemetry_tick_returns:
  assumes "of_nat (length (c_workers (sy_client s))) \<noteq> (0 :: u32)"
  shows "\<exists>s'. telemetry_tick g tr draws s = Done s'"
proof -
  obtain t1 ms where f: "telemetry_flush tr (sy_client s) (sy_telemetry s) = (t1, ms)"
    by (cases "telemetry_flush tr (sy_client s) (sy_telemetry s)")
  from client_sendAll_returns [OF assms telemetry_flush_not_nil [OF f], of g draws] f show ?thesis
    by (auto simp: telemetry_tick_def sendTelemetry_def Let_def case_prod_unfold split: option.split)
qed

section \<open>A client with telemetry\<close>

lemma setTags_others [simp]: "tc_worker (setTags tr tags t) = tc_worker t"
  by (simp add: setTags_def Let_def)

lemma newTelemetryClient_fields [simp]:
  "tc_lastSample (newTelemetryClient tr tags ae) = zero_Telemetry" "tc_aggEnabled (newTelemetryClient tr tags ae) = ae"
  "tc_worker (newTelemetryClient tr tags ae) = None"
  by (simp_all add: newTelemetryClient_def)

lemma customAddr_worker:
  assumes "newTelemetryClientWithCustomAddr parse env op tr tags addr ae h p = Some (t, p')" and "wf_pool ms me p"
  shows "tc_lastSample t = zero_Telemetry \<and>
    (\<exists>sh w. tc_worker t = Some (sh, w) \<and> whole_payloads ms me (sh\<lparr>sh_pool := p'\<rparr>) w)"
proof -
  have "has_limits ms me b \<and> whole b" if "fresh_buffer ms me b" for b
    using that whole_fresh [OF that] by (simp add: fresh_buffer_def has_limits_def newStatsdBuffer_def)
  with assms bp.borrow_fresh [OF assms(2)] bp.borrow_ok [OF assms(2)] show ?thesis
    by (auto simp: newTelemetryClientWithCustomAddr_def newWorker_def Let_def case_prod_unfold
        whole_payloads_def sender_pool_ok_def newSender_def split: prod.splits option.splits)
qed

lemma newWithWriter_telemetry:
  assumes "newWithWriter wd pr o0 name tr = (pr', Done (Inr (c, Some t)))"
  shows "tc_lastSample t = zero_Telemetry \<and> (\<exists>ms me. new_client ms me c \<and> own_worker_ok ms me c t)"
proof -
  let ?o = "adaptSizes (name = writerNameUDS) o0"
  let ?ms = "o_maxBytesPerPayload ?o" and ?me = "o_maxMessagesPerPayload ?o"
  have new: "new_client ?ms ?me c"
    using newWithWriter_client [OF assms] by (simp add: fresh_client_def)
  let ?tags = "o_tags o0 @ envTags (getenv wd)"
  have o': "adaptSizes (name = writerNameUDS) o0 = ?o" ..
  obtain p agg sh ws where
    p: "newBufferPool (o_bufferPoolSize ?o) ?ms ?me = Some p" and agg: "startAggregator ?o = Done agg"
    and ws: "newWorkers (nat (o_workersCount ?o))
      \<lparr>sh_pool = p, sh_sender = newSender (nat (o_senderQueueSize ?o)) (o_errorHandler ?o), sh_log = []\<rparr> = (sh, ws)"
    and t: "t = newTelemetryClient tr ?tags (agg \<noteq> None) \<or>
      newTelemetryClientWithCustomAddr (urlParse wd) (getenv wd) (try_open wd) tr ?tags (o_telemetryAddr ?o) (agg \<noteq> None)
        (o_errorHandler ?o) (sh_pool sh) = Some (t, sh_pool (c_shared c))"
    using assms unfolding newWithWriter_def Let_def
    by (auto elim!: obind_DoneE split: option.splits prod.splits if_splits)
  have "wf_pool ?ms ?me (sh_pool sh)"
    using newWorkers_fresh [OF _ ws, of ?ms ?me] newBufferPool_wf [OF p] by simp
  with t customAddr_worker have "tc_lastSample t = zero_Telemetry \<and> own_worker_ok ?ms ?me c t"
    by (force simp: own_worker_ok_def)
  with new show ?thesis by blast
qed

lemma NewEx_telemetry:
  assumes "snd (NewEx wd pr addr opts) = Done (Inr (c, Some t))"
  shows "tc_lastSample t = zero_Telemetry" "\<exists>ms me. new_client ms me c \<and> own_worker_ok ms me c t"
proof -
  obtain pr' o' name tr where "newWithWriter wd pr o' name tr = (pr', Done (Inr (c, Some t)))"
    by (rule NewEx_newWithWriter [OF assms])
  from newWithWriter_telemetry [OF this]
  show "tc_lastSample t = zero_Telemetry" "\<exists>ms me. new_client ms me c \<and> own_worker_ok ms me c t" by auto
qed

lemma start_inv:
  assumes "new_client ms me c" and "own_worker_ok ms me c t"
  shows "system_inv g ms me \<lparr>sy_client = c, sy_telemetry = t, sy_sent = []\<rparr>"
  using new_client_start [OF assms(1)] assms by (auto simp: system_inv_def new_client_def)

section \<open>Properties\<close>

text \<open>The entries of the table that count calls.\<close>

definition call_entries :: "(nat \<times> metricType) list" where
  "call_entries = [(1, gaugeT), (2, countT), (3, histogramT), (4, distributionT), (5, setT), (6, timingT),
     (7, eventT), (8, serviceCheckT)]"

lemma call_entry:
  assumes "(i, ty) \<in> set call_entries"
  shows "i < length (full_table b) \<and> (\<exists>name counter x. full_table b ! i = (name, counter, x)
    \<and> (\<forall>t. counter t = call_counter ty (tlm_client t)))"
  using assms by (auto simp: call_entries_def full_table_def telemetry_table_def call_counter_def)

text \<open>
  C19. What telemetry reports is what the program called: for a client of \<open>NewEx\<close>, after any calls,
  turns of goroutines and turns of telemetry, once telemetry has had its turn the counts it has
  sent for a type of call add up to the number of these calls, modulo 2^64; the metrics that
  telemetry itself sends are not among them.
\<close>

theorem telemetry_reports_calls:
  assumes "snd (NewEx wd pr addr opts) = Done (Inr (c0, Some t0))"
    and "system_run g ops \<lparr>sy_client = c0, sy_telemetry = t0, sy_sent = []\<rparr> = Done s1"
    and "\<not> c_isClosed (sy_client s1)" and "telemetry_tick g transport draws s1 = Done s2"
    and "(i, ty) \<in> set call_entries"
  shows "sum_list (map (\<lambda>ms. m_ivalue (ms ! i)) (sy_sent s2)) = sum_list (map (counts_as ty) (calls_of ops))"
proof -
  let ?b = "tc_aggEnabled t0"
  obtain name counter x where e: "i < length (full_table ?b)" "full_table ?b ! i = (name, counter, x)"
    "\<And>t. counter t = call_counter ty (tlm_client t)"
    using call_entry [OF assms(5)] by blast
  note run = system_sums [OF assms(2) _ e(1,2), simplified]
  note tick = telemetry_tick_sums [OF assms(4) _ e(1,2)]
  have "counter (getTelemetry (Some t) c) = call_counter ty (c_telemetry c)" for t c
    by (simp add: e(3) getTelemetry_def client_flushTelemetryMetrics_def sender_flushTelemetryMetrics_def Let_def)
  then have "counter (tc_lastSample (sy_telemetry s2)) = call_counter ty (c_telemetry (sy_client s1))"
    using tick(3) run assms(3) by simp
  moreover have "counter (tc_lastSample t0) = 0"
    using NewEx_telemetry(1) [OF assms(1)]
    by (simp add: e(3) zero_Telemetry_def zero_statsdTelemetry_def call_counter_def split: metricType.split)
  moreover have "call_counter ty (c_telemetry c0) = 0"
    using NewEx_telemetry(2) [OF assms(1)]
    by (auto simp: new_client_def zero_statsdTelemetry_def call_counter_def split: metricType.split)
  ultimately show ?thesis
    using run tick(2) system_counts [OF assms(2), of ty] by (simp add: reports_def)
qed

definition telemetry_options :: "Option list" where
  "telemetry_options = [WithWorkersCount 1, WithMaxBytesPerPayload 16, WithBufferPoolSize 2, WithSenderQueueSize 4]"

definition telemetry_demo :: telemetryClient where
  "telemetry_demo = newTelemetryClient ''udp'' [] True"

lemma telemetry_made:
  "snd (NewEx demo_world demo_process ''127.0.0.1:8125'' telemetry_options)
    = Done (Inr (demo_client, Some telemetry_demo))"
  by (simp add: NewEx_def resolveAddr_def createWriter_def HasPrefix_def prefix_defs AddressPrefixes_def
    resolveOptions_def telemetry_options_def option_defs newWithWriter_def Let_def adaptSizes_def
    startAggregator_def wantsAggregator_def defaultOptions_def newBufferPool_def size_defs metricSize_def metricOverhead_def
    millisecond_def case_prod_unfold addNewBuffer_pow newWorker_def borrowBuffer_def
    demo_client_def demo_buffer_def newAggregator_def size_defs envTags_def ddEnvTagsMapping_def demo_world_def
    chosenCardinality_def envTagCardinality_def isOriginDetectionEnabled_def demo_cardinality replicate_2
    telemetry_demo_def transportName_def writerNameUDP_def)

text \<open>Two calls of \<open>Incr\<close> and two turns of telemetry.\<close>

definition twice_incr :: "system_op list" where
  "twice_incr = replicate 2 (Call (Incr demo_random (''hit'', (), [''a''], f64_one, [])) (\<lambda>_. None))"

definition telemetry_start :: system where
  "telemetry_start = \<lparr>sy_client = demo_client, sy_telemetry = telemetry_demo, sy_sent = []\<rparr>"

lemma twice_incr_run:
  "\<exists>s. system_run no_globals twice_incr telemetry_start = Done s \<and> length (c_workers (sy_client s)) = 1
    \<and> \<not> c_isClosed (sy_client s) \<and> tc_worker (sy_telemetry s) = None"
  by (simp add: twice_incr_def telemetry_start_def demo_eval replicate_2 telemetry_demo_def)

lemma system_run_append:
  "system_run g (ops @ ops') s = obind (system_run g ops s) (system_run g ops')"
proof (induction ops arbitrary: s)
  case (Cons op ops)
  then show ?case by (cases "system_step g op s") simp_all
qed simp

lemma client_sendAll_closed: "client_sendAll g draws ms c = Done c' \<Longrightarrow> c_isClosed c' = c_isClosed c"
proof (induction ms arbitrary: draws c)
  case (Cons m ms)
  then obtain c1 e where "client_send g (draws 0) m c = Done (c1, e)"
    "client_sendAll g (\<lambda>i. draws (Suc i)) ms c1 = Done c'"
    by (auto elim!: obind_DoneE)
  moreover from this(1) have "c_isClosed c1 = c_isClosed c"
    by (auto simp: client_send_def worker_processMetric_def on_worker_def dropOnReceive_def Let_def
        elim!: obind_DoneE split: option.splits if_splits prod.splits)
  ultimately show ?case
    using Cons.IH by simp
qed simp

lemma tick_alive:
  assumes "telemetry_tick g tr draws s = Done s'" and "tc_worker (sy_telemetry s) = None"
  shows "config (sy_client s') = config (sy_client s)" "c_isClosed (sy_client s') = c_isClosed (sy_client s)"
proof -
  obtain t1 ms where f: "telemetry_flush tr (sy_client s) (sy_telemetry s) = (t1, ms)"
    by (cases "telemetry_flush tr (sy_client s) (sy_telemetry s)")
  have "tc_worker t1 = None"
    using f assms(2) by (auto simp: telemetry_flush_def Let_def split: if_splits)
  with assms f activities_config [OF client_sendAll_facts(1)] client_sendAll_closed
  show "config (sy_client s') = config (sy_client s)" "c_isClosed (sy_client s') = c_isClosed (sy_client s)"
    by (auto simp: telemetry_tick_def sendTelemetry_def elim!: obind_DoneE split: if_splits)
qed

theorem telemetry_reports_calls_witness:
  "\<exists>s1 s2. system_run no_globals (twice_incr @ [Tick ''udp'' (\<lambda>_. 0)]) telemetry_start = Done s1
    \<and> telemetry_tick no_globals ''udp'' (\<lambda>_. 0) s1 = Done s2
    \<and> sum_list (map (\<lambda>ms. m_ivalue (ms ! 2)) (sy_sent s2)) = 2"
proof -
  obtain s where s: "system_run no_globals twice_incr telemetry_start = Done s" "length (c_workers (sy_client s)) = 1"
    "\<not> c_isClosed (sy_client s)" "tc_worker (sy_telemetry s) = None"
    using twice_incr_run by blast
  obtain s1 where s1: "telemetry_tick no_globals ''udp'' (\<lambda>_. 0) s = Done s1"
    using telemetry_tick_returns [of s no_globals "''udp''" "\<lambda>_. 0"] s(2) by auto
  have alive: "\<not> c_isClosed (sy_client s1)" "length (c_workers (sy_client s1)) = 1"
    using tick_alive [OF s1 s(4)] s(2,3) by (simp_all add: config_def)
  obtain s2 where s2: "telemetry_tick no_globals ''udp'' (\<lambda>_. 0) s1 = Done s2"
    using telemetry_tick_returns [of s1 no_globals "''udp''" "\<lambda>_. 0"] alive(2) by auto
  have run: "system_run no_globals (twice_incr @ [Tick ''udp'' (\<lambda>_. 0)]) telemetry_start = Done s1"
    using s(1) s1 by (simp add: system_run_append)
  have "(2, countT) \<in> set call_entries" by (simp add: call_entries_def)
  from telemetry_reports_calls [OF telemetry_made run [unfolded telemetry_start_def] alive(1) s2 this] run s2
  show ?thesis
    by (auto simp: twice_incr_def replicate_2 counts_as_def)
qed

text \<open>
  C13. Telemetry keeps what holds of the client: after any such run the payloads of each worker
  followed by its buffer hold exactly the elements of the metrics it processed, telemetry's among
  them, if no sampling rate was too long; and every payload, also of telemetry's own worker, is a
  sequence of complete elements.
\<close>

theorem streams_with_telemetry:
  assumes "snd (NewEx wd pr addr opts) = Done (Inr (c0, Some t0))"
    and "system_run g ops \<lparr>sy_client = c0, sy_telemetry = t0, sy_sent = []\<rparr> = Done s" and "sy_client s = c"
  shows "\<exists>ms me. new_client ms me c0 \<and> list_all whole (map snd (c_sent c))
    \<and> list_all whole (map w_buffer (c_workers c))
    \<and> (case tc_worker (sy_telemetry s) of None \<Rightarrow> True | Some (sh, w) \<Rightarrow> list_all whole (w_buffer w # sh_log sh))
    \<and> (all_serializable g c \<longrightarrow> (\<forall>i < length (c_workers c).
        \<exists>lss. list_all2 (emits g ms me) (done_of c i) lss \<and> worker_stream c i = frame (concat lss)))"
proof -
  obtain ms me where new: "new_client ms me c0" "own_worker_ok ms me c0 t0"
    using NewEx_telemetry(2) [OF assms(1)] by blast
  from system_run_inv [OF assms(2) start_inv [OF new]] assms(3)
  have inv: "client_inv g ms me c" "own_worker_ok ms me c (sy_telemetry s)"
    by (simp_all add: system_inv_def)
  have "list_all whole (map snd (c_sent c))"
    using inv(1) by (cases "c_workers c"; cases "c_sent c")
      (auto simp: client_inv_def client_ok_def whole_payloads_def list_all_iff)
  moreover have "list_all whole (map w_buffer (c_workers c))"
    using inv(1) by (auto simp: client_inv_def client_ok_def whole_payloads_def list_all_iff)
  moreover have "case tc_worker (sy_telemetry s) of None \<Rightarrow> True
      | Some (sh, w) \<Rightarrow> list_all whole (w_buffer w # sh_log sh)"
    using inv(2) by (auto simp: own_worker_ok_def whole_payloads_def split: option.splits)
  moreover have "all_serializable g c \<longrightarrow> (\<forall>i < length (c_workers c).
      \<exists>lss. list_all2 (emits g ms me) (done_of c i) lss \<and> worker_stream c i = frame (concat lss))"
    using inv(1) by (simp add: client_inv_def wrote_def)
  ultimately show ?thesis
    using new(1) by blast
qed

theorem streams_with_telemetry_witness:
  "\<exists>s. system_run no_globals (twice_incr @ [Tick ''udp'' (\<lambda>_. 0)]) telemetry_start = Done s
    \<and> list_all whole (map snd (c_sent (sy_client s)))"
proof -
  obtain s where s: "system_run no_globals twice_incr telemetry_start = Done s" "length (c_workers (sy_client s)) = 1"
    using twice_incr_run by blast
  obtain s1 where "telemetry_tick no_globals ''udp'' (\<lambda>_. 0) s = Done s1"
    using telemetry_tick_returns [of s no_globals "''udp''" "\<lambda>_. 0"] s(2) by auto
  with s(1) have run: "system_run no_globals (twice_incr @ [Tick ''udp'' (\<lambda>_. 0)]) telemetry_start = Done s1"
    by (simp add: system_run_append)
  from streams_with_telemetry [OF telemetry_made run [unfolded telemetry_start_def] refl] run show ?thesis by blast
qed

end
