(* ===== verification/Tag_Slices.thy ===== *)
theory Tag_Slices
  imports Telemetry NewClient
begin

text \<open>
  The tags of a client as Go has them: slices of arrays that others may share.  \<open>newWithWriter\<close> appends
  the tags of the environment to the slice of the caller, and \<open>setTags\<close> (\<open>src/statsd/telemetry.go\<close>) appends
  its own to that of the client.  The lists of \<open>NewClient\<close> and \<open>Telemetry\<close> are what the slices read; they
  stay so as long as no slice is shared that has spare capacity.
\<close>

section \<open>Slices\<close>

text \<open>The heap holds arrays of strings; a nil slice has the capacity 0.\<close>

type_synonym heap = "bytes list list"

record slice =
  sl_array :: nat
  sl_from :: nat
  sl_len :: nat
  sl_cap :: nat

definition sl_read :: "heap \<Rightarrow> slice \<Rightarrow> bytes list" where
  "sl_read h s = take (sl_len s) (drop (sl_from s) (if sl_cap s = 0 then [] else h ! sl_array s))"

definition wf_slice :: "heap \<Rightarrow> slice \<Rightarrow> bool" where
  "wf_slice h s \<longleftrightarrow> sl_len s \<le> sl_cap s
     \<and> (sl_cap s \<noteq> 0 \<longrightarrow> sl_array s < length h \<and> sl_from s + sl_cap s \<le> length (h ! sl_array s))"

text \<open>\<open>n\<close> cells of an array, from \<open>i\<close> on, are written.\<close>

definition write_cells :: "nat \<Rightarrow> 'a list \<Rightarrow> 'a list \<Rightarrow> 'a list" where
  "write_cells i xs a = take i a @ xs @ drop (i + length xs) a"

text \<open>
  \<open>append\<close>: in place if the capacity allows it, else into a new array, with \<open>grow old needed\<close> cells to
  spare, as the runtime chooses.
\<close>

definition go_append :: "(nat \<Rightarrow> nat \<Rightarrow> nat) \<Rightarrow> bytes list \<Rightarrow> heap \<times> slice \<Rightarrow> heap \<times> slice" where
  "go_append grow xs = (\<lambda>(h, s).
     let n = sl_len s + length xs in
     if n \<le> sl_cap s
     then (if xs = [] then h
           else h[sl_array s := write_cells (sl_from s + sl_len s) xs (h ! sl_array s)], s\<lparr>sl_len := n\<rparr>)
     else let spare = grow (sl_cap s) n in
       (h @ [sl_read h s @ xs @ replicate spare []],
        \<lparr>sl_array = length h, sl_from = 0, sl_len = n, sl_cap = n + spare\<rparr>))"

lemma length_write_cells: "i + length xs \<le> length a \<Longrightarrow> length (write_cells i xs a) = length a"
  by (simp add: write_cells_def)

lemma read_before_write:
  assumes "i + n \<le> j" and "j + length xs \<le> length a"
  shows "take n (drop i (write_cells j xs a)) = take n (drop i a)"
  by (rule nth_equalityI) (use assms in \<open>simp_all add: write_cells_def nth_append\<close>)

lemma read_after_write:
  assumes "i + n + length xs \<le> length a"
  shows "take (n + length xs) (drop i (write_cells (i + n) xs a)) = take n (drop i a) @ xs"
  by (rule nth_equalityI) (use assms in \<open>auto simp: write_cells_def nth_append\<close>)

lemma length_sl_read: "wf_slice h s \<Longrightarrow> length (sl_read h s) = sl_len s"
  by (auto simp: sl_read_def wf_slice_def)

text \<open>The two cases of \<open>append\<close>.\<close>

lemma go_append_cases:
  assumes "go_append grow xs (h, s) = (h', s')" and "wf_slice h s" and "xs \<noteq> []"
  obtains (in_place) a where "a = h ! sl_array s" "sl_array s < length h" "sl_cap s \<noteq> 0"
      "sl_from s + sl_len s + length xs \<le> sl_from s + sl_cap s" "sl_from s + sl_cap s \<le> length a"
      "h' = h[sl_array s := write_cells (sl_from s + sl_len s) xs a]"
      "s' = s\<lparr>sl_len := sl_len s + length xs\<rparr>"
  | (fresh) spare where "h' = h @ [sl_read h s @ xs @ replicate spare []]"
      "s' = \<lparr>sl_array = length h, sl_from = 0, sl_len = sl_len s + length xs, sl_cap = sl_len s + length xs + spare\<rparr>"
proof (cases "sl_len s + length xs \<le> sl_cap s")
  case True
  moreover from True assms(3) have "sl_cap s \<noteq> 0" by (cases xs) auto
  ultimately show thesis
    using assms in_place [of "h ! sl_array s"] by (simp add: go_append_def wf_slice_def Let_def)
next
  case False
  with assms(1) fresh [of "grow (sl_cap s) (sl_len s + length xs)"] show thesis
    by (simp add: go_append_def Let_def)
qed

lemma go_append_Nil: "wf_slice h s \<Longrightarrow> go_append grow [] (h, s) = (h, s)"
  by (simp add: go_append_def wf_slice_def)

lemma go_append_read:
  assumes "wf_slice h s" and "go_append grow xs (h, s) = (h', s')"
  shows "wf_slice h' s' \<and> sl_read h' s' = sl_read h s @ xs"
proof (cases "xs = []")
  case True
  with assms show ?thesis by (simp add: go_append_Nil)
next
  case False
  from assms(2,1) False show ?thesis
  proof (cases rule: go_append_cases)
    case (in_place a)
    then show ?thesis
      using read_after_write [of "sl_from s" "sl_len s" xs a]
      by (simp add: wf_slice_def sl_read_def length_write_cells)
  next
    case (fresh spare)
    then show ?thesis
      using length_sl_read [OF assms(1)] False by (simp add: wf_slice_def) (simp add: sl_read_def)
  qed
qed

text \<open>Other slices read the same, unless they reach into the spare cells of this one.\<close>

definition apart :: "slice \<Rightarrow> slice \<Rightarrow> bool" where
  "apart s t \<longleftrightarrow> sl_array t \<noteq> sl_array s \<or> sl_len s = sl_cap s \<or> sl_len t = 0
     \<or> sl_from t + sl_len t \<le> sl_from s + sl_len s"

lemma go_append_others:
  assumes "wf_slice h s" and "wf_slice h t" and "go_append grow xs (h, s) = (h', s')" and "apart s t"
  shows "wf_slice h' t \<and> sl_read h' t = sl_read h t"
proof (cases "xs = []")
  case True
  with assms show ?thesis by (simp add: go_append_Nil)
next
  case False
  from assms(3,1) False show ?thesis
  proof (cases rule: go_append_cases)
    case (in_place a)
    with assms(2,4) False show ?thesis
      using read_before_write [of "sl_from t" "sl_len t" "sl_from s + sl_len s" xs a]
      by (cases "sl_array t = sl_array s") (auto simp: wf_slice_def sl_read_def length_write_cells apart_def)
  next
    case (fresh spare)
    with assms(2) show ?thesis
      by (auto simp: wf_slice_def sl_read_def nth_append)
  qed
qed

section \<open>The tags of a client\<close>

text \<open>\<open>newWithWriter\<close> appends the tags of the environment one by one to the slice of the options.\<close>

definition injectTags :: "(nat \<Rightarrow> nat \<Rightarrow> nat) \<Rightarrow> environ \<Rightarrow> heap \<times> slice \<Rightarrow> heap \<times> slice" where
  "injectTags grow env = fold (\<lambda>t. go_append grow [t]) (envTags env)"

text \<open>The tags of telemetry: one \<open>append\<close> to the client's slice, and another one to the result.\<close>

definition tagsOf :: "bytes \<Rightarrow> bytes list" where
  "tagsOf transport = [clientTelemetryTag, clientVersionTelemetryTag]
     @ (if transport \<noteq> '''' then [''client_transport:'' @ transport] else [])"

definition appendTelemetryTags :: "(nat \<Rightarrow> nat \<Rightarrow> nat) \<Rightarrow> bytes \<Rightarrow> heap \<times> slice \<Rightarrow> heap \<times> slice" where
  "appendTelemetryTags grow transport hs =
     (let hs = go_append grow [clientTelemetryTag, clientVersionTelemetryTag] hs in
      if transport \<noteq> '''' then go_append grow [''client_transport:'' @ transport] hs else hs)"

text \<open>Telemetry with the slice of its tags; those by type are copies that nothing else holds.\<close>

record tag_client =
  tg_tags :: slice
  tg_client :: telemetryClient

definition tg_view :: "heap \<Rightarrow> tag_client \<Rightarrow> telemetryClient" where
  "tg_view h t = (tg_client t)\<lparr>tc_tags := sl_read h (tg_tags t)\<rparr>"

definition sl_setTags ::
  "(nat \<Rightarrow> nat \<Rightarrow> nat) \<Rightarrow> bytes \<Rightarrow> slice \<Rightarrow> heap \<times> tag_client \<Rightarrow> heap \<times> tag_client" where
  "sl_setTags grow transport clientTags = (\<lambda>(h, t).
     let needsRefresh = (sl_len (tg_tags t) = sl_len clientTags \<or> tc_transport (tg_client t) \<noteq> transport) in
     if \<not> needsRefresh then (h, t)
     else
       let (h, s) = appendTelemetryTags grow transport (h, clientTags) in
       (h, t\<lparr>tg_tags := s, tg_client := (tg_client t)\<lparr>tc_transport := transport,
             tc_tagsByType := (\<lambda>ty. case type_tag ty of
               None \<Rightarrow> tc_tagsByType (tg_client t) ty
             | Some tag \<Rightarrow> sl_read h s @ [tag])\<rparr>\<rparr>))"

text \<open>Several appends, one after the other.\<close>

fun go_appends :: "(nat \<Rightarrow> nat \<Rightarrow> nat) \<Rightarrow> bytes list list \<Rightarrow> heap \<times> slice \<Rightarrow> heap \<times> slice" where
  "go_appends grow [] hs = hs"
| "go_appends grow (xs # xss) hs = go_appends grow xss (go_append grow xs hs)"

lemma as_appends:
  "injectTags grow env hs = go_appends grow (map (\<lambda>t. [t]) (envTags env)) hs"
  "appendTelemetryTags grow tr hs = go_appends grow
     ([[clientTelemetryTag, clientVersionTelemetryTag]] @ (if tr \<noteq> '''' then [[''client_transport:'' @ tr]] else [])) hs"
proof -
  have "fold (\<lambda>t. go_append grow [t]) ts hs = go_appends grow (map (\<lambda>t. [t]) ts) hs" for ts
    by (induction ts arbitrary: hs) simp_all
  then show "injectTags grow env hs = go_appends grow (map (\<lambda>t. [t]) (envTags env)) hs"
    by (simp add: injectTags_def)
qed (simp add: appendTelemetryTags_def)

lemma go_appends_read:
  "wf_slice h s \<Longrightarrow> go_appends grow xss (h, s) = (h', s') \<Longrightarrow>
   wf_slice h' s' \<and> sl_read h' s' = sl_read h s @ concat xss"
proof (induction xss arbitrary: h s)
  case (Cons xs xss)
  obtain h1 s1 where a: "go_append grow xs (h, s) = (h1, s1)"
    by (cases "go_append grow xs (h, s)")
  note r = go_append_read [OF Cons.prems(1) a]
  from Cons.IH [of h1 s1] Cons.prems(2) a r show ?case by simp
qed simp

lemma go_append_apart:
  assumes "go_append grow xs (h, s) = (h', s')" and "wf_slice h s" and "wf_slice h t" and "apart s t"
  shows "apart s' t"
proof (cases "xs = []")
  case True
  with assms show ?thesis by (simp add: go_append_Nil)
next
  case False
  from assms(1,2) False show ?thesis
  proof (cases rule: go_append_cases)
    case (in_place a)
    with assms(4) False show ?thesis by (auto simp: apart_def)
  next
    case (fresh spare)
    with assms(3) show ?thesis by (cases "sl_cap t = 0") (auto simp: apart_def wf_slice_def)
  qed
qed

text \<open>A slice that is apart from the one that grows keeps what it reads.\<close>

lemma go_appends_others:
  "wf_slice h s \<Longrightarrow> wf_slice h t \<Longrightarrow> apart s t \<Longrightarrow> go_appends grow xss (h, s) = (h', s') \<Longrightarrow>
   wf_slice h' t \<and> sl_read h' t = sl_read h t"
proof (induction xss arbitrary: h s)
  case (Cons xs xss)
  obtain h1 s1 where a: "go_append grow xs (h, s) = (h1, s1)"
    by (cases "go_append grow xs (h, s)")
  note o1 = go_append_others [OF Cons.prems(1,2) a Cons.prems(3)]
    go_append_apart [OF a Cons.prems(1-3)] go_append_read [OF Cons.prems(1) a]
  from Cons.IH [of h1 s1] Cons.prems(4) a o1 show ?case by simp
qed simp

text \<open>
  The refinement: whatever the sharing, right after \<open>setTags\<close> the slices read what the lists of
  \<open>Telemetry.setTags\<close> say.
\<close>

lemma sl_setTags_refines:
  assumes "wf_slice h ctags" and "wf_slice h (tg_tags t)"
    and "sl_setTags grow transport ctags (h, t) = (h', t')"
  shows "tg_view h' t' = setTags transport (sl_read h ctags) (tg_view h t) \<and> wf_slice h' (tg_tags t')"
proof -
  note len = length_sl_read [OF assms(1)] length_sl_read [OF assms(2)]
  obtain h1 s where a: "appendTelemetryTags grow transport (h, ctags) = (h1, s)"
    by (cases "appendTelemetryTags grow transport (h, ctags)")
  have r: "wf_slice h1 s" "sl_read h1 s = sl_read h ctags @ tagsOf transport"
    using go_appends_read [OF assms(1) a [unfolded as_appends]] by (simp_all add: tagsOf_def)
  have v: "tc_tags (tg_view h t) = sl_read h (tg_tags t)" "tc_transport (tg_view h t) = tc_transport (tg_client t)"
    "tc_tagsByType (tg_view h t) = tc_tagsByType (tg_client t)"
    by (simp_all add: tg_view_def)
  show ?thesis
  proof (cases "sl_len (tg_tags t) = sl_len ctags \<or> tc_transport (tg_client t) \<noteq> transport")
    case True
    with assms(3) a have t': "h' = h1" "tg_tags t' = s"
      "tg_client t' = (tg_client t)\<lparr>tc_transport := transport,
         tc_tagsByType := (\<lambda>ty. case type_tag ty of None \<Rightarrow> tc_tagsByType (tg_client t) ty
           | Some tag \<Rightarrow> sl_read h1 s @ [tag])\<rparr>"
      by (auto simp: sl_setTags_def)
    have "setTags transport (sl_read h ctags) (tg_view h t) = (tg_view h t)\<lparr>tc_transport := transport,
       tc_tags := sl_read h ctags @ tagsOf transport, tc_tagsByType := (\<lambda>ty. case type_tag ty of
         None \<Rightarrow> tc_tagsByType (tg_client t) ty | Some tag \<Rightarrow> (sl_read h ctags @ tagsOf transport) @ [tag])\<rparr>"
      using True len by (simp add: setTags_def v tagsOf_def Let_def cong: option.case_cong)
    with r t' show ?thesis
      by (simp add: tg_view_def cong: option.case_cong)
  next
    case False
    with assms len show ?thesis
      by (simp add: sl_setTags_def setTags_def v) (simp add: tg_view_def)
  qed
qed

lemma sl_setTags_others:
  assumes "wf_slice h ctags" and "wf_slice h s" and "apart ctags s"
    and "sl_setTags grow transport ctags (h, t) = (h', t')"
  shows "wf_slice h' s \<and> sl_read h' s = sl_read h s"
proof -
  obtain h1 s1 where a: "appendTelemetryTags grow transport (h, ctags) = (h1, s1)"
    by (cases "appendTelemetryTags grow transport (h, ctags)")
  from go_appends_others [OF assms(1-3) a [unfolded as_appends]] assms(2,4) a show ?thesis
    by (auto simp: sl_setTags_def split: if_splits)
qed

section \<open>Clients that share a slice\<close>

text \<open>Telemetry of a client with the tags \<open>ctags\<close>, as \<open>newTelemetryClient\<close> makes it.\<close>

definition no_tags :: tag_client where
  "no_tags = \<lparr>tg_tags = \<lparr>sl_array = 0, sl_from = 0, sl_len = 0, sl_cap = 0\<rparr>,
     tg_client = \<lparr>tc_aggEnabled = False, tc_transport = '''', tc_tags = [],
       tc_tagsByType = (\<lambda>_. []), tc_worker = None, tc_lastSample = zero_Telemetry\<rparr>\<rparr>"

definition sl_newTelemetryClient ::
  "(nat \<Rightarrow> nat \<Rightarrow> nat) \<Rightarrow> bytes \<Rightarrow> slice \<Rightarrow> bool \<Rightarrow> heap \<Rightarrow> heap \<times> tag_client" where
  "sl_newTelemetryClient grow transport ctags agg h =
     sl_setTags grow transport ctags
       (h, no_tags\<lparr>tg_client := (tg_client no_tags)\<lparr>tc_aggEnabled := agg\<rparr>\<rparr>)"

lemma sl_newTelemetryClient_refines:
  assumes "wf_slice h ctags" and "sl_newTelemetryClient grow transport ctags agg h = (h', t)"
  shows "tg_view h' t = newTelemetryClient transport (sl_read h ctags) agg \<and> wf_slice h' (tg_tags t)"
proof -
  let ?t = "no_tags\<lparr>tg_client := (tg_client no_tags)\<lparr>tc_aggEnabled := agg\<rparr>\<rparr>"
  have "wf_slice h (tg_tags ?t)" "tg_view h ?t = \<lparr>tc_aggEnabled = agg, tc_transport = '''', tc_tags = [],
      tc_tagsByType = (\<lambda>_. []), tc_worker = None, tc_lastSample = zero_Telemetry\<rparr>"
    by (simp_all add: no_tags_def wf_slice_def tg_view_def sl_read_def)
  with sl_setTags_refines [OF assms(1), of ?t] assms(2) show ?thesis
    by (simp add: sl_newTelemetryClient_def newTelemetryClient_def)
qed

lemma go_appends_in_place:
  "go_appends grow xss (h, s) = (h', s') \<Longrightarrow> sl_len s + length (concat xss) \<le> sl_cap s \<Longrightarrow>
   s' = s\<lparr>sl_len := sl_len s + length (concat xss)\<rparr>"
proof (induction xss arbitrary: h s)
  case (Cons xs xss)
  obtain h1 s1 where a: "go_append grow xs (h, s) = (h1, s1)"
    by (cases "go_append grow xs (h, s)")
  with Cons.prems(2) have "s1 = s\<lparr>sl_len := sl_len s + length xs\<rparr>"
    by (simp add: go_append_def Let_def)
  with Cons.IH [of h1 s1] Cons.prems a show ?case
    by (simp add: add.assoc)
qed simp

lemma sl_newTelemetryClient_in_place:
  assumes "sl_newTelemetryClient grow transport ctags agg h = (h', t)" and "transport \<noteq> ''''"
    and "sl_len ctags + 3 \<le> sl_cap ctags"
  shows "tg_tags t = ctags\<lparr>sl_len := sl_len ctags + 3\<rparr>" and "tc_transport (tg_client t) = transport"
proof -
  obtain h1 s where a: "appendTelemetryTags grow transport (h, ctags) = (h1, s)"
    by (cases "appendTelemetryTags grow transport (h, ctags)")
  have "s = ctags\<lparr>sl_len := sl_len ctags + 3\<rparr>"
    using go_appends_in_place [OF a [unfolded as_appends]] assms(2,3) by simp
  with a assms(1,2) show "tg_tags t = ctags\<lparr>sl_len := sl_len ctags + 3\<rparr>" "tc_transport (tg_client t) = transport"
    by (auto simp: sl_newTelemetryClient_def sl_setTags_def no_tags_def)
qed

text \<open>
  Two clients whose tags are one slice with room for three more: the second one writes its tags over
  those of the first, whose telemetry then reports the transport of the second; and it stays so, as
  \<open>setTags\<close> sees no reason to refresh.
\<close>

theorem shared_tags_overwritten:
  assumes "wf_slice h ctags" and "sl_len ctags + 3 \<le> sl_cap ctags" and "tr1 \<noteq> ''''" and "tr2 \<noteq> ''''"
    and "sl_newTelemetryClient grow tr1 ctags agg1 h = (h1, t1)"
    and "sl_newTelemetryClient grow tr2 ctags agg2 h1 = (h2, t2)"
  shows "tc_tags (tg_view h1 t1) = sl_read h ctags @ tagsOf tr1
    \<and> tc_tags (tg_view h2 t1) = sl_read h ctags @ tagsOf tr2
    \<and> tc_transport (tg_view h2 t1) = tr1
    \<and> sl_setTags grow tr1 ctags (h2, t1) = (h2, t1)"
proof -
  let ?new = "\<lambda>h tr agg. sl_newTelemetryClient grow tr ctags agg h"
  have tags: "tc_tags (newTelemetryClient tr l agg) = l @ tagsOf tr" if "tr \<noteq> ''''" for tr l agg
    using that by (simp add: newTelemetryClient_def setTags_def tagsOf_def Let_def)
  note in1 = sl_newTelemetryClient_in_place [OF assms(5,3,2)]
  note in2 = sl_newTelemetryClient_in_place [OF assms(6,4,2)]
  have keeps: "wf_slice h1 ctags \<and> sl_read h1 ctags = sl_read h ctags"
    using sl_setTags_others [OF assms(1,1), of grow tr1] assms(5)
    by (simp add: sl_newTelemetryClient_def apart_def)
  have v1: "tg_view h1 t1 = newTelemetryClient tr1 (sl_read h ctags) agg1"
    using sl_newTelemetryClient_refines [OF assms(1,5)] by simp
  have v2: "tg_view h2 t2 = newTelemetryClient tr2 (sl_read h ctags) agg2"
    using sl_newTelemetryClient_refines [OF _ assms(6)] keeps by simp
  have "tc_tags (tg_view h2 t1) = tc_tags (tg_view h2 t2)"
    by (simp add: tg_view_def in1 in2)
  then show ?thesis
    using in1 v1 v2 tags [OF assms(3)] tags [OF assms(4)] by (simp add: sl_setTags_def) (simp add: tg_view_def in1)
qed

text \<open>Without spare capacity, or with slices that are apart, telemetry of one client leaves the other's alone.\<close>

theorem telemetry_tags_apart:
  assumes "wf_slice h ctags" and "wf_slice h (tg_tags t1)" and "apart ctags (tg_tags t1)"
    and "sl_setTags grow tr ctags (h, t) = (h', t')"
  shows "tg_view h' t1 = tg_view h t1"
  using sl_setTags_others [OF assms] by (simp add: tg_view_def)

text \<open>
  A caller that passes the first \<open>k\<close> tags of a longer slice finds the next one overwritten by a tag
  of the environment.
\<close>

theorem callers_tag_overwritten:
  assumes "wf_slice h s" and "k < sl_len s" and "envTags env = e # es"
    and "injectTags grow env (h, s\<lparr>sl_len := k\<rparr>) = (h', s')"
  shows "sl_read h' s ! k = e"
proof -
  let ?s = "s\<lparr>sl_len := k + 1\<rparr>"
  obtain h1 s1 where a: "go_append grow [e] (h, s\<lparr>sl_len := k\<rparr>) = (h1, s1)"
    by (cases "go_append grow [e] (h, s\<lparr>sl_len := k\<rparr>)")
  have wf: "wf_slice h (s\<lparr>sl_len := k\<rparr>)"
    using assms(1,2) by (auto simp: wf_slice_def)
  have s1: "s1 = ?s"
    using a assms(1,2) by (auto simp: go_append_def wf_slice_def Let_def)
  note r1 = go_append_read [OF wf a, unfolded s1]
  have "go_appends grow (map (\<lambda>t. [t]) es) (h1, ?s) = (h', s')"
    using assms(3,4) a s1 by (simp add: as_appends)
  from go_appends_others [OF _ _ _ this, of ?s] r1 have "sl_read h' ?s = sl_read h (s\<lparr>sl_len := k\<rparr>) @ [e]"
    by (simp add: apart_def)
  moreover have "length (sl_read h (s\<lparr>sl_len := k\<rparr>)) = k"
    using length_sl_read [OF wf] by simp
  ultimately have "sl_read h' ?s ! k = e"
    by (simp add: nth_append)
  moreover have "sl_read h' ?s = take (k + 1) (sl_read h' s)"
    using assms(2) by (simp add: sl_read_def min_def)
  ultimately show ?thesis by simp
qed

text \<open>The caller's slice has one tag and room for three: the telemetry of a UDP client reports \<open>uds\<close>.\<close>

lemma shared_tags_example:
  "case sl_newTelemetryClient (\<lambda>_ _. 0) ''udp'' \<lparr>sl_array = 0, sl_from = 0, sl_len = 1, sl_cap = 4\<rparr> True
      [[''env:x'', '''', '''', '''']] of (h1, t1) \<Rightarrow>
   case sl_newTelemetryClient (\<lambda>_ _. 0) ''uds'' \<lparr>sl_array = 0, sl_from = 0, sl_len = 1, sl_cap = 4\<rparr> True h1 of (h2, t2) \<Rightarrow>
     tc_transport (tg_view h2 t1) = ''udp''
     \<and> tc_tags (tg_view h2 t1) = [''env:x'', clientTelemetryTag, clientVersionTelemetryTag, ''client_transport:uds'']"
  by (simp add: sl_newTelemetryClient_def sl_setTags_def no_tags_def appendTelemetryTags_def go_append_def
      write_cells_def tg_view_def sl_read_def Let_def)

end
